(* ===== verification/Prelude.thy ===== *)
theory Prelude
  imports Main "HOL-Library.Word"
begin

text \<open>
  The vocabulary every component shares: Go's byte slices and strings, its signed 64-bit
  integers, the error monad, the parts of the packages \<^verbatim>\<open>bytes\<close>, \<^verbatim>\<open>strings\<close> and
  \<^verbatim>\<open>time\<close> the sources call, and the generic lemmas about them.

  A byte slice and a string are lists of 8-bit characters. A call that may return a Go error
  has the type \<open>'e + 'a\<close> (\<^const>\<open>Inl\<close> the error). A call that may panic has an option
  type around its result, with \<^const>\<open>None\<close> for the panic.
\<close>

section \<open>Collections of facts\<close>

named_theorems go_defs \<open>definitions of the small Go library functions\<close>
named_theorems go_inv \<open>preservation of a component's invariant\<close>

section \<open>Types\<close>

type_synonym bytes = string

text \<open>An IEEE number is its bit pattern.\<close>

type_synonym float32 = "32 word"
type_synonym float64 = "64 word"

text \<open>A rune is a Unicode code point.\<close>

type_synonym rune = nat

section \<open>Errors\<close>

text \<open>\<^verbatim>\<open>if err != nil { return err }\<close>\<close>

definition rbind :: "'e + 'a \<Rightarrow> ('a \<Rightarrow> 'e + 'b) \<Rightarrow> 'e + 'b" where
  "rbind r f = (case r of Inl e \<Rightarrow> Inl e | Inr a \<Rightarrow> f a)"

definition rmap_err :: "('e \<Rightarrow> 'f) \<Rightarrow> 'e + 'a \<Rightarrow> 'f + 'a" where
  "rmap_err g r = (case r of Inl e \<Rightarrow> Inl (g e) | Inr a \<Rightarrow> Inr a)"

lemma rbind_simps [simp]:
  "rbind (Inl e) f = Inl e"
  "rbind (Inr a) f = f a"
  by (simp_all add: rbind_def)

lemma rmap_err_simps [simp]:
  "rmap_err g (Inl e) = Inl (g e)"
  "rmap_err g (Inr a) = Inr a"
  by (simp_all add: rmap_err_def)

lemma rbind_eq_Inr: "rbind r f = Inr b \<longleftrightarrow> (\<exists>a. r = Inr a \<and> f a = Inr b)"
  by (cases r) auto

lemma rbind_eq_Inl: "rbind r f = Inl e \<longleftrightarrow> r = Inl e \<or> (\<exists>a. r = Inr a \<and> f a = Inl e)"
  by (cases r) auto

lemma rmap_err_eq_Inr [simp]: "rmap_err g r = Inr a \<longleftrightarrow> r = Inr a"
  by (cases r) auto

lemma rmap_err_eq_Inl: "rmap_err g r = Inl e \<longleftrightarrow> (\<exists>e'. r = Inl e' \<and> e = g e')"
  by (cases r) auto

definition isOk :: "'e + 'a \<Rightarrow> bool" where
  "isOk r = (case r of Inl _ \<Rightarrow> False | Inr _ \<Rightarrow> True)"

lemma isOk_simps [simp]: "\<not> isOk (Inl e)" "isOk (Inr a)"
  by (simp_all add: isOk_def)

lemma isOk_iff: "isOk r \<longleftrightarrow> (\<exists>a. r = Inr a)"
  by (cases r) auto

section \<open>Signed 64-bit integers\<close>

text \<open>
  An \<^verbatim>\<open>int64\<close> is an \<^typ>\<open>int\<close> in range; every operation that can leave the range
  wraps around.
\<close>

definition minInt64 :: int where "minInt64 = - (2 ^ 63)"
definition maxInt64 :: int where "maxInt64 = 2 ^ 63 - 1"

definition in64 :: "int \<Rightarrow> bool" where
  "in64 n \<longleftrightarrow> minInt64 \<le> n \<and> n \<le> maxInt64"

definition wrap64 :: "int \<Rightarrow> int" where
  "wrap64 n = (n + 2 ^ 63) mod 2 ^ 64 - 2 ^ 63"

lemma in64_iff: "in64 n \<longleftrightarrow> - 9223372036854775808 \<le> n \<and> n \<le> 9223372036854775807"
  by (simp add: in64_def minInt64_def maxInt64_def)

lemma in64_wrap64 [simp, intro]: "in64 (wrap64 n)"
  by (simp add: in64_iff wrap64_def)

lemma wrap64_id [simp]: "in64 n \<Longrightarrow> wrap64 n = n"
  by (simp add: in64_iff wrap64_def)

lemma wrap64_idem [simp]: "wrap64 (wrap64 n) = wrap64 n"
  by simp

lemma wrap64_cong_mod: "a mod 2 ^ 64 = b mod 2 ^ 64 \<Longrightarrow> wrap64 a = wrap64 b"
  unfolding wrap64_def by (metis mod_add_left_eq)

lemma wrap64_mod: "wrap64 a mod 2 ^ 64 = a mod 2 ^ 64"
  unfolding wrap64_def by (simp add: mod_diff_left_eq)

lemma wrap64_add_left [simp]: "wrap64 (wrap64 a + b) = wrap64 (a + b)"
  by (rule wrap64_cong_mod) (metis mod_add_left_eq wrap64_mod)

lemma wrap64_add_right [simp]: "wrap64 (a + wrap64 b) = wrap64 (a + b)"
  by (metis add.commute wrap64_add_left)

lemma wrap64_mult_left [simp]: "wrap64 (wrap64 a * b) = wrap64 (a * b)"
  by (rule wrap64_cong_mod) (metis mod_mult_left_eq wrap64_mod)

lemma wrap64_mult_right [simp]: "wrap64 (a * wrap64 b) = wrap64 (a * b)"
  by (metis mult.commute wrap64_mult_left)

lemma wrap64_minus [simp]: "wrap64 (- wrap64 a) = wrap64 (- a)"
  using wrap64_mult_left [of a "-1"] by simp

text \<open>Go's \<^verbatim>\<open>/\<close> and \<^verbatim>\<open>%\<close> truncate towards zero.\<close>

definition tdiv :: "int \<Rightarrow> int \<Rightarrow> int" where
  "tdiv a b = sgn a * sgn b * (\<bar>a\<bar> div \<bar>b\<bar>)"

definition tmod :: "int \<Rightarrow> int \<Rightarrow> int" where
  "tmod a b = a - b * tdiv a b"

lemma tdiv_nonneg: "0 \<le> a \<Longrightarrow> 0 < b \<Longrightarrow> tdiv a b = a div b"
  by (cases "a = 0") (auto simp: tdiv_def sgn_if)

lemma tmod_nonneg: "0 \<le> a \<Longrightarrow> 0 < b \<Longrightarrow> tmod a b = a mod b"
  by (simp add: tmod_def tdiv_nonneg minus_mult_div_eq_mod)

lemma tdiv_mult_self [simp]: "0 < b \<Longrightarrow> tdiv (a * b) b = a"
  by (simp add: tdiv_def abs_mult sgn_mult) (simp add: sgn_mult_abs)

lemma tdiv_neg: "a < 0 \<Longrightarrow> 0 < b \<Longrightarrow> tdiv a b = - ((- a) div b)"
  by (simp add: tdiv_def)

lemma div_range_int: "0 \<le> a \<Longrightarrow> 0 < b \<Longrightarrow> 0 \<le> a div b \<and> a div b \<le> (a :: int)"
  using zdiv_mono2 [of a 1 b] by (simp add: pos_imp_zdiv_nonneg_iff)

lemma in64_tdiv: "in64 a \<Longrightarrow> 0 < b \<Longrightarrow> in64 (tdiv a b)"
  using div_range_int [of a b] div_range_int [of "- a" b]
  by (cases "a < 0") (auto simp: tdiv_nonneg tdiv_neg in64_iff)

section \<open>Byte slices\<close>

text \<open>The numeric value of a byte and the byte of a number (a conversion keeps the low 8 bits).\<close>

definition ord :: "char \<Rightarrow> nat" where "ord c = of_char c"
definition chr :: "int \<Rightarrow> char" where "chr n = char_of (nat (n mod 256))"

lemma ord_less [simp]: "ord c < 256"
  by (simp add: ord_def)

lemma ord_chr: "0 \<le> n \<Longrightarrow> n < 256 \<Longrightarrow> ord (chr n) = nat n"
  by (simp add: ord_def chr_def)

lemma chr_ord [simp]: "chr (int (ord c)) = c"
  by (simp add: ord_def chr_def)

lemma ord_inj [simp]: "ord c = ord d \<longleftrightarrow> c = d"
  by (simp add: ord_def)

definition is_digit :: "char \<Rightarrow> bool" where
  "is_digit c \<longleftrightarrow> 48 \<le> ord c \<and> ord c \<le> 57"

text \<open>\<^verbatim>\<open>int64(c - byte('0'))\<close>\<close>

definition digit_val :: "char \<Rightarrow> int" where
  "digit_val c = int (ord c) - 48"

text \<open>\<^verbatim>\<open>bytes.IndexByte\<close>: \<^const>\<open>None\<close> stands for \<open>-1\<close>.\<close>

fun index_byte :: "bytes \<Rightarrow> char \<Rightarrow> nat option" where
  "index_byte [] c = None"
| "index_byte (x # xs) c = (if x = c then Some 0 else map_option Suc (index_byte xs c))"

text \<open>\<^verbatim>\<open>bytes.HasPrefix\<close>\<close>

fun has_prefix :: "bytes \<Rightarrow> bytes \<Rightarrow> bool" where
  "has_prefix xs [] = True"
| "has_prefix [] (y # ys) = False"
| "has_prefix (x # xs) (y # ys) = (x = y \<and> has_prefix xs ys)"

text \<open>\<^verbatim>\<open>bytes.Index\<close>: the first position where the second slice occurs.\<close>

fun index_sub :: "bytes \<Rightarrow> bytes \<Rightarrow> nat option" where
  "index_sub [] ys = (if ys = [] then Some 0 else None)"
| "index_sub (x # xs) ys =
     (if has_prefix (x # xs) ys then Some 0 else map_option Suc (index_sub xs ys))"

text \<open>\<^verbatim>\<open>strings.Split(s, sep)\<close> for a one-byte separator.\<close>

fun split_byte :: "char \<Rightarrow> bytes \<Rightarrow> bytes list" where
  "split_byte c [] = [[]]"
| "split_byte c (x # xs) =
     (if x = c then [] # split_byte c xs
      else (case split_byte c xs of [] \<Rightarrow> [[x]] | w # ws \<Rightarrow> (x # w) # ws))"

lemma index_byte_None_iff: "index_byte xs c = None \<longleftrightarrow> c \<notin> set xs"
  by (induction xs) auto

lemma index_byte_notin [simp]: "c \<notin> set xs \<Longrightarrow> index_byte xs c = None"
  by (simp add: index_byte_None_iff)

lemma index_byte_append [simp]:
  "c \<notin> set xs \<Longrightarrow> index_byte (xs @ ys) c = map_option (\<lambda>i. length xs + i) (index_byte ys c)"
  by (cases "index_byte ys c"; induction xs) auto

lemma index_byte_SomeD:
  assumes "index_byte xs c = Some i"
  shows "i < length xs" "xs ! i = c" "c \<notin> set (take i xs)" "xs = take i xs @ c # drop (Suc i) xs"
  using assms by (induction xs arbitrary: i) (auto split: if_splits)

lemma index_byte_SomeE:
  assumes "index_byte xs c = Some i"
  obtains ys zs where "xs = ys @ c # zs" "c \<notin> set ys" "i = length ys"
  using index_byte_SomeD [OF assms] by (metis append_take_drop_id length_take min.absorb4)

lemma has_prefix_iff: "has_prefix xs ys \<longleftrightarrow> (\<exists>zs. xs = ys @ zs)"
  by (induction xs ys rule: has_prefix.induct) auto

lemma has_prefix_append [simp]: "has_prefix (xs @ ys) xs"
  by (simp add: has_prefix_iff)

lemma index_sub_SomeE:
  assumes "index_sub xs ys = Some i"
  obtains as bs where "xs = as @ ys @ bs" "i = length as"
proof -
  have "\<exists>as bs. xs = as @ ys @ bs \<and> i = length as"
    using assms
  proof (induction xs arbitrary: i)
    case (Cons x xs)
    show ?case
    proof (cases "has_prefix (x # xs) ys")
      case True
      with Cons.prems show ?thesis by (auto simp: has_prefix_iff)
    next
      case False
      with Cons.prems obtain j where "index_sub xs ys = Some j" "i = Suc j" by auto
      with Cons.IH show ?thesis by (metis append_Cons length_Cons)
    qed
  qed (auto split: if_splits)
  with that show thesis by blast
qed

lemma index_sub_None_iff: "index_sub xs ys = None \<longleftrightarrow> (\<nexists>as bs. xs = as @ ys @ bs)"
proof
  assume "\<nexists>as bs. xs = as @ ys @ bs"
  then show "index_sub xs ys = None"
    by (metis index_sub_SomeE not_Some_eq)
next
  assume "index_sub xs ys = None"
  then show "\<nexists>as bs. xs = as @ ys @ bs"
  proof (induction xs)
    case (Cons x xs)
    then have "\<not> has_prefix (x # xs) ys" "\<nexists>as bs. xs = as @ ys @ bs"
      by (auto split: if_splits)
    then show ?case by (auto simp: has_prefix_iff Cons_eq_append_conv)
  qed (auto split: if_splits)
qed

lemma index_sub_least: "index_sub xs ys = Some i \<Longrightarrow> xs = as @ ys @ bs \<Longrightarrow> i \<le> length as"
proof (induction xs arbitrary: i as)
  case (Cons x xs)
  show ?case
  proof (cases as)
    case Nil
    with Cons.prems(2) have "has_prefix (x # xs) ys" by (auto simp: has_prefix_iff)
    with Cons.prems(1) show ?thesis by simp
  next
    case (Cons a as')
    with Cons.prems Cons.IH show ?thesis by (force split: if_splits)
  qed
qed (auto split: if_splits)

text \<open>Cutting at a separator that one side does not contain.\<close>

lemma append_sep_split:
  "c \<notin> set x \<Longrightarrow> x @ y = a @ c # z \<Longrightarrow> \<exists>a'. a = x @ a' \<and> y = a' @ c # z"
  by (induction x arbitrary: a) (auto simp: Cons_eq_append_conv)

lemma append_sep_unique:
  "c \<notin> set x \<Longrightarrow> c \<notin> set a \<Longrightarrow> x @ c # y = a @ c # z \<longleftrightarrow> x = a \<and> y = z"
proof (induction x arbitrary: a)
  case Nil
  then show ?case by (cases a) auto
next
  case (Cons b x)
  then show ?case by (cases a) auto
qed

lemma index_byte_sep [simp]: "c \<notin> set xs \<Longrightarrow> index_byte (xs @ c # ys) c = Some (length xs)"
  by simp

section \<open>Time\<close>

text \<open>
  A \<^verbatim>\<open>time.Time\<close> is its distance from the Unix epoch in nanoseconds; the zero value is
  the start of year 1. A \<^verbatim>\<open>time.Duration\<close> is a number of nanoseconds.
\<close>

type_synonym time = int
type_synonym duration = int

definition second :: duration where "second = 10 ^ 9"
definition minute :: duration where "minute = 60 * second"
definition hour :: duration where "hour = 60 * minute"

definition zeroTime :: time where "zeroTime = - 62135596800 * 10 ^ 9"

text \<open>\<^verbatim>\<open>Truncate\<close> rounds down to a multiple of \<open>d\<close> since the zero time.\<close>

definition Truncate :: "time \<Rightarrow> duration \<Rightarrow> time" where
  "Truncate t d = (if d \<le> 0 then t else t - (t - zeroTime) mod d)"

definition UnixNano :: "time \<Rightarrow> int" where "UnixNano t = wrap64 t"

text \<open>\<^verbatim>\<open>Time.Sub\<close> saturates.\<close>

definition Sub :: "time \<Rightarrow> time \<Rightarrow> duration" where
  "Sub t u = max minInt64 (min maxInt64 (t - u))"

lemma Truncate_second: "Truncate t second = t - t mod 10 ^ 9"
proof -
  have "t - zeroTime = t + 62135596800 * 10 ^ 9" by (simp add: zeroTime_def)
  then have "(t - zeroTime) mod 10 ^ 9 = t mod (10 ^ 9 :: int)" by (metis mod_mult_self1)
  then show ?thesis by (simp add: Truncate_def second_def)
qed

section \<open>Runs of step relations\<close>

text \<open>
  The goroutines of a program interleave; a component with several of them is a step relation,
  and what it never does is an invariant of the relation.
\<close>

locale stepping =
  fixes step :: "'s \<Rightarrow> 's \<Rightarrow> bool" and inv :: "'s \<Rightarrow> bool"
  assumes step_inv: "step s t \<Longrightarrow> inv s \<Longrightarrow> inv t"
begin

lemma run_inv: "step\<^sup>*\<^sup>* s t \<Longrightarrow> inv s \<Longrightarrow> inv t"
  by (induction rule: rtranclp_induct) (auto intro: step_inv)

lemma run_inv_of: "inv s \<Longrightarrow> step\<^sup>*\<^sup>* s t \<Longrightarrow> (\<And>u. inv u \<Longrightarrow> P u) \<Longrightarrow> P t"
  using run_inv by blast

end

text \<open>
  A step relation in which every step lowers a rank and which can go on until a final state: its
  runs are bounded, and wherever one cannot go on it has reached a final state.
\<close>

locale ending = stepping +
  fixes rank :: "'a \<Rightarrow> nat" and final :: "'a \<Rightarrow> bool"
  assumes step_rank: "step s t \<Longrightarrow> inv s \<Longrightarrow> rank t < rank s"
    and not_stuck: "inv s \<Longrightarrow> \<not> final s \<Longrightarrow> \<exists>t. step s t"
begin

lemma run_bounded: "(step ^^ n) s t \<Longrightarrow> inv s \<Longrightarrow> n + rank t \<le> rank s \<and> inv t"
proof (induction n arbitrary: t)
  case (Suc n)
  then obtain u where "(step ^^ n) s u" "step u t" by auto
  with Suc show ?case using step_rank [of u t] step_inv [of u t] by fastforce
qed simp

lemma run_ends: "inv s \<Longrightarrow> \<exists>t. step\<^sup>*\<^sup>* s t \<and> final t"
proof (induction "rank s" arbitrary: s rule: less_induct)
  case less
  show ?case
  proof (cases "final s")
    case False
    then obtain t where t: "step s t" using not_stuck less.prems by blast
    then obtain u where "step\<^sup>*\<^sup>* t u" "final u"
      using less.hyps [of t] step_rank step_inv less.prems by blast
    with t show ?thesis by (meson converse_rtranclp_into_rtranclp)
  qed blast
qed

end

end
