(* ===== verification/Load.thy ===== *)
theory Load
  imports Prelude
begin

text \<open>
  Loading a configuration: \<^verbatim>\<open>internal/config/load.go\<close>, shared by all programs. A configuration
  is read from a file, then from the control server, whose answer may only set the fields marked
  dynamic, and then validated; with a server, a failure leads to another attempt.

  The type of the configuration, the JSON decoder and the validation of the program are
  parameters. An attempt happens in an environment, which is where the file and the validation
  (for example a host lookup) get their outcome from. The answers of the server are a list, in
  which \<^const>\<open>None\<close> is a failed request.

  What is proved: what is loaded is valid; the server sets the fields marked dynamic and cannot
  change the others; two payloads handed out one after the other differ; and a payload that failed once is not tried
  again as long as the server keeps sending it.
\<close>

section \<open>The field filter\<close>

text \<open>
  The JSON decoder: \<open>js_obj\<close> reads an object into a map, given as an association list, and
  \<open>js_set\<close> decodes an object with one member into the configuration.
\<close>

record 'c json =
  js_obj :: "bytes \<Rightarrow> (bytes \<times> bytes) list option"
  js_set :: "bytes \<Rightarrow> bytes \<Rightarrow> 'c \<Rightarrow> 'c option"

fun set_fields :: "'c json \<Rightarrow> (bytes \<times> bytes) list \<Rightarrow> bytes list \<Rightarrow> 'c \<Rightarrow> 'c option" where
  "set_fields J got [] c = Some c"
| "set_fields J got (f # fs) c =
     (case map_of got f of
        None \<Rightarrow> set_fields J got fs c
      | Some raw \<Rightarrow> Option.bind (js_set J f raw c) (set_fields J got fs))"

definition fieldFilter_Unmarshal :: "'c json \<Rightarrow> bytes list \<Rightarrow> bytes \<Rightarrow> 'c \<Rightarrow> 'c option" where
  "fieldFilter_Unmarshal J field buf c = Option.bind (js_obj J buf) (\<lambda>got. set_fields J got field c)"

text \<open>\<^verbatim>\<open>newFieldFilter\<close> on the fields of the struct and their \<^verbatim>\<open>config\<close> tags.\<close>

definition newFieldFilter :: "(bytes \<times> bytes) list \<Rightarrow> bytes list" where
  "newFieldFilter typ = map fst (filter (\<lambda>(name, tag). tag = ''dynamic'') typ)"

section \<open>The client of the control server\<close>

text \<open>
  \<^verbatim>\<open>client.mainloop\<close> up to the next payload it hands out, given the one before it:
  the payload and the answers after it, or \<^const>\<open>None\<close> if it is still polling.
\<close>

fun NextUpdate :: "bytes option \<Rightarrow> bytes option list \<Rightarrow> (bytes \<times> bytes option list) option" where
  "NextUpdate prev [] = None"
| "NextUpdate prev (None # gets) = NextUpdate prev gets"
| "NextUpdate prev (Some buf # gets) =
     (if prev = Some buf then NextUpdate prev gets else Some (buf, gets))"

section \<open>Loading\<close>

record ('c, 'e) loader =
  ld_Reset :: 'c
  ld_decodeFile :: "'e \<Rightarrow> 'c \<Rightarrow> 'c option"
  ld_json :: "'c json"
  ld_fields :: "(bytes \<times> bytes) list"
  ld_Validate :: "'e \<Rightarrow> 'c \<Rightarrow> 'c option"

definition decodeServer :: "('c, 'e) loader \<Rightarrow> bytes \<Rightarrow> 'c \<Rightarrow> 'c option" where
  "decodeServer ld buf c = fieldFilter_Unmarshal (ld_json ld) (newFieldFilter (ld_fields ld)) buf c"

text \<open>The start of an attempt: reset, and the file if there is one.\<close>

definition decodeBase :: "('c, 'e) loader \<Rightarrow> bool \<Rightarrow> 'e \<Rightarrow> 'c option" where
  "decodeBase ld file e = (if file then ld_decodeFile ld e (ld_Reset ld) else Some (ld_Reset ld))"

text \<open>The loop of \<^verbatim>\<open>load\<close> with a server, over the environments of its attempts.\<close>

fun load_loop ::
  "('c, 'e) loader \<Rightarrow> bool \<Rightarrow> 'e list \<Rightarrow> bytes option \<Rightarrow> bytes option list \<Rightarrow> ('c \<times> bytes option \<times> bytes option list) option" where
  "load_loop ld file [] prev gets = None"
| "load_loop ld file (e # es) prev gets =
     (case decodeBase ld file e of
        None \<Rightarrow> load_loop ld file es prev gets
      | Some c \<Rightarrow>
          (case NextUpdate prev gets of
             None \<Rightarrow> None
           | Some (buf, gets) \<Rightarrow>
               (case Option.bind (decodeServer ld buf c) (ld_Validate ld e) of
                  None \<Rightarrow> load_loop ld file es (Some buf) gets
                | Some c \<Rightarrow> Some (c, Some buf, gets))))"

datatype 'c load_result = Exit | Blocked | Loaded 'c "bytes option" "bytes option list"

definition load :: "('c, 'e) loader \<Rightarrow> bool \<Rightarrow> bool \<Rightarrow> 'e list \<Rightarrow> bytes option \<Rightarrow> bytes option list \<Rightarrow> 'c load_result" where
  "load ld filePath serverPath es prev gets =
     (if \<not> filePath \<and> \<not> serverPath then Exit
      else if \<not> serverPath then
        (case es of
           [] \<Rightarrow> Blocked
         | e # _ \<Rightarrow>
             (case Option.bind (decodeBase ld True e) (ld_Validate ld e) of
                None \<Rightarrow> Exit
              | Some c \<Rightarrow> Loaded c prev gets))
      else
        (case load_loop ld filePath es prev gets of
           None \<Rightarrow> Blocked
         | Some (c, prev, gets) \<Rightarrow> Loaded c prev gets))"

section \<open>Lemmas\<close>

text \<open>
  The law of the JSON decoder: a member updates the field with its name, from the value the field
  had, and no other.
\<close>

definition sets_one_field :: "'c json \<Rightarrow> (bytes \<Rightarrow> 'c \<Rightarrow> 'v) \<Rightarrow> (bytes \<Rightarrow> 'v \<Rightarrow> 'v) \<Rightarrow> bool" where
  "sets_one_field J get upd \<longleftrightarrow>
     (\<forall>f raw c c' g. js_set J f raw c = Some c' \<longrightarrow> get g c' = (if g = f then upd raw (get f c) else get g c))"

definition updated :: "(bytes \<Rightarrow> 'v \<Rightarrow> 'v) \<Rightarrow> bytes option \<Rightarrow> 'v \<Rightarrow> 'v" where
  "updated upd raw v = (case raw of None \<Rightarrow> v | Some raw \<Rightarrow> upd raw v)"

lemma set_fields_get:
  "sets_one_field J get upd \<Longrightarrow> distinct fs \<Longrightarrow> set_fields J got fs c = Some c' \<Longrightarrow>
     get g c' = (if g \<in> set fs then updated upd (map_of got g) (get g c) else get g c)"
proof (induction fs arbitrary: c)
  case (Cons f fs)
  show ?case
  proof (cases "map_of got f")
    case (Some raw)
    with Cons.prems(3) obtain d where d: "js_set J f raw c = Some d" "set_fields J got fs d = Some c'"
      by (auto split: Option.bind_splits)
    then have "get g d = (if g = f then upd raw (get f c) else get g c)" using Cons.prems(1) by (simp add: sets_one_field_def)
    with Cons Some d show ?thesis by (auto simp: updated_def)
  qed (use Cons in \<open>auto simp: updated_def\<close>)
qed simp

lemma newFieldFilter_set: "set (newFieldFilter typ) = {f. (f, ''dynamic'') \<in> set typ}"
  by (force simp: newFieldFilter_def)

lemma newFieldFilter_distinct: "distinct (map fst typ) \<Longrightarrow> distinct (newFieldFilter typ)"
  by (simp add: newFieldFilter_def distinct_map_filter)

lemma decodeServer_get:
  assumes "sets_one_field (ld_json ld) get upd" "distinct (map fst (ld_fields ld))" "decodeServer ld buf c = Some c'"
  shows "\<exists>obj. js_obj (ld_json ld) buf = Some obj \<and>
    (\<forall>f. get f c' = (if (f, ''dynamic'') \<in> set (ld_fields ld) then updated upd (map_of obj f) (get f c) else get f c))"
  using assms set_fields_get [OF assms(1) newFieldFilter_distinct [OF assms(2)]]
  by (auto simp: decodeServer_def fieldFilter_Unmarshal_def newFieldFilter_set split: Option.bind_splits)

lemma NextUpdate_Some:
  "NextUpdate prev gets = Some (buf, rest) \<Longrightarrow> prev \<noteq> Some buf \<and> (\<exists>before. gets = before @ Some buf # rest)"
proof (induction prev gets rule: NextUpdate.induct)
  case (2 prev gets)
  then show ?case by (auto intro: exI [of _ "None # _"])
next
  case (3 prev buf' gets)
  then show ?case by (cases "prev = Some buf'") (auto intro: exI [of _ "Some buf' # _"])
qed simp

lemma NextUpdate_same: "set gets \<subseteq> {None, prev} \<Longrightarrow> NextUpdate prev gets = None"
  by (induction prev gets rule: NextUpdate.induct) auto

lemma load_loop_Some:
  "load_loop ld file es prev gets = Some (c, prev', gets') \<Longrightarrow>
     \<exists>e \<in> set es. \<exists>c0 buf d. decodeBase ld file e = Some c0 \<and> Some buf \<in> set gets \<and> decodeServer ld buf c0 = Some d \<and> ld_Validate ld e d = Some c"
proof (induction es arbitrary: prev gets)
  case (Cons e es)
  show ?case
  proof (cases "decodeBase ld file e")
    case None
    with Cons show ?thesis by auto
  next
    case (Some c0)
    with Cons.prems obtain buf rest where u: "NextUpdate prev gets = Some (buf, rest)" by (auto split: option.splits)
    then have sub: "Some buf \<in> set gets" "set rest \<subseteq> set gets" using NextUpdate_Some by fastforce+
    show ?thesis
    proof (cases "Option.bind (decodeServer ld buf c0) (ld_Validate ld e)")
      case None
      with Cons.prems Some u have "load_loop ld file es (Some buf) rest = Some (c, prev', gets')" by simp
      from Cons.IH [OF this] sub(2) show ?thesis by fastforce
    next
      case (Some d)
      with Cons.prems u sub \<open>decodeBase ld file e = Some c0\<close> show ?thesis
        by (auto split: Option.bind_splits)
    qed
  qed
qed simp

section \<open>Properties\<close>

text \<open>
  C33: A configuration that is loaded from a file and the server was accepted by the validation of
  the program. What was validated has, in every field without the tag \<^verbatim>\<open>config:"dynamic"\<close>, the value
  of the file, whatever the server sent; and in every field with this tag the value that a payload
  of the server has for it, if it has one. The fields of a struct have different names.
\<close>

theorem loaded_config:
  assumes "load ld filePath True es prev gets = Loaded c prev' gets'"
    and "sets_one_field (ld_json ld) get upd" "distinct (map fst (ld_fields ld))"
  shows "\<exists>e \<in> set es. \<exists>base d buf obj. decodeBase ld filePath e = Some base \<and> ld_Validate ld e d = Some c \<and>
    Some buf \<in> set gets \<and> js_obj (ld_json ld) buf = Some obj \<and>
    (\<forall>f. (f, ''dynamic'') \<notin> set (ld_fields ld) \<longrightarrow> get f d = get f base) \<and>
    (\<forall>f. (f, ''dynamic'') \<in> set (ld_fields ld) \<longrightarrow>
       get f d = (case map_of obj f of None \<Rightarrow> get f base | Some raw \<Rightarrow> upd raw (get f base)))"
proof -
  from assms(1) have "load_loop ld filePath es prev gets = Some (c, prev', gets')"
    by (auto simp: load_def split: option.splits)
  from load_loop_Some [OF this] obtain e base buf d where b: "e \<in> set es" "decodeBase ld filePath e = Some base"
      "Some buf \<in> set gets" "decodeServer ld buf base = Some d" "ld_Validate ld e d = Some c" by blast
  from decodeServer_get [OF assms(2,3) b(4)] obtain obj where "js_obj (ld_json ld) buf = Some obj"
    "\<forall>f. get f d = (if (f, ''dynamic'') \<in> set (ld_fields ld) then updated upd (map_of obj f) (get f base) else get f base)" by blast
  with b show ?thesis unfolding updated_def by (intro bexI [of _ e] exI [of _ base] exI [of _ d] exI [of _ buf] exI [of _ obj]) auto
qed

text \<open>A configuration with two fields, of which the first is dynamic; validation succeeds in a true environment.\<close>

definition example_loader :: "(bytes \<times> bytes, bool) loader" where
  "example_loader = \<lparr>ld_Reset = ([], []), ld_decodeFile = (\<lambda>e c. Some (''x'', ''y'')),
     ld_json = \<lparr>js_obj = (\<lambda>b. Some [(''a'', b), (''b'', b)]),
       js_set = (\<lambda>f raw (a, b). if f = ''a'' then Some (raw, b) else if f = ''b'' then Some (a, raw) else None)\<rparr>,
     ld_fields = [(''a'', ''dynamic''), (''b'', [])], ld_Validate = (\<lambda>e c. if e then Some c else None)\<rparr>"

theorem loaded_config_witness:
  "\<exists>base d. decodeBase example_loader True True = Some base \<and> ld_Validate example_loader True d = Some (''new'', ''y'') \<and>
     fst d = ''new'' \<and> snd d = snd base"
proof -
  let ?get = "\<lambda>f (c :: bytes \<times> bytes). if f = ''a'' then fst c else if f = ''b'' then snd c else []"
  have l: "load example_loader True True [True] None [Some ''new''] = Loaded (''new'', ''y'') (Some ''new'') []"
    by (simp add: load_def example_loader_def decodeBase_def decodeServer_def fieldFilter_Unmarshal_def newFieldFilter_def)
  have s: "sets_one_field (ld_json example_loader) ?get (\<lambda>raw v. raw)"
    by (auto simp: sets_one_field_def example_loader_def split: if_splits)
  have d: "distinct (map fst (ld_fields example_loader))" by (simp add: example_loader_def)
  obtain base d where bd: "decodeBase example_loader True True = Some base"
      "ld_Validate example_loader True d = Some (''new'', ''y'')"
      "\<forall>f. (f, ''dynamic'') \<notin> set (ld_fields example_loader) \<longrightarrow> ?get f d = ?get f base"
    using loaded_config [OF l s d] by auto
  from bd(2) have "d = (''new'', ''y'')" by (simp add: example_loader_def)
  moreover have "snd d = snd base" using bd(3) [rule_format, of "''b''"] by (simp add: example_loader_def)
  ultimately show ?thesis using bd(1,2) by auto
qed

text \<open>
  A payload that was refused once is not tried again: if the validation fails for a passing
  reason, such as a host lookup, the program stays without configuration for as long as the
  server answers with the same payload, however often it asks and whatever the environment is by
  then.
\<close>

theorem refused_payload_stuck:
  assumes "decodeBase ld filePath e = Some c" "Option.bind (decodeServer ld buf c) (ld_Validate ld e) = None"
  shows "load ld filePath True (e # es) None (Some buf # replicate n (Some buf)) = Blocked"
proof -
  have "NextUpdate (Some buf) (replicate n (Some buf)) = None" by (rule NextUpdate_same) auto
  then have "load_loop ld filePath es (Some buf) (replicate n (Some buf)) = None" for es
    by (induction es) (simp_all split: option.split)
  with assms show ?thesis by (simp add: load_def)
qed

end
