(* ===== verification/Text.thy ===== *)
theory Text
  imports Prelude
begin

text \<open>
  The text fields of a point: which byte strings are metric names, tag keys and tag values
  (\<^verbatim>\<open>validText\<close> of \<^verbatim>\<open>internal/tsdb/tsdb.go\<close>), and the sanitiser \<^verbatim>\<open>Clean\<close>
  of \<^verbatim>\<open>internal/tsdb/clean.go\<close>. Both walk the runes of their input, so UTF-8 decoding
  is modelled in full. The Unicode tables above Latin-1 and the floating-point conversions
  depend on the Go release and are parameters, the fields of \<open>golib\<close>.

  What is proved: accepted text holds no separator byte (blank, tab, newline, \<^verbatim>\<open>=\<close>),
  whatever the Unicode tables say; acceptance is compositional in an ASCII prefix; the output
  of \<^verbatim>\<open>Clean\<close> is printable ASCII without the query characters, and \<^verbatim>\<open>Clean\<close> is
  idempotent.
\<close>

section \<open>The parts of the Go library that are parameters\<close>

record golib =
  lib_letter :: "rune \<Rightarrow> bool"        \<comment> \<open>\<^verbatim>\<open>unicode.Letter\<close>, above Latin-1\<close>
  lib_digit :: "rune \<Rightarrow> bool"         \<comment> \<open>\<^verbatim>\<open>unicode.Digit\<close>, above Latin-1\<close>
  lib_space :: "rune \<Rightarrow> bool"         \<comment> \<open>\<^verbatim>\<open>unicode.White_Space\<close>, above Latin-1\<close>
  lib_ParseFloat :: "bytes \<Rightarrow> float64 option" \<comment> \<open>\<^verbatim>\<open>strconv.ParseFloat(s, 64)\<close>\<close>
  lib_float32 :: "float64 \<Rightarrow> float32"  \<comment> \<open>the conversion \<^verbatim>\<open>float32(n)\<close>\<close>
  lib_FormatFloat :: "float32 \<Rightarrow> bytes" \<comment> \<open>\<^verbatim>\<open>strconv.AppendFloat(nil, n, 'f', -1, 32)\<close>\<close>

section \<open>UTF-8\<close>

definition RuneError :: rune where "RuneError = 0xFFFD"

definition cont :: "char \<Rightarrow> nat \<Rightarrow> nat \<Rightarrow> bool" where
  "cont c lo hi \<longleftrightarrow> lo \<le> ord c \<and> ord c \<le> hi"

text \<open>The least and the greatest second byte after a given first byte.\<close>

definition second_lo :: "nat \<Rightarrow> nat" where
  "second_lo b = (if b = 0xE0 then 0xA0 else if b = 0xF0 then 0x90 else 0x80)"

definition second_hi :: "nat \<Rightarrow> nat" where
  "second_hi b = (if b = 0xED then 0x9F else if b = 0xF4 then 0x8F else 0xBF)"

text \<open>Sequences of two, three and four bytes, after their first byte \<open>b\<close>.\<close>

definition decode2 :: "nat \<Rightarrow> bytes \<Rightarrow> rune \<times> nat" where
  "decode2 b cs =
     (case cs of
        c1 # _ \<Rightarrow> if cont c1 0x80 0xBF
                 then ((b - 0xC0) * 64 + (ord c1 - 0x80), 2) else (RuneError, 1)
      | _ \<Rightarrow> (RuneError, 1))"

definition decode3 :: "nat \<Rightarrow> bytes \<Rightarrow> rune \<times> nat" where
  "decode3 b cs =
     (case cs of
        c1 # c2 # _ \<Rightarrow> if cont c1 (second_lo b) (second_hi b) \<and> cont c2 0x80 0xBF
                      then ((b - 0xE0) * 4096 + (ord c1 - 0x80) * 64 + (ord c2 - 0x80), 3)
                      else (RuneError, 1)
      | _ \<Rightarrow> (RuneError, 1))"

definition decode4 :: "nat \<Rightarrow> bytes \<Rightarrow> rune \<times> nat" where
  "decode4 b cs =
     (case cs of
        c1 # c2 # c3 # _ \<Rightarrow>
          if cont c1 (second_lo b) (second_hi b) \<and> cont c2 0x80 0xBF \<and> cont c3 0x80 0xBF
          then ((b - 0xF0) * 262144 + (ord c1 - 0x80) * 4096 + (ord c2 - 0x80) * 64
                  + (ord c3 - 0x80), 4)
          else (RuneError, 1)
      | _ \<Rightarrow> (RuneError, 1))"

fun DecodeRune :: "bytes \<Rightarrow> rune \<times> nat" where
  "DecodeRune [] = (RuneError, 0)"
| "DecodeRune (c # cs) =
     (let b = ord c in
      if b < 0x80 then (b, 1)
      else if 0xC2 \<le> b \<and> b \<le> 0xDF then decode2 b cs
      else if 0xE0 \<le> b \<and> b \<le> 0xEF then decode3 b cs
      else if 0xF0 \<le> b \<and> b \<le> 0xF4 then decode4 b cs
      else (RuneError, 1))"

declare DecodeRune.simps(2) [simp del]

lemma DecodeRune_ascii [simp]: "ord c < 0x80 \<Longrightarrow> DecodeRune (c # cs) = (ord c, 1)"
  by (simp add: DecodeRune.simps)

text \<open>
  A rune takes at least one byte, stays within the input, and takes bytes above ASCII only,
  unless it is an ASCII byte itself.
\<close>

definition high_seq :: "bytes \<Rightarrow> nat \<Rightarrow> bool" where
  "high_seq cs sz \<longleftrightarrow> 0 < sz \<and> sz \<le> Suc (length cs) \<and> (\<forall>x \<in> set (take (sz - 1) cs). 0x80 \<le> ord x)"

lemma high_seq_1 [simp]: "high_seq cs (Suc 0)"
  by (simp add: high_seq_def)

lemma second_lo_le: "cont c (second_lo b) hi \<Longrightarrow> 0x80 \<le> ord c"
  by (auto simp: cont_def second_lo_def split: if_splits)

lemma decode2_high: "high_seq cs (snd (decode2 b cs))"
  by (auto simp: decode2_def high_seq_def cont_def split: list.split)

lemma decode3_high: "high_seq cs (snd (decode3 b cs))"
  by (auto simp: decode3_def high_seq_def dest: second_lo_le split: list.split) (simp add: cont_def)

lemma decode4_high: "high_seq cs (snd (decode4 b cs))"
  by (auto simp: decode4_def high_seq_def dest: second_lo_le split: list.split) (simp_all add: cont_def)

lemma DecodeRune_high:
  assumes "DecodeRune (c # cs) = (r, sz)" and "\<not> ord c < 0x80"
  shows "0 < sz \<and> sz \<le> Suc (length cs) \<and> (\<forall>x \<in> set (take sz (c # cs)). 0x80 \<le> ord x)"
proof -
  have "high_seq cs sz"
    using assms decode2_high [of cs "ord c"] decode3_high [of cs "ord c"] decode4_high [of cs "ord c"]
    by (auto simp: DecodeRune.simps Let_def split: if_splits)
  with assms(2) show ?thesis by (auto simp: high_seq_def take_Cons' split: if_splits)
qed

lemma DecodeRune_size:
  assumes "DecodeRune (c # cs) = (r, sz)"
  shows "0 < sz" "sz \<le> Suc (length cs)"
  using assms DecodeRune_high [OF assms] by (cases "ord c < 0x80"; auto)+

section \<open>The text of metrics and tags\<close>

definition IsDigit :: "golib \<Rightarrow> rune \<Rightarrow> bool" where
  "IsDigit L r = (if r \<le> 0xFF then 48 \<le> r \<and> r \<le> 57 else lib_digit L r)"

definition IsLetter :: "golib \<Rightarrow> rune \<Rightarrow> bool" where
  "IsLetter L r =
     (if r \<le> 0xFF then
        (65 \<le> r \<and> r \<le> 90) \<or> (97 \<le> r \<and> r \<le> 122) \<or> r = 0xAA \<or> r = 0xB5 \<or> r = 0xBA \<or>
        (0xC0 \<le> r \<and> r \<le> 0xFF \<and> r \<noteq> 0xD7 \<and> r \<noteq> 0xF7)
      else lib_letter L r)"

definition IsSpace :: "golib \<Rightarrow> rune \<Rightarrow> bool" where
  "IsSpace L r \<longleftrightarrow> (if r \<le> 0xFF then 9 \<le> r \<and> r \<le> 13 \<or> r = 0x20 \<or> r = 0x85 \<or> r = 0xA0 else lib_space L r)"

datatype text_error =
    EmptyString
  | InvalidCharacter rune

text \<open>The cases of the \<^verbatim>\<open>switch\<close> in \<^verbatim>\<open>validText\<close>.\<close>

definition text_rune :: "golib \<Rightarrow> rune \<Rightarrow> bool" where
  "text_rune L r \<longleftrightarrow>
     (97 \<le> r \<and> r \<le> 122) \<or> (65 \<le> r \<and> r \<le> 90) \<or> IsDigit L r \<or> IsLetter L r \<or>
     r = 45 \<or> r = 95 \<or> r = 46 \<or> r = 47"

function validText_loop :: "golib \<Rightarrow> bytes \<Rightarrow> text_error option" where
  "validText_loop L b =
     (if b = [] then None
      else let (r, sz) = DecodeRune b in
        if text_rune L r then validText_loop L (drop sz b) else Some (InvalidCharacter r))"
  by pat_completeness auto
termination
proof (relation "measure (\<lambda>(L, b). length b)", simp)
  fix L :: golib and b :: bytes and x r sz
  assume "b \<noteq> []" "x = DecodeRune b" "(r, sz) = x"
  then show "((L, drop sz b), L, b) \<in> measure (\<lambda>(L, b). length b)"
    by (cases b) (auto dest!: DecodeRune_size(1) [OF sym])
qed

declare validText_loop.simps [simp del]

definition validText :: "golib \<Rightarrow> bytes \<Rightarrow> text_error option" where
  "validText L b = (if b = [] then Some EmptyString else validText_loop L b)"

abbreviation text_ok :: "golib \<Rightarrow> bytes \<Rightarrow> bool" where
  "text_ok L b \<equiv> validText L b = None"

text \<open>The bytes below 128 that \<^verbatim>\<open>validText\<close> lets through.\<close>

definition text_byte :: "char \<Rightarrow> bool" where
  "text_byte c \<longleftrightarrow>
     (let b = ord c in (97 \<le> b \<and> b \<le> 122) \<or> (65 \<le> b \<and> b \<le> 90) \<or> (48 \<le> b \<and> b \<le> 57) \<or>
        b = 45 \<or> b = 95 \<or> b = 46 \<or> b = 47)"

lemma text_rune_ascii [simp]: "ord c < 0x80 \<Longrightarrow> text_rune L (ord c) \<longleftrightarrow> text_byte c"
  by (auto simp: text_rune_def text_byte_def IsDigit_def IsLetter_def Let_def)

lemma validText_loop_Nil [simp]: "validText_loop L [] = None"
  by (simp add: validText_loop.simps)

lemma validText_loop_ascii:
  "ord c < 0x80 \<Longrightarrow> validText_loop L (c # cs) =
     (if text_byte c then validText_loop L cs else Some (InvalidCharacter (ord c)))"
  by (simp add: validText_loop.simps [of L "c # cs"])

lemma validText_loop_append_ascii:
  "\<forall>c \<in> set as. text_byte c \<Longrightarrow> validText_loop L (as @ bs) = validText_loop L bs"
  by (induction as) (auto simp: validText_loop_ascii text_byte_def Let_def)

lemma validText_loop_bytes:
  "validText_loop L b = None \<Longrightarrow> c \<in> set b \<Longrightarrow> ord c < 0x80 \<Longrightarrow> text_byte c"
proof (induction L b rule: validText_loop.induct)
  case (1 L b)
  from "1.prems"(2) obtain x xs where b: "b = x # xs" by (cases b) auto
  obtain r sz where d: "DecodeRune b = (r, sz)" by (cases "DecodeRune b")
  from "1.prems"(1) b d have ok: "text_rune L r" "validText_loop L (drop sz b) = None"
    by (simp_all add: validText_loop.simps [of L b, unfolded b] split: if_splits)
  have IH: "c \<in> set (drop sz b) \<Longrightarrow> text_byte c"
    using "1.IH" [OF _ d [symmetric] refl ok(1) ok(2)] b "1.prems"(3) by simp
  have "c \<in> set (take sz b) \<Longrightarrow> text_byte c"
  proof (cases "ord x < 0x80")
    case True
    with d b ok(1) show "c \<in> set (take sz b) \<Longrightarrow> text_byte c" by auto
  next
    case False
    with DecodeRune_high [of x xs r sz] d b "1.prems"(3)
    show "c \<in> set (take sz b) \<Longrightarrow> text_byte c" by fastforce
  qed
  with IH "1.prems"(2) show ?case
    by (metis Un_iff append_take_drop_id set_append)
qed

lemma text_ok_ne: "text_ok L b \<Longrightarrow> b \<noteq> []"
  by (auto simp: validText_def split: if_splits)

lemma text_ok_bytes: "text_ok L b \<Longrightarrow> c \<in> set b \<Longrightarrow> ord c < 0x80 \<Longrightarrow> text_byte c"
  by (auto simp: validText_def split: if_splits intro: validText_loop_bytes)

text \<open>Separators of the wire format never occur in accepted text.\<close>

definition separators :: "char list" where
  "separators = [CHR '' '', CHR 0x09, CHR 0x0A, CHR ''='']"

lemma text_ok_no_sep: "text_ok L b \<Longrightarrow> c \<in> set separators \<Longrightarrow> c \<notin> set b"
  using text_ok_bytes [of L b c]
  by (auto simp: separators_def text_byte_def ord_def Let_def)

lemma text_ok_seps [simp]:
  assumes "text_ok L b"
  shows "CHR '' '' \<notin> set b" "CHR 0x09 \<notin> set b" "CHR 0x0A \<notin> set b" "CHR ''='' \<notin> set b"
  using text_ok_no_sep [OF assms] by (auto simp: separators_def)

lemma text_ok_append_ascii:
  "as \<noteq> [] \<Longrightarrow> \<forall>c \<in> set as. text_byte c \<Longrightarrow> bs = [] \<or> text_ok L bs \<Longrightarrow> text_ok L (as @ bs)"
  by (auto simp: validText_def validText_loop_append_ascii split: if_splits)

lemma text_ok_ascii: "as \<noteq> [] \<Longrightarrow> \<forall>c \<in> set as. text_byte c \<Longrightarrow> text_ok L as"
  using text_ok_append_ascii [of as "[]" L] by simp

section \<open>Words separated by white space\<close>

text \<open>\<^verbatim>\<open>strings.Fields\<close>; \<open>w\<close> is the word read so far.\<close>

function fields_loop :: "golib \<Rightarrow> bytes \<Rightarrow> bytes \<Rightarrow> bytes list" where
  "fields_loop L w s =
     (if s = [] then (if w = [] then [] else [w])
      else let (r, n) = DecodeRune s in
        if IsSpace L r then (if w = [] then [] else [w]) @ fields_loop L [] (drop n s)
        else fields_loop L (w @ take n s) (drop n s))"
  by pat_completeness auto
termination
proof (relation "measure (\<lambda>(L, w, s). length s)", simp)
  fix L :: golib and w s :: bytes and x r n
  assume s: "s \<noteq> []" "x = DecodeRune s" "(r, n) = x"
  then have "0 < n" by (cases s) (auto dest!: DecodeRune_size(1) [OF sym])
  with s show "((L, [], drop n s), L, w, s) \<in> measure (\<lambda>(L, w, s). length s)"
    "((L, w @ take n s, drop n s), L, w, s) \<in> measure (\<lambda>(L, w, s). length s)"
    by simp_all
qed

declare fields_loop.simps [simp del]

definition Fields :: "golib \<Rightarrow> bytes \<Rightarrow> bytes list" where
  "Fields L s = fields_loop L [] s"

definition word_byte :: "char \<Rightarrow> bool" where
  "word_byte c \<longleftrightarrow> ord c < 0x80 \<and> \<not> (9 \<le> ord c \<and> ord c \<le> 13 \<or> ord c = 0x20)"

lemma fields_loop_word:
  "list_all word_byte as \<Longrightarrow> fields_loop L w (as @ s) = fields_loop L (w @ as) s"
  by (induction as arbitrary: w) (auto simp: fields_loop.simps [of L _ "_ # _"] word_byte_def IsSpace_def)

lemma fields_loop_blank:
  "fields_loop L w (CHR '' '' # s) = (if w = [] then [] else [w]) @ fields_loop L [] s"
  by (subst fields_loop.simps) (simp add: IsSpace_def ord_def)

lemma fields_loop_ne: "w \<noteq> [] \<or> (\<exists>c \<in> set s. word_byte c) \<Longrightarrow> fields_loop L w s \<noteq> []"
proof (induction L w s rule: fields_loop.induct)
  case (1 L w s)
  show ?case
  proof (cases s)
    case Nil
    with "1.prems" show ?thesis by (simp add: fields_loop.simps [of L w "[]"])
  next
    case (Cons c cs)
    obtain r n where rn: "DecodeRune s = (r, n)" by (cases "DecodeRune s")
    have n: "0 < n" using rn Cons DecodeRune_size(1) by simp
    have "\<exists>x \<in> set (drop n s). word_byte x" if "IsSpace L r" "w = []"
    proof -
      from "1.prems" that obtain x where x: "x \<in> set s" "word_byte x" by auto
      have "x \<notin> set (take n s)"
      proof (cases "ord c < 0x80")
        case True
        with rn Cons have "r = ord c" "n = 1" by auto
        with that x(2) Cons show ?thesis by (auto simp: IsSpace_def word_byte_def split: if_splits)
      next
        case False
        with DecodeRune_high rn Cons x(2) show ?thesis by (fastforce simp: word_byte_def)
      qed
      with x show ?thesis by (metis UnE append_take_drop_id set_append)
    qed
    moreover have "w @ take n s \<noteq> []" using n Cons by simp
    ultimately show ?thesis
      using "1.IH" [OF _ rn [symmetric] refl] Cons rn by (subst fields_loop.simps) auto
  qed
qed

lemma Fields_ne: "c \<in> set s \<Longrightarrow> word_byte c \<Longrightarrow> Fields L s \<noteq> []"
  unfolding Fields_def by (rule fields_loop_ne) blast

lemma Fields_word_blank: "list_all word_byte w \<Longrightarrow> w \<noteq> [] \<Longrightarrow> Fields L (w @ CHR '' '' # s) = w # Fields L s"
  by (simp add: Fields_def fields_loop_word fields_loop_blank)

lemma Fields_blank: "Fields L (CHR '' '' # s) = Fields L s"
  by (simp add: Fields_def fields_loop_blank)

lemma Fields_word: "list_all word_byte w \<Longrightarrow> w \<noteq> [] \<Longrightarrow> Fields L w = [w]"
  using fields_loop_word [of w L "[]" "[]"] by (simp add: Fields_def fields_loop.simps [of L w "[]"])

section \<open>Clean\<close>

definition isQuery :: "rune \<Rightarrow> bool" where
  "isQuery r \<longleftrightarrow> r \<in> set (map ord ''{}=,|*'')"

text \<open>\<^verbatim>\<open>unicode.IsPrint\<close> and \<^verbatim>\<open>unicode.IsSpace\<close> on ASCII.\<close>

definition IsPrint_ascii :: "rune \<Rightarrow> bool" where
  "IsPrint_ascii r \<longleftrightarrow> 0x20 \<le> r \<and> r \<le> 0x7E"

definition IsSpace_ascii :: "rune \<Rightarrow> bool" where
  "IsSpace_ascii r \<longleftrightarrow> (9 \<le> r \<and> r \<le> 13) \<or> r = 32"

definition toMarshal :: "rune \<Rightarrow> rune" where
  "toMarshal r =
     (if r > 127 then 95
      else if \<not> IsPrint_ascii r then 95
      else if IsSpace_ascii r then 95
      else if isQuery r then 95
      else r)"

text \<open>
  \<^verbatim>\<open>strings.Map\<close> decodes the runes of its argument (an invalid byte is \<^const>\<open>RuneError\<close>,
  one byte wide) and encodes the results; those of \<^const>\<open>toMarshal\<close> are ASCII, one byte each.
\<close>

function Clean :: "bytes \<Rightarrow> bytes" where
  "Clean s =
     (if s = [] then []
      else let (r, sz) = DecodeRune s in chr (int (toMarshal r)) # Clean (drop sz s))"
  by pat_completeness auto
termination
proof (relation "measure length", simp)
  fix s :: bytes and x r sz
  assume "s \<noteq> []" "x = DecodeRune s" "(r, sz) = x"
  then show "(drop sz s, s) \<in> measure length"
    by (cases s) (auto dest!: DecodeRune_size(1) [OF sym])
qed

declare Clean.simps [simp del]

definition clean_byte :: "char \<Rightarrow> bool" where
  "clean_byte c \<longleftrightarrow> IsPrint_ascii (ord c) \<and> \<not> IsSpace_ascii (ord c) \<and> \<not> isQuery (ord c)"

lemma clean_byte_ascii: "clean_byte c \<Longrightarrow> ord c < 0x80"
  by (simp add: clean_byte_def IsPrint_ascii_def)

lemma isQuery_iff: "isQuery r \<longleftrightarrow> r \<in> {123, 125, 61, 44, 124, 42}"
  by (simp add: isQuery_def ord_def)

lemma toMarshal_range:
  "IsPrint_ascii (toMarshal r) \<and> \<not> IsSpace_ascii (toMarshal r) \<and> \<not> isQuery (toMarshal r)"
  by (simp add: toMarshal_def IsPrint_ascii_def IsSpace_ascii_def isQuery_iff)

lemma toMarshal_clean: "clean_byte (chr (int (toMarshal r)))"
  using toMarshal_range [of r] by (simp add: clean_byte_def IsPrint_ascii_def ord_chr)

lemma toMarshal_id: "clean_byte c \<Longrightarrow> chr (int (toMarshal (ord c))) = c"
  by (simp add: toMarshal_def clean_byte_def IsPrint_ascii_def)

lemma Clean_bytes: "c \<in> set (Clean s) \<Longrightarrow> clean_byte c"
proof (induction s rule: Clean.induct)
  case (1 s)
  obtain r sz where d: "DecodeRune s = (r, sz)" by (cases "DecodeRune s")
  show ?case
  proof (cases "s = []")
    case False
    with "1.prems" d have "c = chr (int (toMarshal r)) \<or> c \<in> set (Clean (drop sz s))"
      by (simp add: Clean.simps [of s])
    with "1.IH" [OF False d [symmetric] refl] toMarshal_clean show ?thesis by blast
  next
    case True
    with "1.prems" show ?thesis by (simp add: Clean.simps)
  qed
qed

lemma Clean_id: "\<forall>c \<in> set s. clean_byte c \<Longrightarrow> Clean s = s"
proof (induction s)
  case (Cons c cs)
  then show ?case
    by (simp add: Clean.simps [of "c # cs"] clean_byte_ascii toMarshal_id)
qed (simp add: Clean.simps)

section \<open>Properties\<close>

text \<open>A library whose tables are empty above Latin-1, to evaluate examples with.\<close>

definition latin1_lib :: golib where
  "latin1_lib = \<lparr>lib_letter = (\<lambda>_. False), lib_digit = (\<lambda>_. False), lib_space = (\<lambda>_. False), lib_ParseFloat = (\<lambda>_. None),
     lib_float32 = (\<lambda>_. 0), lib_FormatFloat = (\<lambda>_. [])\<rparr>"

text \<open>
  Text accepted as a metric name, a tag key or a tag value is not empty and holds neither
  blank, tab, newline nor equals sign; its ASCII bytes are letters, digits and the four marks
  minus, underscore, dot and slash. This holds whatever the Unicode tables of the library say,
  also for malformed UTF-8.
\<close>

theorem validText_separators:
  assumes "validText L b = None"
  shows "b \<noteq> [] \<and> set b \<inter> set separators = {} \<and> {c \<in> set b. ord c < 0x80} \<subseteq> {c. text_byte c}"
  using text_ok_ne [OF assms] text_ok_no_sep [OF assms] text_ok_bytes [OF assms] by blast

text \<open>
  \<^verbatim>\<open>Clean\<close> always yields printable ASCII without blanks and without the query
  characters, and cleaning twice is the same as cleaning once.
\<close>

theorem Clean_idempotent:
  "Clean (Clean s) = Clean s \<and> set (Clean s) \<subseteq> {c. clean_byte c}"
  using Clean_bytes [of _ s] Clean_id [of "Clean s"] by blast

text \<open>
  What \<^verbatim>\<open>Clean\<close> keeps is not always accepted: a colon passes through it unchanged
  and \<^verbatim>\<open>validText\<close> then rejects it, although the comment on \<^verbatim>\<open>Clean\<close> says that it
  replaces the characters that cannot be stored.
\<close>

theorem Clean_not_valid:
  "Clean ''disk:c'' = ''disk:c'' \<and> validText L ''disk:c'' = Some (InvalidCharacter 58)"
proof
  show "Clean ''disk:c'' = ''disk:c''"
    by (rule Clean_id) (simp add: clean_byte_def IsPrint_ascii_def IsSpace_ascii_def isQuery_def ord_def)
  show "validText L ''disk:c'' = Some (InvalidCharacter 58)"
    by (simp add: validText_def validText_loop_ascii ord_def text_byte_def)
qed

end
