(* ===== verification/Numbers.thy ===== *)
theory Numbers
  imports Text
begin

text \<open>
  The number formats of the wire protocol, from \<^verbatim>\<open>internal/tsdb/codec.go\<close>: decimal
  printing and parsing of \<^verbatim>\<open>int64\<close>, timestamps, and the choice between integer and
  floating-point values. All arithmetic is at 64 bits with wrap-around.

  What is proved: parsing is the decimal value reduced modulo \<open>2 ^ 64\<close>, so it never reports
  an overflow; printing and parsing are inverse on every \<^verbatim>\<open>int64\<close> but the least one,
  which prints as \<^verbatim>\<open>-0\<close>; a printed timestamp parses back.
\<close>

section \<open>The errors of the package\<close>

datatype tsdb_error =
    TextError text_error
  | InTag text_error bytes bytes          \<comment> \<open>\<^verbatim>\<open>%v, in tag %q\<close>\<close>
  | TruncatedTags
  | DuplicateTagKey bytes
  | TooManyTags nat
  | TagWithoutValue
  | ZeroTime
  | TimeSyntax bytes
  | IntSyntax bytes
  | FloatSyntax bytes
  | ValueNil
  | ValueType
  | ValueInf
  | ValueNaN
  | PointEmpty
  | PointTooLong nat
  | InvalidMetric tsdb_error
  | InvalidTime tsdb_error
  | InvalidValue tsdb_error
  | InvalidTags tsdb_error

type_synonym 'a result = "tsdb_error + 'a"

section \<open>Printing\<close>

text \<open>The digits, least significant first, appended to \<open>tmp\<close>.\<close>

function appendInt_loop :: "int \<Rightarrow> bytes \<Rightarrow> bytes" where
  "appendInt_loop n tmp =
     (if n \<ge> 10 then appendInt_loop (tdiv n 10) (tmp @ [chr (48 + tmod n 10)])
      else tmp @ [chr (48 + n)])"
  by pat_completeness auto
termination
  by (relation "measure (\<lambda>(n, tmp). nat n)") (auto simp: tdiv_nonneg)

declare appendInt_loop.simps [simp del]

definition appendInt :: "bytes \<Rightarrow> int \<Rightarrow> bytes" where
  "appendInt buf n =
     (let neg = (n < 0);
          n = (if neg then wrap64 (n * -1) else n);
          tmp = appendInt_loop n []
      in (if neg then buf @ ''-'' else buf) @ rev tmp)"

definition appendFloat :: "golib \<Rightarrow> bytes \<Rightarrow> float32 \<Rightarrow> bytes" where
  "appendFloat L buf n =
     (let tmp = lib_FormatFloat L n;
          tmp = (if index_byte tmp (CHR ''.'') = None then tmp @ ''.0'' else tmp)
      in buf @ tmp)"

section \<open>Parsing\<close>

text \<open>The loop \<^verbatim>\<open>n *= 10; n += int64(c - byte('0'))\<close>; \<^const>\<open>None\<close> on a byte that is no digit.\<close>

fun parse_digits :: "int \<Rightarrow> bytes \<Rightarrow> int option" where
  "parse_digits n [] = Some n"
| "parse_digits n (c # cs) =
     (if is_digit c then parse_digits (wrap64 (wrap64 (n * 10) + digit_val c)) cs else None)"

definition parseTime :: "bytes \<Rightarrow> int result" where
  "parseTime b =
     (if \<not> (length b > 0 \<and> (length b \<le> 10 \<or> length b = 13)) then Inl (TimeSyntax b)
      else case parse_digits 0 b of
        None \<Rightarrow> Inl (TimeSyntax b)
      | Some n \<Rightarrow> Inr (if length b = 13 then wrap64 (n * 10 ^ 6) else wrap64 (n * 10 ^ 9)))"

definition parseInt :: "bytes \<Rightarrow> int result" where
  "parseInt b =
     (if b = [] then Inl (IntSyntax b)
      else let neg = (hd b = CHR ''-'');
               ds = (if neg then tl b else b)
           in case parse_digits 0 ds of
                None \<Rightarrow> Inl (IntSyntax b)
              | Some n \<Rightarrow> Inr (if neg then wrap64 (n * -1) else n))"

definition parseFloat :: "golib \<Rightarrow> bytes \<Rightarrow> float32 result" where
  "parseFloat L s =
     (case lib_ParseFloat L s of
        None \<Rightarrow> Inl (FloatSyntax s)
      | Some n \<Rightarrow> Inr (lib_float32 L n))"

text \<open>The values a point holds: the dynamic type of \<^verbatim>\<open>Point.Value()\<close>.\<close>

datatype val = VInt int | VFloat float32

definition parseValue :: "golib \<Rightarrow> bytes \<Rightarrow> val result" where
  "parseValue L b =
     (if index_byte b (CHR ''.'') \<noteq> None
      then rbind (parseFloat L b) (\<lambda>f. Inr (VFloat f))
      else rbind (parseInt b) (\<lambda>n. Inr (VInt n)))"

section \<open>IEEE single precision\<close>

definition f32_exp :: "float32 \<Rightarrow> nat" where
  "f32_exp f = (unat f div 2 ^ 23) mod 256"

definition f32_frac :: "float32 \<Rightarrow> nat" where
  "f32_frac f = unat f mod 2 ^ 23"

definition IsInf :: "float32 \<Rightarrow> bool" where
  "IsInf f \<longleftrightarrow> f32_exp f = 255 \<and> f32_frac f = 0"

definition IsNaN :: "float32 \<Rightarrow> bool" where
  "IsNaN f \<longleftrightarrow> f32_exp f = 255 \<and> f32_frac f \<noteq> 0"

definition f32_zero :: "float32 \<Rightarrow> bool" where
  "f32_zero f \<longleftrightarrow> unat f mod 2 ^ 31 = 0"

text \<open>Go's \<^verbatim>\<open>==\<close> on \<^verbatim>\<open>float32\<close>, and on the interface values that hold the two kinds.\<close>

definition f32_eq :: "float32 \<Rightarrow> float32 \<Rightarrow> bool" where
  "f32_eq a b \<longleftrightarrow> \<not> IsNaN a \<and> \<not> IsNaN b \<and> (a = b \<or> f32_zero a \<and> f32_zero b)"

fun val_eq :: "val \<Rightarrow> val \<Rightarrow> bool" where
  "val_eq (VInt a) (VInt b) = (a = b)"
| "val_eq (VFloat a) (VFloat b) = f32_eq a b"
| "val_eq _ _ = False"

section \<open>Decimal text and its value\<close>

definition dec_value :: "bytes \<Rightarrow> int" where
  "dec_value b = foldl (\<lambda>n c. n * 10 + digit_val c) 0 b"

lemma parse_digits_foldl:
  "\<forall>c \<in> set b. is_digit c \<Longrightarrow> in64 n \<Longrightarrow>
     parse_digits n b = Some (wrap64 (foldl (\<lambda>n c. n * 10 + digit_val c) n b))"
proof (induction b arbitrary: n)
  case (Cons c cs)
  have wrap: "wrap64 (foldl (\<lambda>n c. n * 10 + digit_val c) (wrap64 m) xs) =
      wrap64 (foldl (\<lambda>n c. n * 10 + digit_val c) m xs)" for m xs
  proof (induction xs rule: rev_induct)
    case (snoc x xs)
    then show ?case
      by simp (metis wrap64_add_left wrap64_mult_left)
  qed simp
  from Cons show ?case by (simp add: wrap)
qed simp

lemma parse_digits_eq:
  "parse_digits 0 b = (if \<forall>c \<in> set b. is_digit c then Some (wrap64 (dec_value b)) else None)"
proof (cases "\<forall>c \<in> set b. is_digit c")
  case True
  then show ?thesis by (simp add: parse_digits_foldl dec_value_def in64_iff)
next
  case False
  have "\<not> (\<forall>c \<in> set b. is_digit c) \<Longrightarrow> parse_digits n b = None" for n
    by (induction b arbitrary: n) auto
  with False show ?thesis by simp
qed

lemma dec_value_snoc: "dec_value (b @ [c]) = dec_value b * 10 + digit_val c"
  by (simp add: dec_value_def)

lemma is_digit_chr: "0 \<le> d \<Longrightarrow> d < 10 \<Longrightarrow> is_digit (chr (48 + d)) \<and> digit_val (chr (48 + d)) = d"
  by (auto simp: is_digit_def digit_val_def ord_chr)

lemma dec_value_nonneg: "\<forall>c \<in> set b. is_digit c \<Longrightarrow> 0 \<le> dec_value b"
  by (induction b rule: rev_induct) (auto simp: dec_value_snoc is_digit_def digit_val_def dec_value_def)

lemma dec_value_bound: "\<forall>c \<in> set b. is_digit c \<Longrightarrow> dec_value b < 10 ^ length b"
proof (induction b rule: rev_induct)
  case (snoc c b)
  then have "dec_value b + 1 \<le> 10 ^ length b" "digit_val c < 10"
    by (auto simp: is_digit_def digit_val_def)
  then show ?case by (simp add: dec_value_snoc)
qed (simp add: dec_value_def)

text \<open>The digits of a non-negative number, most significant first.\<close>

definition dec :: "int \<Rightarrow> bytes" where "dec n = rev (appendInt_loop n [])"

lemma appendInt_loop_acc: "appendInt_loop n tmp = tmp @ appendInt_loop n []"
proof (induction "nat n" arbitrary: n tmp rule: less_induct)
  case less
  show ?case
  proof (cases "n \<ge> 10")
    case True
    then have "nat (tdiv n 10) < nat n" by (simp add: tdiv_nonneg)
    then have IH: "appendInt_loop (tdiv n 10) t = t @ appendInt_loop (tdiv n 10) []" for t
      by (rule less)
    have step: "appendInt_loop n t = appendInt_loop (tdiv n 10) (t @ [chr (48 + tmod n 10)])" for t
      using True by (subst appendInt_loop.simps) simp
    show ?thesis
      by (subst (1 2) step, subst (1 2) IH) simp
  qed (simp add: appendInt_loop.simps [of n])
qed

lemma dec_rec:
  "0 \<le> n \<Longrightarrow> dec n = (if n \<ge> 10 then dec (n div 10) @ [chr (48 + n mod 10)] else [chr (48 + n)])"
  using appendInt_loop_acc [of "tdiv n 10" "[chr (48 + tmod n 10)]"]
  by (simp add: dec_def appendInt_loop.simps [of n] tdiv_nonneg tmod_nonneg)

lemma dec_digits: "0 \<le> n \<Longrightarrow> (\<forall>c \<in> set (dec n). is_digit c) \<and> dec_value (dec n) = n"
proof (induction "nat n" arbitrary: n rule: less_induct)
  case less
  show ?case
  proof (cases "n \<ge> 10")
    case True
    then have "nat (n div 10) < nat n" "0 \<le> n div 10" by auto
    from less(1) [OF this] True less(2) is_digit_chr [of "n mod 10"] show ?thesis
      by (auto simp: dec_rec [of n] dec_value_snoc)
  next
    case False
    with less(2) is_digit_chr [of n] show ?thesis
      by (auto simp: dec_rec [of n] dec_value_def)
  qed
qed

lemma dec_ne: "dec n \<noteq> []"
  by (simp add: dec_def appendInt_loop.simps [of n]) (metis appendInt_loop_acc append_is_Nil_conv list.distinct(1))

lemma dec_length: "0 \<le> n \<Longrightarrow> n < 10 ^ k \<Longrightarrow> 0 < k \<Longrightarrow> length (dec n) \<le> k"
proof (induction k arbitrary: n)
  case (Suc k)
  show ?case
  proof (cases "n \<ge> 10")
    case True
    have "n < 10 * m \<Longrightarrow> n div 10 < m" for m by presburger
    with Suc.prems True have "n div 10 < 10 ^ k" "0 < k"
      by (auto intro: gr0I)
    with Suc True show ?thesis by (simp add: dec_rec [of n])
  qed (use Suc.prems in \<open>simp add: dec_rec [of n]\<close>)
qed simp

lemma is_digit_no_sep:
  "is_digit c \<Longrightarrow> c \<noteq> CHR '' '' \<and> c \<noteq> CHR 0x09 \<and> c \<noteq> CHR 0x0A \<and> c \<noteq> CHR ''='' \<and> c \<noteq> CHR ''.'' \<and> c \<noteq> CHR ''-''"
  by (auto simp: is_digit_def ord_def)

lemma appendInt_nonneg: "0 \<le> n \<Longrightarrow> appendInt buf n = buf @ dec n"
  by (simp add: appendInt_def dec_def)

lemma appendInt_neg: "n < 0 \<Longrightarrow> appendInt buf n = buf @ ''-'' @ dec (wrap64 (- n))"
  by (simp add: appendInt_def dec_def)

lemma appendInt_buf: "appendInt buf n = buf @ appendInt [] n"
  by (simp add: appendInt_def Let_def)

text \<open>The bytes an integer prints: digits, after one minus sign if it is negative.\<close>

lemma dec_minInt64: "dec (- 9223372036854775808) = ''0''"
  by (simp add: dec_def appendInt_loop.simps [of "- 9223372036854775808"] chr_def char_of_def bit_0)

lemma appendInt_bytes:
  assumes "in64 n" "c \<in> set (appendInt [] n)"
  shows "is_digit c \<or> c = CHR ''-''"
proof -
  consider "0 \<le> n" | "minInt64 < n" "n < 0" | "n = minInt64"
    using assms(1) by (fastforce simp: in64_def)
  then show ?thesis
  proof cases
    case 1
    with assms(2) dec_digits [of n] show ?thesis by (auto simp: appendInt_nonneg)
  next
    case 2
    then have "wrap64 (- n) = - n" by (simp add: in64_iff minInt64_def)
    with 2 assms(2) dec_digits [of "- n"] show ?thesis by (auto simp: appendInt_neg)
  next
    case 3
    then have "wrap64 (- n) = minInt64" by (simp add: minInt64_def wrap64_def)
    with 3 assms(2) show ?thesis
      by (auto simp: appendInt_neg dec_minInt64 is_digit_def ord_def minInt64_def)
  qed
qed

lemma appendInt_ne: "appendInt [] n \<noteq> []"
  using dec_ne by (cases "n < 0") (auto simp: appendInt_neg appendInt_nonneg)

lemma appendInt_no_sep:
  "in64 n \<Longrightarrow> c \<in> {CHR '' '', CHR 0x09, CHR 0x0A, CHR ''='', CHR ''.''} \<Longrightarrow> c \<notin> set (appendInt [] n)"
  using appendInt_bytes is_digit_no_sep by fastforce

lemma parseInt_dec: "0 \<le> n \<Longrightarrow> in64 n \<Longrightarrow> parseInt (dec n) = Inr n"
proof -
  assume n: "0 \<le> n" "in64 n"
  with dec_digits [of n] have "hd (dec n) \<noteq> CHR ''-''"
    by (metis dec_ne hd_in_set is_digit_no_sep)
  with n dec_digits [of n] dec_ne [of n] show ?thesis
    by (simp add: parseInt_def parse_digits_eq)
qed

lemma parseInt_neg: "0 \<le> n \<Longrightarrow> in64 n \<Longrightarrow> parseInt (CHR ''-'' # dec n) = Inr (- n)"
  using dec_digits [of n] by (simp add: parseInt_def parse_digits_eq) (simp add: in64_iff)

lemma parseInt_appendInt:
  assumes "in64 n" "n \<noteq> minInt64"
  shows "parseInt (appendInt [] n) = Inr n"
proof (cases "n < 0")
  case True
  with assms have "in64 (- n)" by (auto simp: in64_iff minInt64_def)
  with True parseInt_neg [of "- n"] show ?thesis by (simp add: appendInt_neg)
qed (use assms in \<open>simp add: appendInt_nonneg parseInt_dec\<close>)

lemma parseTime_dec:
  assumes "0 \<le> s" "s < 10 ^ 10"
  shows "parseTime (dec s) = Inr (wrap64 (s * 10 ^ 9))"
proof -
  have "length (dec s) \<le> 10" using dec_length assms by simp
  moreover have "in64 s" using assms by (simp add: in64_iff)
  ultimately show ?thesis
    using dec_digits [OF assms(1)] dec_ne [of s] by (simp add: parseTime_def parse_digits_eq)
qed

lemma in64_parseInt: "parseInt b = Inr n \<Longrightarrow> in64 n"
  by (auto simp: parseInt_def parse_digits_eq Let_def split: if_splits)

lemma in64_parseTime: "parseTime b = Inr n \<Longrightarrow> in64 n"
  by (auto simp: parseTime_def parse_digits_eq split: if_splits)

section \<open>Properties\<close>

text \<open>
  Printing an \<^verbatim>\<open>int64\<close> and parsing the text gives the number back, for every
  \<^verbatim>\<open>int64\<close> but the least one.
\<close>

theorem int_roundtrip:
  assumes "in64 n" "n \<noteq> minInt64"
  shows "parseInt (appendInt [] n) = Inr n"
  using assms by (rule parseInt_appendInt)

text \<open>
  The least \<^verbatim>\<open>int64\<close> prints as minus zero, since negating it wraps around, and the
  text parses as zero: the value of the point is lost without an error.
\<close>

theorem int_least_lost:
  "appendInt [] minInt64 = ''-0'' \<and> parseInt (appendInt [] minInt64) = Inr 0"
proof -
  have "wrap64 (- minInt64) = - 9223372036854775808" by (simp add: minInt64_def wrap64_def)
  moreover have "minInt64 < 0" by (simp add: minInt64_def)
  ultimately have "appendInt [] minInt64 = ''-0''" by (simp add: appendInt_neg dec_minInt64)
  then show ?thesis by (simp add: parseInt_def is_digit_def digit_val_def ord_def wrap64_def)
qed

text \<open>
  \<^verbatim>\<open>parseInt\<close> accepts exactly the decimal digits after an optional minus sign (also
  no digit at all after the sign) and yields their value modulo the wrap-around of
  \<^verbatim>\<open>int64\<close>: a number out of range is no error.
\<close>

theorem parseInt_value:
  "parseInt b =
     (if b = [] then Inl (IntSyntax b)
      else if hd b = CHR ''-'' \<and> list_all is_digit (tl b) then Inr (wrap64 (- dec_value (tl b)))
      else if list_all is_digit b then Inr (wrap64 (dec_value b))
      else Inl (IntSyntax b))"
proof -
  have neg: "wrap64 (- wrap64 n) = wrap64 (- n)" for n
    using wrap64_mult_left [of n "- 1"] by simp
  have "hd b = CHR ''-'' \<Longrightarrow> b \<noteq> [] \<Longrightarrow> \<not> list_all is_digit b"
    by (cases b) (auto simp: is_digit_def ord_def)
  then show ?thesis
    by (cases "hd b = CHR ''-''") (auto simp: parseInt_def parse_digits_eq neg list_all_iff Let_def)
qed

text \<open>
  Ten digits of seconds can exceed what \<^verbatim>\<open>int64\<close> nanoseconds hold. Such a time is
  not rejected: it wraps around to one before the epoch, in the year 1677.
\<close>

theorem parseTime_overflow:
  "parseTime ''9223372037'' = Inr (- 9223372036709551616)"
  by (simp add: parseTime_def is_digit_def digit_val_def ord_def wrap64_def)

end
