(* ===== verification/Point.thy ===== *)
theory Point
  imports Numbers
begin

text \<open>
  The data point of \<^verbatim>\<open>internal/tsdb/tsdb.go\<close>: the struct, its setters and their
  validation, and the tag list, which the struct keeps as one byte slice
  \<^verbatim>\<open> k1=v1 k2=v2\<close>. The scratch buffers \<^verbatim>\<open>metricBuf\<close>, \<^verbatim>\<open>tagsBuf\<close> and the
  pool of free points only save allocations and are not part of the state.

  The abstraction \<open>taglist\<close> reads the byte slice as an association list. Against it,
  \<^verbatim>\<open>Tag\<close> is lookup, \<^verbatim>\<open>SetTags\<close> is an update that keeps the other tags in order,
  and \<^verbatim>\<open>setTags\<close> and \<^verbatim>\<open>NewPoint\<close> build only well-formed lists. The slice
  expressions of \<^verbatim>\<open>nextTag\<close> and \<^verbatim>\<open>Tag\<close> can go out of range on other input; that
  panic is a value of the model, and is shown not to happen on well-formed points.
\<close>

section \<open>The struct\<close>

definition maxTimePrecision :: duration where "maxTimePrecision = 1 * second"
definition maxTagsPerPoint :: nat where "maxTagsPerPoint = 8"

record point =
  pt_time :: int
  pt_valueInt :: int
  pt_valueFloat :: float32
  pt_isFloat :: bool
  pt_metric :: bytes
  pt_tags :: bytes

definition newPoint :: point where
  "newPoint = \<lparr>pt_time = 0, pt_valueInt = 0, pt_valueFloat = 0, pt_isFloat = False,
     pt_metric = [], pt_tags = []\<rparr>"

definition reset :: "point \<Rightarrow> point" where
  "reset p = p\<lparr>pt_metric := [], pt_tags := [], pt_isFloat := False\<rparr>"

text \<open>\<^verbatim>\<open>getPoint\<close> takes a point from the pool, which holds points freed in any state.\<close>

definition getPoint :: "point \<Rightarrow> point" where
  "getPoint pooled = reset pooled"

definition Copy :: "point \<Rightarrow> point" where "Copy p = p"

definition Value :: "point \<Rightarrow> val" where
  "Value p = (if pt_isFloat p then VFloat (pt_valueFloat p) else VInt (pt_valueInt p))"

definition Metric :: "point \<Rightarrow> bytes" where "Metric p = pt_metric p"

definition Time :: "point \<Rightarrow> time" where "Time p = pt_time p"

definition Equal :: "point \<Rightarrow> point \<Rightarrow> bool" where
  "Equal p q \<longleftrightarrow> pt_time p = pt_time q \<and> val_eq (Value p) (Value q) \<and>
     pt_metric p = pt_metric q \<and> pt_tags p = pt_tags q"

section \<open>Time and value\<close>

definition validateTime :: "time \<Rightarrow> int result" where
  "validateTime t =
     (if t = zeroTime then Inl ZeroTime else Inr (UnixNano (Truncate t maxTimePrecision)))"

definition setTime :: "time \<Rightarrow> point \<Rightarrow> point result" where
  "setTime t p = rbind (validateTime t) (\<lambda>n. Inr (p\<lparr>pt_time := n\<rparr>))"

text \<open>The dynamic types \<^verbatim>\<open>SetValue\<close> and \<^verbatim>\<open>NewPoint\<close> tell apart.\<close>

datatype goval =
    GNil | GInt int | GInt8 int | GInt16 int | GInt32 int | GInt64 int
  | GUint int | GUint8 int | GUint16 int | GUint32 int | GUint64 int
  | GFloat32 float32 | GFloat64 float64
  | GBytes "bytes option" | GString bytes | GOther

definition validate_float :: "float32 \<Rightarrow> val result" where
  "validate_float n =
     (if IsInf n then Inl ValueInf else if IsNaN n then Inl ValueNaN else Inr (VFloat n))"

fun validateValue :: "golib \<Rightarrow> goval \<Rightarrow> val result" where
  "validateValue L GNil = Inl ValueNil"
| "validateValue L (GInt n) = Inr (VInt (wrap64 n))"
| "validateValue L (GInt8 n) = Inr (VInt (wrap64 n))"
| "validateValue L (GInt16 n) = Inr (VInt (wrap64 n))"
| "validateValue L (GInt32 n) = Inr (VInt (wrap64 n))"
| "validateValue L (GInt64 n) = Inr (VInt n)"
| "validateValue L (GUint n) = Inr (VInt (wrap64 n))"
| "validateValue L (GUint8 n) = Inr (VInt (wrap64 n))"
| "validateValue L (GUint16 n) = Inr (VInt (wrap64 n))"
| "validateValue L (GUint32 n) = Inr (VInt (wrap64 n))"
| "validateValue L (GUint64 n) = Inr (VInt (wrap64 n))"
| "validateValue L (GFloat32 n) = validate_float n"
| "validateValue L (GFloat64 n) = validate_float (lib_float32 L n)"
| "validateValue L _ = Inl ValueType"

fun setValueValid :: "val \<Rightarrow> point \<Rightarrow> point" where
  "setValueValid (VFloat n) p = p\<lparr>pt_isFloat := True, pt_valueFloat := n\<rparr>"
| "setValueValid (VInt n) p = p\<lparr>pt_isFloat := False, pt_valueInt := n\<rparr>"

definition setValue :: "golib \<Rightarrow> goval \<Rightarrow> point \<Rightarrow> point result" where
  "setValue L v p = rbind (validateValue L v) (\<lambda>v. Inr (setValueValid v p))"

fun goval_of_val :: "val \<Rightarrow> goval" where
  "goval_of_val (VInt n) = GInt64 n"
| "goval_of_val (VFloat n) = GFloat32 n"

definition setValueBytes :: "golib \<Rightarrow> bytes option \<Rightarrow> point \<Rightarrow> point result" where
  "setValueBytes L b p =
     (case b of
        None \<Rightarrow> Inl ValueNil
      | Some b \<Rightarrow> rbind (parseValue L b) (\<lambda>v. setValue L (goval_of_val v) p))"

definition SetValue :: "golib \<Rightarrow> goval \<Rightarrow> point \<Rightarrow> point result" where
  "SetValue L v p =
     rmap_err InvalidValue
       (case v of
          GBytes b \<Rightarrow> setValueBytes L b p
        | GString s \<Rightarrow> setValueBytes L (Some s) p
        | _ \<Rightarrow> setValue L v p)"

section \<open>Metric\<close>

definition validMetric :: "golib \<Rightarrow> bytes \<Rightarrow> unit result" where
  "validMetric L b = (case validText L b of Some e \<Rightarrow> Inl (TextError e) | None \<Rightarrow> Inr ())"

definition setMetric :: "golib \<Rightarrow> bytes \<Rightarrow> point \<Rightarrow> point result" where
  "setMetric L b p = rbind (validMetric L b) (\<lambda>_. Inr (p\<lparr>pt_metric := b\<rparr>))"

definition SetMetric :: "golib \<Rightarrow> bytes \<Rightarrow> point \<Rightarrow> point result" where
  "SetMetric L s p = rmap_err InvalidMetric (setMetric L s p)"

section \<open>Tags\<close>

definition validTag :: "golib \<Rightarrow> bytes \<Rightarrow> bytes \<Rightarrow> unit result" where
  "validTag L k v =
     (case validText L k of
        Some e \<Rightarrow> Inl (InTag e k v)
      | None \<Rightarrow> (case validText L v of Some e \<Rightarrow> Inl (InTag e k v) | None \<Rightarrow> Inr ()))"

text \<open>The four appends that write one tag.\<close>

definition tag_text :: "bytes \<Rightarrow> bytes \<Rightarrow> bytes" where
  "tag_text k v = '' '' @ k @ ''='' @ v"

text \<open>\<^verbatim>\<open>nextTag\<close> slices by the positions of the first \<^verbatim>\<open>=\<close> and the next blank.\<close>

definition nextTag :: "bytes \<Rightarrow> (bytes \<times> bytes \<times> bytes) option" where
  "nextTag buf =
     (if buf = [] then None
      else case index_byte buf (CHR ''='') of
        None \<Rightarrow> None
      | Some i \<Rightarrow>
          if i < 1 then None
          else (case index_byte (drop 1 buf) (CHR '' '') of
              None \<Rightarrow> Some (take (i - 1) (drop 1 buf), drop (i + 1) buf, [])
            | Some j \<Rightarrow>
                if j + 1 < i + 1 then None
                else Some (take (i - 1) (drop 1 buf),
                           take (j + 1 - (i + 1)) (drop (i + 1) buf),
                           drop (j + 1) buf)))"

lemma nextTag_shorter: "nextTag buf = Some (k, v, rest) \<Longrightarrow> length rest < length buf"
  by (cases buf) (auto simp: nextTag_def split: option.splits if_splits)

text \<open>The loop of \<^verbatim>\<open>Tag\<close>: the outer option is a panic, the inner one the \<^verbatim>\<open>nil\<close> slice.\<close>

function Tag_loop :: "bytes \<Rightarrow> bytes \<Rightarrow> bytes option option" where
  "Tag_loop key tags =
     (case index_sub tags key of
        None \<Rightarrow> Some None
      | Some i \<Rightarrow>
          if drop (i + length key) tags = [] then Some None
          else if i = 0 then None
          else if tags ! (i - 1) = CHR '' '' \<and> tags ! (i + length key) = CHR ''='' then
            (let v = drop (i + length key + 1) tags in
             Some (Some (case index_byte v (CHR '' '') of
                           Some j \<Rightarrow> if j > 0 then take j v else v
                         | None \<Rightarrow> v)))
          else (case index_byte (drop 1 tags) (CHR '' '') of
                  None \<Rightarrow> Some None
                | Some j \<Rightarrow> Tag_loop key (drop (j + 1) tags)))"
  by pat_completeness auto
termination
  by (relation "measure (\<lambda>(key, tags). length tags)")
    (auto simp: neq_Nil_conv intro!: diff_less gr0I)

declare Tag_loop.simps [simp del]

definition Tag :: "bytes \<Rightarrow> point \<Rightarrow> bytes option option" where
  "Tag key p = (if CHR '' '' \<in> set key then Some None else Tag_loop key (pt_tags p))"

text \<open>The loop over the new tags of \<^verbatim>\<open>SetTags\<close>, which appends to \<open>tags\<close> and \<open>keys\<close>.\<close>

fun SetTags_new :: "golib \<Rightarrow> bytes list \<Rightarrow> bytes \<Rightarrow> bytes list \<Rightarrow> (bytes \<times> bytes list) result" where
  "SetTags_new L (k # v # rest) tags keys =
     rbind (validTag L k v) (\<lambda>_. SetTags_new L rest (tags @ tag_text k v) (keys @ [k]))"
| "SetTags_new L _ tags keys = Inr (tags, keys)"

text \<open>The loop over the old ones; \<open>seen\<close> counts all tags.\<close>

function SetTags_old :: "bytes list \<Rightarrow> bytes \<Rightarrow> bytes \<Rightarrow> bytes list \<Rightarrow> (bytes \<times> bytes list) option" where
  "SetTags_old keys buf tags seen =
     (if buf = [] then Some (tags, seen)
      else case nextTag buf of
        None \<Rightarrow> None
      | Some (k, v, rest) \<Rightarrow>
          if k \<in> set keys then SetTags_old keys rest tags seen
          else SetTags_old keys rest (tags @ tag_text k v) (seen @ [k]))"
  by pat_completeness auto
termination
  by (relation "measure (\<lambda>(keys, buf, tags, seen). length buf)") (auto simp: nextTag_shorter)

declare SetTags_old.simps [simp del]

definition SetTags :: "golib \<Rightarrow> bytes list \<Rightarrow> point \<Rightarrow> point result option" where
  "SetTags L keyval p =
     (if length keyval > 0 \<and> length keyval mod 2 = 1 then Some (Inl TagWithoutValue)
      else case SetTags_new L keyval [] [] of
        Inl e \<Rightarrow> Some (Inl e)
      | Inr (tags, keys) \<Rightarrow>
          (case SetTags_old keys (pt_tags p) tags keys of
             None \<Rightarrow> None
           | Some (tags, seen) \<Rightarrow>
               if length seen > maxTagsPerPoint then Some (Inl (TooManyTags (length seen)))
               else Some (Inr (p\<lparr>pt_tags := tags\<rparr>))))"

text \<open>The loop that \<^verbatim>\<open>XAppendTags\<close> and \<^verbatim>\<open>NewPoint\<close> share: names and values alternate.\<close>

fun append_nameval :: "bool \<Rightarrow> bytes list \<Rightarrow> bytes \<Rightarrow> bytes" where
  "append_nameval isKey [] buf = buf"
| "append_nameval isKey (s # ss) buf =
     append_nameval (\<not> isKey) ss (buf @ (if isKey then '' '' else ''='') @ s)"

definition XAppendTags :: "bytes list \<Rightarrow> point \<Rightarrow> point" where
  "XAppendTags nameval p = p\<lparr>pt_tags := append_nameval True nameval (pt_tags p)\<rparr>"

section \<open>Scanning\<close>

definition isSpace :: "char \<Rightarrow> bool" where
  "isSpace ch \<longleftrightarrow> ch = CHR '' '' \<or> ch = CHR 0x09"

definition skipSpace :: "bytes \<Rightarrow> bytes" where
  "skipSpace b = dropWhile isSpace b"

definition skipNonSpace :: "bytes \<Rightarrow> bytes \<times> bytes" where
  "skipNonSpace b = (takeWhile (\<lambda>ch. \<not> isSpace ch) b, dropWhile (\<lambda>ch. \<not> isSpace ch) b)"

definition skipNonSpaceNorm :: "bytes \<Rightarrow> bytes \<times> bytes" where
  "skipNonSpaceNorm b =
     (case index_byte b (CHR '' '') of
        Some i \<Rightarrow> if i > 0 then (take i b, drop i b) else (b, [])
      | None \<Rightarrow> (b, []))"

text \<open>The two functions that are passed to \<^verbatim>\<open>setTags\<close>.\<close>

definition skipNSP :: "bool \<Rightarrow> bytes \<Rightarrow> bytes \<times> bytes" where
  "skipNSP norm = (if norm then skipNonSpaceNorm else skipNonSpace)"

lemma skipNSP_shorter:
  assumes "skipSpace buf \<noteq> []"
  shows "length (snd (skipNSP norm (skipSpace buf))) < length buf"
proof -
  obtain c cs where b: "skipSpace buf = c # cs" using assms by (cases "skipSpace buf") auto
  then have "\<not> isSpace c" unfolding skipSpace_def by (simp add: dropWhile_eq_Cons_conv)
  then have "length (snd (skipNSP norm (c # cs))) < length (c # cs)"
    using length_dropWhile_le [of "\<lambda>ch. \<not> isSpace ch" cs]
    by (auto simp: skipNSP_def skipNonSpace_def skipNonSpaceNorm_def isSpace_def
        split: option.splits)
  moreover have "length (skipSpace buf) \<le> length buf"
    by (simp add: skipSpace_def length_dropWhile_le)
  ultimately show ?thesis using b by simp
qed

lemma skipNSP_shorter_pair:
  "skipSpace buf \<noteq> [] \<Longrightarrow> (tag, rest) = skipNSP norm (skipSpace buf) \<Longrightarrow> length rest < length buf"
  using skipNSP_shorter [of buf norm] by (cases "skipNSP norm (skipSpace buf)") simp

function setTags_loop ::
  "golib \<Rightarrow> bool \<Rightarrow> bytes \<Rightarrow> bytes list \<Rightarrow> bytes \<Rightarrow> (bytes list \<times> bytes) result" where
  "setTags_loop L norm buf seen tags =
     (if skipSpace buf = [] then Inr (seen, tags)
      else let (tag, rest) = skipNSP norm (skipSpace buf) in
        case index_byte tag (CHR ''='') of
          None \<Rightarrow> Inl TruncatedTags
        | Some i \<Rightarrow>
            let k = take i tag; v = drop (i + 1) tag in
            (case validTag L k v of
               Inl e \<Rightarrow> Inl e
             | Inr _ \<Rightarrow>
                 if k \<in> set seen then Inl (DuplicateTagKey k)
                 else setTags_loop L norm rest (seen @ [k]) (tags @ tag_text k v)))"
  by pat_completeness auto
termination
  by (relation "measure (\<lambda>(L, norm, buf, seen, tags). length buf)")
    (simp_all add: skipNSP_shorter_pair)

declare setTags_loop.simps [simp del]

definition setTags :: "golib \<Rightarrow> bool \<Rightarrow> bytes \<Rightarrow> point \<Rightarrow> point result" where
  "setTags L norm buf p =
     rbind (setTags_loop L norm buf [] []) (\<lambda>(seen, tags).
       if length seen > maxTagsPerPoint then Inl (TooManyTags (length seen))
       else Inr (p\<lparr>pt_tags := if length seen > 0 then tags else []\<rparr>))"

definition NewPoint ::
  "golib \<Rightarrow> point \<Rightarrow> time \<Rightarrow> goval \<Rightarrow> bytes \<Rightarrow> bytes list \<Rightarrow> point result" where
  "NewPoint L pooled t value metric keyval =
     (let p = getPoint pooled in
      rbind (rmap_err InvalidTime (setTime t p)) (\<lambda>p.
      rbind (SetValue L value p) (\<lambda>p.
      rbind (SetMetric L metric p) (\<lambda>p.
      rmap_err InvalidTags (setTags L True (append_nameval True keyval []) p)))))"

section \<open>The tag slice as an association list\<close>

definition render :: "(bytes \<times> bytes) list \<Rightarrow> bytes" where
  "render kvs = concat (map (\<lambda>(k, v). tag_text k v) kvs)"

function taglist :: "bytes \<Rightarrow> (bytes \<times> bytes) list" where
  "taglist buf =
     (if buf = [] then []
      else case nextTag buf of None \<Rightarrow> [] | Some (k, v, rest) \<Rightarrow> (k, v) # taglist rest)"
  by pat_completeness auto
termination
  by (relation "measure length") (auto simp: nextTag_shorter)

declare taglist.simps [simp del]

definition tags_ok :: "golib \<Rightarrow> (bytes \<times> bytes) list \<Rightarrow> bool" where
  "tags_ok L kvs \<longleftrightarrow> (\<forall>(k, v) \<in> set kvs. text_ok L k \<and> text_ok L v)"

definition wf_tags :: "golib \<Rightarrow> bytes \<Rightarrow> bool" where
  "wf_tags L b \<longleftrightarrow> render (taglist b) = b \<and> tags_ok L (taglist b) \<and>
     distinct (map fst (taglist b)) \<and> length (taglist b) \<le> maxTagsPerPoint"

lemma render_simps [simp]:
  "render [] = []"
  "render ((k, v) # kvs) = tag_text k v @ render kvs"
  "render (xs @ ys) = render xs @ render ys"
  by (simp_all add: render_def)

lemma tags_ok_simps [simp]:
  "tags_ok L []"
  "tags_ok L ((k, v) # kvs) \<longleftrightarrow> text_ok L k \<and> text_ok L v \<and> tags_ok L kvs"
  "tags_ok L (xs @ ys) \<longleftrightarrow> tags_ok L xs \<and> tags_ok L ys"
  by (auto simp: tags_ok_def)

lemma render_hd: "render kvs = [] \<or> (\<exists>r. render kvs = CHR '' '' # r)"
  by (cases kvs) (auto simp: tag_text_def)

lemma render_eq_Nil [simp]: "render kvs = [] \<longleftrightarrow> kvs = []"
  by (cases kvs) (auto simp: tag_text_def)

lemma validTag_ok [simp]: "validTag L k v = Inr u \<longleftrightarrow> text_ok L k \<and> text_ok L v"
  by (auto simp: validTag_def split: option.splits)

lemma index_byte_value:
  "text_ok L v \<Longrightarrow> index_byte (v @ render kvs) (CHR '' '') = (if kvs = [] then None else Some (length v))"
  using render_hd [of kvs] by auto

lemma nextTag_render:
  assumes "text_ok L k" "text_ok L v"
  shows "nextTag (tag_text k v @ render kvs) = Some (k, v, render kvs)"
  using assms render_hd [of kvs] by (auto simp: nextTag_def tag_text_def)

lemma taglist_render: "tags_ok L kvs \<Longrightarrow> taglist (render kvs) = kvs"
proof (induction kvs)
  case (Cons kv kvs)
  obtain k v where kv: "kv = (k, v)" by (cases kv)
  with Cons have "nextTag (render (kv # kvs)) = Some (k, v, render kvs)"
    by (simp add: nextTag_render [of L])
  with Cons kv show ?case by (subst taglist.simps) (simp add: tag_text_def)
qed (simp add: taglist.simps)

lemma wf_tags_render:
  "tags_ok L kvs \<Longrightarrow> distinct (map fst kvs) \<Longrightarrow> length kvs \<le> maxTagsPerPoint \<Longrightarrow> wf_tags L (render kvs)"
  by (simp add: wf_tags_def taglist_render)

lemma wf_tagsE:
  assumes "wf_tags L b"
  obtains kvs where "b = render kvs" "taglist b = kvs" "tags_ok L kvs"
    "distinct (map fst kvs)" "length kvs \<le> maxTagsPerPoint"
  using assms unfolding wf_tags_def by metis

lemma wf_tags_Nil [simp]: "wf_tags L []"
  using wf_tags_render [of L "[]"] by simp

subsection \<open>Tag is lookup\<close>

lemma render_hit:
  assumes "tags_ok L kvs" "CHR '' '' \<notin> set key" "render kvs = a @ '' '' @ key @ ''='' @ b"
  shows "\<exists>kvs1 v kvs2. kvs = kvs1 @ (key, v) # kvs2 \<and> a = render kvs1 \<and> b = v @ render kvs2"
  using assms
proof (induction kvs arbitrary: a)
  case (Cons kv kvs)
  obtain k v where kv: "kv = (k, v)" by (cases kv)
  with Cons.prems have ok: "text_ok L k" "text_ok L v" "tags_ok L kvs" by auto
  show ?case
  proof (cases a)
    case Nil
    with Cons.prems kv have eq: "k @ ''='' @ v @ render kvs = key @ CHR ''='' # b"
      by (simp add: tag_text_def)
    obtain w where w: "key = k @ w" "''='' @ v @ render kvs = w @ CHR ''='' # b"
      using append_sep_split [OF _ eq] ok by auto
    have "w = []"
    proof (rule ccontr)
      assume "w \<noteq> []"
      with w obtain w' where w': "w = CHR ''='' # w'" "v @ render kvs = w' @ CHR ''='' # b"
        by (cases w) auto
      obtain u where "w' = v @ u" "render kvs = u @ CHR ''='' # b"
        using append_sep_split [OF _ w'(2)] ok by auto
      with render_hd [of kvs] w w' Cons.prems(2) show False by (cases u) auto
    qed
    with w kv Nil show ?thesis by force
  next
    case (Cons c a')
    with Cons.prems kv have "c = CHR '' ''" and
      eq: "(k @ ''='' @ v) @ render kvs = a' @ CHR '' '' # key @ ''='' @ b"
      by (simp_all add: tag_text_def)
    obtain a'' where
      "a' = (k @ ''='' @ v) @ a''" "render kvs = a'' @ '' '' @ key @ ''='' @ b"
      using append_sep_split [OF _ eq] ok by auto
    moreover from this Cons.IH [OF ok(3) Cons.prems(2)] obtain kvs1 v' kvs2 where
      "kvs = kvs1 @ (key, v') # kvs2" "a'' = render kvs1" "b = v' @ render kvs2" by blast
    ultimately show ?thesis
      using kv \<open>a = c # a'\<close> \<open>c = CHR '' ''\<close>
      by (intro exI [of _ "(k, v) # kvs1"] exI [of _ v'] exI [of _ kvs2]) (auto simp: tag_text_def)
  qed
qed simp

lemma render_split_key:
  "map_of kvs key = Some v \<Longrightarrow> \<exists>kvs1 kvs2. kvs = kvs1 @ (key, v) # kvs2 \<and> key \<notin> fst ` set kvs1"
proof (induction kvs)
  case (Cons kv kvs)
  show ?case
  proof (cases "fst kv = key")
    case True
    with Cons.prems show ?thesis by (cases kv) force
  next
    case False
    with Cons obtain kvs1 kvs2 where "kvs = kvs1 @ (key, v) # kvs2" "key \<notin> fst ` set kvs1" by auto
    with False show ?thesis by (intro exI [of _ "kv # kvs1"] exI [of _ kvs2]) auto
  qed
qed simp

text \<open>An occurrence of the key as a tag is an occurrence of its bytes, followed by more.\<close>

lemma render_key_at:
  assumes "map_of kvs key = Some v"
  obtains kvs1 kvs2 where "kvs = kvs1 @ (key, v) # kvs2" "key \<notin> fst ` set kvs1"
    "render kvs = (render kvs1 @ '' '') @ key @ ''='' @ v @ render kvs2"
  using render_split_key [OF assms] by (auto simp: tag_text_def)

lemma render_no_earlier:
  assumes "index_sub (render kvs) key = Some i" "kvs = kvs1 @ kvs2" "i > length (render kvs1)"
  shows "key \<notin> fst ` set kvs1"
proof
  assume "key \<in> fst ` set kvs1"
  then obtain w where "map_of kvs1 key = Some w" by (metis map_of_eq_None_iff not_None_eq)
  then obtain ks1 ks2 where "render kvs1 = (render ks1 @ '' '') @ key @ ''='' @ w @ render ks2"
    by (rule render_key_at)
  with index_sub_least [OF assms(1), of "render ks1 @ '' ''" "''='' @ w @ render ks2 @ render kvs2"] assms(2,3)
  show False by simp
qed

lemma Tag_loop_hit:
  assumes "tags_ok L kvs" "CHR '' '' \<notin> set key" "index_sub (render kvs) key = Some i"
    and eq: "render kvs = (a @ '' '') @ key @ ''='' @ b" and i: "i = length (a @ '' '')"
  shows "Tag_loop key (render kvs) = Some (map_of kvs key)"
proof -
  obtain kvs1 w kvs2 where kvs: "kvs = kvs1 @ (key, w) # kvs2" "a = render kvs1" "b = w @ render kvs2"
    using render_hit [OF assms(1,2), of a b] eq by auto
  have "key \<notin> fst ` set kvs1"
    using render_no_earlier [OF assms(3) kvs(1)] i kvs(2) by simp
  then have "map_of kvs1 key = None" by (simp add: map_of_eq_None_iff)
  then have m: "map_of kvs key = Some w" using kvs(1) by (simp add: map_add_def)
  have w: "text_ok L w" using assms(1) kvs(1) by simp
  have "Tag_loop key (render kvs) =
      Some (Some (case index_byte b (CHR '' '') of Some j \<Rightarrow> if j > 0 then take j b else b | None \<Rightarrow> b))"
    using assms(3) i by (subst Tag_loop.simps) (simp add: eq nth_append)
  also have "\<dots> = Some (Some w)"
    using w text_ok_ne [OF w] by (simp add: kvs(3) index_byte_value [OF w])
  finally show ?thesis by (simp add: m)
qed

lemma Tag_loop_render:
  assumes "tags_ok L kvs" "key \<noteq> []" "CHR '' '' \<notin> set key"
  shows "Tag_loop key (render kvs) = Some (map_of kvs key)"
  using assms(1)
proof (induction kvs)
  case Nil
  show ?case using assms(2) by (simp add: Tag_loop.simps)
next
  case (Cons kv kvs)
  obtain k v where kv: "kv = (k, v)" by (cases kv)
  with Cons.prems have ok: "text_ok L k" "text_ok L v" "tags_ok L kvs" by auto
  let ?T = "render (kv # kvs)"
  have T: "?T = '' '' @ k @ ''='' @ v @ render kvs" by (simp add: kv tag_text_def)
  show ?case
  proof (cases "index_sub ?T key")
    case None
    then have "map_of (kv # kvs) key = None"
      using render_key_at [of "kv # kvs" key] by (metis index_sub_None_iff not_Some_eq)
    with None show ?thesis by (subst Tag_loop.simps) simp
  next
    case (Some i)
    then obtain a b where ab: "?T = a @ key @ b" "i = length a" by (rule index_sub_SomeE)
    note least = index_sub_least [OF Some]
    have a: "a \<noteq> []" using ab(1) T assms(2,3) by (cases key) auto
    consider (last) "b = []" | (hit) "b \<noteq> []" "last a = CHR '' ''" "hd b = CHR ''=''"
      | (miss) "b \<noteq> []" "\<not> (last a = CHR '' '' \<and> hd b = CHR ''='')"
      by blast
    then show ?thesis
    proof cases
      case last
      have "map_of (kv # kvs) key = None"
      proof (rule ccontr)
        assume "map_of (kv # kvs) key \<noteq> None"
        then obtain w kvs1 kvs2 where
          eq: "?T = (render kvs1 @ '' '') @ key @ ''='' @ w @ render kvs2"
          by (metis render_key_at not_None_eq)
        have "length ?T = i + length key" using ab last by simp
        moreover have "length ?T > length (render kvs1 @ '' '') + length key" by (simp add: eq)
        ultimately show False using least [OF eq] by simp
      qed
      with Some ab last show ?thesis by (subst Tag_loop.simps) simp
    next
      case hit
      then have "a = butlast a @ '' ''" "b = ''='' @ tl b"
        using a by (metis append_butlast_last_id) (use hit in \<open>cases b; simp\<close>)
      with ab show ?thesis
        using Tag_loop_hit [OF Cons.prems assms(3) Some, of "butlast a" "tl b"]
        by (metis append.assoc)
    next
      case miss
      have nth: "?T ! (i - 1) = last a" "?T ! (i + length key) = hd b" "drop (i + length key) ?T \<noteq> []"
        unfolding ab using a miss(1) by (simp_all add: nth_append last_conv_nth hd_conv_nth)
      have "k \<noteq> key"
      proof
        assume "k = key"
        with T least [of "'' ''" "''='' @ v @ render kvs"] a ab(2) have "i = 1"
          by (cases a) auto
        with T \<open>k = key\<close> nth miss show False by (simp add: nth_append)
      qed
      have ib: "index_byte (drop 1 ?T) (CHR '' '') =
          (if kvs = [] then None else Some (length (k @ ''='' @ v)))"
        using ok render_hd [of kvs] unfolding T by auto
      have "Tag_loop key ?T = (case index_byte (drop 1 ?T) (CHR '' '') of
            None \<Rightarrow> Some None | Some j \<Rightarrow> Tag_loop key (drop (j + 1) ?T))"
        using Some a ab(2) nth miss(2)
        by (subst Tag_loop.simps) (auto simp del: render_simps)
      also have "\<dots> = Some (map_of kvs key)"
        unfolding ib using Cons.IH [OF ok(3)] by (simp add: T del: render_simps)
      finally show ?thesis using \<open>k \<noteq> key\<close> by (simp add: kv)
    qed
  qed
qed

lemma Tag_spec:
  assumes "wf_tags L (pt_tags p)" "key \<noteq> []"
  shows "Tag key p = Some (map_of (taglist (pt_tags p)) key)"
proof -
  obtain kvs where kvs: "pt_tags p = render kvs" "taglist (pt_tags p) = kvs" "tags_ok L kvs"
    using assms(1) by (rule wf_tagsE)
  show ?thesis
  proof (cases "CHR '' '' \<in> set key")
    case True
    then have "map_of kvs key = None"
      using kvs(3) text_ok_seps(1) by (fastforce simp: tags_ok_def map_of_eq_None_iff)
    with True kvs show ?thesis by (simp add: Tag_def)
  next
    case False
    with kvs assms(2) show ?thesis by (simp add: Tag_def Tag_loop_render [of L])
  qed
qed

subsection \<open>SetTags is update\<close>

text \<open>The argument list as pairs; the last one is left out when it has no value.\<close>

fun pairs :: "bytes list \<Rightarrow> (bytes \<times> bytes) list" where
  "pairs (k # v # rest) = (k, v) # pairs rest"
| "pairs _ = []"

definition set_tags :: "(bytes \<times> bytes) list \<Rightarrow> (bytes \<times> bytes) list \<Rightarrow> (bytes \<times> bytes) list" where
  "set_tags new old = new @ filter (\<lambda>(k, v). k \<notin> fst ` set new) old"

lemma SetTags_new_ok:
  "tags_ok L (pairs kv) \<Longrightarrow>
     SetTags_new L kv tags keys = Inr (tags @ render (pairs kv), keys @ map fst (pairs kv))"
  by (induction L kv tags keys rule: SetTags_new.induct) (auto simp: rbind_eq_Inr)

lemma SetTags_new_err:
  "\<not> tags_ok L (pairs kv) \<Longrightarrow> \<exists>k v e. (k, v) \<in> set (pairs kv) \<and> SetTags_new L kv tags keys = Inl (InTag e k v)"
proof (induction L kv tags keys rule: SetTags_new.induct)
  case (1 L k v rest tags keys)
  show ?case
  proof (cases "validTag L k v")
    case (Inl e)
    then obtain e' where "e = InTag e' k v" by (auto simp: validTag_def split: option.splits)
    with Inl show ?thesis by auto
  next
    case (Inr u)
    with "1.prems" have "\<not> tags_ok L (pairs rest)" by simp
    then obtain k' v' e where h: "(k', v') \<in> set (pairs rest)"
      "SetTags_new L rest (tags @ tag_text k v) (keys @ [k]) = Inl (InTag e k' v')"
      using "1.IH" by blast
    have "SetTags_new L (k # v # rest) tags keys = Inl (InTag e k' v')"
      by (simp add: Inr h(2))
    with h(1) show ?thesis by (intro exI [of _ k'] exI [of _ v'] exI [of _ e]) simp
  qed
qed auto

lemma SetTags_old_render:
  "tags_ok L kvs \<Longrightarrow> SetTags_old keys (render kvs) tags seen =
     Some (tags @ render (filter (\<lambda>(k, v). k \<notin> set keys) kvs),
           seen @ map fst (filter (\<lambda>(k, v). k \<notin> set keys) kvs))"
proof (induction kvs arbitrary: tags seen)
  case (Cons kv kvs)
  obtain k v where kv: "kv = (k, v)" by (cases kv)
  with Cons.prems have "nextTag (render (kv # kvs)) = Some (k, v, render kvs)"
    by (simp add: nextTag_render [of L])
  with Cons kv show ?case by (subst SetTags_old.simps) (auto simp: tag_text_def)
qed (simp add: SetTags_old.simps)

lemma SetTags_spec:
  assumes "wf_tags L (pt_tags p)" "even (length kv)"
  defines "new \<equiv> set_tags (pairs kv) (taglist (pt_tags p))"
  shows "tags_ok L (pairs kv) \<Longrightarrow> SetTags L kv p =
      Some (if length new > maxTagsPerPoint then Inl (TooManyTags (length new))
            else Inr (p\<lparr>pt_tags := render new\<rparr>))"
    and "\<not> tags_ok L (pairs kv) \<Longrightarrow>
      \<exists>k v e. (k, v) \<in> set (pairs kv) \<and> SetTags L kv p = Some (Inl (InTag e k v))"
proof -
  obtain kvs where kvs: "pt_tags p = render kvs" "taglist (pt_tags p) = kvs" "tags_ok L kvs"
    using assms(1) by (rule wf_tagsE)
  show "SetTags L kv p = Some (if length new > maxTagsPerPoint then Inl (TooManyTags (length new))
            else Inr (p\<lparr>pt_tags := render new\<rparr>))" if "tags_ok L (pairs kv)"
    using that assms(2) kvs
    by (auto simp: SetTags_def SetTags_new_ok SetTags_old_render [of L] new_def set_tags_def)
  show "\<exists>k v e. (k, v) \<in> set (pairs kv) \<and> SetTags L kv p = Some (Inl (InTag e k v))"
    if "\<not> tags_ok L (pairs kv)"
    using SetTags_new_err [OF that, of "[]" "[]"] assms(2) by (auto simp: SetTags_def)
qed

lemma tags_ok_filter: "tags_ok L kvs \<Longrightarrow> tags_ok L (filter P kvs)"
  by (auto simp: tags_ok_def)

lemma set_tags_ok: "tags_ok L new \<Longrightarrow> tags_ok L old \<Longrightarrow> tags_ok L (set_tags new old)"
  by (simp add: set_tags_def tags_ok_filter)

lemma set_tags_distinct:
  "distinct (map fst new) \<Longrightarrow> distinct (map fst old) \<Longrightarrow> distinct (map fst (set_tags new old))"
  by (auto simp: set_tags_def distinct_map_filter intro: rev_image_eqI)

lemma map_of_set_tags:
  "map_of (set_tags new old) k = (case map_of new k of Some v \<Rightarrow> Some v | None \<Rightarrow> map_of old k)"
proof (cases "map_of new k")
  case None
  then have "k \<notin> fst ` set new" by (simp add: map_of_eq_None_iff)
  then have "map_of (filter (\<lambda>(k, v). k \<notin> fst ` set new) old) k = map_of old k"
    by (induction old) (auto intro: rev_image_eqI)
  with None show ?thesis by (simp add: set_tags_def map_add_def)
qed (simp add: set_tags_def map_add_def)

lemma SetTags_wf:
  assumes "wf_tags L (pt_tags p)" "even (length kv)" "distinct (map fst (pairs kv))"
    and "SetTags L kv p = Some (Inr q)"
  shows "wf_tags L (pt_tags q)" "taglist (pt_tags q) = set_tags (pairs kv) (taglist (pt_tags p))"
proof -
  let ?new = "set_tags (pairs kv) (taglist (pt_tags p))"
  have ok: "tags_ok L (pairs kv)"
    using SetTags_spec(2) [OF assms(1,2)] assms(4) by force
  from assms(1) have old: "tags_ok L (taglist (pt_tags p))" "distinct (map fst (taglist (pt_tags p)))"
    by (auto simp: wf_tags_def)
  have q: "q = p\<lparr>pt_tags := render ?new\<rparr>" "length ?new \<le> maxTagsPerPoint"
    using SetTags_spec(1) [OF assms(1,2) ok] assms(4) by (auto split: if_splits)
  show "wf_tags L (pt_tags q)"
    using q set_tags_ok [OF ok old(1)] set_tags_distinct [OF assms(3) old(2)]
    by (simp add: wf_tags_render)
  show "taglist (pt_tags q) = ?new"
    using q set_tags_ok [OF ok old(1)] by (simp add: taglist_render [of L])
qed

subsection \<open>setTags reads what it writes\<close>

lemma text_ok_isSpace: "text_ok L b \<Longrightarrow> c \<in> set b \<Longrightarrow> \<not> isSpace c"
  using text_ok_seps [of L b] by (auto simp: isSpace_def)

lemma skipSpace_tag:
  assumes "text_ok L k"
  shows "skipSpace (tag_text k v @ r) = k @ ''='' @ v @ r"
proof -
  from assms obtain c cs where k: "k = c # cs" using text_ok_ne by (cases k) auto
  with assms text_ok_isSpace [of L k c] have "\<not> isSpace c" by simp
  with k show ?thesis by (simp add: skipSpace_def tag_text_def isSpace_def)
qed

lemma skipNSP_word:
  assumes "w \<noteq> []" "\<forall>c \<in> set w. \<not> isSpace c" "r = [] \<or> (\<exists>s. r = CHR '' '' # s)"
  shows "skipNSP norm (w @ r) = (w, r)"
proof (cases norm)
  case True
  from assms(2) have "CHR '' '' \<notin> set w" by (auto simp: isSpace_def)
  with True assms(1,3) show ?thesis by (auto simp: skipNSP_def skipNonSpaceNorm_def)
next
  case False
  from assms(3) have "takeWhile (\<lambda>ch. \<not> isSpace ch) r = []" "dropWhile (\<lambda>ch. \<not> isSpace ch) r = r"
    by (auto simp: isSpace_def)
  with False assms(2) show ?thesis
    by (simp add: skipNSP_def skipNonSpace_def takeWhile_append2 dropWhile_append2)
qed

lemma setTags_loop_render:
  "tags_ok L kvs \<Longrightarrow> distinct (seen @ map fst kvs) \<Longrightarrow>
     setTags_loop L norm (render kvs) seen tags = Inr (seen @ map fst kvs, tags @ render kvs)"
proof (induction kvs arbitrary: seen tags)
  case (Cons kv kvs)
  obtain k v where kv: "kv = (k, v)" by (cases kv)
  with Cons.prems have ok: "text_ok L k" "text_ok L v" "tags_ok L kvs" by auto
  have "skipNSP norm ((k @ ''='' @ v) @ render kvs) = (k @ ''='' @ v, render kvs)"
    using ok text_ok_isSpace [of L] render_hd [of kvs]
    by (intro skipNSP_word) (auto simp: isSpace_def)
  then have "setTags_loop L norm (render (kv # kvs)) seen tags =
      setTags_loop L norm (render kvs) (seen @ [k]) (tags @ tag_text k v)"
    using Cons.prems ok kv by (subst setTags_loop.simps) (simp add: skipSpace_tag [of L] validTag_def)
  with Cons.IH [OF ok(3), of "seen @ [k]"] Cons.prems(2) kv show ?case by simp
qed (simp add: setTags_loop.simps skipSpace_def)

lemma setTags_loop_wf:
  assumes "setTags_loop L norm buf seen tags = Inr (seen', tags')"
    and "tags = render kvs" "seen = map fst kvs" "tags_ok L kvs" "distinct seen"
  shows "\<exists>kvs'. tags' = render kvs' \<and> seen' = map fst kvs' \<and> tags_ok L kvs' \<and> distinct seen'"
  using assms
proof (induction L norm buf seen tags arbitrary: kvs rule: setTags_loop.induct)
  case (1 L norm buf seen tags)
  show ?case
  proof (cases "skipSpace buf = []")
    case True
    with "1.prems" show ?thesis by (auto simp: setTags_loop.simps [of L norm buf])
  next
    case False
    obtain tag rest where tr: "skipNSP norm (skipSpace buf) = (tag, rest)"
      by (cases "skipNSP norm (skipSpace buf)")
    from "1.prems"(1) False tr obtain i where
      i: "index_byte tag (CHR ''='') = Some i" "validTag L (take i tag) (drop (i + 1) tag) = Inr ()"
        "take i tag \<notin> set seen"
        "setTags_loop L norm rest (seen @ [take i tag])
           (tags @ tag_text (take i tag) (drop (i + 1) tag)) = Inr (seen', tags')"
      by (auto simp: setTags_loop.simps [of L norm buf] Let_def
          split: option.splits sum.splits if_splits)
    show ?thesis
      by (rule "1.IH" [OF False tr [symmetric] refl i(1) refl refl i(2) i(3) i(4),
            where kvs = "kvs @ [(take i tag, drop (i + 1) tag)]"])
        (use i "1.prems" in auto)
  qed
qed

lemma setTags_render:
  assumes "wf_tags L b"
  shows "setTags L norm b p = Inr (p\<lparr>pt_tags := b\<rparr>)"
proof -
  obtain kvs where kvs: "b = render kvs" "tags_ok L kvs" "distinct (map fst kvs)"
    "length kvs \<le> maxTagsPerPoint"
    using assms by (rule wf_tagsE)
  then have "setTags_loop L norm b [] [] = Inr (map fst kvs, render kvs)"
    using setTags_loop_render [of L kvs "[]" norm "[]"] by simp
  with kvs show ?thesis by (auto simp: setTags_def)
qed

lemma Value_frame [simp]:
  "Value (p\<lparr>pt_time := t\<rparr>) = Value p" "Value (p\<lparr>pt_metric := m\<rparr>) = Value p"
  "Value (p\<lparr>pt_tags := ts\<rparr>) = Value p"
  by (simp_all add: Value_def)

lemma setTags_wf:
  assumes "setTags L norm buf p = Inr q"
  shows "wf_tags L (pt_tags q)" "Value q = Value p" "pt_time q = pt_time p" "pt_metric q = pt_metric p"
proof -
  from assms obtain seen tags where
    st: "setTags_loop L norm buf [] [] = Inr (seen, tags)" "length seen \<le> maxTagsPerPoint"
      "q = p\<lparr>pt_tags := if length seen > 0 then tags else []\<rparr>"
    by (auto simp: setTags_def rbind_eq_Inr split: if_splits)
  from setTags_loop_wf [OF st(1), of "[]"] obtain kvs where
    "tags = render kvs" "seen = map fst kvs" "tags_ok L kvs" "distinct seen" by auto
  with st show "wf_tags L (pt_tags q)" by (auto intro: wf_tags_render)
qed (use assms in \<open>auto simp: setTags_def rbind_eq_Inr split: if_splits\<close>)

section \<open>Well-formed points\<close>

fun wf_val :: "val \<Rightarrow> bool" where
  "wf_val (VInt n) = in64 n"
| "wf_val (VFloat f) = (\<not> IsInf f \<and> \<not> IsNaN f)"

definition wf_point :: "golib \<Rightarrow> point \<Rightarrow> bool" where
  "wf_point L p \<longleftrightarrow> in64 (pt_time p) \<and> wf_val (Value p) \<and>
     text_ok L (pt_metric p) \<and> wf_tags L (pt_tags p)"

text \<open>A value of type \<^verbatim>\<open>int64\<close> is in range.\<close>

fun goval_ok :: "goval \<Rightarrow> bool" where
  "goval_ok (GInt64 n) = in64 n"
| "goval_ok _ = True"

lemma validate_float_wf: "validate_float f = Inr v \<Longrightarrow> wf_val v"
  by (auto simp: validate_float_def split: if_splits)

lemma validateValue_wf: "validateValue L g = Inr v \<Longrightarrow> goval_ok g \<Longrightarrow> wf_val v"
  by (cases g) (auto intro: validate_float_wf)

lemma Value_setValueValid [simp]: "Value (setValueValid v p) = v"
  by (cases v) (simp_all add: Value_def)

lemma setValueValid_frame [simp]:
  "pt_time (setValueValid v p) = pt_time p" "pt_metric (setValueValid v p) = pt_metric p"
  "pt_tags (setValueValid v p) = pt_tags p"
  by (cases v; simp)+

lemma setValue_wf:
  "setValue L g p = Inr q \<Longrightarrow> goval_ok g \<Longrightarrow> wf_val (Value q) \<and> (\<exists>v. q = setValueValid v p)"
  by (auto simp: setValue_def rbind_eq_Inr dest: validateValue_wf)

lemma parseValue_ok: "parseValue L b = Inr v \<Longrightarrow> goval_ok (goval_of_val v)"
  by (auto simp: parseValue_def rbind_eq_Inr in64_parseInt split: if_splits)

lemma setValueBytes_wf:
  "setValueBytes L b p = Inr q \<Longrightarrow> wf_val (Value q) \<and> (\<exists>v. q = setValueValid v p)"
  by (auto simp: setValueBytes_def rbind_eq_Inr split: option.splits dest: setValue_wf parseValue_ok)

lemma SetValue_wf:
  "SetValue L g p = Inr q \<Longrightarrow> goval_ok g \<Longrightarrow> wf_val (Value q) \<and> (\<exists>v. q = setValueValid v p)"
  by (cases g) (auto simp: SetValue_def dest: setValue_wf setValueBytes_wf)

lemma setMetric_ok: "setMetric L b p = Inr q \<longleftrightarrow> text_ok L b \<and> q = p\<lparr>pt_metric := b\<rparr>"
  by (auto simp: setMetric_def validMetric_def rbind_eq_Inr split: option.splits)

lemma setTime_ok: "setTime t p = Inr q \<longleftrightarrow>
    t \<noteq> zeroTime \<and> q = p\<lparr>pt_time := UnixNano (Truncate t maxTimePrecision)\<rparr>"
  by (auto simp: setTime_def validateTime_def rbind_eq_Inr)

lemma SetMetric_wf [go_inv]: "wf_point L p \<Longrightarrow> SetMetric L b p = Inr q \<Longrightarrow> wf_point L q"
  by (auto simp: SetMetric_def setMetric_ok wf_point_def)

lemma SetTags_wf_point [go_inv]:
  assumes "wf_point L p" "distinct (map fst (pairs kv))" "SetTags L kv p = Some (Inr q)"
  shows "wf_point L q"
proof -
  have ev: "even (length kv)"
    using assms(3) by (cases kv) (auto simp: SetTags_def odd_iff_mod_2_eq_one split: if_splits)
  with assms SetTags_wf [of L p kv q] have "wf_tags L (pt_tags q)" by (simp add: wf_point_def)
  moreover from assms(3) have "Value q = Value p" "pt_time q = pt_time p" "pt_metric q = pt_metric p"
    by (auto simp: SetTags_def split: if_splits sum.splits option.splits)
  ultimately show ?thesis using assms(1) by (simp add: wf_point_def)
qed

lemma SetValue_wf_point [go_inv]:
  "wf_point L p \<Longrightarrow> goval_ok g \<Longrightarrow> SetValue L g p = Inr q \<Longrightarrow> wf_point L q"
  using SetValue_wf [of L g p q] by (auto simp: wf_point_def)

lemma NewPoint_wf:
  assumes "NewPoint L pooled t g m kv = Inr p" "goval_ok g"
  shows "wf_point L p"
proof -
  let ?p0 = "getPoint pooled"
  from assms(1) obtain p1 p2 p3 where
    p1: "setTime t ?p0 = Inr p1" and p2: "SetValue L g p1 = Inr p2" and
    p3: "SetMetric L m p2 = Inr p3" and p4: "setTags L True (append_nameval True kv []) p3 = Inr p"
    by (auto simp: NewPoint_def Let_def rbind_eq_Inr)
  note setTags_wf [OF p4]
  moreover have "in64 (pt_time p1)" using p1 by (auto simp: setTime_ok UnixNano_def)
  moreover have "wf_val (Value p2)" "pt_time p2 = pt_time p1"
    using SetValue_wf [OF p2 assms(2)] by auto
  moreover have "p3 = p2\<lparr>pt_metric := m\<rparr>" "text_ok L m"
    using p3 by (auto simp: SetMetric_def setMetric_ok)
  ultimately show ?thesis
    by (simp add: wf_point_def)
qed

section \<open>Properties\<close>

lemma ascii_text_ok [simp]: "text_ok L ''a.b''" "text_ok L ''host''" "text_ok L ''web1''" "text_ok L ''dc''"
  "text_ok L ''eu''" "text_ok L ''us''"
  by (rule text_ok_ascii, simp, simp add: text_byte_def ord_def)+

text \<open>An example point, with two tags.\<close>

definition example_point :: "int \<Rightarrow> int \<Rightarrow> point" where
  "example_point t n = \<lparr>pt_time = t, pt_valueInt = n, pt_valueFloat = 0, pt_isFloat = False,
     pt_metric = ''a.b'', pt_tags = render [(''host'', ''web1''), (''dc'', ''eu'')]\<rparr>"

lemma example_point_wf: "in64 t \<Longrightarrow> in64 n \<Longrightarrow> wf_point L (example_point t n)"
  using wf_tags_render [of L "[(''host'', ''web1''), (''dc'', ''eu'')]"]
  by (simp add: wf_point_def example_point_def Value_def maxTagsPerPoint_def)

lemma example_point_taglist: "taglist (pt_tags (example_point t n)) = [(''host'', ''web1''), (''dc'', ''eu'')]"
  unfolding example_point_def by (simp add: taglist_render [of latin1_lib] del: render_simps)

definition same_but_tags :: "point \<Rightarrow> point \<Rightarrow> bool" where
  "same_but_tags p q \<longleftrightarrow> pt_time p = pt_time q \<and> Value p = Value q \<and> pt_metric p = pt_metric q"

lemma SetTags_frame:
  "SetTags L kv p = Some (Inr q) \<Longrightarrow> pt_time q = pt_time p \<and> Value q = Value p \<and> pt_metric q = pt_metric p"
  by (auto simp: SetTags_def split: if_splits sum.splits option.splits)

lemma length_set_tags:
  assumes "distinct (map fst new)" "distinct (map fst old)"
  shows "length (set_tags new old) = card (fst ` set new \<union> fst ` set old)"
proof -
  have "fst ` {x \<in> set old. fst x \<notin> K} = fst ` set old - K" for K by blast
  then have "fst ` set (set_tags new old) = fst ` set new \<union> fst ` set old"
    by (simp add: set_tags_def case_prod_unfold image_Un)
  with distinct_card [OF set_tags_distinct [OF assms]] show ?thesis by simp
qed

text \<open>
  C5: \<^verbatim>\<open>Tag\<close> searches the rendered tags for the key as a substring. On the tags of a
  well-formed point it agrees with looking the key up in the list of tags: no key that is a
  suffix or a prefix of another one, and no tag value that looks like a key, misleads it.
\<close>

theorem Tag_lookup:
  assumes "wf_point L p" "key \<noteq> []"
  shows "Tag key p = Some (map_of (taglist (pt_tags p)) key)"
  using assms by (simp add: wf_point_def Tag_spec [of L])

theorem Tag_lookup_witness: "Tag ''ost'' (example_point 0 1) = Some None"
  using Tag_lookup [OF example_point_wf [of 0 1 latin1_lib], of "''ost''"]
  by (simp add: in64_iff example_point_taglist)

text \<open>
  C6: \<^verbatim>\<open>SetTags\<close> called on a well-formed point with valid tags with different keys either
  reports that the union of old and new keys exceeds eight, or yields a well-formed point with
  the same metric, time and value on which \<^verbatim>\<open>Tag\<close> finds the new value for each new key and
  the old one for every other key.
\<close>

theorem SetTags_update:
  assumes wf: "wf_point L p" and ev: "even (length kv)"
    and ok: "tags_ok L (pairs kv)" and d: "distinct (map fst (pairs kv))"
    and r: "SetTags L kv p = r" and n: "n = card (fst ` set (pairs kv) \<union> fst ` set (taglist (pt_tags p)))"
  shows "if n > 8 then r = Some (Inl (TooManyTags n))
    else \<exists>q. r = Some (Inr q) \<and> wf_point L q \<and> same_but_tags q p \<and>
      (\<forall>k. k \<noteq> [] \<longrightarrow> Tag k q = (case map_of (pairs kv) k of Some v \<Rightarrow> Some (Some v) | None \<Rightarrow> Tag k p))"
proof -
  let ?new = "set_tags (pairs kv) (taglist (pt_tags p))"
  have wt: "wf_tags L (pt_tags p)" using wf by (simp add: wf_point_def)
  have len: "length ?new = n"
    using length_set_tags [OF d, of "taglist (pt_tags p)"] wt n by (simp add: wf_tags_def)
  note spec = SetTags_spec(1) [OF wt ev ok, unfolded len]
  show ?thesis
  proof (cases "n > 8")
    case False
    let ?q = "p\<lparr>pt_tags := render ?new\<rparr>"
    have q: "SetTags L kv p = Some (Inr ?q)" using False spec by (simp add: maxTagsPerPoint_def)
    have wfq: "wf_point L ?q" using SetTags_wf_point [OF wf d q] .
    have tl: "taglist (pt_tags ?q) = ?new" using SetTags_wf(2) [OF wt ev d q] .
    have "Tag k ?q = (case map_of (pairs kv) k of Some v \<Rightarrow> Some (Some v) | None \<Rightarrow> Tag k p)" if "k \<noteq> []" for k
      using Tag_spec [of L ?q k] Tag_spec [OF wt that] wfq that tl
      by (simp add: wf_point_def map_of_set_tags split: option.split)
    with False q wfq r show ?thesis by (auto simp: same_but_tags_def)
  qed (use spec r in \<open>simp add: maxTagsPerPoint_def\<close>)
qed

theorem SetTags_update_witness:
  "\<exists>q. SetTags latin1_lib [''dc'', ''us''] (example_point 0 1) = Some (Inr q) \<and>
     Tag ''dc'' q = Some (Some ''us'') \<and> Tag ''host'' q = Some (Some ''web1'')"
proof -
  let ?p = "example_point 0 1"
  have wf: "wf_point latin1_lib ?p" by (simp add: example_point_wf in64_iff)
  then have h: "Tag ''host'' ?p = Some (Some ''web1'')"
    by (simp add: wf_point_def Tag_spec [of latin1_lib] example_point_taglist)
  show ?thesis
    using SetTags_update [OF wf, of "[''dc'', ''us'']", OF _ _ _ refl refl] h
    by (auto simp: example_point_taglist)
qed

text \<open>
  \<^verbatim>\<open>SetTags\<close> does not compare the new keys with one another: given the same key twice
  it stores both tags, and the point is not well-formed any more.
\<close>

theorem SetTags_duplicate:
  "\<exists>q. SetTags L [''dc'', ''eu'', ''dc'', ''us''] (example_point 0 1) = Some (Inr q) \<and>
     pt_tags q = '' dc=eu dc=us host=web1'' \<and> \<not> wf_point L q"
proof -
  let ?p = "example_point 0 1" and ?kv = "[''dc'', ''eu'', ''dc'', ''us'']"
  let ?new = "[(''dc'', ''eu''), (''dc'', ''us''), (''host'', ''web1'')]"
  have "wf_tags L (pt_tags ?p)" using example_point_wf [of 0 1 L] by (simp add: wf_point_def in64_iff)
  from SetTags_spec(1) [OF this, of ?kv]
  have "SetTags L ?kv ?p = Some (Inr (?p\<lparr>pt_tags := render ?new\<rparr>))"
    by (simp add: example_point_taglist set_tags_def maxTagsPerPoint_def)
  moreover have "taglist (render ?new) = ?new" by (rule taglist_render [of L]) simp
  then have "\<not> wf_point L (?p\<lparr>pt_tags := render ?new\<rparr>)"
    by (simp add: wf_point_def wf_tags_def del: render_simps)
  ultimately show ?thesis by (simp add: tag_text_def)
qed

lemma append_nameval_pairs:
  "even (length nv) \<Longrightarrow> append_nameval True nv buf = buf @ render (pairs nv)"
  by (induction nv arbitrary: buf rule: pairs.induct) (simp_all add: tag_text_def)

lemma wf_tags_render_iff:
  "tags_ok L kvs \<Longrightarrow> wf_tags L (render kvs) \<longleftrightarrow> distinct (map fst kvs) \<and> length kvs \<le> maxTagsPerPoint"
  by (simp add: wf_tags_def taglist_render)

lemma SetTags_wf_iff:
  assumes "wf_point L p" "SetTags L kv p = Some (Inr q)"
  shows "wf_point L q \<longleftrightarrow> distinct (map fst (pairs kv))"
proof
  assume q: "wf_point L q"
  have ev: "even (length kv)"
    using assms(2) by (cases kv) (auto simp: SetTags_def odd_iff_mod_2_eq_one split: if_splits)
  have wf: "wf_tags L (pt_tags p)" using assms(1) by (simp add: wf_point_def)
  have ok: "tags_ok L (pairs kv)" using SetTags_spec(2) [OF wf ev] assms(2) by force
  let ?new = "set_tags (pairs kv) (taglist (pt_tags p))"
  have "pt_tags q = render ?new" using SetTags_spec(1) [OF wf ev ok] assms(2) by (auto split: if_splits)
  moreover have "tags_ok L ?new" using ok wf by (intro set_tags_ok) (simp_all add: wf_tags_def)
  ultimately have "distinct (map fst ?new)" using q wf_tags_render_iff [of L ?new] by (simp add: wf_point_def)
  then show "distinct (map fst (pairs kv))" by (simp add: set_tags_def)
qed (rule SetTags_wf_point [OF assms(1) _ assms(2)])

lemma XAppendTags_wf_iff:
  assumes "wf_point L p" "even (length nv)" "tags_ok L (pairs nv)"
  shows "wf_point L (XAppendTags nv p) \<longleftrightarrow>
    distinct (map fst (taglist (pt_tags p) @ pairs nv)) \<and> length (taglist (pt_tags p)) + length (pairs nv) \<le> maxTagsPerPoint"
proof -
  have wf: "wf_tags L (pt_tags p)" using assms(1) by (simp add: wf_point_def)
  then have "pt_tags (XAppendTags nv p) = render (taglist (pt_tags p) @ pairs nv)"
    using append_nameval_pairs [OF assms(2)] by (simp add: XAppendTags_def wf_tags_def)
  moreover have "Value (XAppendTags nv p) = Value p" by (simp add: XAppendTags_def Value_def)
  moreover have "tags_ok L (taglist (pt_tags p) @ pairs nv)" using wf assms(3) by (simp add: wf_tags_def)
  ultimately show ?thesis
    using assms(1) wf_tags_render_iff [of L "taglist (pt_tags p) @ pairs nv"] by (simp add: wf_point_def del: render_simps) (simp add: XAppendTags_def)
qed

text \<open>
  C14: A point is well-formed if the time is an \<^verbatim>\<open>int64\<close>, the value is an \<^verbatim>\<open>int64\<close> or a finite
  float, the metric is valid text, and the tags are at most eight valid tags with different keys,
  rendered in the normal form that the search in \<^verbatim>\<open>Tag\<close> relies on. \<^verbatim>\<open>NewPoint\<close> yields
  well-formed points, and \<^verbatim>\<open>SetMetric\<close> and \<^verbatim>\<open>SetValue\<close> keep them so. A successful \<^verbatim>\<open>SetTags\<close>
  does exactly if the new keys differ from one another, and \<^verbatim>\<open>XAppendTags\<close>, which checks
  nothing, given valid names and values, exactly if all keys differ, old and new, and the tags
  are not more than eight.
\<close>

theorem point_invariant:
  assumes "goval_ok g"
  shows "(NewPoint L pooled t g m kv = Inr p \<longrightarrow> wf_point L p) \<and>
    (wf_point L p0 \<longrightarrow>
      (SetMetric L m p0 = Inr p \<longrightarrow> wf_point L p) \<and>
      (SetValue L g p0 = Inr p \<longrightarrow> wf_point L p) \<and>
      (SetTags L kvb p0 = Some (Inr p) \<longrightarrow> (wf_point L p \<longleftrightarrow> distinct (map fst (pairs kvb)))) \<and>
      (even (length nv) \<and> tags_ok L (pairs nv) \<longrightarrow>
        (wf_point L (XAppendTags nv p0) \<longleftrightarrow>
           distinct (map fst (taglist (pt_tags p0) @ pairs nv)) \<and> length (taglist (pt_tags p0)) + length (pairs nv) \<le> 8)))"
  using NewPoint_wf [OF _ assms] SetMetric_wf SetValue_wf_point [OF _ assms] SetTags_wf_iff
    XAppendTags_wf_iff [of L p0 nv] unfolding maxTagsPerPoint_def by blast

theorem point_invariant_witness:
  "wf_point latin1_lib ((example_point 0 1)\<lparr>pt_metric := ''dc''\<rparr>) \<and>
   wf_point latin1_lib (XAppendTags [''a.b'', ''us''] (example_point 0 1)) \<and>
   \<not> wf_point latin1_lib (XAppendTags [''host'', ''us''] (example_point 0 1))"
  using point_invariant [of "GInt64 1" latin1_lib newPoint 0 "''dc''" "[]" "(example_point 0 1)\<lparr>pt_metric := ''dc''\<rparr>" "example_point 0 1" "[]" "[''a.b'', ''us'']"]
    point_invariant [of "GInt64 1" latin1_lib newPoint 0 "''dc''" "[]" _ "example_point 0 1" "[]" "[''host'', ''us'']"]
  by (simp add: example_point_wf in64_iff SetMetric_def setMetric_ok example_point_taglist)

end
