(* ===== verification/Codec.thy ===== *)
theory Codec
  imports Point
begin

text \<open>
  The text form of a point, from \<^verbatim>\<open>internal/tsdb/codec.go\<close> and \<^verbatim>\<open>encoder.go\<close>:
  \<^verbatim>\<open>metric time value k1=v1 k2=v2\<close>, with the time in seconds.

  What is proved: a decoded point is well-formed; encoding a point and decoding the line gives
  the point back, for every well-formed point with whole non-negative seconds whose value is
  not the least \<^verbatim>\<open>int64\<close>; and the line holds no newline, so that lines can be cut
  apart again.
\<close>

section \<open>Marshalling\<close>

definition maxLineLength :: nat where "maxLineLength = 1023"

definition unmarshalText :: "golib \<Rightarrow> bytes \<Rightarrow> point \<Rightarrow> point result" where
  "unmarshalText L buf p =
     (if length buf = 0 then Inl PointEmpty
      else if length buf > maxLineLength then Inl (PointTooLong (length buf))
      else
        let p = reset p;
            (metric, buf) = skipNonSpace buf
        in rbind (rmap_err InvalidMetric (setMetric L metric p)) (\<lambda>p.
        let (timeText, buf) = skipNonSpace (skipSpace buf)
        in rbind (rmap_err InvalidTime (parseTime timeText)) (\<lambda>t.
           rbind (rmap_err InvalidTime (setTime t p)) (\<lambda>p.
        let (valueText, buf) = skipNonSpace (skipSpace buf)
        in rbind (rmap_err InvalidValue (setValueBytes L (Some valueText) p)) (\<lambda>p.
           rmap_err InvalidTags (setTags L False buf p))))))"

definition append_value :: "golib \<Rightarrow> bytes \<Rightarrow> point \<Rightarrow> bytes" where
  "append_value L b p =
     (if pt_isFloat p then appendFloat L b (pt_valueFloat p) else appendInt b (pt_valueInt p))"

definition append_point :: "golib \<Rightarrow> bytes \<Rightarrow> point \<Rightarrow> bytes" where
  "append_point L b p =
     (let b = b @ pt_metric p;
          b = b @ '' '';
          b = appendInt b (tdiv (pt_time p) (10 ^ 9));
          b = b @ '' '';
          b = append_value L b p
      in b @ pt_tags p)"

definition appendSeries :: "bytes \<Rightarrow> point \<Rightarrow> bytes" where
  "appendSeries buf p = buf @ pt_metric p @ pt_tags p"

section \<open>Encoder\<close>

record encoder_stats =
  enc_bytes :: nat
  enc_errors :: nat

text \<open>
  \<^verbatim>\<open>Encode\<close> hands the line and its newline to the writer in one call. The writer is a
  parameter: it maps the bytes and its own state to an error or none, and a new state.
\<close>

definition Encode ::
  "golib \<Rightarrow> (bytes \<Rightarrow> 'w \<Rightarrow> 'e option \<times> 'w) \<Rightarrow> point \<Rightarrow> 'w \<Rightarrow> encoder_stats
     \<Rightarrow> 'e option \<times> 'w \<times> encoder_stats" where
  "Encode L write p w st =
     (let buf = append_point L [] p @ [CHR 0x0A] in
      case write buf w of
        (Some e, w) \<Rightarrow> (Some e, w, st\<lparr>enc_errors := enc_errors st + 1\<rparr>)
      | (None, w) \<Rightarrow> (None, w, st\<lparr>enc_bytes := enc_bytes st + length buf\<rparr>))"

section \<open>Decoded points are well-formed\<close>

lemma unmarshalText_wf:
  assumes "unmarshalText L buf p0 = Inr p"
  shows "wf_point L p"
proof -
  from assms obtain m r1 p1 tt r2 t p2 vt r3 p3 where
    p1: "setMetric L m (reset p0) = Inr p1" and t: "parseTime tt = Inr t" and
    p2: "setTime t p1 = Inr p2" and p3: "setValueBytes L (Some vt) p2 = Inr p3" and
    p: "setTags L False r3 p3 = Inr p"
    by (auto simp: unmarshalText_def Let_def rbind_eq_Inr case_prod_unfold split: if_splits)
  note setTags_wf [OF p] setValueBytes_wf [OF p3]
  moreover have "text_ok L (pt_metric p1)" using p1 by (auto simp: setMetric_ok)
  moreover have "pt_metric p2 = pt_metric p1" "in64 (pt_time p2)"
    using p2 by (auto simp: setTime_ok UnixNano_def)
  ultimately show ?thesis by (auto simp: wf_point_def)
qed

section \<open>Round trip\<close>

text \<open>
  What the library must do for a value to survive: the text of a float holds no blank, and
  parsing it gives the same number (for \<^verbatim>\<open>strconv\<close>, the documented meaning of
  precision \<open>-1\<close>).
\<close>

definition float_text_ok :: "golib \<Rightarrow> float32 \<Rightarrow> bool" where
  "float_text_ok L f \<longleftrightarrow>
     (let s = appendFloat L [] f in
      (\<forall>c \<in> set s. \<not> isSpace c \<and> c \<noteq> CHR 0x0A) \<and> parseFloat L s = Inr f)"

fun val_encodable :: "golib \<Rightarrow> val \<Rightarrow> bool" where
  "val_encodable L (VInt n) = (n \<noteq> minInt64)"
| "val_encodable L (VFloat f) = float_text_ok L f"

definition encodable :: "golib \<Rightarrow> point \<Rightarrow> bool" where
  "encodable L p \<longleftrightarrow> wf_point L p \<and> 0 \<le> pt_time p \<and> pt_time p mod 10 ^ 9 = 0 \<and>
     val_encodable L (Value p) \<and> length (append_point L [] p) \<le> maxLineLength"

text \<open>The fields a point shows to the outside.\<close>

definition same_point :: "point \<Rightarrow> point \<Rightarrow> bool" where
  "same_point p q \<longleftrightarrow> pt_time p = pt_time q \<and> Value p = Value q \<and>
     pt_metric p = pt_metric q \<and> pt_tags p = pt_tags q"

lemma append_value_buf: "append_value L b p = b @ append_value L [] p"
  by (simp add: append_value_def appendFloat_def Let_def appendInt_buf [of b])

lemma append_point_eq:
  "append_point L b p =
     b @ pt_metric p @ '' '' @ appendInt [] (tdiv (pt_time p) (10 ^ 9)) @ '' '' @
     append_value L [] p @ pt_tags p"
  by (simp add: append_point_def Let_def append_value_buf [of L "appendInt _ _ @ _"]
      appendInt_buf [of "b @ _"])

lemma append_value_parse:
  assumes "wf_point L p" "val_encodable L (Value p)"
  shows "append_value L [] p \<noteq> []"
    and "c \<in> set (append_value L [] p) \<Longrightarrow> \<not> isSpace c \<and> c \<noteq> CHR 0x0A"
    and "parseValue L (append_value L [] p) = Inr (Value p)"
proof -
  have "append_value L [] p \<noteq> [] \<and> (\<forall>c \<in> set (append_value L [] p). \<not> isSpace c \<and> c \<noteq> CHR 0x0A) \<and>
      parseValue L (append_value L [] p) = Inr (Value p)"
  proof (cases "pt_isFloat p")
    case True
    let ?s = "appendFloat L [] (pt_valueFloat p)"
    have "CHR ''.'' \<in> set ?s"
      by (auto simp: appendFloat_def index_byte_None_iff Let_def)
    then have "index_byte ?s (CHR ''.'') \<noteq> None" "?s \<noteq> []"
      by (auto simp: index_byte_None_iff)
    with True assms(2) show ?thesis
      by (simp add: append_value_def Value_def float_text_ok_def Let_def parseValue_def)
  next
    case False
    with assms have n: "in64 (pt_valueInt p)" "pt_valueInt p \<noteq> minInt64"
      by (auto simp: wf_point_def Value_def)
    have "index_byte (appendInt [] (pt_valueInt p)) (CHR ''.'') = None"
      using appendInt_no_sep [OF n(1)] by simp
    with False n appendInt_no_sep [OF n(1)] show ?thesis
      by (auto simp: append_value_def Value_def parseValue_def parseInt_appendInt appendInt_ne isSpace_def)
  qed
  then show "append_value L [] p \<noteq> []"
    "c \<in> set (append_value L [] p) \<Longrightarrow> \<not> isSpace c \<and> c \<noteq> CHR 0x0A"
    "parseValue L (append_value L [] p) = Inr (Value p)" by auto
qed

lemma skipNonSpace_word:
  assumes "\<forall>c \<in> set w. \<not> isSpace c" "r = [] \<or> (\<exists>s. r = CHR '' '' # s)"
  shows "skipNonSpace (w @ r) = (w, r)"
  using assms skipNSP_word [of w r False] by (cases "w = []") (auto simp: skipNSP_def skipNonSpace_def isSpace_def)

lemma skipSpace_word:
  "w \<noteq> [] \<Longrightarrow> \<forall>c \<in> set w. \<not> isSpace c \<Longrightarrow> skipSpace ('' '' @ w @ r) = w @ r"
  by (cases w) (auto simp: skipSpace_def isSpace_def)

lemma wf_tags_bytes:
  assumes "wf_tags L b" "c \<in> set b"
  shows "c \<noteq> CHR 0x09 \<and> c \<noteq> CHR 0x0A"
proof -
  obtain kvs where "b = render kvs" "tags_ok L kvs" using assms(1) by (rule wf_tagsE)
  then have "\<forall>c \<in> set b. c \<noteq> CHR 0x09 \<and> c \<noteq> CHR 0x0A"
    by (induction kvs arbitrary: b) (force simp: tag_text_def)+
  with assms(2) show ?thesis by blast
qed

lemma wf_tags_hd: "wf_tags L b \<Longrightarrow> b = [] \<or> (\<exists>s. b = CHR '' '' # s)"
  using render_hd by (metis wf_tagsE)

text \<open>The line holds no newline, even where it does not decode to the same point.\<close>

lemma append_point_no_nl:
  assumes "wf_point L p" "\<forall>c \<in> set (append_value L [] p). c \<noteq> CHR 0x0A"
  shows "CHR 0x0A \<notin> set (append_point L [] p)"
proof -
  have "in64 (tdiv (pt_time p) (10 ^ 9))"
    using assms(1) by (simp add: wf_point_def in64_tdiv)
  then have t: "CHR 0x0A \<notin> set (appendInt [] (tdiv (pt_time p) (10 ^ 9)))"
    using appendInt_no_sep by blast
  have m: "CHR 0x0A \<notin> set (pt_metric p)" using assms(1) text_ok_seps(3) by (auto simp: wf_point_def)
  have tg: "CHR 0x0A \<notin> set (pt_tags p)" using assms(1) wf_tags_bytes by (auto simp: wf_point_def)
  have "CHR 0x0A \<notin> set (append_value L [] p)" using assms(2) by blast
  with t m tg show ?thesis by (simp add: append_point_eq)
qed

lemma encodable_time:
  assumes "encodable L p"
  obtains s where "pt_time p = s * 10 ^ 9" "0 \<le> s" "s < 10 ^ 10" "tdiv (pt_time p) (10 ^ 9) = s"
proof -
  have t: "0 \<le> pt_time p" "pt_time p mod 10 ^ 9 = 0" "in64 (pt_time p)"
    using assms by (auto simp: encodable_def wf_point_def)
  let ?s = "pt_time p div 10 ^ 9"
  have eq: "pt_time p = ?s * 10 ^ 9" using t(2) by (metis add.right_neutral div_mult_mod_eq)
  have "?s < 10 ^ 10"
    using t(3) zdiv_mono1 [of "pt_time p" 9223372036854775807 "10 ^ 9"] by (simp add: in64_iff)
  with that [OF eq] t eq show thesis by (simp add: tdiv_nonneg pos_imp_zdiv_nonneg_iff)
qed

lemma setTime_whole:
  assumes "0 \<le> t" "t mod 10 ^ 9 = 0" "in64 t"
  shows "setTime t p = Inr (p\<lparr>pt_time := t\<rparr>)"
proof -
  have "Truncate t maxTimePrecision = t"
    using assms(2) by (simp add: maxTimePrecision_def Truncate_second)
  moreover have "t \<noteq> zeroTime" using assms(1) by (simp add: zeroTime_def)
  ultimately show ?thesis using assms(3) by (simp add: setTime_def validateTime_def UnixNano_def)
qed

lemma setValueBytes_value:
  "parseValue L s = Inr v \<Longrightarrow> wf_val v \<Longrightarrow> setValueBytes L (Some s) p = Inr (setValueValid v p)"
  by (cases v) (simp_all add: setValueBytes_def setValue_def validate_float_def)

lemma unmarshalText_line:
  assumes "text_ok L m" "0 \<le> s" "s < 10 ^ 10" "in64 (s * 10 ^ 9)"
    and v: "vt \<noteq> []" "\<forall>c \<in> set vt. \<not> isSpace c" "parseValue L vt = Inr v" "wf_val v"
    and tags: "wf_tags L tags"
    and len: "length (m @ '' '' @ dec s @ '' '' @ vt @ tags) \<le> maxLineLength"
  shows "unmarshalText L (m @ '' '' @ dec s @ '' '' @ vt @ tags) p0 =
    Inr (setValueValid v ((reset p0)\<lparr>pt_metric := m, pt_time := s * 10 ^ 9\<rparr>)\<lparr>pt_tags := tags\<rparr>)"
proof -
  let ?line = "m @ '' '' @ dec s @ '' '' @ vt @ tags"
  have ne: "length ?line \<noteq> 0" by simp
  have w1: "skipNonSpace ?line = (m, '' '' @ dec s @ '' '' @ vt @ tags)"
    using text_ok_isSpace [OF assms(1)] by (intro skipNonSpace_word) auto
  have digits: "\<forall>c \<in> set (dec s). \<not> isSpace c"
    using dec_digits [OF assms(2)] is_digit_no_sep by (auto simp: isSpace_def)
  have w2: "skipNonSpace (skipSpace ('' '' @ dec s @ '' '' @ vt @ tags)) = (dec s, '' '' @ vt @ tags)"
    using digits dec_ne [of s] by (subst skipSpace_word) (auto intro: skipNonSpace_word)
  have w3: "skipNonSpace (skipSpace ('' '' @ vt @ tags)) = (vt, tags)"
    using v wf_tags_hd [OF tags] by (subst skipSpace_word) (auto intro: skipNonSpace_word)
  have t: "parseTime (dec s) = Inr (s * 10 ^ 9)"
    using parseTime_dec [OF assms(2,3)] assms(4) by simp
  have t2: "setTime (s * 10 ^ 9) p = Inr (p\<lparr>pt_time := s * 10 ^ 9\<rparr>)" for p
    using assms(2,4) by (intro setTime_whole) auto
  have m: "setMetric L m (reset p0) = Inr ((reset p0)\<lparr>pt_metric := m\<rparr>)"
    using assms(1) by (simp add: setMetric_ok)
  show ?thesis
    unfolding unmarshalText_def using ne len
    by (simp only: Let_def w1 w2 w3 m t t2 case_prod_conv rmap_err_simps rbind_simps if_False
        linorder_not_less [symmetric] setValueBytes_value [OF v(3,4)] setTags_render [OF tags])
qed

lemma unmarshal_append:
  assumes "encodable L p"
  shows "\<exists>q. unmarshalText L (append_point L [] p) p0 = Inr q \<and> same_point q p"
proof -
  obtain s where s: "pt_time p = s * 10 ^ 9" "0 \<le> s" "s < 10 ^ 10" "tdiv (pt_time p) (10 ^ 9) = s"
    using assms by (rule encodable_time)
  have wf: "wf_point L p" and ve: "val_encodable L (Value p)" using assms by (auto simp: encodable_def)
  have line: "append_point L [] p = pt_metric p @ '' '' @ dec s @ '' '' @ append_value L [] p @ pt_tags p"
    using s by (simp only: append_point_eq s(4) appendInt_nonneg append_Nil)
  have "unmarshalText L (append_point L [] p) p0 = Inr (setValueValid (Value p)
      ((reset p0)\<lparr>pt_metric := pt_metric p, pt_time := s * 10 ^ 9\<rparr>)\<lparr>pt_tags := pt_tags p\<rparr>)"
    unfolding line using assms wf s append_value_parse [OF wf ve]
    by (intro unmarshalText_line) (auto simp: wf_point_def encodable_def line)
  then show ?thesis by (auto simp: same_point_def s(1))
qed

section \<open>Properties\<close>

lemma example_value: "Value (example_point t n) = VInt n"
  by (simp add: example_point_def Value_def)

lemma example_encodable:
  assumes "0 \<le> t" "t < 10 ^ 9" "0 \<le> n" "n < 10 ^ 9"
  shows "encodable L (example_point (t * 10 ^ 9) n)"
proof -
  let ?p = "example_point (t * 10 ^ 9) n"
  have line: "append_point L [] ?p = ''a.b '' @ dec t @ '' '' @ dec n @ '' host=web1 dc=eu''"
    using assms by (simp add: append_point_eq example_point_def append_value_def tag_text_def
        tdiv_nonneg appendInt_nonneg)
  have "length (dec t) \<le> 9" "length (dec n) \<le> 9" using assms dec_length by auto
  then have "length (append_point L [] ?p) \<le> maxLineLength" unfolding line by (simp add: maxLineLength_def)
  moreover have "in64 (t * 10 ^ 9)" "in64 n" "n \<noteq> minInt64" using assms by (auto simp: in64_iff minInt64_def)
  ultimately show ?thesis
    using example_point_wf [of "t * 10 ^ 9" n L] assms(1)
    by (simp add: encodable_def example_value) (simp add: example_point_def)
qed

text \<open>
  C1: Encoding a well-formed point and decoding the line, into any recycled point, gives a
  point with the same time, value, metric and tags. The conditions on the point are exact:
  whole non-negative seconds, a line within the limit of 1023 bytes, not the least
  \<^verbatim>\<open>int64\<close> as value; of the library it is assumed only that the text of the point's
  float, if its value is one, parses back to that float and holds no blank.
\<close>

theorem codec_roundtrip:
  assumes "encodable L p"
  shows "\<exists>q. unmarshalText L (append_point L [] p) p0 = Inr q \<and> same_point q p"
  using assms by (rule unmarshal_append)

theorem codec_roundtrip_witness:
  "\<exists>q. unmarshalText latin1_lib (append_point latin1_lib [] (example_point 5000000000 42)) newPoint = Inr q \<and>
     same_point q (example_point 5000000000 42)"
  using codec_roundtrip [OF example_encodable [of 5 42 latin1_lib], of newPoint] by simp

text \<open>
  C16: A line is decoded to a well-formed point or rejected with an error; nothing else can come
  of it, whatever the bytes of the line are and whatever the recycled point held.
\<close>

theorem unmarshal_wellformed:
  "case unmarshalText L line p0 of Inl e \<Rightarrow> True | Inr p \<Rightarrow> wf_point L p"
  by (cases "unmarshalText L line p0") (auto dest: unmarshalText_wf)

end
