(* ===== verification/Decoder.thy ===== *)
theory Decoder
  imports Codec "HOL-Library.AList_Mapping"
begin

text \<open>
  The stream decoder of \<^verbatim>\<open>internal/tsdb/decoder.go\<close>. Its input is the byte stream of a
  \<^verbatim>\<open>bufio.Reader\<close>; its state is the table of the last time seen per series, the
  countdown to the next cleanup of that table, and the counters it exports. The clock is an
  argument.

  The contract of the periodic cleanup is shared with the repeat tester and is stated once, as
  the locale \<open>series_cleanup\<close>. What is proved of the decoder: the points it accepts in one
  series are strictly increasing in time, unless an entry had gone stale at a cleanup; the
  table never exceeds its limit; a syntax error costs one line and no more; a stream of
  encoded points decodes to the same points.
\<close>

section \<open>Periodic cleanup of a series table\<close>

locale series_cleanup =
  fixes cleanup :: "time \<Rightarrow> 's \<Rightarrow> 's"
    and countdown :: "'s \<Rightarrow> int"
    and table :: "'s \<Rightarrow> (bytes, 'v) mapping"
    and everyN :: int
    and fresh :: "time \<Rightarrow> 'v \<Rightarrow> bool"
  assumes everyN_pos: "0 < everyN"
    and cleanup_tick: "1 < countdown s \<Longrightarrow>
      countdown (cleanup now s) = countdown s - 1 \<and> table (cleanup now s) = table s"
    and cleanup_purge: "countdown s \<le> 1 \<Longrightarrow>
      countdown (cleanup now s) = everyN \<and>
      table (cleanup now s) = Mapping.filter (\<lambda>_ v. fresh now v) (table s)"
begin

lemma lookup_cleanup:
  "Mapping.lookup (table (cleanup now s)) k =
     (case Mapping.lookup (table s) k of
        None \<Rightarrow> None
      | Some v \<Rightarrow> if 1 < countdown s \<or> fresh now v then Some v else None)"
  using cleanup_tick [of s now] cleanup_purge [of s now]
  by (cases "1 < countdown s") (auto simp: lookup_filter split: option.split)

lemma cleanup_keeps:
  "Mapping.lookup (table s) k = Some v \<Longrightarrow> fresh now v \<Longrightarrow>
     Mapping.lookup (table (cleanup now s)) k = Some v"
  by (simp add: lookup_cleanup)

lemma cleanup_subset: "Mapping.keys (table (cleanup now s)) \<subseteq> Mapping.keys (table s)"
  by (auto simp: keys_is_none_rep lookup_cleanup split: option.splits if_splits)

lemma cleanup_countdown:
  "0 < countdown s \<and> countdown s \<le> everyN \<Longrightarrow>
     0 < countdown (cleanup now s) \<and> countdown (cleanup now s) \<le> everyN"
  using everyN_pos cleanup_tick [of s now] cleanup_purge [of s now] by (cases "1 < countdown s") auto

lemma cleanup_size:
  assumes "finite (Mapping.keys (table s))"
  shows "finite (Mapping.keys (table (cleanup now s)))"
    and "Mapping.size (table (cleanup now s)) \<le> Mapping.size (table s)"
  using assms cleanup_subset [of now s] finite_subset
  by (auto simp: Mapping.size_def card_mono)

end

section \<open>State\<close>

definition decoderMaxSeries :: nat where "decoderMaxSeries = 100000"
definition decoderMaxAge :: duration where "decoderMaxAge = 15 * minute"
definition decoderMaxStep :: duration where "decoderMaxStep = 24 * hour"
definition decoderCleanupEveryN :: int where "decoderCleanupEveryN = 100000"

record decoder =
  d_input :: bytes
  d_bySeries :: "(bytes, int) mapping"
  d_cleanupCountdown :: int
  d_checkOrder :: bool
  d_statBytes :: nat
  d_statRead :: nat
  d_statSyntax :: nat
  d_statOrder :: nat

definition NewDecoder :: "bytes \<Rightarrow> decoder" where
  "NewDecoder r = \<lparr>d_input = r, d_bySeries = Mapping.empty,
     d_cleanupCountdown = decoderCleanupEveryN, d_checkOrder = True,
     d_statBytes = 0, d_statRead = 0, d_statSyntax = 0, d_statOrder = 0\<rparr>"

definition DisableOrderCheck :: "decoder \<Rightarrow> decoder" where
  "DisableOrderCheck d = d\<lparr>d_checkOrder := False\<rparr>"

section \<open>Operations\<close>

datatype read_error = EOF | ErrBufferFull

datatype order_error = TooManySeries | OrderBackwards | OrderCollision | OrderTooFar

datatype decode_error = ReadError read_error | SyntaxError tsdb_error | OrderError order_error

definition bufioSize :: nat where "bufioSize = 4096"

text \<open>
  \<^verbatim>\<open>bufio.Reader.ReadSlice\<close> on a reader with the default buffer: the bytes up to and
  with the delimiter, unless the buffer fills or the stream ends first.
\<close>

definition ReadSlice :: "bytes \<Rightarrow> char \<Rightarrow> (read_error + bytes) \<times> bytes" where
  "ReadSlice r delim =
     (case index_byte (take bufioSize r) delim of
        Some i \<Rightarrow> (Inr (take (i + 1) r), drop (i + 1) r)
      | None \<Rightarrow> if length r \<ge> bufioSize then (Inl ErrBufferFull, drop bufioSize r)
                else (Inl EOF, []))"

definition scan :: "decoder \<Rightarrow> (read_error + bytes) \<times> decoder" where
  "scan d =
     (case ReadSlice (d_input d) (CHR 0x0A) of
        (Inl e, r) \<Rightarrow> (Inl e, d\<lparr>d_input := r\<rparr>)
      | (Inr buf, r) \<Rightarrow>
          let buf = (if length buf > 0 then butlast buf else buf)
          in (Inr buf, d\<lparr>d_input := r, d_statBytes := d_statBytes d + length buf + 1\<rparr>))"

definition dec_fresh :: "time \<Rightarrow> int \<Rightarrow> bool" where
  "dec_fresh now t \<longleftrightarrow> t > UnixNano (now - decoderMaxAge)"

definition dec_cleanup :: "time \<Rightarrow> decoder \<Rightarrow> decoder" where
  "dec_cleanup now d =
     (let d = d\<lparr>d_cleanupCountdown := d_cleanupCountdown d - 1\<rparr> in
      if d_cleanupCountdown d > 0 then d
      else d\<lparr>d_cleanupCountdown := decoderCleanupEveryN,
             d_bySeries := Mapping.filter (\<lambda>_ t. dec_fresh now t) (d_bySeries d)\<rparr>)"

definition validOrder :: "time \<Rightarrow> point \<Rightarrow> decoder \<Rightarrow> order_error option \<times> decoder" where
  "validOrder now p d =
     (let d = dec_cleanup now d;
          series = appendSeries [] p
      in case Mapping.lookup (d_bySeries d) series of
           None \<Rightarrow>
             if Mapping.size (d_bySeries d) = decoderMaxSeries then (Some TooManySeries, d)
             else (None, d\<lparr>d_bySeries := Mapping.update series (pt_time p) (d_bySeries d)\<rparr>)
         | Some t0 \<Rightarrow>
             let step = Sub (pt_time p) t0 in
             if step < 0 then (Some OrderBackwards, d)
             else if step = 0 then (Some OrderCollision, d)
             else if step > decoderMaxStep then (Some OrderTooFar, d)
             else (None, d\<lparr>d_bySeries := Mapping.update series (pt_time p) (d_bySeries d)\<rparr>))"

definition Decode :: "golib \<Rightarrow> time \<Rightarrow> point \<Rightarrow> decoder \<Rightarrow> (decode_error + point) \<times> decoder" where
  "Decode L now pooled d =
     (case scan d of
        (Inl e, d) \<Rightarrow> (Inl (ReadError e), d\<lparr>d_statRead := d_statRead d + 1\<rparr>)
      | (Inr buf, d) \<Rightarrow>
          (case unmarshalText L buf (getPoint pooled) of
             Inl e \<Rightarrow> (Inl (SyntaxError e), d\<lparr>d_statSyntax := d_statSyntax d + 1\<rparr>)
           | Inr p \<Rightarrow>
               if d_checkOrder d then
                 (case validOrder now p d of
                    (Some e, d) \<Rightarrow> (Inl (OrderError e), d\<lparr>d_statOrder := d_statOrder d + 1\<rparr>)
                  | (None, d) \<Rightarrow> (Inr p, d))
               else (Inr p, d)))"

interpretation dec: series_cleanup dec_cleanup d_cleanupCountdown d_bySeries decoderCleanupEveryN dec_fresh
  by unfold_locales (auto simp: dec_cleanup_def decoderCleanupEveryN_def)

section \<open>The order check\<close>

text \<open>
  A run of the order check over points and the clock at each; the result is the accepted
  points, in order.
\<close>

fun order_run :: "decoder \<Rightarrow> (time \<times> point) list \<Rightarrow> point list \<times> decoder" where
  "order_run d [] = ([], d)"
| "order_run d ((now, p) # xs) =
     (case validOrder now p d of
        (Some e, d) \<Rightarrow> order_run d xs
      | (None, d) \<Rightarrow> (case order_run d xs of (ps, d) \<Rightarrow> (p # ps, d)))"

lemma Sub_pos: "in64 t \<Longrightarrow> in64 u \<Longrightarrow> Sub t u > 0 \<longleftrightarrow> t > u"
  by (auto simp: Sub_def in64_def minInt64_def maxInt64_def)

text \<open>What the table says of a set of accepted points, given the deadlines that have passed.\<close>

definition stale :: "time set \<Rightarrow> int \<Rightarrow> bool" where
  "stale nows t \<longleftrightarrow> (\<exists>now \<in> nows. \<not> dec_fresh now t)"

definition table_inv :: "time set \<Rightarrow> point set \<Rightarrow> decoder \<Rightarrow> bool" where
  "table_inv nows acc d \<longleftrightarrow>
     (\<forall>s t. Mapping.lookup (d_bySeries d) s = Some t \<longrightarrow> in64 t) \<and>
     (\<forall>p \<in> acc. stale nows (pt_time p) \<or>
        (\<exists>t. Mapping.lookup (d_bySeries d) (appendSeries [] p) = Some t \<and> pt_time p \<le> t))"

lemma table_inv_cleanup:
  assumes "table_inv nows acc d"
  shows "table_inv (insert now nows) acc (dec_cleanup now d)"
proof -
  have "stale (insert now nows) (pt_time p) \<or>
      (\<exists>t. Mapping.lookup (d_bySeries (dec_cleanup now d)) (appendSeries [] p) = Some t \<and> pt_time p \<le> t)"
    if "p \<in> acc" for p
  proof (cases "stale nows (pt_time p)")
    case True
    then show ?thesis by (auto simp: stale_def)
  next
    case False
    with assms that obtain t where
      t: "Mapping.lookup (d_bySeries d) (appendSeries [] p) = Some t" "pt_time p \<le> t"
      by (auto simp: table_inv_def)
    show ?thesis
    proof (cases "dec_fresh now t")
      case True
      with t dec.cleanup_keeps show ?thesis by blast
    next
      case False
      with t(2) have "\<not> dec_fresh now (pt_time p)" by (auto simp: dec_fresh_def)
      then show ?thesis by (auto simp: stale_def)
    qed
  qed
  with assms show ?thesis
    by (auto simp: table_inv_def dec.lookup_cleanup split: option.splits if_splits)
qed

lemma validOrder_accept:
  assumes "table_inv nows acc d" "in64 (pt_time q)" "validOrder now q d = (None, d')"
  shows "table_inv (insert now nows) (insert q acc) d'"
    and "p \<in> acc \<Longrightarrow> appendSeries [] p = appendSeries [] q \<Longrightarrow>
      pt_time p < pt_time q \<or> stale (insert now nows) (pt_time p)"
proof -
  let ?d = "dec_cleanup now d" and ?s = "appendSeries [] q"
  have inv: "table_inv (insert now nows) acc ?d" using assms(1) by (rule table_inv_cleanup)
  have d': "d' = ?d\<lparr>d_bySeries := Mapping.update ?s (pt_time q) (d_bySeries ?d)\<rparr>"
    and up: "Mapping.lookup (d_bySeries ?d) ?s = Some t \<Longrightarrow> t < pt_time q" for t
    using assms(2,3) inv Sub_pos [of "pt_time q" t]
    by (auto simp: validOrder_def Let_def table_inv_def split: option.splits if_splits)
  show "table_inv (insert now nows) (insert q acc) d'"
    using inv assms(2) up unfolding table_inv_def d'
    by (auto simp: lookup_update' split: if_splits)
  show "pt_time p < pt_time q \<or> stale (insert now nows) (pt_time p)"
    if "p \<in> acc" "appendSeries [] p = ?s"
    using inv that up unfolding table_inv_def by fastforce
qed

lemma validOrder_reject:
  "table_inv nows acc d \<Longrightarrow> validOrder now q d = (Some e, d') \<Longrightarrow> table_inv (insert now nows) acc d'"
  using table_inv_cleanup [of nows acc d now]
  by (auto simp: validOrder_def Let_def split: option.splits if_splits)

text \<open>The relation between an accepted point and a later one.\<close>

definition in_order :: "time set \<Rightarrow> point \<Rightarrow> point \<Rightarrow> bool" where
  "in_order nows p q \<longleftrightarrow> (appendSeries [] p = appendSeries [] q \<longrightarrow>
     pt_time p < pt_time q \<or> stale nows (pt_time p))"

lemma in_order_mono: "in_order nows p q \<Longrightarrow> nows \<subseteq> nows' \<Longrightarrow> in_order nows' p q"
  by (auto simp: in_order_def stale_def)

lemma order_run_in_order:
  assumes "table_inv nows acc d" "\<forall>x \<in> set xs. in64 (pt_time (snd x))" "order_run d xs = (ps, d')"
  shows "sorted_wrt (in_order (nows \<union> fst ` set xs)) ps \<and>
    (\<forall>p \<in> acc. \<forall>q \<in> set ps. in_order (nows \<union> fst ` set xs) p q)"
  using assms
proof (induction xs arbitrary: d nows acc ps)
  case (Cons x xs)
  obtain now q where x: "x = (now, q)" by (cases x)
  let ?N = "nows \<union> fst ` set (x # xs)"
  have N: "insert now nows \<union> fst ` set xs = ?N" using x by auto
  obtain r d1 where v: "validOrder now q d = (r, d1)" by (cases "validOrder now q d")
  show ?case
  proof (cases r)
    case (Some e)
    with v validOrder_reject [OF Cons.prems(1)] have "table_inv (insert now nows) acc d1" by blast
    from Cons.IH [OF this] Cons.prems(2,3) v Some x N show ?thesis by simp
  next
    case None
    then obtain ps' where ps: "ps = q # ps'" "order_run d1 xs = (ps', d')"
      using Cons.prems(3) v x by (auto split: prod.splits)
    note acc = validOrder_accept [OF Cons.prems(1) _ v [unfolded None]]
    have q: "in64 (pt_time q)" using Cons.prems(2) x by simp
    from Cons.IH [OF acc(1) [OF q] _ ps(2)] Cons.prems(2) N have
      IH: "sorted_wrt (in_order ?N) ps'" "\<forall>p \<in> insert q acc. \<forall>q \<in> set ps'. in_order ?N p q"
      by auto
    have "\<forall>p \<in> acc. in_order ?N p q"
      using acc(2) [OF q] by (auto simp: in_order_def stale_def x)
    with IH ps show ?thesis by auto
  qed
qed simp

section \<open>The size of the table\<close>

definition size_inv :: "decoder \<Rightarrow> bool" where
  "size_inv d \<longleftrightarrow> finite (Mapping.keys (d_bySeries d)) \<and> Mapping.size (d_bySeries d) \<le> decoderMaxSeries"

lemma size_inv_cleanup: "size_inv d \<Longrightarrow> size_inv (dec_cleanup now d)"
  using dec.cleanup_size [of d now] by (auto simp: size_inv_def intro: order_trans)

lemma validOrder_size [go_inv]:
  assumes "size_inv d"
  shows "size_inv (snd (validOrder now p d))"
proof -
  let ?m = "d_bySeries (dec_cleanup now d)" and ?s = "appendSeries [] p"
  have m: "finite (Mapping.keys ?m)" "Mapping.size ?m \<le> decoderMaxSeries"
    using size_inv_cleanup [OF assms, of now] by (auto simp: size_inv_def)
  have old: "Mapping.size (Mapping.update ?s t ?m) = Mapping.size ?m"
    if "Mapping.lookup ?m ?s = Some u" for t u
    using that by (auto simp: Mapping.size_def keys_is_none_rep insert_absorb)
  have new: "Mapping.size (Mapping.update ?s t ?m) \<le> Suc (Mapping.size ?m)" for t
    using m(1) by (simp add: Mapping.size_def card_insert_if)
  show ?thesis
    using m old new [of "pt_time p"] size_inv_cleanup [OF assms, of now]
    by (auto simp: validOrder_def Let_def size_inv_def split: option.split)
qed

lemma size_inv_upd [simp]:
  "size_inv (d\<lparr>d_input := i\<rparr>) = size_inv d" "size_inv (d\<lparr>d_statBytes := n\<rparr>) = size_inv d"
  "size_inv (d\<lparr>d_statRead := n\<rparr>) = size_inv d" "size_inv (d\<lparr>d_statSyntax := n\<rparr>) = size_inv d"
  "size_inv (d\<lparr>d_statOrder := n\<rparr>) = size_inv d"
  by (simp_all add: size_inv_def)

lemma Decode_size [go_inv]: "size_inv d \<Longrightarrow> size_inv (snd (Decode L now pooled d))"
  using validOrder_size
  by (auto simp: Decode_def scan_def Let_def split: prod.splits sum.splits option.splits)
    (metis size_inv_upd(1,2) snd_conv)+

section \<open>Streams\<close>

text \<open>One line is consumed whatever becomes of it.\<close>

lemma scan_line:
  assumes "CHR 0x0A \<notin> set line" "length line < bufioSize" "d_input d = line @ CHR 0x0A # rest"
  shows "scan d = (Inr line, d\<lparr>d_input := rest, d_statBytes := d_statBytes d + length line + 1\<rparr>)"
proof -
  have "take bufioSize (line @ CHR 0x0A # rest) = line @ CHR 0x0A # take (bufioSize - length line - 1) rest"
    using assms(2) by (simp add: take_Cons')
  with assms(1,3) show ?thesis by (simp add: scan_def ReadSlice_def)
qed

lemma validOrder_frame:
  "validOrder now p d = (r, d') \<Longrightarrow> d_input d' = d_input d \<and> d_checkOrder d' = d_checkOrder d"
  by (auto simp: validOrder_def dec_cleanup_def Let_def split: option.splits if_splits)

lemma Decode_line:
  assumes "CHR 0x0A \<notin> set line" "length line < bufioSize" "d_input d = line @ CHR 0x0A # rest"
  shows "d_input (snd (Decode L now pooled d)) = rest"
    and "fst (Decode L now pooled d) \<noteq> Inl (ReadError e)"
  using scan_line [OF assms]
  by (auto simp: Decode_def split: sum.splits option.splits prod.splits dest!: validOrder_frame)

fun Decode_all :: "golib \<Rightarrow> (time \<times> point) list \<Rightarrow> decoder \<Rightarrow> (decode_error + point) list \<times> decoder" where
  "Decode_all L [] d = ([], d)"
| "Decode_all L ((now, pooled) # xs) d =
     (let (r, d) = Decode L now pooled d; (rs, d) = Decode_all L xs d in (r # rs, d))"

definition encode_all :: "golib \<Rightarrow> point list \<Rightarrow> bytes" where
  "encode_all L ps = concat (map (\<lambda>p. append_point L [] p @ [CHR 0x0A]) ps)"

definition decodes_to :: "decode_error + point \<Rightarrow> point \<Rightarrow> bool" where
  "decodes_to r p \<longleftrightarrow> (\<exists>q. r = Inr q \<and> same_point q p)"

lemma encodable_line:
  assumes "encodable L p"
  shows "CHR 0x0A \<notin> set (append_point L [] p)" "length (append_point L [] p) < bufioSize"
proof -
  from assms have "wf_point L p" "val_encodable L (Value p)" by (auto simp: encodable_def)
  then show "CHR 0x0A \<notin> set (append_point L [] p)"
    using append_value_parse(2) by (intro append_point_no_nl) auto
  show "length (append_point L [] p) < bufioSize"
    using assms by (simp add: encodable_def maxLineLength_def bufioSize_def)
qed

lemma Decode_encoded:
  assumes "encodable L p" "d_input d = append_point L [] p @ CHR 0x0A # rest" "\<not> d_checkOrder d"
  shows "decodes_to (fst (Decode L now pooled d)) p"
    and "d_input (snd (Decode L now pooled d)) = rest"
    and "\<not> d_checkOrder (snd (Decode L now pooled d))"
proof -
  obtain q where q: "unmarshalText L (append_point L [] p) (getPoint pooled) = Inr q" "same_point q p"
    using unmarshal_append [OF assms(1)] by blast
  note scan = scan_line [OF encodable_line [OF assms(1)] assms(2)]
  show "decodes_to (fst (Decode L now pooled d)) p" "d_input (snd (Decode L now pooled d)) = rest"
    "\<not> d_checkOrder (snd (Decode L now pooled d))"
    using scan q assms(3) by (auto simp: Decode_def decodes_to_def)
qed

lemma Decode_all_encoded:
  assumes "\<forall>p \<in> set ps. encodable L p" "length envs = length ps"
    and "d_input d = encode_all L ps @ rest" "\<not> d_checkOrder d"
  shows "list_all2 decodes_to (fst (Decode_all L envs d)) ps \<and>
    d_input (snd (Decode_all L envs d)) = rest"
  using assms(2,1,3,4)
proof (induction envs ps arbitrary: d rule: list_induct2)
  case Nil
  then show ?case by (simp add: encode_all_def)
next
  case (Cons env envs p ps)
  obtain now pooled where env: "env = (now, pooled)" by (cases env)
  have inp: "d_input d = append_point L [] p @ CHR 0x0A # encode_all L ps @ rest"
    using Cons.prems(2) by (simp add: encode_all_def)
  note one = Decode_encoded [OF _ inp, of now pooled]
  have "list_all2 decodes_to (fst (Decode_all L envs (snd (Decode L now pooled d)))) ps \<and>
      d_input (snd (Decode_all L envs (snd (Decode L now pooled d)))) = rest"
    using Cons one by (intro Cons.IH) auto
  with one Cons.prems show ?case by (auto simp: env Let_def case_prod_unfold)
qed

section \<open>Properties\<close>

text \<open>
  C2: A stream of encoded points, followed by any bytes, decodes to the same points in the same
  order when the order check is off, and leaves exactly the bytes that follow.
\<close>

theorem stream_roundtrip:
  assumes "\<forall>p \<in> set ps. encodable L p" "length envs = length ps"
  shows "list_all2 decodes_to (fst (Decode_all L envs (DisableOrderCheck (NewDecoder (encode_all L ps @ rest))))) ps \<and>
    d_input (snd (Decode_all L envs (DisableOrderCheck (NewDecoder (encode_all L ps @ rest))))) = rest"
  using assms by (intro Decode_all_encoded) (auto simp: DisableOrderCheck_def NewDecoder_def)

theorem stream_roundtrip_witness:
  "list_all2 decodes_to
     (fst (Decode_all latin1_lib [(0, newPoint), (1, newPoint)] (DisableOrderCheck (NewDecoder
        (encode_all latin1_lib [example_point 5000000000 1, example_point 6000000000 2] @ ''x'')))))
     [example_point 5000000000 1, example_point 6000000000 2]"
  using stream_roundtrip [of "[example_point 5000000000 1, example_point 6000000000 2]" latin1_lib
      "[(0, newPoint), (1, newPoint)]" "''x''"]
    example_encodable [of 5 1 latin1_lib] example_encodable [of 6 2 latin1_lib]
  by simp

text \<open>
  C4: The points that the order check of a new decoder accepts are strictly increasing in time
  within each series. The only exception is an earlier point that was at least fifteen minutes
  old at one of the clock readings, whose entry a cleanup may have removed.
\<close>

theorem order_check:
  assumes "\<forall>x \<in> set xs. in64 (pt_time (snd x))" "order_run (NewDecoder input) xs = (ps, d')"
  shows "sorted_wrt (in_order (fst ` set xs)) ps"
proof -
  have "table_inv {} {} (NewDecoder input)"
    by (simp add: table_inv_def NewDecoder_def lookup_empty)
  from order_run_in_order [OF this assms] show ?thesis by simp
qed

theorem order_check_witness:
  "sorted_wrt (in_order {0, 9})
     (fst (order_run (NewDecoder []) [(0, example_point 5000000000 1), (9, example_point 6000000000 2)]))"
  using order_check [of "[(0, example_point 5000000000 1), (9, example_point 6000000000 2)]" "[]"]
  by (cases "order_run (NewDecoder []) [(0, example_point 5000000000 1), (9, example_point 6000000000 2)]")
    (simp add: example_point_def in64_iff del: order_run.simps)

text \<open>
  C20: However long the stream, the table of a decoder never holds more than 100000 series.
\<close>

theorem decoder_table_bounded:
  "Mapping.size (d_bySeries (snd (Decode_all L envs (NewDecoder input)))) \<le> 100000"
proof -
  have "size_inv (snd (Decode_all L envs d))" if "size_inv d" for d
    using that
  proof (induction envs arbitrary: d)
    case (Cons env envs)
    then show ?case
      using Decode_size [OF Cons.prems] by (cases env) (auto simp: case_prod_unfold Let_def)
  qed simp
  moreover have "size_inv (NewDecoder input)"
    by (simp add: size_inv_def NewDecoder_def decoderMaxSeries_def Mapping.size_def)
  ultimately show ?thesis by (simp add: size_inv_def decoderMaxSeries_def)
qed

text \<open>
  C19: The decoder resynchronises at the next newline: a line of fewer than 4096 bytes, however
  malformed, is consumed whole by one call, which reports no read error, and the next call
  starts right after its newline.
\<close>

theorem decoder_resync:
  assumes "CHR 0x0A \<notin> set line" "length line < 4096" "d_input d = line @ CHR 0x0A # rest"
  shows "d_input (snd (Decode L now pooled d)) = rest \<and>
    (case fst (Decode L now pooled d) of Inl (ReadError e) \<Rightarrow> False | _ \<Rightarrow> True)"
  using Decode_line [OF assms(1) _ assms(3), of L now pooled] assms(2)
  by (auto simp: bufioSize_def split: sum.split decode_error.split)

theorem decoder_resync_witness:
  "d_input (snd (Decode latin1_lib 0 newPoint (NewDecoder (''a b c'' @ CHR 0x0A # ''rest'')))) = ''rest''"
  using decoder_resync [of "''a b c''" "NewDecoder (''a b c'' @ CHR 0x0A # ''rest'')" "''rest''" latin1_lib 0 newPoint]
  by (simp add: NewDecoder_def)

text \<open>
  A line that fills the whole buffer of the reader is reported as a read error, and its
  first 4096 bytes are dropped.
\<close>

theorem decoder_long_line:
  assumes "CHR 0x0A \<notin> set (take 4096 (d_input d))" "length (d_input d) \<ge> 4096"
  shows "fst (Decode L now pooled d) = Inl (ReadError ErrBufferFull) \<and>
    d_input (snd (Decode L now pooled d)) = drop 4096 (d_input d)"
proof -
  have "index_byte (take bufioSize (d_input d)) (CHR 0x0A) = None"
    using assms(1) by (simp add: index_byte_None_iff bufioSize_def)
  with assms(2) show ?thesis by (simp add: Decode_def scan_def ReadSlice_def bufioSize_def)
qed

end
