(* ===== verification/Repeat.thy ===== *)
theory Repeat
  imports Decoder
begin

text \<open>
  The repeat tester of \<^verbatim>\<open>internal/tsdb/repeat.go\<close>, which lets a client drop points that
  repeat the value of their series, and the put command of \<^verbatim>\<open>client.go\<close> it builds.

  What is proved: the tester meets the cleanup contract; between cleanups, suppression loses
  nothing: every point given to it is sent, or lies between two consecutive points sent that
  carry its value (or after the last one sent), so line segments drawn through the sent points
  pass through the dropped ones; the first point of a series is always sent; and a series is
  never silent for longer than the heartbeat.
\<close>

section \<open>The put command\<close>

definition put :: "golib \<Rightarrow> point \<Rightarrow> bytes" where
  "put L p = append_point L ''put '' p @ [CHR 0x0A]"

section \<open>State\<close>

definition repeatHeartbeat :: duration where "repeatHeartbeat = 10 * minute"
definition repeatMaxAge :: duration where "repeatMaxAge = 12 * minute"
definition repeatCleanupEveryN :: int where "repeatCleanupEveryN = 100000"

record repeatStatus =
  rs_time :: int
  rs_value :: val
  rs_n :: nat
  rs_timePrev :: int

record repeatTester =
  rt_bySeries :: "(bytes, repeatStatus) mapping"
  rt_cleanupCountdown :: int

definition newRepeatTester :: repeatTester where
  "newRepeatTester = \<lparr>rt_bySeries = Mapping.empty, rt_cleanupCountdown = repeatCleanupEveryN\<rparr>"

definition rep_fresh :: "time \<Rightarrow> repeatStatus \<Rightarrow> bool" where
  "rep_fresh now st \<longleftrightarrow> \<not> rs_time st \<le> UnixNano (now - repeatMaxAge)"

definition rep_cleanup :: "time \<Rightarrow> repeatTester \<Rightarrow> repeatTester" where
  "rep_cleanup now t =
     (let t = t\<lparr>rt_cleanupCountdown := rt_cleanupCountdown t - 1\<rparr> in
      if rt_cleanupCountdown t > 0 then t
      else t\<lparr>rt_cleanupCountdown := repeatCleanupEveryN,
             rt_bySeries := Mapping.filter (\<lambda>_ st. rep_fresh now st) (rt_bySeries t)\<rparr>)"

interpretation rep: series_cleanup rep_cleanup rt_cleanupCountdown rt_bySeries repeatCleanupEveryN rep_fresh
  by unfold_locales (auto simp: rep_cleanup_def repeatCleanupEveryN_def)

section \<open>The test\<close>

text \<open>
  \<^verbatim>\<open>Test\<close> on a series with a status: whether the point is a repeat, the held point to be
  sent first, and the new status. The Go code writes the held time and value into the point,
  marshals it and restores it; \<open>held\<close> is that temporary point.
\<close>

definition Test_status ::
  "point \<Rightarrow> repeatStatus \<Rightarrow> bool \<times> point option \<times> repeatStatus" where
  "Test_status point status =
     (let time = pt_time point;
          value = Value point;
          isRepeat = (time > rs_time status \<and> val_eq value (rs_value status));
          needHeartbeat = (isRepeat \<and> wrap64 (time - rs_time status) \<ge> repeatHeartbeat)
      in if needHeartbeat then
           (False, None, \<lparr>rs_time = time, rs_value = value, rs_n = 1, rs_timePrev = 0\<rparr>)
         else if isRepeat then
           (rs_n status \<noteq> 2, None,
            status\<lparr>rs_timePrev := time, rs_n := (if rs_n status > 0 then rs_n status - 1 else rs_n status)\<rparr>)
         else
           (False,
            if rs_n status = 0
            then Some (setValueValid (rs_value status) (point\<lparr>pt_time := rs_timePrev status\<rparr>))
            else None,
            \<lparr>rs_time = time, rs_value = value, rs_n = 2, rs_timePrev = 0\<rparr>))"

definition Test_point ::
  "time \<Rightarrow> point \<Rightarrow> repeatTester \<Rightarrow> bool \<times> point option \<times> repeatTester" where
  "Test_point now point t =
     (let t = rep_cleanup now t;
          s = appendSeries [] point
      in case Mapping.lookup (rt_bySeries t) s of
           None \<Rightarrow>
             (False, None,
              t\<lparr>rt_bySeries := Mapping.update s
                  \<lparr>rs_time = pt_time point, rs_value = Value point, rs_n = 2, rs_timePrev = 0\<rparr>
                  (rt_bySeries t)\<rparr>)
         | Some status \<Rightarrow>
             (case Test_status point status of (isRepeat, held, status) \<Rightarrow>
               (isRepeat, held, t\<lparr>rt_bySeries := Mapping.update s status (rt_bySeries t)\<rparr>)))"

definition Test ::
  "golib \<Rightarrow> time \<Rightarrow> point \<Rightarrow> repeatTester \<Rightarrow> bool \<times> bytes option \<times> repeatTester" where
  "Test L now point t =
     (case Test_point now point t of (isRepeat, held, t) \<Rightarrow> (isRepeat, map_option (put L) held, t))"

text \<open>What \<^verbatim>\<open>Client.Put\<close> sends for one point when it drops repeats.\<close>

definition emit :: "point \<Rightarrow> bool \<times> point option \<Rightarrow> point list" where
  "emit point r =
     (case r of (isRepeat, held) \<Rightarrow>
       (case held of None \<Rightarrow> [] | Some h \<Rightarrow> [h]) @ (if isRepeat then [] else [point]))"

section \<open>Equality of values\<close>

lemma val_eq_sym: "val_eq a b \<Longrightarrow> val_eq b a"
  by (cases a; cases b) (auto simp: f32_eq_def)

lemma val_eq_trans: "val_eq a b \<Longrightarrow> val_eq b c \<Longrightarrow> val_eq a c"
  by (cases a; cases b; cases c) (auto simp: f32_eq_def)

lemma val_eq_refl: "wf_val v \<Longrightarrow> val_eq v v"
  by (cases v) (auto simp: f32_eq_def)

section \<open>One series\<close>

text \<open>
  The tester on the points of one series: the status, once there is one, and the points sent
  so far.
\<close>

definition series_step :: "point \<Rightarrow> repeatStatus option \<Rightarrow> point list \<times> repeatStatus option" where
  "series_step p st =
     (case st of
        None \<Rightarrow> ([p], Some \<lparr>rs_time = pt_time p, rs_value = Value p, rs_n = 2, rs_timePrev = 0\<rparr>)
      | Some status \<Rightarrow>
          (case Test_status p status of (isRepeat, held, status) \<Rightarrow>
            (emit p (isRepeat, held), Some status)))"

text \<open>The point is sent, or lies between two points sent one after the other with its value.\<close>

definition closed_cover :: "point list \<Rightarrow> point \<Rightarrow> bool" where
  "closed_cover out p \<longleftrightarrow>
     (\<exists>a \<in> set out. pt_time a = pt_time p \<and> val_eq (Value a) (Value p)) \<or>
     (\<exists>xs a b ys. out = xs @ a # b # ys \<and> pt_time a < pt_time p \<and> pt_time p < pt_time b \<and>
        val_eq (Value a) (Value p) \<and> val_eq (Value b) (Value p))"

definition open_cover :: "point list \<Rightarrow> point \<Rightarrow> bool" where
  "open_cover out p \<longleftrightarrow>
     (\<exists>xs a. out = xs @ [a] \<and> pt_time a < pt_time p \<and> val_eq (Value a) (Value p))"

definition cover :: "point list \<Rightarrow> point \<Rightarrow> bool" where
  "cover out p \<longleftrightarrow> closed_cover out p \<or> open_cover out p"

lemma closed_cover_append: "closed_cover out p \<Longrightarrow> closed_cover (out @ es) p"
  unfolding closed_cover_def by (metis UnCI append.assoc append_Cons set_append)

lemma closed_cover_in: "q \<in> set out \<Longrightarrow> pt_time q = pt_time p \<Longrightarrow> val_eq (Value q) (Value p) \<Longrightarrow> closed_cover out p"
  by (auto simp: closed_cover_def)

lemma open_cover_close:
  assumes "open_cover out p" "pt_time p \<le> pt_time b" "val_eq (Value b) (Value p)"
  shows "closed_cover (out @ b # es) p"
proof (cases "pt_time p = pt_time b")
  case True
  with assms(3) show ?thesis by (intro closed_cover_in [of b]) auto
next
  case False
  with assms show ?thesis unfolding open_cover_def closed_cover_def by force
qed

text \<open>
  The invariant ties the status to what was sent (\<open>out\<close>) and to the points given so far
  (\<open>ps\<close>): a positive counter means nothing is held back.
\<close>

definition repeat_inv :: "point list \<Rightarrow> point list \<Rightarrow> repeatStatus \<Rightarrow> bool" where
  "repeat_inv ps out st \<longleftrightarrow>
     out \<noteq> [] \<and> rs_n st \<le> 2 \<and> wf_val (rs_value st) \<and>
     val_eq (Value (last out)) (rs_value st) \<and> (\<forall>p \<in> set ps. pt_time p \<le> pt_time (last ps)) \<and>
     ps \<noteq> [] \<and> pt_time (last out) \<le> pt_time (last ps) \<and> rs_time st \<le> pt_time (last out) \<and>
     (if rs_n st = 0 then
        rs_timePrev st = pt_time (last ps) \<and> pt_time (last out) < pt_time (last ps) \<and>
        (\<forall>p \<in> set ps. closed_cover out p \<or> open_cover out p \<and> val_eq (rs_value st) (Value p))
      else (\<forall>p \<in> set ps. closed_cover out p))"

lemma cover_sent:
  assumes "wf_val (Value p)"
  shows "closed_cover (out @ es @ [p]) p"
  using assms by (intro closed_cover_in [of p]) (auto intro: val_eq_refl)

text \<open>The five things that can happen to a point of a series, one lemma per way.\<close>

lemma Test_status_cases:
  fixes p st
  obtains
    (heartbeat) "val_eq (Value p) (rs_value st)" "pt_time p > rs_time st"
      "Test_status p st = (False, None, \<lparr>rs_time = pt_time p, rs_value = Value p, rs_n = 1, rs_timePrev = 0\<rparr>)"
  | (second) "val_eq (Value p) (rs_value st)" "pt_time p > rs_time st" "rs_n st = 2"
      "Test_status p st = (False, None, st\<lparr>rs_timePrev := pt_time p, rs_n := 1\<rparr>)"
  | (dropped) "val_eq (Value p) (rs_value st)" "pt_time p > rs_time st" "rs_n st \<noteq> 2"
      "wrap64 (pt_time p - rs_time st) < repeatHeartbeat"
      "Test_status p st = (True, None, st\<lparr>rs_timePrev := pt_time p, rs_n := rs_n st - 1\<rparr>)"
  | (held) "\<not> (pt_time p > rs_time st \<and> val_eq (Value p) (rs_value st))" "rs_n st = 0"
      "Test_status p st = (False, Some (setValueValid (rs_value st) (p\<lparr>pt_time := rs_timePrev st\<rparr>)),
         \<lparr>rs_time = pt_time p, rs_value = Value p, rs_n = 2, rs_timePrev = 0\<rparr>)"
  | (changed) "\<not> (pt_time p > rs_time st \<and> val_eq (Value p) (rs_value st))" "rs_n st > 0"
      "Test_status p st = (False, None, \<lparr>rs_time = pt_time p, rs_value = Value p, rs_n = 2, rs_timePrev = 0\<rparr>)"
proof -
  consider (a) "val_eq (Value p) (rs_value st) \<and> pt_time p > rs_time st"
    | (b) "\<not> (pt_time p > rs_time st \<and> val_eq (Value p) (rs_value st))"
    by blast
  then show thesis
  proof cases
    case a
    show thesis
    proof (cases "wrap64 (pt_time p - rs_time st) \<ge> repeatHeartbeat")
      case True
      with a show ?thesis by (intro heartbeat) (simp_all add: Test_status_def Let_def)
    next
      case False
      then show ?thesis
        using a second dropped by (cases "rs_n st = 2") (auto simp: Test_status_def Let_def)
    qed
  next
    case b
    then show thesis
      using held changed by (cases "rs_n st = 0") (auto simp: Test_status_def Let_def)
  qed
qed

lemma series_step_inv:
  assumes inv: "repeat_inv ps out st" and t: "pt_time (last ps) < pt_time p" and v: "wf_val (Value p)"
    and step: "series_step p (Some st) = (es, Some st')"
  shows "repeat_inv (ps @ [p]) (out @ es) st'"
proof -
  have old: "rs_time st < pt_time p" "\<And>q. q \<in> set ps \<Longrightarrow> pt_time q \<le> pt_time (last ps)"
    using inv t by (auto simp: repeat_inv_def)
  have close: "closed_cover (out @ b # bs) q"
    if "q \<in> set ps" "pt_time (last ps) \<le> pt_time b" "rs_n st = 0 \<Longrightarrow> val_eq (Value b) (rs_value st)"
    for q b bs
  proof (cases "closed_cover out q")
    case True
    then show ?thesis by (rule closed_cover_append)
  next
    case False
    with inv that have "open_cover out q" "val_eq (rs_value st) (Value q)" "rs_n st = 0"
      by (auto simp: repeat_inv_def split: if_splits)
    with that old(2) [OF that(1)] show ?thesis by (intro open_cover_close) (auto intro: val_eq_trans)
  qed
  have me: "closed_cover (out @ [p]) p" "closed_cover (out @ [x, p]) p" for x
    using cover_sent [OF v, of out "[]"] cover_sent [OF v, of out "[x]"] by simp_all
  show ?thesis
  proof (cases rule: Test_status_cases [of p st])
    case heartbeat
    with step inv t v show ?thesis
      by (auto simp: repeat_inv_def series_step_def emit_def me close
          val_eq_refl dest: old(2))
  next
    case second
    with step inv t v show ?thesis
      by (auto simp: repeat_inv_def series_step_def emit_def me
          simp: close dest: old(2))
  next
    case dropped
    then have es: "es = []" "st' = st\<lparr>rs_timePrev := pt_time p, rs_n := rs_n st - 1\<rparr>"
      using step by (auto simp: series_step_def emit_def)
    have "open_cover out p"
      unfolding open_cover_def using inv t dropped
      by (intro exI [of _ "butlast out"] exI [of _ "last out"])
        (auto simp: repeat_inv_def intro: val_eq_trans val_eq_sym)
    with es inv t dropped show ?thesis
      by (auto simp: repeat_inv_def val_eq_sym split: if_splits dest: old(2))
  next
    case held
    with step inv t v show ?thesis
      by (auto simp: repeat_inv_def series_step_def emit_def val_eq_refl
          me simp: close dest: old(2))
  next
    case changed
    with step inv t v show ?thesis
      by (auto simp: repeat_inv_def series_step_def emit_def me close
          val_eq_refl dest: old(2))
  qed
qed

section \<open>A whole run of one series\<close>

fun series_run :: "point list \<Rightarrow> repeatStatus option \<Rightarrow> point list \<times> repeatStatus option" where
  "series_run [] st = ([], st)"
| "series_run (p # ps) st =
     (let (es, st) = series_step p st; (rest, st) = series_run ps st in (es @ rest, st))"

definition increasing :: "point list \<Rightarrow> bool" where
  "increasing ps \<longleftrightarrow> sorted_wrt (\<lambda>p q. pt_time p < pt_time q) ps"

lemma series_step_Some: obtains es st' where "series_step p st = (es, Some st')"
  by (cases st; cases "Test_status p (the st)") (auto simp: series_step_def)

lemma series_run_inv:
  assumes "repeat_inv ps out st" "increasing (last ps # qs)" "\<forall>q \<in> set qs. wf_val (Value q)"
    and "series_run qs (Some st) = (es, r)"
  shows "\<exists>st'. r = Some st' \<and> repeat_inv (ps @ qs) (out @ es) st'"
  using assms
proof (induction qs arbitrary: ps out st es)
  case (Cons q qs)
  obtain e st1 where s: "series_step q (Some st) = (e, Some st1)" by (rule series_step_Some)
  obtain es1 where r: "series_run qs (Some st1) = (es1, r)" "es = e @ es1"
    using Cons.prems s by (auto simp: split: prod.splits)
  have "repeat_inv (ps @ [q]) (out @ e) st1"
    using Cons.prems s by (intro series_step_inv) (auto simp: increasing_def)
  then have "\<exists>st'. r = Some st' \<and> repeat_inv ((ps @ [q]) @ qs) ((out @ e) @ es1) st'"
    using Cons.prems r by (intro Cons.IH) (auto simp: increasing_def)
  then show ?case using r by simp
qed auto

lemma series_run_start:
  assumes "increasing (p # ps)" "\<forall>q \<in> set (p # ps). wf_val (Value q)"
    and "series_run (p # ps) None = (out, r)"
  shows "\<exists>es st. out = p # es \<and> r = Some st \<and> repeat_inv (p # ps) out st"
proof -
  let ?st = "\<lparr>rs_time = pt_time p, rs_value = Value p, rs_n = 2, rs_timePrev = 0\<rparr>"
  have one: "repeat_inv [p] [p] ?st"
    using assms(2) by (auto simp: repeat_inv_def val_eq_refl closed_cover_def)
  obtain es where "series_run ps (Some ?st) = (es, r)" "out = p # es"
    using assms(3) by (auto simp: series_step_def split: prod.splits)
  with series_run_inv [OF one] assms show ?thesis by auto
qed

lemma series_run_ok:
  assumes "ps \<noteq> []" "increasing ps" "\<forall>q \<in> set ps. wf_val (Value q)"
  obtains st where "snd (series_run ps None) = Some st" "repeat_inv ps (fst (series_run ps None)) st"
    "hd (fst (series_run ps None)) = hd ps"
proof -
  obtain p qs where "ps = p # qs" using assms(1) by (cases ps) auto
  with assms(2,3) series_run_start [of p qs "fst (series_run ps None)" "snd (series_run ps None)"]
  show thesis by (auto simp del: series_run.simps intro: that)
qed

lemma repeat_inv_cover: "repeat_inv ps out st \<Longrightarrow> p \<in> set ps \<Longrightarrow> cover out p"
  by (auto simp: repeat_inv_def cover_def split: if_splits)

section \<open>The tester on a stream of many series\<close>

text \<open>
  The points sent of one series by a run of the tester over an interleaved stream, each point
  tested at its own clock reading.
\<close>

abbreviation series_of :: "point \<Rightarrow> bytes" where
  "series_of p \<equiv> appendSeries [] p"

fun Test_run :: "(time \<times> point) list \<Rightarrow> repeatTester \<Rightarrow> point list \<times> repeatTester" where
  "Test_run [] t = ([], t)"
| "Test_run ((now, p) # xs) t =
     (case Test_point now p t of (isRepeat, held, t) \<Rightarrow>
       case Test_run xs t of (rest, t) \<Rightarrow> (emit p (isRepeat, held) @ rest, t))"

definition of_series :: "bytes \<Rightarrow> point list \<Rightarrow> point list" where
  "of_series s = filter (\<lambda>p. series_of p = s)"

lemma series_of_eq: "series_of p = pt_metric p @ pt_tags p"
  by (simp add: appendSeries_def)

lemma series_of_held [simp]: "series_of (setValueValid v (p\<lparr>pt_time := t\<rparr>)) = series_of p"
  by (cases v) (simp_all add: series_of_eq)

lemma emit_series: "q \<in> set (emit p (fst (Test_status p st), fst (snd (Test_status p st)))) \<Longrightarrow> series_of q = series_of p"
  by (cases rule: Test_status_cases [of p st]) (auto simp: emit_def)

text \<open>No cleanup falls into the next \<open>n\<close> tests.\<close>

lemma Test_point_no_cleanup:
  assumes "rt_cleanupCountdown t > 1"
  shows "emit p (fst (Test_point now p t), fst (snd (Test_point now p t)))
           = fst (series_step p (Mapping.lookup (rt_bySeries t) (series_of p))) \<and>
         Mapping.lookup (rt_bySeries (snd (snd (Test_point now p t)))) s =
           (if s = series_of p then snd (series_step p (Mapping.lookup (rt_bySeries t) s))
            else Mapping.lookup (rt_bySeries t) s) \<and>
         rt_cleanupCountdown (snd (snd (Test_point now p t))) = rt_cleanupCountdown t - 1"
  using assms
  by (auto simp: Test_point_def series_step_def rep_cleanup_def Let_def emit_def lookup_update
      lookup_update_neq split: option.splits prod.splits)

lemma Test_run_series:
  assumes "rt_cleanupCountdown t > int (length xs)" "Test_run xs t = (out, t')"
  shows "of_series s out = fst (series_run (of_series s (map snd xs)) (Mapping.lookup (rt_bySeries t) s)) \<and>
         Mapping.lookup (rt_bySeries t') s
           = snd (series_run (of_series s (map snd xs)) (Mapping.lookup (rt_bySeries t) s))"
  using assms
proof (induction xs arbitrary: t out)
  case (Cons x xs)
  obtain now p where x: "x = (now, p)" by (cases x)
  obtain r h t1 where tp: "Test_point now p t = (r, h, t1)" by (cases "Test_point now p t")
  obtain rest where rest: "Test_run xs t1 = (rest, t')" "out = emit p (r, h) @ rest"
    using Cons.prems x tp by (auto split: prod.splits)
  have c: "rt_cleanupCountdown t > 1" using Cons.prems by simp
  note step = Test_point_no_cleanup [OF c, where now = now and p = p, unfolded tp, simplified]
  have ih: "of_series s rest = fst (series_run (of_series s (map snd xs)) (Mapping.lookup (rt_bySeries t1) s)) \<and>
      Mapping.lookup (rt_bySeries t') s = snd (series_run (of_series s (map snd xs)) (Mapping.lookup (rt_bySeries t1) s))"
    using Cons.prems rest step by (intro Cons.IH) auto
  have sent: "\<forall>q \<in> set (emit p (r, h)). series_of q = series_of p"
  proof (cases "Mapping.lookup (rt_bySeries t) (series_of p)")
    case None
    then show ?thesis using step by (simp add: series_step_def)
  next
    case (Some st)
    then have "emit p (r, h) = emit p (fst (Test_status p st), fst (snd (Test_status p st)))"
      using step by (simp add: series_step_def case_prod_unfold)
    then show ?thesis using emit_series by simp
  qed
  then have mine: "of_series s (emit p (r, h)) = (if s = series_of p then emit p (r, h) else [])"
    by (auto simp: of_series_def filter_empty_conv)
  show ?case
    using ih rest mine step x by (auto simp: of_series_def split: prod.splits)
qed (simp add: of_series_def)

lemma Test_run_countdown:
  assumes "rt_cleanupCountdown t > int (length xs)" "Test_run xs t = (out, t')"
  shows "rt_cleanupCountdown t' = rt_cleanupCountdown t - int (length xs)"
  using assms
proof (induction xs arbitrary: t out)
  case (Cons x xs)
  obtain now p where x: "x = (now, p)" by (cases x)
  obtain r h t1 where tp: "Test_point now p t = (r, h, t1)" by (cases "Test_point now p t")
  have "rt_cleanupCountdown t > 1" using Cons.prems by simp
  then have "rt_cleanupCountdown t1 = rt_cleanupCountdown t - 1"
    using Test_point_no_cleanup [of t p now] tp by simp
  with Cons.prems Cons.IH [of t1] x tp show ?case by (auto split: prod.splits)
qed simp

section \<open>Suppression loses nothing\<close>

lemma newRepeatTester_simps [simp]:
  "rt_bySeries newRepeatTester = Mapping.empty" "rt_cleanupCountdown newRepeatTester = repeatCleanupEveryN"
  by (simp_all add: newRepeatTester_def)

lemma dropped_soon:
  assumes inv: "repeat_inv ps out st" and drop: "fst (series_step q (Some st)) = []"
    and t: "0 \<le> rs_time st" "in64 (pt_time q)"
  shows "pt_time q < pt_time (last out) + repeatHeartbeat"
proof (cases rule: Test_status_cases [of q st])
  case dropped
  then have "in64 (pt_time q - rs_time st)" using t by (auto simp: in64_iff)
  with dropped inv show ?thesis by (auto simp: repeat_inv_def)
qed (use drop in \<open>auto simp: series_step_def emit_def\<close>)

lemma rs_time_nonneg:
  assumes "\<forall>q \<in> set ps. 0 \<le> pt_time q" "case st of None \<Rightarrow> True | Some s \<Rightarrow> 0 \<le> rs_time s"
  shows "case snd (series_run ps st) of None \<Rightarrow> True | Some s \<Rightarrow> 0 \<le> rs_time s"
  using assms
proof (induction ps arbitrary: st)
  case (Cons p ps)
  have "case snd (series_step p st) of None \<Rightarrow> True | Some s \<Rightarrow> 0 \<le> rs_time s"
  proof (cases st)
    case (Some s)
    then show ?thesis
      using Cons.prems by (cases rule: Test_status_cases [of p s]) (auto simp: series_step_def)
  qed (use Cons.prems in \<open>auto simp: series_step_def\<close>)
  then show ?case
    using Cons.prems Cons.IH [of "snd (series_step p st)"] by (auto simp: split: prod.splits)
qed simp

text \<open>
  C3: A client that drops repeats starts with an empty tester and sends the points of a stream
  of fewer than 100000 points, of any number of interleaved series, through it. If the times of
  the series of a point are strictly increasing and its values are valid, then the point is
  covered by what was sent of its series: it was sent itself, or it lies between two consecutive
  points sent that both carry its value, or it lies after the last one sent and carries its
  value. The first point of each series is sent.
\<close>

theorem repeat_lossless:
  assumes "Test_run xs newRepeatTester = (out, t)" "length xs < 100000"
    and "p \<in> set (map snd xs)" "ps = of_series (series_of p) (map snd xs)"
    and "increasing ps" "\<forall>q \<in> set ps. wf_val (Value q)"
  shows "cover (of_series (series_of p) out) p \<and> hd (of_series (series_of p) out) = hd ps"
proof -
  have p: "p \<in> set ps" using assms(3,4) by (auto simp: of_series_def)
  then have "ps \<noteq> []" by auto
  then obtain st where "repeat_inv ps (fst (series_run ps None)) st" "hd (fst (series_run ps None)) = hd ps"
    using assms(5,6) by (elim series_run_ok)
  moreover have "of_series (series_of p) out = fst (series_run ps None)"
    using Test_run_series [where t = newRepeatTester and s = "series_of p", OF _ assms(1)] assms
    by (simp add: repeatCleanupEveryN_def)
  ultimately show ?thesis using p by (simp add: repeat_inv_cover)
qed

definition rpt :: "int \<Rightarrow> point" where
  "rpt t = \<lparr>pt_time = t, pt_valueInt = 7, pt_valueFloat = 0, pt_isFloat = False,
             pt_metric = ''a.b'', pt_tags = '' host=x''\<rparr>"

lemma rpt_simps [simp]:
  "pt_time (rpt t) = t" "series_of (rpt t) = ''a.b host=x''" "Value (rpt t) = VInt 7"
  by (simp_all add: rpt_def appendSeries_def Value_def)

theorem repeat_lossless_witness:
  "cover (of_series ''a.b host=x'' (fst (Test_run [(0, rpt 1), (5, rpt 2), (9, rpt 3)] newRepeatTester))) (rpt 3)"
proof -
  let ?xs = "[(0, rpt 1), (5, rpt 2), (9, rpt 3)]"
  obtain out t where r: "Test_run ?xs newRepeatTester = (out, t)"
    by (cases "Test_run ?xs newRepeatTester")
  have "cover (of_series (series_of (rpt 3)) out) (rpt 3)"
    by (rule repeat_lossless [OF r, where ps = "[rpt 1, rpt 2, rpt 3]", THEN conjunct1])
      (simp_all add: of_series_def increasing_def in64_iff)
  then show ?thesis using r by (simp del: Test_run.simps)
qed

text \<open>
  C15: A series is never silent for longer than the heartbeat of ten minutes: if, after any
  such stream, the next point of a series is dropped, then its time is less than ten minutes
  after the last point sent of its series.
\<close>

theorem repeat_heartbeat:
  assumes "Test_run xs newRepeatTester = (out, t)" "length xs < 99999"
    and "ps = of_series (series_of p) (map snd xs)" "ps \<noteq> []"
    and "increasing (ps @ [p])" "\<forall>q \<in> set (ps @ [p]). wf_val (Value q) \<and> 0 \<le> pt_time q \<and> in64 (pt_time q)"
    and "Test_point now p t = (isRepeat, held, t')" "emit p (isRepeat, held) = []"
  shows "pt_time p < pt_time (last (of_series (series_of p) out)) + repeatHeartbeat"
proof -
  note run = Test_run_series [OF _ assms(1), of "series_of p"]
  have o: "of_series (series_of p) out = fst (series_run ps None)"
    "Mapping.lookup (rt_bySeries t) (series_of p) = snd (series_run ps None)"
    using run assms by (auto simp: repeatCleanupEveryN_def)
  obtain st where st: "snd (series_run ps None) = Some st"
      "repeat_inv ps (of_series (series_of p) out) st"
  proof (rule series_run_ok [OF assms(4)])
    show "increasing ps" "\<forall>q \<in> set ps. wf_val (Value q)"
      using assms(5,6) by (auto simp: increasing_def sorted_wrt_append)
  qed (simp add: that o(1))
  have "rt_cleanupCountdown t > 1"
    using Test_run_countdown [OF _ assms(1)] assms(2) by (simp add: repeatCleanupEveryN_def)
  then have "fst (series_step p (Some st)) = []"
    using Test_point_no_cleanup [of t p now "series_of p"] assms(7,8) o(2) st(1) by simp
  moreover have "0 \<le> rs_time st"
    using rs_time_nonneg [of ps None] st assms(6) by simp
  ultimately show ?thesis using dropped_soon [OF st(2)] assms(6) by simp
qed

theorem repeat_heartbeat_witness:
  "emit (rpt 3) (fst (Test_point 9 (rpt 3) (snd (Test_run [(0, rpt 1), (5, rpt 2)] newRepeatTester))), None) = [] \<and>
   pt_time (rpt 3) < pt_time (last (of_series ''a.b host=x''
     (fst (Test_run [(0, rpt 1), (5, rpt 2)] newRepeatTester)))) + repeatHeartbeat"
proof -
  let ?xs = "[(0, rpt 1), (5, rpt 2)]"
  obtain out t where r: "Test_run ?xs newRepeatTester = (out, t)" by (cases "Test_run ?xs newRepeatTester")
  have l: "Mapping.lookup (rt_bySeries t) (series_of (rpt 3)) = snd (series_run [rpt 1, rpt 2] None)"
      "rt_cleanupCountdown t = 99998"
    using Test_run_series [OF _ r, of "series_of (rpt 3)"] Test_run_countdown [OF _ r]
    by (simp_all add: repeatCleanupEveryN_def of_series_def)
  then obtain t' where d: "Test_point 9 (rpt 3) t = (True, None, t')"
    by (simp add: Test_point_def Test_status_def rep_cleanup_def series_step_def Let_def
        repeatHeartbeat_def minute_def second_def in64_iff)
  show ?thesis
    using repeat_heartbeat [OF r _ _ _ _ _ d, of "[rpt 1, rpt 2]"] r d
    by (simp add: of_series_def increasing_def in64_iff emit_def)
qed

end
