(* ===== verification/Client.thy ===== *)
theory Client
  imports Repeat "HOL-Library.Multiset"
begin

text \<open>
  The client side of the wire protocol, from \<^verbatim>\<open>internal/tsdb/client.go\<close> and
  \<^verbatim>\<open>client_conn.go\<close>: a bounded queue of put commands, a pool of connections that a
  main loop writes the commands to, acknowledgement of batches by the version command, and the
  dialer with its exponential back-off.

  The callers of \<^verbatim>\<open>Put\<close>, the main loop and the dialing goroutines are the three kinds of
  steps of the relation \<open>client_step\<close>. The network is an argument of each step: whether a
  write succeeds, which lines the server answers, and the clock.

  What is proved: the queue is bounded; no host is ever given up or dialed too often; points of
  one series are all written to the same connection as long as the pool does not change; which
  points are accounted for when a connection breaks, and which are not; the delay between dial
  attempts.
\<close>

section \<open>Commands\<close>

text \<open>\<^verbatim>\<open>c[len("put ") : len(c)-1]\<close>, which panics on a command that is too short.\<close>

definition cmd_Point :: "bytes \<Rightarrow> bytes option" where
  "cmd_Point c = (if length c < 5 then None else Some (butlast (drop 4 c)))"

text \<open>The 32-bit FNV-1 hash of \<^verbatim>\<open>hash/fnv\<close>.\<close>

definition fnv_offset :: "32 word" where "fnv_offset = 2166136261"
definition fnv_prime :: "32 word" where "fnv_prime = 16777619"

definition fnv_write :: "32 word \<Rightarrow> bytes \<Rightarrow> 32 word" where
  "fnv_write h b = fold (\<lambda>c h. xor (h * fnv_prime) (of_nat (ord c))) b h"

definition SeriesHash :: "bytes \<Rightarrow> nat option" where
  "SeriesHash c =
     (case cmd_Point c of
        None \<Rightarrow> None
      | Some buf \<Rightarrow>
          (case index_byte buf (CHR '' '') of
             None \<Rightarrow> None
           | Some i \<Rightarrow>
               let h = fnv_write fnv_offset (take i buf);
                   buf = drop (i + 1) buf;
                   buf = (case index_byte buf (CHR '' '') of None \<Rightarrow> buf | Some i \<Rightarrow> drop (i + 1) buf)
               in case index_byte buf (CHR '' '') of
                    None \<Rightarrow> None
                  | Some i \<Rightarrow> Some (unat (ucast (fnv_write h (drop i buf)) :: 16 word))))"

section \<open>One connection\<close>

definition clientConnAckInterval :: duration where "clientConnAckInterval = 5 * second"
definition clientMaxQueue :: nat where "clientMaxQueue = 100000"

text \<open>
  The identity of a connection (its address in memory) is \<open>cn_id\<close>, and \<open>cn_written\<close> is what was
  written since it joined the pool: the version command that the dialer has sent before is not in it.
\<close>

record clientConn =
  cn_id :: nat
  cn_Addr :: bytes
  cn_Pending :: bytes
  cn_written :: bytes
  cn_ackTime :: time

definition newClientConn :: "nat \<Rightarrow> bytes \<Rightarrow> clientConn" where
  "newClientConn i addr =
     \<lparr>cn_id = i, cn_Addr = addr, cn_Pending = [], cn_written = [], cn_ackTime = zeroTime\<rparr>"

text \<open>How the wait for the version response ends when the lines run out.\<close>

datatype net_end = ScanFails | DeadlineFails

record network =
  nt_now :: time
  nt_write :: bool
  nt_lines :: "bytes list"
  nt_end :: net_end

record client_stats =
  st_bytes :: nat
  st_network :: nat
  st_server :: nat

definition isVersionResponsePart1 :: "bytes \<Rightarrow> bool" where
  "isVersionResponsePart1 s \<longleftrightarrow> has_prefix s ''net.opentsdb built at revision ''"

definition isVersionResponsePart2 :: "bytes \<Rightarrow> bool" where
  "isVersionResponsePart2 s \<longleftrightarrow> has_prefix s ''Built on ''"

fun readVersionResponse :: "net_end \<Rightarrow> bytes list \<Rightarrow> client_stats \<Rightarrow> bool \<times> client_stats" where
  "readVersionResponse DeadlineFails [] st = (False, st)"
| "readVersionResponse ScanFails [] st = (False, st\<lparr>st_network := st_network st + 1\<rparr>)"
| "readVersionResponse e (resp # rest) st =
     (if isVersionResponsePart1 resp then readVersionResponse e rest st
      else if isVersionResponsePart2 resp then (True, st)
      else readVersionResponse e rest (st\<lparr>st_server := st_server st + 1\<rparr>))"

definition version :: "network \<Rightarrow> clientConn \<Rightarrow> client_stats \<Rightarrow> bool \<times> clientConn \<times> client_stats" where
  "version net conn st =
     (case readVersionResponse (nt_end net) (nt_lines net) st of
        (ok, st) \<Rightarrow> (ok, conn\<lparr>cn_written := cn_written conn @ ''version'' @ [CHR 0x0A]\<rparr>, st))"

definition ack :: "network \<Rightarrow> clientConn \<Rightarrow> client_stats \<Rightarrow> bool \<times> clientConn \<times> client_stats" where
  "ack net conn st =
     (if Sub (nt_now net) (cn_ackTime conn) < clientConnAckInterval then (True, conn, st)
      else case version net conn st of
        (False, conn, st) \<Rightarrow> (False, conn, st)
      | (True, conn, st) \<Rightarrow> (True, conn\<lparr>cn_ackTime := nt_now net, cn_Pending := []\<rparr>, st))"

text \<open>A write that fails is taken to write nothing: the part of a command that may be written is lost with the connection.\<close>

definition conn_put ::
  "network \<Rightarrow> bytes \<Rightarrow> clientConn \<Rightarrow> client_stats \<Rightarrow> (bool \<times> clientConn \<times> client_stats) option" where
  "conn_put net cmd conn st =
     (if \<not> nt_write net then Some (False, conn, st\<lparr>st_network := st_network st + 1\<rparr>)
      else case cmd_Point cmd of
        None \<Rightarrow> None
      | Some pointBuf \<Rightarrow>
          Some (True,
            conn\<lparr>cn_written := cn_written conn @ cmd,
                 cn_Pending := cn_Pending conn @ pointBuf @ [CHR 0x0A]\<rparr>,
            st\<lparr>st_bytes := st_bytes st + length pointBuf + 1\<rparr>))"

definition conn_Put ::
  "network \<Rightarrow> bytes \<Rightarrow> clientConn \<Rightarrow> client_stats \<Rightarrow> (bool \<times> clientConn \<times> client_stats) option" where
  "conn_Put net cmd conn st =
     (case conn_put net cmd conn st of
        None \<Rightarrow> None
      | Some (False, conn, st) \<Rightarrow> Some (False, conn, st)
      | Some (True, conn, st) \<Rightarrow> Some (ack net conn st))"

section \<open>The client\<close>

record clientConfig =
  cc_DropRepeats :: bool
  cc_MaxConnsPerHost :: int
  cc_Drop :: bool   \<comment> \<open>whether a \<^verbatim>\<open>Drop\<close> function is set\<close>

text \<open>
  \<open>cl_dialing\<close> lists the addresses of the goroutines that are in \<^verbatim>\<open>dial\<close>, and
  \<open>cl_drops\<close> the arguments of the calls of \<^verbatim>\<open>config.Drop\<close>.
\<close>

record client =
  cl_once :: bool
  cl_hosts :: bytes
  cl_cmd :: "bytes list"
  cl_config :: clientConfig
  cl_repeat :: repeatTester
  cl_up :: "clientConn list"
  cl_next :: nat
  cl_dialing :: "bytes list"
  cl_drops :: "bytes list"
  cl_stats :: client_stats

definition NewClient :: "bytes \<Rightarrow> clientConfig \<Rightarrow> client" where
  "NewClient hosts config =
     \<lparr>cl_once = False, cl_hosts = hosts, cl_cmd = [], cl_config = config, cl_repeat = newRepeatTester,
      cl_up = [], cl_next = 0, cl_dialing = [], cl_drops = [],
      cl_stats = \<lparr>st_bytes = 0, st_network = 0, st_server = 0\<rparr>\<rparr>"

definition parseHosts :: "bytes \<Rightarrow> bytes list" where
  "parseHosts s = split_byte (CHR '','') s"

definition dialAll :: "client \<Rightarrow> client" where
  "dialAll c = c\<lparr>cl_dialing := cl_dialing c @
     concat (map (replicate (nat (cc_MaxConnsPerHost (cl_config c)))) (parseHosts (cl_hosts c)))\<rparr>"

definition client_drop :: "bytes \<Rightarrow> client \<Rightarrow> client" where
  "client_drop lines c = (if cc_Drop (cl_config c) then c\<lparr>cl_drops := cl_drops c @ [lines]\<rparr> else c)"

definition send :: "bytes \<Rightarrow> client \<Rightarrow> client option" where
  "send cmd c =
     (if length (cl_cmd c) < clientMaxQueue then Some (c\<lparr>cl_cmd := cl_cmd c @ [cmd]\<rparr>)
      else case cmd_Point cmd of None \<Rightarrow> None | Some b \<Rightarrow> Some (client_drop b c))"

definition Put :: "golib \<Rightarrow> time \<Rightarrow> point \<Rightarrow> client \<Rightarrow> client option" where
  "Put L now point c =
     (let c = (if cl_once c then c else dialAll (c\<lparr>cl_once := True\<rparr>)) in
      if cc_DropRepeats (cl_config c) then
        (case Test L now point (cl_repeat c) of
           (isRepeat, held, t) \<Rightarrow>
             (case (case held of None \<Rightarrow> Some (c\<lparr>cl_repeat := t\<rparr>) | Some h \<Rightarrow> send h (c\<lparr>cl_repeat := t\<rparr>)) of
                None \<Rightarrow> None
              | Some c \<Rightarrow> if isRepeat then Some c else send (put L point) c))
      else send (put L point) c)"

definition remove :: "clientConn list \<Rightarrow> clientConn \<Rightarrow> clientConn list" where
  "remove list conn = filter (\<lambda>c. cn_id c \<noteq> cn_id conn) list"

text \<open>\<^verbatim>\<open>Client.error\<close>; the connection is closed and redialed by a new goroutine.\<close>

definition client_error :: "clientConn \<Rightarrow> client \<Rightarrow> client" where
  "client_error conn c =
     (let c = client_drop (cn_Pending conn) (c\<lparr>cl_up := remove (cl_up c) conn\<rparr>)
      in c\<lparr>cl_dialing := cl_dialing c @ [cn_Addr conn]\<rparr>)"

text \<open>
  \<^verbatim>\<open>lookupConn\<close> once the pool is not empty: the position of the connection in it. It
  waits while the pool is empty.
\<close>

definition lookupConn :: "bytes \<Rightarrow> client \<Rightarrow> nat option" where
  "lookupConn cmd c = map_option (\<lambda>h. h mod length (cl_up c)) (SeriesHash cmd)"

text \<open>
  One turn of the main loop. It waits while the queue or the pool is empty; \<^const>\<open>None\<close> is a
  panic. While it waits for a connection the command it has taken from the channel is still counted
  with the queue here; the channel itself then has room for one more.
\<close>

definition mainloop :: "network \<Rightarrow> client \<Rightarrow> client option" where
  "mainloop net c =
     (case cl_cmd c of
        [] \<Rightarrow> Some c
      | cmd # rest \<Rightarrow>
          if cl_up c = [] then Some c
          else case lookupConn cmd c of
            None \<Rightarrow> None
          | Some i \<Rightarrow>
              let conn = cl_up c ! i
              in case conn_Put net cmd conn (cl_stats c) of
                   None \<Rightarrow> None
                 | Some (ok, conn, st) \<Rightarrow>
                     let c = c\<lparr>cl_cmd := rest, cl_up := (cl_up c)[i := conn], cl_stats := st\<rparr>
                     in Some (if ok then c else client_error conn c))"

text \<open>A dialing goroutine that got a connection.\<close>

definition dial_done :: "bytes \<Rightarrow> client \<Rightarrow> client" where
  "dial_done addr c =
     c\<lparr>cl_up := cl_up c @ [newClientConn (cl_next c) addr], cl_next := cl_next c + 1,
       cl_dialing := remove1 addr (cl_dialing c)\<rparr>"

inductive client_step :: "golib \<Rightarrow> client \<Rightarrow> client \<Rightarrow> bool" for L where
  step_Put: "Put L now p c = Some c' \<Longrightarrow> client_step L c c'"
| step_mainloop: "mainloop net c = Some c' \<Longrightarrow> client_step L c c'"
| step_dial: "addr \<in> set (cl_dialing c) \<Longrightarrow> client_step L c (dial_done addr c)"

inductive_cases client_stepE: "client_step L c c'"

section \<open>The invariant of the pool\<close>

lemmas client_defs = client_drop_def client_error_def dial_done_def dialAll_def

definition pool_addrs :: "client \<Rightarrow> bytes multiset" where
  "pool_addrs c = mset (map cn_Addr (cl_up c)) + mset (cl_dialing c)"

definition wanted_addrs :: "client \<Rightarrow> bytes multiset" where
  "wanted_addrs c = mset (concat (map (replicate (nat (cc_MaxConnsPerHost (cl_config c))))
     (parseHosts (cl_hosts c))))"

definition client_inv :: "client \<Rightarrow> bool" where
  "client_inv c \<longleftrightarrow> length (cl_cmd c) \<le> clientMaxQueue \<and>
     distinct (map cn_id (cl_up c)) \<and> (\<forall>conn \<in> set (cl_up c). cn_id conn < cl_next c) \<and>
     (if cl_once c then pool_addrs c = wanted_addrs c else cl_up c = [] \<and> cl_dialing c = [])"

lemma send_frame:
  assumes "send cmd c = Some c'"
  shows "cl_up c' = cl_up c" "cl_next c' = cl_next c" "cl_once c' = cl_once c"
    "cl_dialing c' = cl_dialing c" "cl_config c' = cl_config c" "cl_hosts c' = cl_hosts c"
  using assms by (auto simp: send_def client_defs split: if_splits option.splits)

lemma send_frame_config:
  "send cmd c = Some c' \<Longrightarrow> cl_config c' = cl_config c \<and> cl_hosts c' = cl_hosts c"
  using send_frame(5,6) by blast

lemma send_queue: "send cmd c = Some c' \<Longrightarrow> length (cl_cmd c) \<le> clientMaxQueue \<Longrightarrow> length (cl_cmd c') \<le> clientMaxQueue"
  by (auto simp: send_def client_defs split: if_splits option.splits)

lemma send_inv [go_inv]: "client_inv c \<Longrightarrow> send cmd c = Some c' \<Longrightarrow> client_inv c'"
  using send_frame [of cmd c c'] send_queue [of cmd c c']
  by (auto simp: client_inv_def pool_addrs_def wanted_addrs_def)

lemma once_inv: "client_inv c \<Longrightarrow> \<not> cl_once c \<Longrightarrow> client_inv (dialAll (c\<lparr>cl_once := True\<rparr>))"
  by (auto simp: client_inv_def pool_addrs_def wanted_addrs_def client_defs)

lemma repeat_upd_inv [simp]: "client_inv (c\<lparr>cl_repeat := t\<rparr>) = client_inv c"
  by (simp add: client_inv_def pool_addrs_def wanted_addrs_def)

text \<open>\<^verbatim>\<open>Put\<close> is a sequence of sends, after the pool is started.\<close>

definition started :: "client \<Rightarrow> client" where
  "started c = (if cl_once c then c else dialAll (c\<lparr>cl_once := True\<rparr>))"

lemma Put_cases:
  assumes "Put L now p c = Some c'"
  obtains
    (plain) "send (put L p) (started c) = Some c'"
  | (dropped) t where "c' = (started c)\<lparr>cl_repeat := t\<rparr>"
  | (sent) t where "send (put L p) ((started c)\<lparr>cl_repeat := t\<rparr>) = Some c'"
  | (held) t h where "send h ((started c)\<lparr>cl_repeat := t\<rparr>) = Some c'"
  | (both) t h c1 where "send h ((started c)\<lparr>cl_repeat := t\<rparr>) = Some c1" "send (put L p) c1 = Some c'"
  using assms unfolding Put_def started_def [symmetric] Let_def
  by (auto split: if_splits prod.splits option.splits)

lemma Put_inv [go_inv]:
  assumes "client_inv c" "Put L now p c = Some c'"
  shows "client_inv c'"
proof -
  have s: "client_inv (started c)" using assms(1) once_inv by (simp add: started_def)
  from assms(2) show ?thesis
  proof (cases rule: Put_cases)
    case (both t h c1)
    then have "client_inv c1" using s send_inv by (metis repeat_upd_inv)
    with both(2) show ?thesis by (rule send_inv [rotated])
  qed (use s send_inv in \<open>metis repeat_upd_inv\<close>)+
qed

lemma ack_frame:
  "ack net conn st = (ok, conn', st') \<Longrightarrow> cn_id conn' = cn_id conn \<and> cn_Addr conn' = cn_Addr conn"
  by (auto simp: ack_def version_def split: if_splits prod.splits bool.splits)

lemma conn_Put_frame:
  "conn_Put net cmd conn st = Some (ok, conn', st') \<Longrightarrow> cn_id conn' = cn_id conn \<and> cn_Addr conn' = cn_Addr conn"
  by (auto simp: conn_Put_def conn_put_def split: if_splits option.splits prod.splits bool.splits dest!: ack_frame)

lemma remove_addrs:
  assumes "distinct (map cn_id xs)" "conn \<in> set xs"
  shows "mset (map cn_Addr (remove xs conn)) + {#cn_Addr conn#} = mset (map cn_Addr xs)"
  using assms
proof (induction xs)
  case (Cons x xs)
  show ?case
  proof (cases "x = conn")
    case True
    with Cons.prems have "remove xs conn = xs" by (auto simp: remove_def filter_id_conv rev_image_eqI)
    with True show ?thesis by (simp add: remove_def)
  next
    case False
    with Cons have "cn_id x \<noteq> cn_id conn" by (metis distinct.simps(2) image_eqI list.set_map list.simps(9) set_ConsD)
    with Cons False show ?thesis by (simp add: remove_def)
  qed
qed simp

lemma client_error_inv:
  assumes "client_inv c" "conn \<in> set (cl_up c)"
  shows "client_inv (client_error conn c)"
proof -
  have d: "distinct (map cn_id (cl_up c))" and o: "cl_once c"
    using assms by (auto simp: client_inv_def split: if_splits)
  have "distinct (map cn_id (remove (cl_up c) conn))"
    using d by (simp add: remove_def distinct_map_filter)
  moreover have "pool_addrs (client_error conn c) = pool_addrs c"
    using remove_addrs [OF d assms(2)] by (simp add: pool_addrs_def client_defs Let_def)
  ultimately show ?thesis
    using assms(1) o by (auto simp: client_inv_def client_defs Let_def wanted_addrs_def remove_def)
qed

lemma mainloop_elim:
  assumes "mainloop net c = Some c'"
  obtains (wait) "cl_cmd c = [] \<or> cl_up c = []" "c' = c"
  | (turn) cmd rest i ok conn st where "cl_cmd c = cmd # rest" "lookupConn cmd c = Some i" "i < length (cl_up c)"
      "conn_Put net cmd (cl_up c ! i) (cl_stats c) = Some (ok, conn, st)"
      "c' = (if ok then c\<lparr>cl_cmd := rest, cl_up := (cl_up c)[i := conn], cl_stats := st\<rparr>
             else client_error conn (c\<lparr>cl_cmd := rest, cl_up := (cl_up c)[i := conn], cl_stats := st\<rparr>))"
proof (cases "cl_cmd c = [] \<or> cl_up c = []")
  case True
  with assms show thesis by (intro wait) (auto simp: mainloop_def split: list.splits)
next
  case False
  with assms show thesis
    by (cases "cl_cmd c") (auto simp: mainloop_def lookupConn_def Let_def intro!: turn split: option.splits prod.splits)
qed

lemma update_inv:
  assumes "client_inv c" "i < length (cl_up c)" "cn_id conn = cn_id (cl_up c ! i)" "cn_Addr conn = cn_Addr (cl_up c ! i)"
    and "length rest \<le> length (cl_cmd c)"
  shows "client_inv (c\<lparr>cl_cmd := rest, cl_up := (cl_up c)[i := conn], cl_stats := st\<rparr>)"
proof -
  have same: "map f ((cl_up c)[i := conn]) = map f (cl_up c)" if "f conn = f (cl_up c ! i)" for f :: "clientConn \<Rightarrow> 'z"
    using assms(2) that by (metis list_update_id map_update)
  have "cn_id conn < cl_next c"
    using assms(1-3) by (auto simp: client_inv_def)
  with assms same [of cn_id] same [of cn_Addr] show ?thesis
    by (auto simp: client_inv_def pool_addrs_def wanted_addrs_def dest!: set_update_subset_insert [THEN subsetD])
qed

lemma mainloop_inv [go_inv]:
  assumes "client_inv c" "mainloop net c = Some c'"
  shows "client_inv c'"
  using assms(2)
proof (cases rule: mainloop_elim)
  case (turn cmd rest i ok conn st)
  let ?c = "c\<lparr>cl_cmd := rest, cl_up := (cl_up c)[i := conn], cl_stats := st\<rparr>"
  have "client_inv ?c"
    using conn_Put_frame [OF turn(4)] turn assms(1) by (intro update_inv) auto
  moreover have "conn \<in> set (cl_up ?c)" using turn(3) by (simp add: set_update_memI)
  ultimately show ?thesis using turn(5) client_error_inv by simp
qed (use assms in simp)

lemma dial_done_inv [go_inv]:
  assumes "client_inv c" "addr \<in> set (cl_dialing c)"
  shows "client_inv (dial_done addr c)"
proof -
  have "pool_addrs (dial_done addr c) = pool_addrs c"
    using assms(2) by (simp add: pool_addrs_def dial_done_def newClientConn_def)
  with assms show ?thesis
    by (auto simp: client_inv_def dial_done_def newClientConn_def wanted_addrs_def less_Suc_eq split: if_splits)
qed

lemma client_step_inv: "client_step L c c' \<Longrightarrow> client_inv c \<Longrightarrow> client_inv c'"
  by (elim client_stepE) (auto intro: go_inv)

lemma client_step_frame: "client_step L c c' \<Longrightarrow> cl_config c' = cl_config c \<and> cl_hosts c' = cl_hosts c"
proof (elim client_stepE)
  fix now p assume "Put L now p c = Some c'"
  then show ?thesis
    by (cases rule: Put_cases) (auto simp: started_def dialAll_def dest!: send_frame_config)
next
  fix net assume "mainloop net c = Some c'"
  then show ?thesis by (cases rule: mainloop_elim) (auto simp: client_defs Let_def)
qed (auto simp: dial_done_def)

lemma NewClient_inv: "client_inv (NewClient hosts config)"
  by (simp add: client_inv_def NewClient_def)

section \<open>Which connection a series goes to\<close>

lemma cmd_Point_put [simp]: "cmd_Point (put L p) = Some (append_point L [] p)"
  by (simp add: cmd_Point_def put_def append_point_eq butlast_append)

lemma fnv_write_append [simp]: "fnv_write h [] = h" "fnv_write h (a @ b) = fnv_write (fnv_write h a) b"
  by (simp_all add: fnv_write_def)

definition value_blank_free :: "golib \<Rightarrow> point \<Rightarrow> bool" where
  "value_blank_free L p \<longleftrightarrow> CHR '' '' \<notin> set (append_value L [] p)"

lemma SeriesHash_put:
  assumes "wf_point L p" "value_blank_free L p"
  shows "SeriesHash (put L p) =
    (if pt_tags p = [] then None
     else Some (unat (ucast (fnv_write fnv_offset (series_of p)) :: 16 word)))"
proof -
  let ?t = "appendInt [] (tdiv (pt_time p) (10 ^ 9))"
  have m: "CHR '' '' \<notin> set (pt_metric p)"
    using assms(1) text_ok_seps(1) by (auto simp: wf_point_def)
  have "in64 (tdiv (pt_time p) (10 ^ 9))"
    using assms(1) by (simp add: wf_point_def in64_tdiv)
  then have t: "CHR '' '' \<notin> set ?t" using appendInt_no_sep by blast
  have v: "CHR '' '' \<notin> set (append_value L [] p)" using assms(2) by (simp add: value_blank_free_def)
  have tags: "pt_tags p = [] \<or> (\<exists>s. pt_tags p = CHR '' '' # s)"
    using assms(1) wf_tags_hd by (auto simp: wf_point_def)
  have line: "append_point L [] p =
      pt_metric p @ CHR '' '' # ?t @ CHR '' '' # append_value L [] p @ pt_tags p"
    by (simp add: append_point_eq)
  show ?thesis
    using m t v tags unfolding SeriesHash_def cmd_Point_put option.case line
    by (auto simp: Let_def appendSeries_def)
qed

section \<open>Accounting\<close>

definition newlines :: "bytes \<Rightarrow> nat" where "newlines b = count_list b (CHR 0x0A)"

lemma newlines_simps [simp]: "newlines [] = 0" "newlines (a @ b) = newlines a + newlines b"
  "newlines (c # b) = (if c = CHR 0x0A then 1 else 0) + newlines b"
  by (auto simp: newlines_def)

lemma newlines_0: "CHR 0x0A \<notin> set b \<Longrightarrow> newlines b = 0"
  by (simp add: newlines_def)

text \<open>Points in the queue or written and not acknowledged, and lines handed to \<^verbatim>\<open>Drop\<close>.\<close>

definition outstanding :: "client \<Rightarrow> nat" where
  "outstanding c = length (cl_cmd c) + sum_list (map (\<lambda>conn. newlines (cn_Pending conn)) (cl_up c))"

definition reported :: "client \<Rightarrow> nat" where
  "reported c = sum_list (map newlines (cl_drops c))"

definition acked :: "network \<Rightarrow> clientConn \<Rightarrow> bool" where
  "acked net conn \<longleftrightarrow> \<not> Sub (nt_now net) (cn_ackTime conn) < clientConnAckInterval \<and>
     list_ex isVersionResponsePart2 (nt_lines net)"

lemma readVersionResponse_ok:
  "fst (readVersionResponse e lines st) \<longleftrightarrow> list_ex isVersionResponsePart2 lines"
proof (induction e lines st rule: readVersionResponse.induct)
  case (3 e resp rest st)
  have "isVersionResponsePart1 resp \<Longrightarrow> \<not> isVersionResponsePart2 resp"
    by (auto simp: isVersionResponsePart1_def isVersionResponsePart2_def has_prefix_iff)
  with 3 show ?case by auto
qed simp_all

lemma conn_Put_pending:
  assumes "conn_Put net cmd conn st = Some (ok, conn', st')" "cmd_Point cmd = Some b" "CHR 0x0A \<notin> set b"
  shows "ok \<longrightarrow> nt_write net"
    and "newlines (cn_Pending conn) + 1 = newlines (cn_Pending conn') +
      (if \<not> nt_write net then 1 else if acked net conn then newlines (cn_Pending conn) + 1 else 0)"
    and "acked net conn \<Longrightarrow> nt_write net \<Longrightarrow> ok"
  using assms readVersionResponse_ok [of "nt_end net" "nt_lines net"]
  by (auto simp: conn_Put_def conn_put_def ack_def version_def acked_def newlines_0
      split: if_splits prod.splits bool.splits) (metis fst_conv)+

lemma sum_list_update_nat:
  fixes f :: "'a \<Rightarrow> nat"
  assumes "i < length xs"
  shows "sum_list (map f (xs[i := x])) + f (xs ! i) = sum_list (map f xs) + f x"
  using assms by (induction xs arbitrary: i) (auto split: nat.split)

lemma sum_list_remove:
  fixes f :: "clientConn \<Rightarrow> nat"
  assumes "distinct (map cn_id xs)" "conn \<in> set xs"
  shows "sum_list (map f (remove xs conn)) + f conn = sum_list (map f xs)"
  using assms
proof (induction xs)
  case (Cons x xs)
  show ?case
  proof (cases "x = conn")
    case True
    with Cons.prems have "remove xs conn = xs" by (auto simp: remove_def filter_id_conv rev_image_eqI)
    with True show ?thesis by (simp add: remove_def)
  next
    case False
    with Cons have "cn_id x \<noteq> cn_id conn" by (metis distinct.simps(2) image_eqI list.set_map list.simps(9) set_ConsD)
    with Cons False show ?thesis by (simp add: remove_def)
  qed
qed simp

lemma outstanding_error:
  assumes "client_inv c" "conn \<in> set (cl_up c)" "cc_Drop (cl_config c)"
  shows "outstanding (client_error conn c) + reported (client_error conn c) = outstanding c + reported c"
proof -
  have "distinct (map cn_id (cl_up c))" using assms(1) by (simp add: client_inv_def)
  from sum_list_remove [OF this assms(2), of "\<lambda>conn. newlines (cn_Pending conn)"] assms(3)
  show ?thesis by (simp add: outstanding_def reported_def client_defs Let_def)
qed

section \<open>Dialing\<close>

definition clientConnMaxSleep :: duration where "clientConnMaxSleep = 10 * minute"

text \<open>
  \<^verbatim>\<open>net.SplitHostPort\<close>, of which only the success matters here, and
  \<^verbatim>\<open>net.JoinHostPort\<close>.
\<close>

fun last_index :: "bytes \<Rightarrow> char \<Rightarrow> nat option" where
  "last_index [] c = None"
| "last_index (x # xs) c =
     (case last_index xs c of Some i \<Rightarrow> Some (Suc i) | None \<Rightarrow> if x = c then Some 0 else None)"

definition SplitHostPort_ok :: "bytes \<Rightarrow> bool" where
  "SplitHostPort_ok s =
     (case last_index s (CHR '':'') of
        None \<Rightarrow> False
      | Some i \<Rightarrow>
          if hd s = CHR ''['' then
            (case index_byte s (CHR '']'') of
               None \<Rightarrow> False
             | Some e \<Rightarrow> e + 1 = i \<and> CHR ''['' \<notin> set (drop 1 s) \<and> CHR '']'' \<notin> set (drop (e + 1) s))
          else CHR '':'' \<notin> set (take i s) \<and> CHR ''['' \<notin> set s \<and> CHR '']'' \<notin> set s)"

definition JoinHostPort :: "bytes \<Rightarrow> bytes \<Rightarrow> bytes" where
  "JoinHostPort host port =
     (if CHR '':'' \<in> set host then ''['' @ host @ '']:'' @ port else host @ '':'' @ port)"

definition addrFull :: "bytes \<Rightarrow> bytes" where
  "addrFull s = (if SplitHostPort_ok s then s else JoinHostPort s ''4242'')"

text \<open>
  One call of the function that \<^verbatim>\<open>newDial\<close> returns. The state is the delay of each address
  with a failed attempt; \<open>scale\<close> is the multiplication by a random number between one and two
  in single precision; \<open>ok\<close> tells whether connecting, switching the delay off and the first
  acknowledgement all succeed. The first result is the time slept.
\<close>

definition newRetrySleep :: "(duration \<Rightarrow> duration) \<Rightarrow> duration \<Rightarrow> duration" where
  "newRetrySleep scale delay =
     (let delay = scale delay in if delay > clientConnMaxSleep then clientConnMaxSleep else delay)"

definition newDial ::
  "(duration \<Rightarrow> duration) \<Rightarrow> bool \<Rightarrow> bytes \<Rightarrow> (bytes \<rightharpoonup> duration) \<Rightarrow> duration \<times> bool \<times> (bytes \<rightharpoonup> duration)" where
  "newDial scale ok addr m =
     (let addr = addrFull addr;
          (slept, m) = (case m addr of
             None \<Rightarrow> (0, m(addr \<mapsto> 1 * second))
           | Some delay \<Rightarrow> let delay = newRetrySleep scale delay in (delay, m(addr \<mapsto> delay)))
      in (slept, ok, if ok then m(addr := None) else m))"

text \<open>The sleeps before a row of failing attempts, with the random factors drawn in turn.\<close>

fun failing_dials :: "(duration \<Rightarrow> duration) list \<Rightarrow> bytes \<Rightarrow> (bytes \<rightharpoonup> duration) \<Rightarrow> duration list" where
  "failing_dials [] addr m = []"
| "failing_dials (scale # scales) addr m =
     (case newDial scale False addr m of (slept, _, m) \<Rightarrow> slept # failing_dials scales addr m)"

definition growing :: "(duration \<Rightarrow> duration) \<Rightarrow> bool" where
  "growing scale \<longleftrightarrow> (\<forall>d. 0 \<le> d \<longrightarrow> d \<le> scale d)"

lemma newRetrySleep_mono:
  "growing scale \<Longrightarrow> 0 \<le> d \<Longrightarrow> d \<le> clientConnMaxSleep \<Longrightarrow>
     d \<le> newRetrySleep scale d \<and> newRetrySleep scale d \<le> clientConnMaxSleep"
  by (auto simp: newRetrySleep_def growing_def Let_def)

lemma failing_dials_from:
  "list_all growing scales \<Longrightarrow> m (addrFull addr) = Some d \<Longrightarrow> 0 \<le> d \<Longrightarrow> d \<le> clientConnMaxSleep \<Longrightarrow>
     sorted (d # failing_dials scales addr m) \<and> set (failing_dials scales addr m) \<subseteq> {0..clientConnMaxSleep}"
proof (induction scales arbitrary: m d)
  case (Cons scale scales)
  let ?d = "newRetrySleep scale d"
  have d: "d \<le> ?d" "?d \<le> clientConnMaxSleep" using newRetrySleep_mono Cons.prems by auto
  have "sorted (?d # failing_dials scales addr (m(addrFull addr \<mapsto> ?d))) \<and>
      set (failing_dials scales addr (m(addrFull addr \<mapsto> ?d))) \<subseteq> {0..clientConnMaxSleep}"
    using Cons.prems d by (intro Cons.IH) auto
  moreover have "failing_dials (scale # scales) addr m = ?d # failing_dials scales addr (m(addrFull addr \<mapsto> ?d))"
    using Cons.prems(2) by (simp add: newDial_def Let_def)
  ultimately show ?case using Cons.prems(3) d by fastforce
qed simp

section \<open>Properties\<close>

lemma example_blank_free: "0 \<le> n \<Longrightarrow> value_blank_free L (example_point t n)"
  using dec_digits [of n] is_digit_no_sep
  by (auto simp: value_blank_free_def append_value_def example_point_def appendInt_nonneg)

text \<open>A client with one connection and one command in its queue.\<close>

definition example_client :: "point \<Rightarrow> client" where
  "example_client p =
     (NewClient ''a'' \<lparr>cc_DropRepeats = False, cc_MaxConnsPerHost = 1, cc_Drop = True\<rparr>)
       \<lparr>cl_once := True, cl_up := [newClientConn 0 ''a''], cl_next := 1, cl_cmd := [put latin1_lib p]\<rparr>"

lemma example_client_simps [simp]:
  "cl_cmd (example_client p) = [put latin1_lib p]" "cl_up (example_client p) = [newClientConn 0 ''a'']"
  "cc_Drop (cl_config (example_client p))"
  by (simp_all add: example_client_def NewClient_def)

lemma example_client_inv: "client_inv (example_client p)"
  by (simp add: client_inv_def example_client_def NewClient_def newClientConn_def clientMaxQueue_def
      pool_addrs_def wanted_addrs_def parseHosts_def)

definition broken_network :: network where
  "broken_network = \<lparr>nt_now = 0, nt_write = False, nt_lines = [], nt_end = ScanFails\<rparr>"

text \<open>
  C10: In every state that the client can reach, from any number of calls of \<^verbatim>\<open>Put\<close>, turns of
  the main loop and finished dials in any order, the queue holds at most 100000 commands, and
  once the first point was put the established connections and the goroutines that dial make up
  exactly the configured number of connections for each host: no broken connection is left
  without a goroutine that redials it, and no host is dialed twice for one connection.
\<close>

theorem client_pool:
  assumes "(client_step L)\<^sup>*\<^sup>* (NewClient hosts config) c"
  shows "length (cl_cmd c) \<le> 100000 \<and>
    (cl_once c \<longrightarrow> pool_addrs c = mset (concat (map (replicate (nat (cc_MaxConnsPerHost config))) (parseHosts hosts))))"
proof -
  have "client_inv c \<and> cl_config c = config \<and> cl_hosts c = hosts"
    using assms
  proof (induction rule: rtranclp_induct)
    case base
    show ?case using NewClient_inv by (simp add: NewClient_def)
  next
    case (step y z)
    then show ?case using client_step_inv client_step_frame by metis
  qed
  then show ?thesis by (auto simp: client_inv_def wanted_addrs_def clientMaxQueue_def)
qed

theorem client_pool_witness:
  "pool_addrs (the (Put latin1_lib 0 (example_point 0 1)
     (NewClient ''a,b'' \<lparr>cc_DropRepeats = False, cc_MaxConnsPerHost = 2, cc_Drop = True\<rparr>)))
   = {#''a'', ''a'', ''b'', ''b''#}"
proof -
  let ?config = "\<lparr>cc_DropRepeats = False, cc_MaxConnsPerHost = 2, cc_Drop = True\<rparr>"
  let ?c0 = "NewClient ''a,b'' ?config"
  obtain c where c: "Put latin1_lib 0 (example_point 0 1) ?c0 = Some c" "cl_once c"
    by (simp add: Put_def NewClient_def dialAll_def send_def clientMaxQueue_def)
  then have "(client_step latin1_lib)\<^sup>*\<^sup>* ?c0 c" by (blast intro: step_Put)
  from client_pool [OF this] c show ?thesis
    by (simp add: parseHosts_def numeral_2_eq_2)
qed

text \<open>
  The connection a command is written to depends on the metric and the tags of its point
  only: all points of one series go to the same connection, in the order of the queue, as long
  as the pool does not change. The index is the 32-bit FNV hash of the series cut to 16 bits,
  modulo the size of the pool.
\<close>

theorem series_affinity:
  assumes "wf_point L p" "value_blank_free L p" "pt_tags p \<noteq> []"
  shows "lookupConn (put L p) c =
    Some (unat (ucast (fnv_write fnv_offset (pt_metric p @ pt_tags p)) :: 16 word) mod length (cl_up c))"
  using SeriesHash_put [OF assms(1,2)] assms(3) by (simp add: lookupConn_def appendSeries_def)

text \<open>
  The main loop panics on a point without tags: the search for the blank before the first
  tag fails, and the slice expression that follows is out of range. Such a point is well-formed
  for every other operation.
\<close>

theorem untagged_point_panics:
  assumes "wf_point L p" "value_blank_free L p" "pt_tags p = []" "cl_cmd c = put L p # rest" "cl_up c \<noteq> []"
  shows "mainloop net c = None"
  using SeriesHash_put [OF assms(1,2)] assms(3-5) by (simp add: mainloop_def lookupConn_def)

text \<open>
  C11: What becomes of the points when the main loop takes a command off the queue. Every point
  that was queued or pending is afterwards still queued or pending, or handed to
  \<^verbatim>\<open>Drop\<close>, with two exceptions: the points of a connection that the server acknowledged, and
  the one point whose write failed, which is neither retried nor reported.
\<close>

theorem mainloop_accounting:
  assumes "client_inv c" "cc_Drop (cl_config c)" "cl_cmd c = cmd # rest" "cl_up c \<noteq> []"
    and "cmd_Point cmd = Some b" "CHR 0x0A \<notin> set b" "lookupConn cmd c = Some i" "mainloop net c = Some c'"
  shows "outstanding c + reported c = outstanding c' + reported c' +
    (if \<not> nt_write net then 1
     else if acked net (cl_up c ! i) then newlines (cn_Pending (cl_up c ! i)) + 1
     else 0)"
  using assms(8)
proof (cases rule: mainloop_elim)
  case (turn cmd' rest' i' ok conn st)
  with assms have eq: "cmd' = cmd" "rest' = rest" "i' = i" by auto
  let ?c = "c\<lparr>cl_cmd := rest, cl_up := (cl_up c)[i := conn], cl_stats := st\<rparr>"
  note pend = conn_Put_pending [OF turn(4) [unfolded eq] assms(5,6)]
  have up: "outstanding c = outstanding ?c +
      (if \<not> nt_write net then 1 else if acked net (cl_up c ! i) then newlines (cn_Pending (cl_up c ! i)) + 1 else 0)"
    using sum_list_update_nat [of i "cl_up c" "\<lambda>conn. newlines (cn_Pending conn)" conn] turn(3) pend(2) assms(3) eq
    by (simp add: outstanding_def)
  have "client_inv ?c"
    using conn_Put_frame [OF turn(4)] turn assms(1,3) eq by (intro update_inv) auto
  then have "outstanding (client_error conn ?c) + reported (client_error conn ?c) = outstanding ?c + reported ?c"
    using turn(3) eq assms(2) by (intro outstanding_error) (auto simp: set_update_memI)
  moreover have "reported ?c = reported c" by (simp add: reported_def)
  ultimately show ?thesis using up turn(5) eq by simp
qed (use assms in auto)

theorem mainloop_accounting_witness:
  "\<exists>c'. mainloop broken_network (example_client (example_point 0 1)) = Some c' \<and>
     outstanding (example_client (example_point 0 1)) + reported (example_client (example_point 0 1))
       = outstanding c' + reported c' + 1"
proof -
  let ?p = "example_point 0 1"
  have i: "lookupConn (put latin1_lib ?p) (example_client ?p) = Some 0"
    using SeriesHash_put [of latin1_lib ?p]
    by (simp add: lookupConn_def example_point_wf in64_iff example_blank_free) (simp add: example_point_def tag_text_def)
  have nl: "CHR 0x0A \<notin> set (append_point latin1_lib [] ?p)"
    using encodable_line(1) [OF example_encodable [of 0 1]] by simp
  obtain c' where c': "mainloop broken_network (example_client ?p) = Some c'"
    using i by (simp add: mainloop_def conn_Put_def conn_put_def broken_network_def Let_def)
  from mainloop_accounting [OF example_client_inv _ _ _ cmd_Point_put nl i c'] c' show ?thesis
    by (simp add: broken_network_def)
qed

text \<open>
  The dialer keeps its promises: the first attempt for an address is made without delay,
  the delays before further attempts never decrease and never exceed ten minutes, and the
  attempt after a success is again without delay. Of the random factor it is assumed that it
  does not shorten the delay.
\<close>

theorem dial_backoff:
  assumes "list_all growing scales" "m (addrFull addr) = None"
  shows "sorted (failing_dials scales addr m) \<and>
    set (failing_dials scales addr m) \<subseteq> {0..10 * minute} \<and>
    (scales \<noteq> [] \<longrightarrow> hd (failing_dials scales addr m) = 0) \<and>
    fst (newDial scale ok addr (snd (snd (newDial scale' True addr m')))) = 0"
proof -
  have "sorted (failing_dials scales addr m) \<and> set (failing_dials scales addr m) \<subseteq> {0..10 * minute} \<and>
      (scales \<noteq> [] \<longrightarrow> hd (failing_dials scales addr m) = 0)"
  proof (cases scales)
    case (Cons sc scs)
    let ?m = "m(addrFull addr \<mapsto> 1 * second)"
    have one: "failing_dials scales addr m = 0 # failing_dials scs addr ?m"
      using Cons assms(2) by (simp add: newDial_def)
    have "sorted (second # failing_dials scs addr ?m) \<and> set (failing_dials scs addr ?m) \<subseteq> {0..clientConnMaxSleep}"
      using Cons assms(1) by (intro failing_dials_from) (auto simp: second_def clientConnMaxSleep_def minute_def)
    then show ?thesis
      unfolding one by (auto simp: clientConnMaxSleep_def minute_def second_def)
  qed simp
  moreover have "fst (newDial scale ok addr (snd (snd (newDial scale' True addr m')))) = 0"
    by (simp add: newDial_def Let_def case_prod_unfold)
  ultimately show ?thesis by blast
qed

end
