(* ===== verification/Relay.thy ===== *)
theory Relay
  imports Client
begin

text \<open>
  The relays of \<^verbatim>\<open>internal/relay\<close>: a named client whose dropped points are counted and,
  when configured, logged, and the pool that broadcasts every point to all relays.

  What is proved: the configuration is normalised; the log of lost points splits the pending
  buffer of a broken connection into exactly its points; the same code panics when it is called
  for a point that did not fit into the queue.
\<close>

section \<open>Configuration\<close>

record relay_config =
  rc_DropRepeats :: bool
  rc_Host :: bytes
  rc_MaxConnsPerHost :: "int option"
  rc_OnQueueFull :: bytes

datatype relay_error = MissingHost | InvalidOnQueueFull bytes | MaxConnsOutOfRange int

definition relay_Validate :: "relay_config \<Rightarrow> relay_error + relay_config" where
  "relay_Validate c =
     (if rc_Host c = '''' then Inl MissingHost
      else rbind
        (if rc_OnQueueFull c = '''' then Inr (c\<lparr>rc_OnQueueFull := ''Drop''\<rparr>)
         else if rc_OnQueueFull c = ''Drop'' \<or> rc_OnQueueFull c = ''DropAndLog'' then Inr c
         else Inl (InvalidOnQueueFull (rc_OnQueueFull c)))
        (\<lambda>c. case rc_MaxConnsPerHost c of
           None \<Rightarrow> Inr (c\<lparr>rc_MaxConnsPerHost := Some 1\<rparr>)
         | Some mx \<Rightarrow> if mx < 16 then Inr c else Inl (MaxConnsOutOfRange mx)))"

section \<open>Dropped points\<close>

text \<open>The counter of dropped points and the lines written to standard output.\<close>

record relay_sink =
  sk_drops :: nat
  sk_log :: "bytes list"

definition relay_drop :: "bytes \<Rightarrow> relay_sink \<Rightarrow> relay_sink" where
  "relay_drop buf s = s\<lparr>sk_drops := sk_drops s + newlines buf\<rparr>"

text \<open>The loop of \<^verbatim>\<open>logLost\<close>; the slice \<^verbatim>\<open>buf[:i]\<close> panics when there is no newline.\<close>

function logLost_loop :: "bytes \<Rightarrow> bytes list \<Rightarrow> bytes list option" where
  "logLost_loop buf out =
     (if buf = [] then Some out
      else case index_byte buf (CHR 0x0A) of
        None \<Rightarrow> None
      | Some i \<Rightarrow> logLost_loop (drop (i + 1) buf) (out @ [take i buf]))"
  by pat_completeness auto
termination
  by (relation "measure (\<lambda>(buf, out). length buf)") auto

declare logLost_loop.simps [simp del]

definition logLost :: "bytes \<Rightarrow> relay_sink \<Rightarrow> relay_sink option" where
  "logLost buf s =
     (let s = relay_drop buf s in
      map_option (\<lambda>out. s\<lparr>sk_log := out\<rparr>) (logLost_loop buf (sk_log s)))"

section \<open>Relays\<close>

record relay =
  rl_name :: bytes
  rl_log :: bool   \<comment> \<open>whether \<^verbatim>\<open>drop\<close> is wrapped in \<^verbatim>\<open>logLost\<close>\<close>
  rl_client :: client
  rl_sink :: relay_sink

definition NewRelay :: "bytes \<Rightarrow> relay_config \<Rightarrow> relay_error + relay" where
  "NewRelay name config =
     rbind (relay_Validate config) (\<lambda>config.
       Inr \<lparr>rl_name = name, rl_log = (rc_OnQueueFull config = ''DropAndLog''),
            rl_client = NewClient (rc_Host config)
              \<lparr>cc_DropRepeats = rc_DropRepeats config,
               cc_MaxConnsPerHost = the (rc_MaxConnsPerHost config), cc_Drop = True\<rparr>,
            rl_sink = \<lparr>sk_drops = 0, sk_log = []\<rparr>\<rparr>)"

definition relay_sink_drop :: "bool \<Rightarrow> bytes \<Rightarrow> relay_sink \<Rightarrow> relay_sink option" where
  "relay_sink_drop log buf s = (if log then logLost buf s else Some (relay_drop buf s))"

text \<open>The calls of the drop function that a step of the client makes are carried out in turn.\<close>

fun relay_drops :: "bool \<Rightarrow> bytes list \<Rightarrow> relay_sink \<Rightarrow> relay_sink option" where
  "relay_drops log [] s = Some s"
| "relay_drops log (b # bs) s =
     (case relay_sink_drop log b s of None \<Rightarrow> None | Some s \<Rightarrow> relay_drops log bs s)"

definition with_drops :: "relay \<Rightarrow> client option \<Rightarrow> relay option" where
  "with_drops r c' =
     (case c' of
        None \<Rightarrow> None
      | Some c' \<Rightarrow> map_option (\<lambda>s. r\<lparr>rl_client := c', rl_sink := s\<rparr>)
          (relay_drops (rl_log r) (drop (length (cl_drops (rl_client r))) (cl_drops c')) (rl_sink r)))"

definition Submit :: "golib \<Rightarrow> time \<Rightarrow> point \<Rightarrow> relay \<Rightarrow> relay option" where
  "Submit L now point r = with_drops r (Put L now point (rl_client r))"

text \<open>One point of \<^verbatim>\<open>Pool.Broadcast\<close>: submitted to each relay in turn.\<close>

fun Broadcast :: "golib \<Rightarrow> time \<Rightarrow> point \<Rightarrow> relay list \<Rightarrow> relay list option" where
  "Broadcast L now point [] = Some []"
| "Broadcast L now point (r # rs) =
     (case Submit L now point r of
        None \<Rightarrow> None
      | Some r \<Rightarrow> map_option ((#) r) (Broadcast L now point rs))"

section \<open>The log of lost points\<close>

definition text_lines :: "bytes list \<Rightarrow> bytes" where
  "text_lines ls = concat (map (\<lambda>l. l @ [CHR 0x0A]) ls)"

lemma logLost_loop_lines:
  "list_all (\<lambda>l. CHR 0x0A \<notin> set l) ls \<Longrightarrow> logLost_loop (text_lines ls) out = Some (out @ ls)"
  by (induction ls arbitrary: out) (auto simp: text_lines_def logLost_loop.simps)

lemma newlines_lines: "list_all (\<lambda>l. CHR 0x0A \<notin> set l) ls \<Longrightarrow> newlines (text_lines ls) = length ls"
  by (induction ls) (auto simp: text_lines_def newlines_0)

section \<open>Properties\<close>

text \<open>
  A validated relay configuration names a host, one of the two policies for a full queue
  and fewer than sixteen connections; validating it again changes nothing. The lower end of the
  number of connections is not checked: zero and negative numbers pass.
\<close>

theorem relay_Validate_normal:
  assumes "relay_Validate c = Inr c'"
  shows "rc_Host c' = rc_Host c \<and> rc_Host c' \<noteq> [] \<and> rc_OnQueueFull c' \<in> {''Drop'', ''DropAndLog''} \<and>
    (\<exists>n < 16. rc_MaxConnsPerHost c' = Some n) \<and> relay_Validate c' = Inr c'"
  using assms
  by (auto simp: relay_Validate_def rbind_eq_Inr split: if_splits option.splits)

text \<open>
  When a connection breaks, the log of lost points holds exactly the points that were
  pending on it, one line each, and the counter grows by their number.
\<close>

theorem logLost_pending:
  assumes "list_all (\<lambda>l. CHR 0x0A \<notin> set l) ls"
  shows "logLost (text_lines ls) s = Some \<lparr>sk_drops = sk_drops s + length ls, sk_log = sk_log s @ ls\<rparr>"
  using assms by (simp add: logLost_def relay_drop_def logLost_loop_lines newlines_lines)

text \<open>
  A point that meets a full queue is handed to the drop function without a newline at its
  end. The relay therefore does not count it as dropped, and if lost points are logged the
  search for the newline fails and the relay panics.
\<close>

theorem queue_full_drop:
  assumes "encodable L p" "length (cl_cmd (rl_client r)) = 100000" "cl_once (rl_client r)"
    and "cl_config (rl_client r) = \<lparr>cc_DropRepeats = False, cc_MaxConnsPerHost = n, cc_Drop = True\<rparr>"
  shows "if rl_log r then Submit L now p r = None
    else \<exists>r'. Submit L now p r = Some r' \<and> sk_drops (rl_sink r') = sk_drops (rl_sink r)"
proof -
  let ?b = "append_point L [] p"
  have nl: "CHR 0x0A \<notin> set ?b" using encodable_line(1) [OF assms(1)] .
  have "?b \<noteq> []" by (simp add: append_point_eq)
  with nl have "logLost_loop ?b out = None" for out by (simp add: logLost_loop.simps)
  with nl assms(2-4) show ?thesis
    by (simp add: Submit_def Put_def send_def clientMaxQueue_def client_drop_def with_drops_def
        relay_sink_drop_def logLost_def relay_drop_def newlines_0 Let_def)
qed

end
