(* ===== verification/Rules.thy ===== *)
theory Rules
  imports Relay
begin

text \<open>
  The rule filter of \<^verbatim>\<open>internal/tsdb/filter\<close>, which accepts, blocks and rewrites points.
  The filter works on any type with the methods of the Go interface \<^verbatim>\<open>Point\<close>: the record
  \<open>point_ops\<close> holds them, and the locale \<open>filterable\<close> states what the filter relies on.
  The regular expressions of the Go library are a parameter, the record \<open>regexlib\<close>.

  What is proved: a ruleset that passes validation can be built; evaluation keeps the invariant
  of the points and does not panic, under a condition on the rules that validation forgets to
  check; a ruleset that only blocks passes a point exactly if no rule matches it; a rule that
  sets tags does so.
\<close>

section \<open>Regular expressions\<close>

record regexlib =
  re_MaxCap :: "string \<Rightarrow> nat option"
    \<comment> \<open>the number of groups, \<^const>\<open>None\<close> if \<^verbatim>\<open>syntax.Parse\<close> fails\<close>
  re_Find :: "string \<Rightarrow> bytes \<Rightarrow> int list option"
    \<comment> \<open>\<^verbatim>\<open>FindSubmatchIndex\<close>\<close>
  re_Expand :: "string \<Rightarrow> bytes \<Rightarrow> bytes \<Rightarrow> int list \<Rightarrow> bytes"
    \<comment> \<open>\<^verbatim>\<open>Expand(nil, template, src, match)\<close>\<close>

section \<open>Rules and their validation\<close>

record Rule =
  ru_Match :: "string list"
  ru_Set :: "string list"
  ru_Block :: bool

datatype filter_error =
    NoRules
  | RuleNoop
  | SetAndBlock
  | MatchFields nat
  | RegexSyntax string
  | SubmatchInTagName
  | TooManySubexpressions
  | SubmatchTooShort string
  | SubmatchInvalid string
  | SubmatchNumber string
  | SubmatchBelowOne
  | SubmatchAboveMax int
  | SubmatchAboveNine
  | SetTagElements nat
  | TagNameExpansion
  | InvalidSetMetric filter_error
  | InvalidSetTag filter_error

text \<open>\<^verbatim>\<open>strconv.ParseInt(s, 10, 64)\<close> on a string of digits.\<close>

definition ParseInt_digits :: "string \<Rightarrow> int option" where
  "ParseInt_digits s = (if dec_value s \<le> maxInt64 then Some (dec_value s) else None)"

definition validateSubmatch :: "string \<Rightarrow> int \<Rightarrow> filter_error option" where
  "validateSubmatch s maxCap =
     (if length s < 4 then Some (SubmatchTooShort s)
      else if \<not> (s ! 0 = CHR ''$'' \<and> s ! 1 = CHR ''{'' \<and> last s = CHR ''}'') then Some (SubmatchInvalid s)
      else case ParseInt_digits (butlast (drop 2 s)) of
        None \<Rightarrow> Some (SubmatchNumber (butlast (drop 2 s)))
      | Some index \<Rightarrow>
          if index < 1 then Some SubmatchBelowOne
          else if index > maxCap then Some (SubmatchAboveMax maxCap)
          else if index > 9 then Some SubmatchAboveNine
          else None)"

text \<open>The matches of \<^verbatim>\<open>submatchRE\<close>, a dollar and a number in braces, from left to right.\<close>

definition submatch_here :: "string \<Rightarrow> string option" where
  "submatch_here s =
     (if has_prefix s ''${'' then
        let ds = takeWhile is_digit (drop 2 s) in
        if ds \<noteq> [] \<and> has_prefix (drop (2 + length ds) s) ''}'' then Some (''${'' @ ds @ ''}'') else None
      else None)"

function submatches :: "string \<Rightarrow> string list" where
  "submatches [] = []"
| "submatches (c # cs) =
     (case submatch_here (c # cs) of
        Some m \<Rightarrow> m # submatches (drop (length m) (c # cs))
      | None \<Rightarrow> submatches cs)"
  by pat_completeness auto
termination
proof (relation "measure length")
  fix c cs m
  assume "submatch_here (c # cs) = Some m"
  then have "0 < length m" by (auto simp: submatch_here_def Let_def split: if_splits)
  then show "(drop (length m) (c # cs), c # cs) \<in> measure length" by simp
qed auto

text \<open>The first error among the references of a template.\<close>

fun first_error :: "(string \<Rightarrow> filter_error option) \<Rightarrow> string list \<Rightarrow> filter_error option" where
  "first_error f [] = None"
| "first_error f (s # ss) = (case f s of Some e \<Rightarrow> Some e | None \<Rightarrow> first_error f ss)"

text \<open>
  The loop over \<^verbatim>\<open>Match\<close>, from index \<open>i\<close> on; the results are \<^verbatim>\<open>maxCap\<close>, which
  each element overwrites, and the number of expressions with groups.
\<close>

fun validate_match :: "regexlib \<Rightarrow> nat \<Rightarrow> string list \<Rightarrow> int \<Rightarrow> nat \<Rightarrow> filter_error + int \<times> nat" where
  "validate_match R i [] maxCap nsubs = Inr (maxCap, nsubs)"
| "validate_match R i (s # ss) maxCap nsubs =
     (case re_MaxCap R s of
        None \<Rightarrow> Inl (RegexSyntax s)
      | Some n \<Rightarrow>
          if n > 0 then
            if odd i then Inl SubmatchInTagName
            else validate_match R (i + 1) ss (int n) (nsubs + 1)
          else validate_match R (i + 1) ss (int n) nsubs)"

fun validate_settags :: "int \<Rightarrow> (string \<times> string) list \<Rightarrow> filter_error option" where
  "validate_settags maxCap [] = None"
| "validate_settags maxCap ((k, v) # kvs) =
     (case first_error (\<lambda>_. Some TagNameExpansion) (submatches k) of
        Some e \<Rightarrow> Some (InvalidSetTag e)
      | None \<Rightarrow>
          (case first_error (\<lambda>s. validateSubmatch s maxCap) (submatches v) of
             Some e \<Rightarrow> Some (InvalidSetTag e)
           | None \<Rightarrow> validate_settags maxCap kvs))"

definition rule_noop :: "string list \<Rightarrow> bool" where
  "rule_noop s \<longleftrightarrow>
     (length s = 3 \<and> s ! 0 = '''' \<and> s ! 2 = '''') \<or> (length s = 2 \<and> s ! 0 = '''') \<or>
     (length s = 1 \<and> s ! 0 = '''') \<or> length s = 0"

definition validate_set :: "int \<Rightarrow> string list \<Rightarrow> filter_error option" where
  "validate_set maxCap s =
     (case (if length s > 0 \<and> s ! 0 \<noteq> ''''
            then first_error (\<lambda>m. validateSubmatch m maxCap) (submatches (s ! 0)) else None) of
        Some e \<Rightarrow> Some (InvalidSetMetric e)
      | None \<Rightarrow>
          if length s > 1 then
            let setTag = tl s in
            if length setTag > 0 \<and> length setTag mod 2 \<noteq> 0 then Some (SetTagElements (length setTag))
            else validate_settags maxCap (pairs setTag)
          else None)"

definition Rule_validate :: "regexlib \<Rightarrow> Rule \<Rightarrow> filter_error option" where
  "Rule_validate R r =
     (if \<not> ru_Block r \<and> rule_noop (ru_Set r) then Some RuleNoop
      else if ru_Block r \<and> length (ru_Set r) > 0 then Some SetAndBlock
      else if length (ru_Match r) > 1 \<and> (length (ru_Match r) - 1) mod 2 \<noteq> 0
      then Some (MatchFields (length (ru_Match r)))
      else case validate_match R 0 (ru_Match r) (- 1) 0 of
        Inl e \<Rightarrow> Some e
      | Inr (maxCap, nsubs) \<Rightarrow>
          if nsubs > 1 then Some TooManySubexpressions else validate_set maxCap (ru_Set r))"

fun validate_each :: "regexlib \<Rightarrow> Rule list \<Rightarrow> filter_error option" where
  "validate_each R [] = None"
| "validate_each R (r # rs) = (case Rule_validate R r of Some e \<Rightarrow> Some e | None \<Rightarrow> validate_each R rs)"

definition validateRules :: "regexlib \<Rightarrow> Rule list \<Rightarrow> filter_error option" where
  "validateRules R rules = (if length rules = 0 then Some NoRules else validate_each R rules)"

section \<open>Compiled rules\<close>

record rule =
  r_MatchMetric :: "string option"
  r_MatchTag :: "(bytes \<times> string) list"
  r_SetMetric :: "bytes option"
  r_SetTag :: "bytes list"
  r_Block :: bool

text \<open>
  \<^verbatim>\<open>newRule\<close>; \<^const>\<open>None\<close> where \<^verbatim>\<open>MustCompile\<close> or an index expression panics.
\<close>

definition newRule :: "regexlib \<Rightarrow> Rule \<Rightarrow> rule option" where
  "newRule R config =
     (let m = ru_Match config; s = ru_Set config;
          metric = (if length m > 0 \<and> m ! 0 \<noteq> '''' then Some (m ! 0) else None);
          tags = pairs (tl m)
      in if (length m > 0 \<and> odd (length m - 1)) \<or>
            (case metric of None \<Rightarrow> False | Some re \<Rightarrow> re_MaxCap R re = None) \<or>
            list_ex (\<lambda>(k, re). re_MaxCap R re = None) tags
         then None
         else if ru_Block config then
           Some \<lparr>r_MatchMetric = metric, r_MatchTag = tags, r_SetMetric = None, r_SetTag = [], r_Block = True\<rparr>
         else if length s > 0 \<and> odd (length s - 1) then None
         else Some \<lparr>r_MatchMetric = metric, r_MatchTag = tags,
                r_SetMetric = (if length s > 0 \<and> s ! 0 \<noteq> '''' then Some (s ! 0) else None),
                r_SetTag = tl s, r_Block = False\<rparr>)"

definition New :: "regexlib \<Rightarrow> Rule list \<Rightarrow> (filter_error + rule list) option" where
  "New R rules =
     (case validateRules R rules of
        Some e \<Rightarrow> Some (Inl e)
      | None \<Rightarrow> map_option Inr (those (map (newRule R) rules)))"

section \<open>Evaluation\<close>

text \<open>
  The interface \<^verbatim>\<open>Point\<close>. The outer option of \<^verbatim>\<open>Tag\<close> and \<^verbatim>\<open>SetTags\<close> is a
  panic; the inner one of \<^verbatim>\<open>Tag\<close> is the nil slice.
\<close>

record ('p, 'e) point_ops =
  po_Metric :: "'p \<Rightarrow> bytes"
  po_Tag :: "bytes \<Rightarrow> 'p \<Rightarrow> bytes option option"
  po_SetMetric :: "bytes \<Rightarrow> 'p \<Rightarrow> 'e + 'p"
  po_SetTags :: "bytes list \<Rightarrow> 'p \<Rightarrow> ('e + 'p) option"

text \<open>The submatch data: expression, source and indices.\<close>

type_synonym submatch = "(string \<times> bytes \<times> int list) option"

definition submatch_Set :: "regexlib \<Rightarrow> string \<Rightarrow> bytes \<Rightarrow> int list \<Rightarrow> submatch \<Rightarrow> submatch" where
  "submatch_Set R re src match sub =
     (if sub = None \<and> (case re_MaxCap R re of None \<Rightarrow> False | Some n \<Rightarrow> n > 0) then Some (re, src, match) else sub)"

definition submatch_Expand :: "regexlib \<Rightarrow> submatch \<Rightarrow> bytes \<Rightarrow> bytes" where
  "submatch_Expand R sub template =
     (case sub of None \<Rightarrow> template | Some (re, src, match) \<Rightarrow> re_Expand R re template src match)"

fun Match_tags ::
  "regexlib \<Rightarrow> ('p, 'e) point_ops \<Rightarrow> (bytes \<times> string) list \<Rightarrow> 'p \<Rightarrow> submatch \<Rightarrow> (bool \<times> submatch) option" where
  "Match_tags R ops [] p sub = Some (True, sub)"
| "Match_tags R ops ((key, re) # tms) p sub =
     (case po_Tag ops key p of
        None \<Rightarrow> None
      | Some src \<Rightarrow>
          let src = (case src of None \<Rightarrow> [] | Some s \<Rightarrow> s) in
          (case re_Find R re src of
             None \<Rightarrow> Some (False, sub)
           | Some match \<Rightarrow> Match_tags R ops tms p (submatch_Set R re src match sub)))"

definition Match ::
  "regexlib \<Rightarrow> ('p, 'e) point_ops \<Rightarrow> rule \<Rightarrow> 'p \<Rightarrow> submatch \<Rightarrow> (bool \<times> submatch) option" where
  "Match R ops r p sub =
     (case r_MatchMetric r of
        None \<Rightarrow> Match_tags R ops (r_MatchTag r) p sub
      | Some re \<Rightarrow>
          (case re_Find R re (po_Metric ops p) of
             None \<Rightarrow> Some (False, sub)
           | Some match \<Rightarrow>
               Match_tags R ops (r_MatchTag r) p (submatch_Set R re (po_Metric ops p) match sub)))"

text \<open>The arguments of \<^verbatim>\<open>SetTags\<close>: every second element is expanded.\<close>

fun expand_tags :: "regexlib \<Rightarrow> submatch \<Rightarrow> bytes list \<Rightarrow> bytes list" where
  "expand_tags R sub (k # v # rest) = k # submatch_Expand R sub v # expand_tags R sub rest"
| "expand_tags R sub [k] = [k]"
| "expand_tags R sub [] = []"

definition Rewrite_tags ::
  "regexlib \<Rightarrow> ('p, 'e) point_ops \<Rightarrow> rule \<Rightarrow> 'p \<Rightarrow> submatch \<Rightarrow> ('e option \<times> 'p) option" where
  "Rewrite_tags R ops r p sub =
     (if r_SetTag r = [] then Some (None, p)
      else case po_SetTags ops (expand_tags R sub (r_SetTag r)) p of
        None \<Rightarrow> None
      | Some (Inl e) \<Rightarrow> Some (Some e, p)
      | Some (Inr p) \<Rightarrow> Some (None, p))"

definition Rewrite ::
  "regexlib \<Rightarrow> ('p, 'e) point_ops \<Rightarrow> rule \<Rightarrow> 'p \<Rightarrow> submatch \<Rightarrow> ('e option \<times> 'p) option" where
  "Rewrite R ops r p sub =
     (case r_SetMetric r of
        None \<Rightarrow> Rewrite_tags R ops r p sub
      | Some m \<Rightarrow>
          (case po_SetMetric ops (submatch_Expand R sub m) p of
             Inl e \<Rightarrow> Some (Some e, p)
           | Inr p \<Rightarrow> Rewrite_tags R ops r p sub))"

text \<open>\<^verbatim>\<open>Eval\<close>: whether the point is accepted, the error if any, and the point as it is left.\<close>

fun Eval :: "regexlib \<Rightarrow> ('p, 'e) point_ops \<Rightarrow> rule list \<Rightarrow> 'p \<Rightarrow> (bool \<times> 'e option \<times> 'p) option" where
  "Eval R ops [] p = Some (True, None, p)"
| "Eval R ops (r # rs) p =
     (case Match R ops r p None of
        None \<Rightarrow> None
      | Some (False, _) \<Rightarrow> Eval R ops rs p
      | Some (True, sub) \<Rightarrow>
          if r_Block r then Some (False, None, p)
          else (case Rewrite R ops r p sub of
                  None \<Rightarrow> None
                | Some (Some e, p) \<Rightarrow> Some (False, Some e, p)
                | Some (None, p) \<Rightarrow> Eval R ops rs p))"

text \<open>
  \<^verbatim>\<open>series.Next\<close> on a finite prefix of the series it reads from: the points it returns, in
  order. Points that are blocked or fail are freed.
\<close>

fun filter_series :: "regexlib \<Rightarrow> ('p, 'e) point_ops \<Rightarrow> rule list \<Rightarrow> 'p list \<Rightarrow> 'p list option" where
  "filter_series R ops rules [] = Some []"
| "filter_series R ops rules (p # ps) =
     (case Eval R ops rules p of
        None \<Rightarrow> None
      | Some (pass, err, q) \<Rightarrow>
          if err \<noteq> None \<or> \<not> pass then filter_series R ops rules ps
          else map_option ((#) q) (filter_series R ops rules ps))"

text \<open>The methods of \<^verbatim>\<open>tsdb.Point\<close>.\<close>

definition tsdb_ops :: "golib \<Rightarrow> (point, tsdb_error) point_ops" where
  "tsdb_ops L = \<lparr>po_Metric = Metric, po_Tag = Tag, po_SetMetric = SetMetric L, po_SetTags = SetTags L\<rparr>"

section \<open>What the filter relies on\<close>

text \<open>
  A rule fits a type of points if it asks only for tags, and sets only tags, that the type can
  deal with, whatever the expansion of the references yields.
\<close>

definition rule_fits :: "(bytes \<Rightarrow> bool) \<Rightarrow> (bytes list \<Rightarrow> bool) \<Rightarrow> regexlib \<Rightarrow> rule \<Rightarrow> bool" where
  "rule_fits okkey okkv R r \<longleftrightarrow> list_all (\<lambda>(k, re). okkey k) (r_MatchTag r) \<and>
     (\<forall>sub. okkv (expand_tags R sub (r_SetTag r)))"

lemma fst_expand_tags [simp]: "map fst (pairs (expand_tags R sub kv)) = map fst (pairs kv)"
  by (induction R sub kv rule: expand_tags.induct) auto

lemma expand_tags_None [simp]: "expand_tags R None kv = kv"
  by (induction R "None :: submatch" kv rule: expand_tags.induct) (auto simp: submatch_Expand_def)

definition matches :: "regexlib \<Rightarrow> ('p, 'e) point_ops \<Rightarrow> rule \<Rightarrow> 'p \<Rightarrow> bool" where
  "matches R ops r p = (case Match R ops r p None of None \<Rightarrow> False | Some (b, _) \<Rightarrow> b)"

locale filterable =
  fixes ops :: "('p, 'e) point_ops" and inv :: "'p \<Rightarrow> bool"
    and okkey :: "bytes \<Rightarrow> bool" and okkv :: "bytes list \<Rightarrow> bool"
  assumes Tag_total: "inv p \<Longrightarrow> okkey key \<Longrightarrow> \<exists>v. po_Tag ops key p = Some v"
    and SetMetric_inv: "inv p \<Longrightarrow> po_SetMetric ops m p = Inr q \<Longrightarrow> inv q"
    and SetTags_total: "inv p \<Longrightarrow> okkv kv \<Longrightarrow> \<exists>r. po_SetTags ops kv p = Some r"
    and SetTags_inv: "inv p \<Longrightarrow> okkv kv \<Longrightarrow> po_SetTags ops kv p = Some (Inr q) \<Longrightarrow> inv q"
begin

lemma Match_tags_total:
  "inv p \<Longrightarrow> list_all (\<lambda>(k, re). okkey k) tms \<Longrightarrow> \<exists>b sub'. Match_tags R ops tms p sub = Some (b, sub')"
proof (induction tms arbitrary: sub)
  case (Cons tm tms)
  obtain k re where tm: "tm = (k, re)" by (cases tm)
  with Cons.prems Tag_total [of p k] obtain v where "po_Tag ops k p = Some v" by auto
  with Cons tm show ?case by (auto simp: Let_def split: option.split)
qed auto

lemma Match_total: "inv p \<Longrightarrow> rule_fits okkey okkv R r \<Longrightarrow> \<exists>b sub'. Match R ops r p sub = Some (b, sub')"
  using Match_tags_total by (auto simp: Match_def rule_fits_def split: option.split)

lemma Rewrite_tags_inv:
  assumes "inv p" "rule_fits okkey okkv R r"
  shows "\<exists>e q. Rewrite_tags R ops r p sub = Some (e, q) \<and> inv q"
proof -
  let ?kv = "expand_tags R sub (r_SetTag r)"
  have "okkv ?kv" using assms(2) by (simp add: rule_fits_def)
  then obtain res where "po_SetTags ops ?kv p = Some res" using SetTags_total [OF assms(1)] by blast
  with SetTags_inv [OF assms(1), of ?kv] assms show ?thesis
    by (cases res) (auto simp: Rewrite_tags_def rule_fits_def)
qed

lemma Rewrite_inv:
  assumes "inv p" "rule_fits okkey okkv R r"
  shows "\<exists>e q. Rewrite R ops r p sub = Some (e, q) \<and> inv q"
  using assms Rewrite_tags_inv SetMetric_inv [OF assms(1)]
  by (auto simp: Rewrite_def split: option.split sum.split)

lemma Eval_inv:
  "inv p \<Longrightarrow> list_all (rule_fits okkey okkv R) rs \<Longrightarrow> \<exists>pass err q. Eval R ops rs p = Some (pass, err, q) \<and> inv q"
proof (induction rs arbitrary: p)
  case (Cons r rs)
  then obtain b sub where m: "Match R ops r p None = Some (b, sub)" using Match_total [of p R r None] by auto
  from Cons.prems obtain e q where rw: "Rewrite R ops r p sub = Some (e, q)" "inv q"
    using Rewrite_inv [of p R r sub] by auto
  show ?case using Cons m rw by (cases b; cases e) auto
qed auto

lemma filter_series_inv:
  "list_all inv ps \<Longrightarrow> list_all (rule_fits okkey okkv R) rs \<Longrightarrow> \<exists>qs. filter_series R ops rs ps = Some qs \<and> list_all inv qs"
proof (induction ps)
  case (Cons p ps)
  then show ?case using Eval_inv [of p R rs] by auto
qed simp

text \<open>Rules that only block.\<close>

lemma Eval_block:
  "inv p \<Longrightarrow> list_all (rule_fits okkey okkv R) rs \<Longrightarrow> list_all r_Block rs \<Longrightarrow>
     Eval R ops rs p = Some (\<not> list_ex (\<lambda>r. matches R ops r p) rs, None, p)"
proof (induction rs)
  case (Cons r rs)
  then obtain b sub where "Match R ops r p None = Some (b, sub)" using Match_total [of p R r None] by auto
  with Cons show ?case by (cases b) (auto simp: matches_def)
qed simp

end

text \<open>The stronger contract of a point whose tags are a map.\<close>

locale tagged = filterable +
  assumes SetMetric_Tag: "inv p \<Longrightarrow> po_SetMetric ops m p = Inr q \<Longrightarrow> po_Tag ops key q = po_Tag ops key p"
    and SetTags_Tag: "inv p \<Longrightarrow> okkv kv \<Longrightarrow> po_SetTags ops kv p = Some (Inr q) \<Longrightarrow> okkey key \<Longrightarrow>
      po_Tag ops key q = (case map_of (pairs kv) key of Some v \<Rightarrow> Some (Some v) | None \<Rightarrow> po_Tag ops key p)"
begin

lemma Rewrite_tags_Tag:
  assumes "inv p" "rule_fits okkey okkv R r" "Rewrite_tags R ops r p sub = Some (None, q)" "okkey key"
  shows "po_Tag ops key q = (case map_of (pairs (expand_tags R sub (r_SetTag r))) key of
     Some v \<Rightarrow> Some (Some v) | None \<Rightarrow> po_Tag ops key p)"
proof (cases "r_SetTag r = []")
  case False
  with assms(3) have "po_SetTags ops (expand_tags R sub (r_SetTag r)) p = Some (Inr q)"
    by (auto simp: Rewrite_tags_def split: option.splits sum.splits)
  from SetTags_Tag [OF assms(1) _ this assms(4)] assms(2) show ?thesis by (simp add: rule_fits_def)
qed (use assms(3) in \<open>simp add: Rewrite_tags_def\<close>)

lemma Rewrite_Tag:
  assumes "inv p" "rule_fits okkey okkv R r" "Rewrite R ops r p sub = Some (None, q)" "okkey key"
  shows "po_Tag ops key q = (case map_of (pairs (expand_tags R sub (r_SetTag r))) key of
     Some v \<Rightarrow> Some (Some v) | None \<Rightarrow> po_Tag ops key p)"
proof (cases "r_SetMetric r")
  case None
  with assms show ?thesis by (intro Rewrite_tags_Tag) (auto simp: Rewrite_def)
next
  case (Some m)
  with assms(3) obtain p1 where p1: "po_SetMetric ops (submatch_Expand R sub m) p = Inr p1"
      "Rewrite_tags R ops r p1 sub = Some (None, q)"
    by (auto simp: Rewrite_def split: sum.splits)
  have "inv p1" "po_Tag ops key p1 = po_Tag ops key p"
    using SetMetric_inv SetMetric_Tag assms(1) p1(1) by blast+
  with Rewrite_tags_Tag [OF _ assms(2) p1(2) assms(4)] show ?thesis by (simp split: option.split)
qed

lemma Eval_keeps_Tag:
  "inv p \<Longrightarrow> list_all (rule_fits okkey okkv R) rs \<Longrightarrow> list_all (\<lambda>r. key \<notin> fst ` set (pairs (r_SetTag r))) rs \<Longrightarrow> okkey key \<Longrightarrow>
     Eval R ops rs p = Some (True, None, q) \<Longrightarrow> po_Tag ops key q = po_Tag ops key p"
proof (induction rs arbitrary: p)
  case (Cons r rs)
  then obtain b sub where m: "Match R ops r p None = Some (b, sub)" using Match_total [of p R r None] by auto
  show ?case
  proof (cases b)
    case True
    with Cons.prems m obtain p1 where p1: "Rewrite R ops r p sub = Some (None, p1)" "Eval R ops rs p1 = Some (True, None, q)"
      by (auto split: if_splits option.splits prod.splits)
    have "map_of (pairs (expand_tags R sub (r_SetTag r))) key = None"
      using Cons.prems(3) fst_expand_tags [of R sub "r_SetTag r"]
      by (metis list.pred_inject(2) list.set_map map_of_eq_None_iff)
    then have "po_Tag ops key p1 = po_Tag ops key p"
      using Rewrite_Tag [OF Cons.prems(1) _ p1(1) Cons.prems(4)] Cons.prems(2) by simp
    moreover have "inv p1" using Rewrite_inv [of p R r sub] Cons.prems p1 by auto
    ultimately show ?thesis using Cons p1(2) by simp
  qed (use Cons m in auto)
qed simp

text \<open>A rule without conditions that sets a tag makes it so, unless a later rule sets it again.\<close>

lemma Eval_sets_Tag:
  assumes "inv p" "list_all (rule_fits okkey okkv R) (r # rs)" "r_MatchMetric r = None" "r_MatchTag r = []" "\<not> r_Block r"
    and "map_of (pairs (r_SetTag r)) key = Some v" "okkey key"
    and "list_all (\<lambda>r. key \<notin> fst ` set (pairs (r_SetTag r))) rs"
    and "Eval R ops (r # rs) p = Some (True, None, q)"
  shows "po_Tag ops key q = Some (Some v)"
proof -
  have "Match R ops r p None = Some (True, None)" using assms(3,4) by (simp add: Match_def)
  with assms(5,9) obtain p1 where p1: "Rewrite R ops r p None = Some (None, p1)" "Eval R ops rs p1 = Some (True, None, q)"
    by (auto split: option.splits prod.splits)
  have "inv p1" using Rewrite_inv [of p R r None] assms(1,2) p1 by auto
  with Eval_keeps_Tag [OF this _ assms(8,7) p1(2)] Rewrite_Tag [OF assms(1) _ p1(1) assms(7)] assms(2,6)
  show ?thesis by simp
qed

lemma Eval_append:
  "Eval R ops (as @ bs) p = Some (True, None, q) \<Longrightarrow>
     \<exists>p1. Eval R ops as p = Some (True, None, p1) \<and> Eval R ops bs p1 = Some (True, None, q)"
  by (induction as arbitrary: p) (auto split: option.splits prod.splits if_splits bool.splits)

text \<open>
  A rule that sets a tag where it is empty or missing makes sure that the points that pass have
  the tag, unless a later rule sets it again.
\<close>

lemma Eval_ensures_Tag:
  assumes "inv p" "list_all (rule_fits okkey okkv R) (as @ r # bs)" "\<not> r_Block r"
    and "r_MatchMetric r = None" "r_MatchTag r = [(key, re)]" "r_SetTag r = [key, v]" "okkey key"
    and "\<forall>s. re_Find R re s \<noteq> None \<longleftrightarrow> s = []" "re_MaxCap R re = Some 0"
    and "list_all (\<lambda>r. key \<notin> fst ` set (pairs (r_SetTag r))) bs"
    and "Eval R ops (as @ r # bs) p = Some (True, None, q)"
  shows "\<exists>w. po_Tag ops key q = Some (Some w)"
proof -
  obtain p1 where p1: "Eval R ops as p = Some (True, None, p1)" "Eval R ops (r # bs) p1 = Some (True, None, q)"
    using Eval_append [OF assms(11)] by blast
  have i1: "inv p1" using Eval_inv [of p R as] assms(1,2) p1(1) by auto
  obtain t where t: "po_Tag ops key p1 = Some t" using Tag_total [OF i1 assms(7)] by blast
  have ok: "rule_fits okkey okkv R r" "list_all (rule_fits okkey okkv R) bs" using assms(2) by auto
  show ?thesis
  proof (cases "t = None \<or> t = Some []")
    case True
    obtain m where "re_Find R re [] = Some m" using assms(8) by blast
    then have "Match R ops r p1 None = Some (True, None)"
      using True t assms(4,5,9) by (auto simp: Match_def submatch_Set_def)
    with p1(2) assms(3) obtain p2 where p2: "Rewrite R ops r p1 None = Some (None, p2)" "Eval R ops bs p2 = Some (True, None, q)"
      by (auto split: option.splits prod.splits)
    have "po_Tag ops key p2 = Some (Some v)"
      using Rewrite_Tag [OF i1 ok(1) p2(1) assms(7)] assms(6) by (simp add: submatch_Expand_def)
    moreover have "inv p2" using Rewrite_inv [OF i1 ok(1), of None] p2(1) by auto
    ultimately show ?thesis using Eval_keeps_Tag [OF _ ok(2) assms(10,7) p2(2)] by simp
  next
    case False
    then obtain w where w: "t = Some w" "w \<noteq> []" by auto
    then have "re_Find R re w = None" using assms(8) by blast
    then have "Match R ops r p1 None = Some (False, None)"
      using w t assms(4,5) by (simp add: Match_def)
    with p1(2) have "Eval R ops bs p1 = Some (True, None, q)" by simp
    from Eval_keeps_Tag [OF i1 ok(2) assms(10,7) this] w t show ?thesis by simp
  qed
qed

end

section \<open>Points of the database satisfy the contract\<close>

definition distinct_keys :: "bytes list \<Rightarrow> bool" where
  "distinct_keys kv \<longleftrightarrow> distinct (map fst (pairs kv))"

definition rule_ok :: "rule \<Rightarrow> bool" where
  "rule_ok r \<longleftrightarrow> list_all (\<lambda>(k, re). k \<noteq> []) (r_MatchTag r) \<and> distinct_keys (r_SetTag r)"

lemma rule_ok_fits: "rule_ok r \<Longrightarrow> rule_fits (\<lambda>k. k \<noteq> []) distinct_keys R r"
  by (simp add: rule_ok_def rule_fits_def distinct_keys_def)

lemma rules_ok_fit: "list_all rule_ok rs \<Longrightarrow> list_all (rule_fits (\<lambda>k. k \<noteq> []) distinct_keys R) rs"
  using rule_ok_fits by (auto simp: list_all_iff)

lemma SetTags_total: "wf_tags L (pt_tags p) \<Longrightarrow> \<exists>r. SetTags L kv p = Some r"
proof (cases "even (length kv)")
  case True
  then show "wf_tags L (pt_tags p) \<Longrightarrow> ?thesis" using SetTags_spec [of L p kv] by metis
next
  case False
  then show ?thesis by (cases kv) (auto simp: SetTags_def odd_iff_mod_2_eq_one)
qed

lemma SetTags_even: "SetTags L kv p = Some (Inr q) \<Longrightarrow> even (length kv)"
  by (cases kv) (auto simp: SetTags_def odd_iff_mod_2_eq_one split: if_splits)

lemma SetTags_Tag:
  assumes "wf_point L p" "distinct (map fst (pairs kv))" "SetTags L kv p = Some (Inr q)" "key \<noteq> []"
  shows "Tag key q = (case map_of (pairs kv) key of Some v \<Rightarrow> Some (Some v) | None \<Rightarrow> Tag key p)"
proof -
  have wf: "wf_tags L (pt_tags p)" using assms(1) by (simp add: wf_point_def)
  note q = SetTags_wf [OF wf SetTags_even [OF assms(3)] assms(2,3)]
  show ?thesis
    using Tag_spec [OF wf assms(4)] Tag_spec [OF q(1) assms(4)] q(2)
    by (simp add: map_of_set_tags split: option.split)
qed

lemma SetMetric_Tag: "SetMetric L m p = Inr q \<Longrightarrow> Tag key q = Tag key p"
  by (auto simp: SetMetric_def setMetric_ok Tag_def)

lemma tsdb_ops_simps [simp]:
  "po_Metric (tsdb_ops L) = Metric" "po_Tag (tsdb_ops L) = Tag"
  "po_SetMetric (tsdb_ops L) = SetMetric L" "po_SetTags (tsdb_ops L) = SetTags L"
  by (simp_all add: tsdb_ops_def)

interpretation tsdb: tagged "tsdb_ops L" "wf_point L" "\<lambda>k. k \<noteq> []" distinct_keys for L
proof
  fix p q :: point and key m :: bytes and kv :: "bytes list"
  assume p: "wf_point L p"
  then have t: "wf_tags L (pt_tags p)" by (simp add: wf_point_def)
  show "key \<noteq> [] \<Longrightarrow> \<exists>v. po_Tag (tsdb_ops L) key p = Some v" using Tag_spec [OF t] by simp
  show "po_SetMetric (tsdb_ops L) m p = Inr q \<Longrightarrow> wf_point L q" using p SetMetric_wf by simp
  show "\<exists>r. po_SetTags (tsdb_ops L) kv p = Some r" using SetTags_total [OF t] by simp
  show "po_SetMetric (tsdb_ops L) m p = Inr q \<Longrightarrow> po_Tag (tsdb_ops L) key q = po_Tag (tsdb_ops L) key p"
    using SetMetric_Tag by simp
  assume "distinct_keys kv" and "po_SetTags (tsdb_ops L) kv p = Some (Inr q)"
  then have d: "distinct (map fst (pairs kv))" and q: "SetTags L kv p = Some (Inr q)" by (simp_all add: distinct_keys_def)
  show "wf_point L q"
    "key \<noteq> [] \<Longrightarrow> po_Tag (tsdb_ops L) key q = (case map_of (pairs kv) key of Some v \<Rightarrow> Some (Some v) | None \<Rightarrow> po_Tag (tsdb_ops L) key p)"
    using SetTags_wf_point [OF p d q] SetTags_Tag [OF p d q] by (simp_all split: option.split)
qed

section \<open>Validated rules can be built\<close>

lemma validate_match_parse:
  "validate_match R i ss maxCap nsubs = Inr res \<Longrightarrow> s \<in> set ss \<Longrightarrow> re_MaxCap R s \<noteq> None"
  by (induction R i ss maxCap nsubs rule: validate_match.induct) (auto split: option.splits if_splits)

lemma set_pairs: "(k, v) \<in> set (pairs xs) \<Longrightarrow> k \<in> set xs \<and> v \<in> set xs"
  by (induction xs rule: pairs.induct) auto

lemma newRule_valid:
  assumes "Rule_validate R r = None"
  shows "\<exists>x. newRule R r = Some x"
proof -
  obtain maxCap nsubs where m: "validate_match R 0 (ru_Match r) (- 1) 0 = Inr (maxCap, nsubs)"
      "validate_set maxCap (ru_Set r) = None" "length (ru_Match r) > 1 \<longrightarrow> even (length (ru_Match r) - 1)"
    using assms by (auto simp: Rule_validate_def even_iff_mod_2_eq_zero split: if_splits sum.splits)
  have re: "s \<in> set (ru_Match r) \<Longrightarrow> re_MaxCap R s \<noteq> None" for s
    using validate_match_parse [OF m(1)] .
  have odd: "\<not> (length (ru_Match r) > 0 \<and> odd (length (ru_Match r) - 1))"
    using m(3) by (cases "length (ru_Match r) > 1") (auto simp: not_less le_Suc_eq)
  have tags: "\<not> list_ex (\<lambda>(k, re). re_MaxCap R re = None) (pairs (tl (ru_Match r)))"
    using re set_pairs [of _ _ "tl (ru_Match r)"] by (auto simp: list_ex_iff dest: list.set_sel(2)) (metis list.sel(2) list.set_sel(2) option.distinct(1) set_pairs)
  have s: "\<not> (length (ru_Set r) > 0 \<and> odd (length (ru_Set r) - 1))"
  proof (cases "ru_Set r")
    case (Cons x xs)
    with m(2) show ?thesis
      by (cases xs) (auto simp: validate_set_def Let_def even_iff_mod_2_eq_zero split: option.splits if_splits)
  qed simp
  show ?thesis
    using odd tags s re [of "ru_Match r ! 0"]
    by (auto simp: newRule_def Let_def)
qed

lemma validateRules_all: "validateRules R rules = None \<Longrightarrow> r \<in> set rules \<Longrightarrow> Rule_validate R r = None"
proof -
  have "validate_each R rules = None \<Longrightarrow> r \<in> set rules \<Longrightarrow> Rule_validate R r = None"
    by (induction rules) (auto split: option.splits)
  then show "validateRules R rules = None \<Longrightarrow> r \<in> set rules \<Longrightarrow> ?thesis"
    by (auto simp: validateRules_def split: if_splits)
qed

section \<open>Properties\<close>

text \<open>
  A ruleset that passes validation is compiled without a panic: no regular expression is
  invalid and no index of the match and set lists is out of range.
\<close>

theorem New_total:
  "\<exists>r. New R rules = Some r"
proof (cases "validateRules R rules")
  case None
  have "list_all (\<lambda>r. newRule R r \<noteq> None) rules"
    using newRule_valid validateRules_all [OF None] by (force simp: list_all_iff)
  then have "\<exists>xs. those (map (newRule R) rules) = Some xs" by (induction rules) auto
  with None show ?thesis by (auto simp: New_def)
qed (simp add: New_def)

text \<open>
  C9: Evaluating any rules on a well-formed point, and filtering any series of such points, does
  not panic and leaves only well-formed points, whether they pass, are blocked or fail to be
  rewritten. Two things are asked of the rules that validation does not check: no empty tag
  name in a condition, and no tag set twice by one rule.
\<close>

theorem Eval_wellformed:
  assumes "list_all rule_ok rules" "wf_point L p" "list_all (wf_point L) ps"
  shows "(\<exists>pass err q. Eval R (tsdb_ops L) rules p = Some (pass, err, q) \<and> wf_point L q) \<and>
    (\<exists>qs. filter_series R (tsdb_ops L) rules ps = Some qs \<and> list_all (wf_point L) qs)"
  using tsdb.Eval_inv [OF assms(2) rules_ok_fit [OF assms(1)]]
    tsdb.filter_series_inv [OF assms(3) rules_ok_fit [OF assms(1)]] by blast

text \<open>An engine whose expressions are literals that are searched for, without groups.\<close>

definition literal_lib :: regexlib where
  "literal_lib = \<lparr>re_MaxCap = (\<lambda>_. Some 0),
     re_Find = (\<lambda>re src. map_option (\<lambda>i. [int i, int (i + length re)]) (index_sub src re)),
     re_Expand = (\<lambda>re t src match. t)\<rparr>"

definition block_web1 :: rule where
  "block_web1 = \<lparr>r_MatchMetric = None, r_MatchTag = [(''host'', ''web1'')], r_SetMetric = None,
     r_SetTag = [], r_Block = True\<rparr>"

theorem Eval_wellformed_witness:
  "\<exists>pass err q. Eval literal_lib (tsdb_ops latin1_lib) [block_web1] (example_point 0 1) = Some (pass, err, q) \<and>
     wf_point latin1_lib q"
  using Eval_wellformed [of "[block_web1]" latin1_lib "example_point 0 1" "[]" literal_lib]
  by (simp add: example_point_wf in64_iff block_web1_def rule_ok_def distinct_keys_def del: Eval.simps)

text \<open>
  A ruleset of blocking rules passes a point exactly if none of its rules matches it, and
  leaves the point unchanged: the order of the rules does not matter.
\<close>

theorem Eval_blocklist:
  assumes "list_all rule_ok rules" "list_all r_Block rules" "wf_point L p"
  shows "Eval R (tsdb_ops L) rules p = Some (\<not> list_ex (\<lambda>r. matches R (tsdb_ops L) r p) rules, None, p)"
  using tsdb.Eval_block [OF assms(3) rules_ok_fit [OF assms(1)] assms(2)] .

text \<open>
  A rule without conditions that sets a tag sets it on every point that passes the filter,
  unless a later rule sets the tag again.
\<close>

theorem Eval_sets_tag:
  assumes "wf_point L p" "list_all rule_ok (r # rs)"
    and "r_MatchMetric r = None" "r_MatchTag r = []" "\<not> r_Block r"
    and "map_of (pairs (r_SetTag r)) key = Some v" "key \<noteq> []"
    and "list_all (\<lambda>r. key \<notin> fst ` set (pairs (r_SetTag r))) rs"
    and "Eval R (tsdb_ops L) (r # rs) p = Some (True, None, q)"
  shows "Tag key q = Some (Some v)"
  using tsdb.Eval_sets_Tag [OF assms(1) rules_ok_fit [OF assms(2)] assms(3-9)] by simp

text \<open>
  Validation accepts a condition on a tag with an empty name, and the first point with tags
  that such a rule meets makes the filter panic.
\<close>

theorem empty_tag_name_panics:
  "\<exists>r. New literal_lib [\<lparr>ru_Match = [[], [], ''x''], ru_Set = [], ru_Block = True\<rparr>] = Some (Inr [r]) \<and>
     Eval literal_lib (tsdb_ops L) [r] (example_point 0 1) = None"
proof -
  have "Tag [] (example_point 0 1) = None"
    by (simp add: Tag_def Tag_loop.simps [of "[]"] example_point_def tag_text_def)
  then show ?thesis
    by (simp add: New_def validateRules_def Rule_validate_def literal_lib_def validate_set_def newRule_def Match_def)
qed

text \<open>
  The number of groups that a reference may name is that of the last expression of the
  rule, not that of the expression that has the groups: a reference to the group of the metric
  expression is rejected as soon as a condition on a tag follows.
\<close>

theorem submatch_reference_rejected:
  assumes "re_MaxCap R ''(.*)'' = Some 1" "re_MaxCap R ''host'' = Some 0" "re_MaxCap R ''web'' = Some 0"
  shows "Rule_validate R \<lparr>ru_Match = [''(.*)'', ''host'', ''web''], ru_Set = [''${1}''], ru_Block = False\<rparr>
      = Some (InvalidSetMetric (SubmatchAboveMax 0)) \<and>
    Rule_validate R \<lparr>ru_Match = [''(.*)''], ru_Set = [''${1}''], ru_Block = False\<rparr> = None"
proof -
  have "submatches ''${1}'' = [''${1}'']"
    by (simp add: submatch_here_def is_digit_def ord_def)
  moreover have "ParseInt_digits ''1'' = Some 1"
    by (simp add: ParseInt_digits_def dec_value_def digit_val_def ord_def maxInt64_def)
  ultimately show ?thesis
    using assms by (simp add: Rule_validate_def rule_noop_def validate_set_def validateSubmatch_def)
qed

end
