(* ===== verification/Ticker.thy ===== *)
theory Ticker
  imports Codec
begin

text \<open>
  The ticker of \<^verbatim>\<open>internal/tsdb/ticker.go\<close>, which drives collection, and the join of two
  channels of \<^verbatim>\<open>join.go\<close>.

  The select loop of the ticker is a step relation over its local variables: the consumer takes
  a tick, or the operating system delivers one. What is proved: the ticks delivered are whole
  seconds and strictly increasing if the ticks of the operating system do not go backwards, and
  they need not be if the clock is set back; the alignment to the middle of the second that the
  comments promise happens only in the first half of a second.
\<close>

section \<open>Start\<close>

text \<open>
  The time that \<^verbatim>\<open>mainloop\<close> sleeps before it starts the underlying ticker. The result of
  \<^verbatim>\<open>start.Add\<close> is discarded in the source, so the branch has no effect.
\<close>

definition ticker_sleep :: "time \<Rightarrow> duration" where
  "ticker_sleep now =
     (let start = Truncate now second + 500 * 10 ^ 6;
          start = (if start < now then start else start)
      in Sub start now)"

definition NewTicker :: "duration \<Rightarrow> unit option" where
  "NewTicker d = (if d < maxTimePrecision then None else Some ())"

section \<open>The loop\<close>

record ticker =
  tk_tt :: time
  tk_ch :: bool          \<comment> \<open>whether the channel is enabled\<close>
  tk_lastPassed :: time
  tk_slow :: nat
  tk_order :: nat

definition ticker_init :: "time \<Rightarrow> ticker" where
  "ticker_init tt =
     \<lparr>tk_tt = Truncate tt maxTimePrecision, tk_ch = True, tk_lastPassed = zeroTime, tk_slow = 0, tk_order = 0\<rparr>"

definition ticker_pass :: "ticker \<Rightarrow> ticker" where
  "ticker_pass t = t\<lparr>tk_lastPassed := tk_tt t, tk_ch := False\<rparr>"

definition ticker_tick :: "time \<Rightarrow> ticker \<Rightarrow> ticker" where
  "ticker_tick tt t =
     (let t = (if tk_ch t then t\<lparr>tk_slow := tk_slow t + 1\<rparr> else t);
          t = t\<lparr>tk_tt := Truncate tt maxTimePrecision\<rparr>
      in if \<not> tk_tt t > tk_lastPassed t then t\<lparr>tk_order := tk_order t + 1\<rparr>
         else t\<lparr>tk_ch := True\<rparr>)"

text \<open>What happens next: the consumer receives, or the operating system ticks.\<close>

datatype ticker_event = Receive | OsTick time

fun ticker_run :: "ticker_event list \<Rightarrow> ticker \<Rightarrow> time list" where
  "ticker_run [] t = []"
| "ticker_run (Receive # es) t =
     (if tk_ch t then tk_tt t # ticker_run es (ticker_pass t) else ticker_run es t)"
| "ticker_run (OsTick tt # es) t = ticker_run es (ticker_tick tt t)"

fun os_ticks :: "ticker_event list \<Rightarrow> time list" where
  "os_ticks [] = []"
| "os_ticks (Receive # es) = os_ticks es"
| "os_ticks (OsTick tt # es) = tt # os_ticks es"

section \<open>Join\<close>

text \<open>\<^verbatim>\<open>joined.Next\<close>: a point of either channel, when both have one the choice is open.\<close>

inductive joined_run :: "'a list \<Rightarrow> 'a list \<Rightarrow> 'a list \<Rightarrow> bool" where
  joined_done: "joined_run [] [] []"
| joined_first: "joined_run as bs cs \<Longrightarrow> joined_run (a # as) bs (a # cs)"
| joined_second: "joined_run as bs cs \<Longrightarrow> joined_run as (b # bs) (b # cs)"

section \<open>Ticks are strictly increasing\<close>

lemma Truncate_second_mono: "s \<le> t \<Longrightarrow> Truncate s maxTimePrecision \<le> Truncate t maxTimePrecision"
proof -
  assume "s \<le> t"
  then have "s div 1000000000 \<le> t div 1000000000" by (simp add: zdiv_mono1)
  moreover have "Truncate x maxTimePrecision = x div 1000000000 * 1000000000" for x
    using Truncate_second [of x] minus_mod_eq_div_mult [of x "10 ^ 9"]
    by (simp add: maxTimePrecision_def)
  ultimately show ?thesis by simp
qed

text \<open>
  The invariant: a tick that may be delivered is later than the last one delivered, and it is
  the truncation of the latest tick of the operating system.
\<close>

definition ticker_inv :: "time \<Rightarrow> ticker \<Rightarrow> bool" where
  "ticker_inv os t \<longleftrightarrow> tk_tt t = Truncate os maxTimePrecision \<and> tk_lastPassed t \<le> tk_tt t \<and>
     (tk_ch t \<longrightarrow> tk_lastPassed t < tk_tt t)"

lemma ticker_tick_inv:
  assumes "ticker_inv os t" "os \<le> tt"
  shows "ticker_inv tt (ticker_tick tt t)" "tk_lastPassed (ticker_tick tt t) = tk_lastPassed t"
  using Truncate_second_mono [OF assms(2)] assms(1)
  by (auto simp: ticker_inv_def ticker_tick_def Let_def)

lemma ticker_pass_inv: "ticker_inv os t \<Longrightarrow> ticker_inv os (ticker_pass t)"
  by (simp add: ticker_inv_def ticker_pass_def)

lemma ticker_run_sorted:
  "ticker_inv os t \<Longrightarrow> sorted (os # os_ticks es) \<Longrightarrow>
     sorted_wrt (<) (tk_lastPassed t # ticker_run es t)"
proof (induction es t arbitrary: os rule: ticker_run.induct)
  case (2 es t)
  show ?case
  proof (cases "tk_ch t")
    case True
    with 2 ticker_pass_inv [of os t] have "sorted_wrt (<) (tk_lastPassed (ticker_pass t) # ticker_run es (ticker_pass t))"
      by simp
    moreover have "tk_lastPassed t < tk_tt t" using True 2 by (simp add: ticker_inv_def)
    ultimately show ?thesis using True by (auto simp: ticker_pass_def)
  qed (use 2 in simp)
next
  case (3 tt es t)
  then show ?case using ticker_tick_inv [of os t tt] by simp
qed simp

lemma ticker_run_seconds:
  "tk_tt t mod 10 ^ 9 = 0 \<Longrightarrow> x \<in> set (ticker_run es t) \<Longrightarrow> x mod 10 ^ 9 = 0"
proof (induction es t rule: ticker_run.induct)
  case (3 tt es t)
  have "Truncate tt maxTimePrecision mod 10 ^ 9 = 0"
    using Truncate_second [of tt] minus_mod_eq_div_mult [of tt "10 ^ 9"] by (simp add: maxTimePrecision_def)
  with 3 show ?case by (auto simp: ticker_tick_def Let_def)
qed (auto simp: ticker_pass_def split: if_splits)

section \<open>Properties\<close>

text \<open>
  If the ticks of the operating system never go backwards, then whatever the speed of the
  consumer, the ticks it receives are whole seconds and strictly increasing, so that a collector
  which stamps its points with them never produces two points of one series at the same time.
\<close>

theorem ticker_increasing:
  assumes "sorted (first # os_ticks es)" "0 \<le> first"
  shows "sorted_wrt (<) (ticker_run es (ticker_init first)) \<and>
    set (ticker_run es (ticker_init first)) \<subseteq> {t. t mod 10 ^ 9 = 0}"
proof -
  have t: "Truncate first maxTimePrecision = first - first mod 10 ^ 9"
    using Truncate_second [of first] by (simp add: maxTimePrecision_def)
  have "first mod 10 ^ 9 \<le> first" using assms(2) by (simp add: zmod_le_nonneg_dividend)
  then have "ticker_inv first (ticker_init first)"
    using t by (simp add: ticker_inv_def ticker_init_def zeroTime_def)
  from ticker_run_sorted [OF this assms(1)] have "sorted_wrt (<) (ticker_run es (ticker_init first))" by simp
  moreover have "tk_tt (ticker_init first) mod 10 ^ 9 = 0"
    using t minus_mod_eq_div_mult [of first "10 ^ 9"] by (simp add: ticker_init_def)
  ultimately show ?thesis using ticker_run_seconds [of "ticker_init first" _ es] by (simp add: subset_iff)
qed

text \<open>
  If the clock is set back while a tick waits for its consumer, the order check drops the
  new tick but the loop has already overwritten the waiting one with it, and the consumer
  receives a time that is not later than the one before.
\<close>

theorem ticker_clock_back:
  "ticker_run [Receive, OsTick (20 * 10 ^ 9), OsTick (5 * 10 ^ 9), Receive] (ticker_init (10 * 10 ^ 9))
     = [10 * 10 ^ 9, 5 * 10 ^ 9]"
  by (simp add: ticker_init_def ticker_pass_def ticker_tick_def Let_def zeroTime_def maxTimePrecision_def
      Truncate_second)

text \<open>
  The ticker is aligned to the middle of a second only if it is started in the first half
  of one: started in the second half, it does not wait at all.
\<close>

theorem ticker_alignment:
  assumes "0 \<le> now" "in64 now"
  shows "(now + ticker_sleep now) mod 10 ^ 9 = 500 * 10 ^ 6 \<and>
    (now mod 10 ^ 9 \<le> 500 * 10 ^ 6 \<longleftrightarrow> 0 \<le> ticker_sleep now)"
proof -
  have "ticker_sleep now = 500 * 10 ^ 6 - now mod 10 ^ 9"
    using Truncate_second [of now] pos_mod_bound [of "10 ^ 9" now] pos_mod_sign [of "10 ^ 9" now]
    by (simp add: ticker_sleep_def second_def Sub_def minInt64_def maxInt64_def Let_def)
  moreover have "(now + (500 * 10 ^ 6 - now mod 10 ^ 9)) mod 10 ^ 9 = 500 * 10 ^ 6"
    using mod_diff_right_eq [of "now + 500 * 10 ^ 6" now "10 ^ 9"] by (simp add: algebra_simps)
  ultimately show ?thesis by simp
qed

text \<open>
  The join of two channels delivers every point of both, once each, and keeps the order of
  each channel.
\<close>

theorem joined_shuffle: "joined_run as bs cs \<longleftrightarrow> cs \<in> shuffles as bs"
proof
  assume "joined_run as bs cs"
  then show "cs \<in> shuffles as bs"
    by (induction rule: joined_run.induct) (auto intro: Cons_in_shuffles_leftI Cons_in_shuffles_rightI)
next
  have all: "joined_run as [] as" "joined_run [] as as" for as :: "'a list"
    by (induction as) (auto intro: joined_run.intros)
  show "cs \<in> shuffles as bs \<Longrightarrow> joined_run as bs cs"
    by (induction as bs arbitrary: cs rule: shuffles.induct) (auto intro: joined_run.intros all)
qed

end
