(* ===== verification/Programs.thy ===== *)
theory Programs
  imports Rules Ticker
begin

text \<open>
  The configuration of the three pipeline programs, from \<^verbatim>\<open>internal/validate\<close> and the
  \<^verbatim>\<open>config.go\<close> of \<^verbatim>\<open>tsp-forwarder\<close>, \<^verbatim>\<open>tsp-poller\<close> and
  \<^verbatim>\<open>tsp-aggregator\<close>, and how \<^verbatim>\<open>main\<close> uses it.

  What is proved: once a configuration is validated, building the filter and the relays from it
  cannot fail, so that neither the silent empty series nor the panic on an internal error of
  \<^verbatim>\<open>main\<close> is reached.
\<close>

section \<open>Validation of untrusted data\<close>

datatype config_error =
    TooManyRules nat
  | FilterError filter_error
  | MissingRelay
  | TooManyRelays nat
  | RelayError relay_error
  | InvalidListenAddr bytes

definition maxRules :: nat where "maxRules = 64"
definition maxRelays :: nat where "maxRelays = 8"

text \<open>The nil slice is \<^const>\<open>None\<close>; the outer option is a panic of \<^const>\<open>New\<close>.\<close>

definition validate_Filter :: "regexlib \<Rightarrow> Rule list option \<Rightarrow> (config_error + Rule list) option" where
  "validate_Filter R rules =
     (case rules of
        None \<Rightarrow> Some (Inr [\<lparr>ru_Match = [], ru_Set = [], ru_Block = True\<rparr>])
      | Some rules \<Rightarrow>
          if length rules > maxRules then Some (Inl (TooManyRules (length rules)))
          else case New R rules of
            None \<Rightarrow> None
          | Some (Inl e) \<Rightarrow> Some (Inl (FilterError e))
          | Some (Inr _) \<Rightarrow> Some (Inr rules))"

text \<open>
  The relays by name, in some order of the iteration over the map; validation changes the
  configurations in place.
\<close>

type_synonym relay_configs = "(bytes \<times> relay_config) list"

fun validate_relays :: "relay_configs \<Rightarrow> config_error + relay_configs" where
  "validate_relays [] = Inr []"
| "validate_relays ((name, c) # cs) =
     (case relay_Validate c of
        Inl e \<Rightarrow> Inl (RelayError e)
      | Inr c \<Rightarrow> rbind (validate_relays cs) (\<lambda>cs. Inr ((name, c) # cs)))"

definition validate_Relay :: "relay_configs option \<Rightarrow> config_error + relay_configs" where
  "validate_Relay configs =
     (case configs of
        None \<Rightarrow> Inl MissingRelay
      | Some cs \<Rightarrow> if length cs > maxRelays then Inl (TooManyRelays (length cs)) else validate_relays cs)"

definition validate_ListenAddr :: "bytes \<Rightarrow> config_error option" where
  "validate_ListenAddr addr =
     (if SplitHostPort_ok addr then None
      else if SplitHostPort_ok (addr @ '':4242'') then None
      else Some (InvalidListenAddr addr))"

section \<open>The configurations\<close>

record program_config =
  pc_Filter :: "Rule list option"
  pc_Relay :: "relay_configs option"
  pc_CollectPath :: bytes
  pc_LogPath :: bytes

definition forwarder_default :: program_config where
  "forwarder_default = \<lparr>pc_Filter = None, pc_Relay = None, pc_CollectPath = ''/etc/tsp/collect.d'',
     pc_LogPath = ''/var/log/tsp/forwarder.log''\<rparr>"

definition forwarder_Validate :: "regexlib \<Rightarrow> program_config \<Rightarrow> (config_error + program_config) option" where
  "forwarder_Validate R c =
     (case validate_Filter R (pc_Filter c) of
        None \<Rightarrow> None
      | Some (Inl e) \<Rightarrow> Some (Inl e)
      | Some (Inr rules) \<Rightarrow>
          Some (rbind (validate_Relay (pc_Relay c)) (\<lambda>relays.
            Inr (c\<lparr>pc_Filter := Some rules, pc_Relay := Some relays\<rparr>))))"

text \<open>\<^verbatim>\<open>tsp-poller\<close> has the same validation as \<^verbatim>\<open>tsp-forwarder\<close>.\<close>

definition poller_Validate :: "regexlib \<Rightarrow> program_config \<Rightarrow> (config_error + program_config) option" where
  "poller_Validate R c =
     (case validate_Filter R (pc_Filter c) of
        None \<Rightarrow> None
      | Some (Inl e) \<Rightarrow> Some (Inl e)
      | Some (Inr rules) \<Rightarrow>
          Some (rbind (validate_Relay (pc_Relay c)) (\<lambda>relays.
            Inr (c\<lparr>pc_Filter := Some rules, pc_Relay := Some relays\<rparr>))))"

record aggregator_config =
  ac_Filter :: "Rule list option"
  ac_ListenAddr :: bytes
  ac_Relay :: "relay_configs option"
  ac_LogPath :: bytes

definition aggregator_default :: aggregator_config where
  "aggregator_default = \<lparr>ac_Filter = None, ac_ListenAddr = '':4242'', ac_Relay = None,
     ac_LogPath = ''/var/log/tsp/aggregator.log''\<rparr>"

definition aggregator_Validate :: "regexlib \<Rightarrow> aggregator_config \<Rightarrow> (config_error + aggregator_config) option" where
  "aggregator_Validate R c =
     (case validate_Filter R (ac_Filter c) of
        None \<Rightarrow> None
      | Some (Inl e) \<Rightarrow> Some (Inl e)
      | Some (Inr rules) \<Rightarrow>
          Some (rbind (validate_Relay (ac_Relay c)) (\<lambda>relays.
            case validate_ListenAddr (ac_ListenAddr c) of
              Some e \<Rightarrow> Inl e
            | None \<Rightarrow> Inr (c\<lparr>ac_Filter := Some rules, ac_Relay := Some relays\<rparr>))))"

section \<open>Start of the programs\<close>

text \<open>
  \<^verbatim>\<open>filter.Series\<close>: the compiled rules, or \<^const>\<open>None\<close> for the empty series that
  it returns when the rules are invalid. \<^verbatim>\<open>relay.NewPool\<close>: \<^const>\<open>None\<close> if it panics.
\<close>

definition Series :: "regexlib \<Rightarrow> Rule list \<Rightarrow> rule list option" where
  "Series R rules = (case New R rules of Some (Inr rs) \<Rightarrow> Some rs | _ \<Rightarrow> None)"

fun NewPool :: "relay_configs \<Rightarrow> relay list option" where
  "NewPool [] = Some []"
| "NewPool ((name, c) # cs) =
     (case NewRelay name c of
        Inl e \<Rightarrow> None
      | Inr r \<Rightarrow> map_option ((#) r) (NewPool cs))"

text \<open>
  One point through \<^verbatim>\<open>main\<close> of a forwarder or poller: filter, then broadcast. A point that
  is blocked, or fails to be rewritten, reaches no relay.
\<close>

definition forward ::
  "golib \<Rightarrow> regexlib \<Rightarrow> rule list \<Rightarrow> time \<Rightarrow> point \<Rightarrow> relay list \<Rightarrow> relay list option" where
  "forward L R rules now point relays =
     (case filter_series R (tsdb_ops L) rules [point] of
        None \<Rightarrow> None
      | Some [] \<Rightarrow> Some relays
      | Some (p # _) \<Rightarrow> Broadcast L now p relays)"

section \<open>Validated configurations\<close>

lemma relay_Validate_idem: "relay_Validate c = Inr c' \<Longrightarrow> relay_Validate c' = Inr c'"
  by (auto simp: relay_Validate_def rbind_eq_Inr split: if_splits option.splits)

lemma validate_relays_pool: "validate_relays cs = Inr cs' \<Longrightarrow> \<exists>rs. NewPool cs' = Some rs"
proof (induction cs arbitrary: cs')
  case (Cons c cs)
  obtain name cfg where c: "c = (name, cfg)" by (cases c)
  with Cons.prems obtain cfg' cs1 where
    v: "relay_Validate cfg = Inr cfg'" "validate_relays cs = Inr cs1" "cs' = (name, cfg') # cs1"
    by (auto simp: rbind_eq_Inr split: sum.splits)
  from Cons.IH [OF v(2)] relay_Validate_idem [OF v(1)] v(3) show ?case by (auto simp: NewRelay_def)
qed simp

lemma validate_Filter_series: "validate_Filter R rules = Some (Inr rules') \<Longrightarrow> \<exists>rs. Series R rules' = Some rs"
  by (auto simp: validate_Filter_def Series_def New_def validateRules_def Rule_validate_def validate_set_def
      newRule_def split: option.splits if_splits sum.splits)

lemma validate_Relay_pool: "validate_Relay cs = Inr cs' \<Longrightarrow> \<exists>rs. NewPool cs' = Some rs"
  by (auto simp: validate_Relay_def split: option.splits if_splits intro: validate_relays_pool)

section \<open>Properties\<close>

text \<open>
  If a program accepts its configuration, then it can start: the filter it builds from the
  rules is not the empty series, and the relay pool is built without a panic.
\<close>

theorem validated_config_starts:
  assumes "forwarder_Validate R c = Some (Inr c') \<or> poller_Validate R c = Some (Inr c')"
  shows "\<exists>rules relays rs pool. pc_Filter c' = Some rules \<and> pc_Relay c' = Some relays \<and>
    Series R rules = Some rs \<and> NewPool relays = Some pool"
proof -
  obtain rules relays where "validate_Filter R (pc_Filter c) = Some (Inr rules)"
      "validate_Relay (pc_Relay c) = Inr relays" "c' = c\<lparr>pc_Filter := Some rules, pc_Relay := Some relays\<rparr>"
    using assms by (auto simp: forwarder_Validate_def poller_Validate_def rbind_eq_Inr split: option.splits sum.splits)
  then show ?thesis
    using validate_Filter_series validate_Relay_pool by force
qed

text \<open>
  The filter is closed by default: without rules in its configuration, a program forwards
  nothing.
\<close>

theorem no_rules_block_all:
  "\<exists>rules rs. validate_Filter R None = Some (Inr rules) \<and> Series R rules = Some rs \<and>
     forward L R rs now p relays = Some relays"
  by (simp add: validate_Filter_def Series_def New_def validateRules_def Rule_validate_def validate_set_def
      newRule_def forward_def Match_def)

end
