(* ===== verification/Server.thy ===== *)
theory Server
  imports Programs
begin

text \<open>
  The server of \<^verbatim>\<open>cmd/tsp-aggregator/server.go\<close>, which accepts the connections of the
  clients: the reader that turns put commands into a stream for the decoder and answers the
  version command, and the loop that decodes the stream and enqueues the points.

  What is proved: what a client writes, put commands and version commands in any order, arrives
  at the queue of the aggregator as the same points in the same order, and every version command
  gets the answer that the client waits for; on arbitrary bytes the loop ends and enqueues only
  well-formed points.
\<close>

section \<open>Lines\<close>

text \<open>
  \<^verbatim>\<open>bufio.Scanner\<close> with \<^verbatim>\<open>ScanLines\<close>: the lines, without a carriage return at their
  end, and whether it stopped at a line that does not fit into its buffer.
\<close>

definition MaxScanTokenSize :: nat where "MaxScanTokenSize = 65536"

definition dropCR :: "bytes \<Rightarrow> bytes" where
  "dropCR b = (if b \<noteq> [] \<and> last b = CHR 0x0D then butlast b else b)"

function scan_lines :: "bytes \<Rightarrow> bytes list \<times> bool" where
  "scan_lines s =
     (if s = [] then ([], False)
      else case index_byte (take MaxScanTokenSize s) (CHR 0x0A) of
        Some i \<Rightarrow> (case scan_lines (drop (i + 1) s) of (ls, long) \<Rightarrow> (dropCR (take i s) # ls, long))
      | None \<Rightarrow> if length s \<ge> MaxScanTokenSize then ([], True) else ([dropCR s], False))"
  by pat_completeness auto
termination by (relation "measure length") auto

declare scan_lines.simps [simp del]

section \<open>The protocol reader\<close>

text \<open>
  The bytes that reading from the \<^verbatim>\<open>protocolReader\<close> yields in the end, the answers written
  to the connection, and the number of invalid commands. How the bytes are cut into the
  buffers of the calls of \<^verbatim>\<open>Read\<close> does not change them: what does not fit is kept in
  \<^verbatim>\<open>pr.buf\<close>.
\<close>

record protocol_out =
  po_stream :: bytes
  po_replies :: "bytes list"
  po_invalid :: nat

definition protocol_cmd :: "bytes \<Rightarrow> protocol_out \<Rightarrow> protocol_out" where
  "protocol_cmd cmd out =
     (if cmd = ''version'' then
        out\<lparr>po_replies := po_replies out @ [''Built on ... (tsp-aggregator)'']\<rparr>
      else if has_prefix cmd ''put '' then
        out\<lparr>po_stream := po_stream out @ drop 4 cmd @ [CHR 0x0A]\<rparr>
      else
        out\<lparr>po_invalid := po_invalid out + 1, po_replies := po_replies out @ [''error: invalid command'']\<rparr>)"

definition protocolReader :: "bytes \<Rightarrow> protocol_out" where
  "protocolReader input =
     fold protocol_cmd (fst (scan_lines input)) \<lparr>po_stream = [], po_replies = [], po_invalid = 0\<rparr>"

text \<open>
  One call of \<^verbatim>\<open>Read\<close> with a buffer of \<open>n\<close> bytes, on the rest of a line that did not fit
  and the lines to come; \<^const>\<open>None\<close> when the lines run out.
\<close>

fun Read :: "nat \<Rightarrow> bytes \<Rightarrow> bytes list \<Rightarrow> (bytes \<times> bytes \<times> bytes list) option" where
  "Read n (b # bs) lines = Some (take n (b # bs), drop n (b # bs), lines)"
| "Read n [] [] = None"
| "Read n [] (cmd # lines) =
     (if cmd = ''version'' then Read n [] lines
      else if has_prefix cmd ''put '' then
        let line = drop 4 cmd @ [CHR 0x0A] in Some (take n line, drop n line, lines)
      else Read n [] lines)"

section \<open>The connection loop\<close>

lemma scan_shorter: "scan d = (Inr buf, d') \<Longrightarrow> length (d_input d') < length (d_input d)"
  by (auto simp: scan_def ReadSlice_def Let_def split: option.splits if_splits dest!: index_byte_SomeD(1))

lemma Decode_shorter:
  assumes "Decode L now pooled d = (r, d')" "\<nexists>e. r = Inl (ReadError e)"
  shows "length (d_input d') < length (d_input d)"
proof -
  obtain s d1 where s: "scan d = (s, d1)" by (cases "scan d")
  with assms obtain buf where "s = Inr buf" by (cases s) (auto simp: Decode_def)
  with s have "length (d_input d1) < length (d_input d)" by (simp add: scan_shorter)
  moreover have "d_input d' = d_input d1"
    using assms s \<open>s = Inr buf\<close>
    by (auto simp: Decode_def split: sum.splits if_splits prod.splits option.splits dest!: validOrder_frame)
  ultimately show ?thesis by simp
qed

text \<open>
  The points enqueued and the number of syntax errors answered, until a read error ends the
  loop. A full queue makes the loop wait and loses nothing.
\<close>

function serverConn_loop :: "golib \<Rightarrow> point \<Rightarrow> decoder \<Rightarrow> point list \<times> nat" where
  "serverConn_loop L pooled d =
     (case Decode L 0 pooled d of
        (Inl (ReadError e), d') \<Rightarrow> ([], 0)
      | (Inl e, d') \<Rightarrow> (case serverConn_loop L pooled d' of (ps, n) \<Rightarrow> (ps, n + 1))
      | (Inr p, d') \<Rightarrow> (case serverConn_loop L pooled d' of (ps, n) \<Rightarrow> (p # ps, n)))"
  by pat_completeness auto
termination
  by (relation "measure (\<lambda>(L, pooled, d). length (d_input d))") (auto intro: Decode_shorter [OF sym])

declare serverConn_loop.simps [simp del]

definition serve :: "golib \<Rightarrow> point \<Rightarrow> bytes \<Rightarrow> point list \<times> nat" where
  "serve L pooled input =
     serverConn_loop L pooled (DisableOrderCheck (NewDecoder (po_stream (protocolReader input))))"

section \<open>Sessions\<close>

text \<open>What a client writes: put commands and version commands.\<close>

definition wire :: "golib \<Rightarrow> point option \<Rightarrow> bytes" where
  "wire L c = (case c of Some p \<Rightarrow> put L p | None \<Rightarrow> ''version'' @ [CHR 0x0A])"

definition session :: "golib \<Rightarrow> point option list \<Rightarrow> bytes" where
  "session L cs = concat (map (wire L) cs)"

definition put_points :: "point option list \<Rightarrow> point list" where
  "put_points cs = List.map_filter id cs"

lemma put_points_simps [simp]:
  "put_points [] = []" "put_points (None # cs) = put_points cs" "put_points (Some p # cs) = p # put_points cs"
  by (simp_all add: put_points_def List.map_filter_simps)

definition wire_line :: "golib \<Rightarrow> point option \<Rightarrow> bytes" where
  "wire_line L c = (case c of Some p \<Rightarrow> ''put '' @ append_point L [] p | None \<Rightarrow> ''version'')"

lemma wire_eq: "wire L c = wire_line L c @ [CHR 0x0A]"
  by (auto simp: wire_def wire_line_def put_def append_point_eq split: option.split)

definition line_clean :: "bytes \<Rightarrow> bool" where
  "line_clean l \<longleftrightarrow> CHR 0x0A \<notin> set l \<and> CHR 0x0D \<notin> set l \<and> length l < MaxScanTokenSize"

lemma scan_lines_text:
  "list_all line_clean ls \<Longrightarrow> scan_lines (text_lines ls) = (ls, False)"
proof (induction ls)
  case (Cons l ls)
  let ?rest = "text_lines ls"
  have s: "text_lines (l # ls) = l @ CHR 0x0A # ?rest" by (simp add: text_lines_def)
  have l: "CHR 0x0A \<notin> set l" "CHR 0x0D \<notin> set l" "length l < MaxScanTokenSize"
    using Cons.prems by (simp_all add: line_clean_def)
  then have "index_byte (take MaxScanTokenSize (l @ CHR 0x0A # ?rest)) (CHR 0x0A) = Some (length l)"
    by (simp add: take_Cons')
  moreover have "dropCR l = l" using l(2) last_in_set [of l] by (metis dropCR_def)
  ultimately show ?case
    using Cons by (subst scan_lines.simps) (simp add: s)
qed (simp add: text_lines_def scan_lines.simps)

text \<open>A carriage return is neither text nor a digit, so no line of a point holds one.\<close>

lemma text_ok_no_cr: "text_ok L b \<Longrightarrow> CHR 0x0D \<notin> set b"
  using text_ok_bytes [of L b "CHR 0x0D"] by (auto simp: text_byte_def ord_def)

lemma wf_tags_no_cr:
  assumes "wf_tags L b"
  shows "CHR 0x0D \<notin> set b"
proof -
  obtain kvs where kvs: "b = render kvs" "tags_ok L kvs" using assms by (rule wf_tagsE)
  then have "CHR 0x0D \<notin> set b"
  proof (induction kvs arbitrary: b)
    case (Cons kv kvs)
    obtain k v where "kv = (k, v)" by (cases kv)
    with Cons show ?case using text_ok_no_cr [of L k] text_ok_no_cr [of L v] by (auto simp: tag_text_def)
  qed simp
  then show ?thesis .
qed

definition sendable :: "golib \<Rightarrow> point \<Rightarrow> bool" where
  "sendable L p \<longleftrightarrow> encodable L p \<and> CHR 0x0D \<notin> set (append_value L [] p)"

lemma sendable_line:
  assumes "sendable L p"
  shows "line_clean (''put '' @ append_point L [] p)"
proof -
  have enc: "encodable L p" and v: "CHR 0x0D \<notin> set (append_value L [] p)"
    using assms by (auto simp: sendable_def)
  then have wf: "wf_point L p" and len: "length (append_point L [] p) \<le> maxLineLength"
    by (auto simp: encodable_def)
  have "in64 (tdiv (pt_time p) (10 ^ 9))" using wf by (simp add: wf_point_def in64_tdiv)
  then have t: "CHR 0x0D \<notin> set (appendInt [] (tdiv (pt_time p) (10 ^ 9)))"
    using appendInt_bytes [of _ "CHR 0x0D"] by (auto simp: is_digit_def ord_def)
  have "CHR 0x0D \<notin> set (pt_metric p)" "CHR 0x0D \<notin> set (pt_tags p)"
    using wf text_ok_no_cr wf_tags_no_cr by (auto simp: wf_point_def)
  with t v have "CHR 0x0D \<notin> set (append_point L [] p)" by (simp add: append_point_eq)
  with encodable_line(1) [OF enc] len show ?thesis
    by (simp add: line_clean_def MaxScanTokenSize_def maxLineLength_def)
qed

lemma wire_line_clean: "(case c of None \<Rightarrow> True | Some p \<Rightarrow> sendable L p) \<Longrightarrow> line_clean (wire_line L c)"
  using sendable_line by (cases c) (simp_all add: wire_line_def line_clean_def MaxScanTokenSize_def)

lemma protocol_cmds:
  "fold protocol_cmd (map (wire_line L) cs) out =
     \<lparr>po_stream = po_stream out @ encode_all L (put_points cs),
      po_replies = po_replies out @ map (\<lambda>_. ''Built on ... (tsp-aggregator)'') (filter (\<lambda>c. c = None) cs),
      po_invalid = po_invalid out\<rparr>"
proof (induction cs arbitrary: out)
  case (Cons c cs)
  show ?case
  proof (cases c)
    case None
    with Cons show ?thesis by (simp add: wire_line_def protocol_cmd_def)
  next
    case (Some p)
    have "protocol_cmd (wire_line L (Some p)) out = out\<lparr>po_stream := po_stream out @ append_point L [] p @ [CHR 0x0A]\<rparr>"
      by (simp add: wire_line_def protocol_cmd_def)
    with Cons Some show ?thesis by (simp add: encode_all_def)
  qed
qed (simp add: encode_all_def)

lemma protocolReader_session:
  assumes "list_all (\<lambda>c. case c of None \<Rightarrow> True | Some p \<Rightarrow> sendable L p) cs"
  shows "protocolReader (session L cs) =
    \<lparr>po_stream = encode_all L (put_points cs),
     po_replies = map (\<lambda>_. ''Built on ... (tsp-aggregator)'') (filter (\<lambda>c. c = None) cs), po_invalid = 0\<rparr>"
proof -
  have "session L cs = text_lines (map (wire_line L) cs)"
    unfolding session_def text_lines_def by (rule arg_cong [where f = concat]) (simp add: wire_eq)
  moreover have "list_all line_clean (map (wire_line L) cs)"
    using assms wire_line_clean by (auto simp: list_all_iff)
  ultimately show ?thesis
    using protocol_cmds [of L cs] by (simp add: protocolReader_def scan_lines_text)
qed

lemma serverConn_loop_end: "d_input d = [] \<Longrightarrow> serverConn_loop L pooled d = ([], 0)"
  by (simp add: serverConn_loop.simps [of L pooled d] Decode_def scan_def ReadSlice_def bufioSize_def)

lemma serverConn_loop_encoded:
  assumes "list_all (encodable L) ps" "d_input d = encode_all L ps" "\<not> d_checkOrder d"
  shows "\<exists>qs. serverConn_loop L pooled d = (qs, 0) \<and> list_all2 same_point qs ps"
  using assms
proof (induction ps arbitrary: d)
  case Nil
  then show ?case by (simp add: serverConn_loop_end encode_all_def)
next
  case (Cons p ps)
  have inp: "d_input d = append_point L [] p @ CHR 0x0A # encode_all L ps"
    using Cons.prems(2) by (simp add: encode_all_def)
  note one = Decode_encoded [OF _ inp, of 0 pooled]
  obtain q d' where q: "Decode L 0 pooled d = (Inr q, d')" "same_point q p"
    using one(1) Cons.prems by (cases "Decode L 0 pooled d") (auto simp: decodes_to_def)
  have "\<exists>qs. serverConn_loop L pooled d' = (qs, 0) \<and> list_all2 same_point qs ps"
    using Cons one q by (intro Cons.IH) auto
  with q show ?case by (auto simp: serverConn_loop.simps [of L pooled d])
qed

lemma Decode_wf: "Decode L now pooled d = (Inr p, d') \<Longrightarrow> wf_point L p"
  by (auto simp: Decode_def split: prod.splits sum.splits if_splits option.splits dest: unmarshalText_wf)

lemma serverConn_loop_wf: "p \<in> set (fst (serverConn_loop L pooled d)) \<Longrightarrow> wf_point L p"
proof (induction L pooled d rule: serverConn_loop.induct)
  case (1 L pooled d)
  then show ?case
    by (subst (asm) (3) serverConn_loop.simps)
      (auto split: prod.splits sum.splits decode_error.splits dest: Decode_wf)
qed

section \<open>Reading in pieces\<close>

definition put_stream :: "bytes list \<Rightarrow> bytes" where
  "put_stream lines =
     concat (map (\<lambda>cmd. if cmd \<noteq> ''version'' \<and> has_prefix cmd ''put '' then drop 4 cmd @ [CHR 0x0A] else []) lines)"

lemma protocol_stream: "po_stream (fold protocol_cmd lines out) = po_stream out @ put_stream lines"
  by (induction lines arbitrary: out) (auto simp: put_stream_def protocol_cmd_def)

lemma Read_some:
  "Read n buf lines = Some (out, buf', lines') \<Longrightarrow> buf @ put_stream lines = out @ buf' @ put_stream lines'"
proof (induction n buf lines rule: Read.induct)
  case (3 n cmd lines)
  show ?case
  proof (cases "cmd \<noteq> ''version'' \<and> has_prefix cmd ''put ''")
    case True
    let ?line = "drop 4 cmd @ [CHR 0x0A]"
    have "out = take n ?line" "buf' = drop n ?line" "lines' = lines"
      using True "3.prems" by (auto simp only: Read.simps Let_def if_True if_False option.inject prod.inject)
    then have "out @ buf' = ?line" by (simp only: append_take_drop_id)
    with True \<open>lines' = lines\<close> show ?thesis by (simp add: put_stream_def flip: append_assoc)
  next
    case False
    then have "Read n [] lines = Some (out, buf', lines')" "put_stream (cmd # lines) = put_stream lines"
      using "3.prems" by (auto simp: put_stream_def split: if_splits)
    with 3 False show ?thesis by auto
  qed
qed auto

lemma Read_none: "Read n buf lines = None \<Longrightarrow> buf @ put_stream lines = []"
  by (induction n buf lines rule: Read.induct) (auto simp: put_stream_def Let_def split: if_splits)

text \<open>All reads with buffers of the sizes given, until one fails.\<close>

fun Read_all :: "nat list \<Rightarrow> bytes \<Rightarrow> bytes list \<Rightarrow> bytes \<times> bool" where
  "Read_all [] buf lines = ([], False)"
| "Read_all (n # ns) buf lines =
     (case Read n buf lines of
        None \<Rightarrow> ([], True)
      | Some (out, buf, lines) \<Rightarrow> (case Read_all ns buf lines of (rest, eof) \<Rightarrow> (out @ rest, eof)))"

lemma Read_all_stream: "Read_all ns buf lines = (out, True) \<Longrightarrow> out = buf @ put_stream lines"
proof (induction ns arbitrary: buf lines out)
  case (Cons n ns)
  then show ?case
    by (auto dest!: Read_none split: option.splits prod.splits) (metis Read_some append.assoc)
qed simp

section \<open>Properties\<close>

lemma example_sendable: "0 \<le> t \<Longrightarrow> t < 10 ^ 9 \<Longrightarrow> 0 \<le> n \<Longrightarrow> n < 10 ^ 9 \<Longrightarrow> sendable L (example_point (t * 10 ^ 9) n)"
  using example_encodable [of t n L] dec_digits [of n]
  by (auto simp: sendable_def append_value_def example_point_def appendInt_nonneg is_digit_def ord_def)

text \<open>
  C7: Whatever mix of put commands and version commands a client writes to its connection, the
  aggregator enqueues exactly the points of the put commands, in their order, reports no syntax
  error and no invalid command, and answers each version command, and nothing else, with a line
  that the client accepts as the end of a version response.
\<close>

theorem aggregator_session:
  assumes "list_all (\<lambda>c. case c of None \<Rightarrow> True | Some p \<Rightarrow> sendable L p) cs"
  shows "(\<exists>qs. serve L pooled (session L cs) = (qs, 0) \<and> list_all2 same_point qs (put_points cs)) \<and>
    po_invalid (protocolReader (session L cs)) = 0 \<and>
    length (po_replies (protocolReader (session L cs))) = length (filter (\<lambda>c. c = None) cs) \<and>
    list_all isVersionResponsePart2 (po_replies (protocolReader (session L cs)))"
proof -
  note pr = protocolReader_session [OF assms]
  have "list_all (encodable L) (put_points cs)"
    using assms by (induction cs) (auto simp: sendable_def split: option.splits)
  then have "\<exists>qs. serve L pooled (session L cs) = (qs, 0) \<and> list_all2 same_point qs (put_points cs)"
    unfolding serve_def pr by (intro serverConn_loop_encoded) (auto simp: DisableOrderCheck_def NewDecoder_def)
  moreover have "list_all isVersionResponsePart2 (map (\<lambda>_. ''Built on ... (tsp-aggregator)'') cs')" for cs' :: "point option list"
    by (auto simp: list_all_iff isVersionResponsePart2_def)
  ultimately show ?thesis by (simp add: pr)
qed

theorem aggregator_session_witness:
  "\<exists>qs. serve latin1_lib newPoint (session latin1_lib [Some (example_point 5000000000 1), None, Some (example_point 6000000000 2)])
     = (qs, 0) \<and> list_all2 same_point qs [example_point 5000000000 1, example_point 6000000000 2]"
  using aggregator_session [of latin1_lib "[Some (example_point 5000000000 1), None, Some (example_point 6000000000 2)]" newPoint]
    example_sendable [of 5 1 latin1_lib] example_sendable [of 6 2 latin1_lib]
  by simp

text \<open>
  C17: On arbitrary input the connection loop ends, and every point that it enqueues is
  well-formed.
\<close>

theorem server_wellformed:
  "\<exists>ps n. serve L pooled input = (ps, n) \<and> list_all (wf_point L) ps"
  using serverConn_loop_wf [of _ L pooled]
  by (cases "serve L pooled input") (auto simp: serve_def list_all_iff, metis fst_conv)

text \<open>
  The sizes of the buffers that the decoder reads with do not matter: when the reads have
  come to the end of the input, the pieces put together are the stream of the put commands.
\<close>

theorem protocol_reads:
  assumes "Read_all ns [] (fst (scan_lines input)) = (out, True)"
  shows "out = po_stream (protocolReader input)"
  using Read_all_stream [OF assms] by (simp add: protocolReader_def protocol_stream)

end
