(* ===== verification/Controller.thy ===== *)
theory Controller
  imports Server
begin

text \<open>
  The controller: the host tree of its configuration file
  (\<^verbatim>\<open>cmd/tsp-controller/config/config.go\<close>), the scope of a controller
  (\<^verbatim>\<open>config/network/network.go\<close>) and the configurations it serves to forwarders, pollers
  and aggregators (\<^verbatim>\<open>control/tsp-forwarder/control.go\<close>).

  The XML decoder of the library delivers the tree of elements, which is the input of the
  model; the external filter program is a parameter.

  What is proved: an accepted tree has unique identifiers, and its hosts are listed in document
  order with their cluster and path; lookups agree with one another; a served configuration is
  accepted by the program that asked for it; every point that passes a served filter has a host
  tag.
\<close>

section \<open>The tree of hosts\<close>

record 'v element =
  el_Name :: string
  el_Value :: "'v option"
  el_Raw :: bytes

record 'v host =
  h_ID :: string
  h_ClusterID :: string
  h_Tags :: "string list"
  h_Extra :: "'v element list"

text \<open>The elements as decoded, with the name of the first unknown element if there is one.\<close>

datatype 'v cluster = Cluster string "'v host list" "string option"

datatype 'v hostgroup = HostGroup string "'v hostgroup list" "'v cluster list" "string option"

datatype tree_error =
    MissingID
  | InvalidElement string string
  | Redeclared string
  | HostgroupAndCluster string

record 'v hosts =
  hs_All :: "'v host list"
  hs_NS :: "string set"
  hs_tags :: "string list"

definition emptyHosts :: "'v hosts" where
  "emptyHosts = \<lparr>hs_All = [], hs_NS = {}, hs_tags = []\<rparr>"

definition host_Validate :: "'v host \<Rightarrow> tree_error option" where
  "host_Validate h = (if h_ID h = [] then Some MissingID else None)"

definition Validate_node :: "string \<Rightarrow> string option \<Rightarrow> tree_error option" where
  "Validate_node ident any =
     (if ident = [] then Some MissingID
      else case any of None \<Rightarrow> None | Some name \<Rightarrow> Some (InvalidElement ident name))"

definition Namespace_Add :: "string \<Rightarrow> 'v hosts \<Rightarrow> tree_error + 'v hosts" where
  "Namespace_Add ident hs = (if ident \<in> hs_NS hs then Inl (Redeclared ident) else Inr (hs\<lparr>hs_NS := insert ident (hs_NS hs)\<rparr>))"

definition tags_Push :: "string \<Rightarrow> 'v hosts \<Rightarrow> 'v hosts" where
  "tags_Push ident hs = hs\<lparr>hs_tags := hs_tags hs @ [ident]\<rparr>"

definition tags_Pop :: "'v hosts \<Rightarrow> 'v hosts" where
  "tags_Pop hs = hs\<lparr>hs_tags := butlast (hs_tags hs)\<rparr>"

definition hosts_add :: "'v host \<Rightarrow> string \<Rightarrow> 'v hosts \<Rightarrow> tree_error + 'v hosts" where
  "hosts_add h clusterID hs =
     (case host_Validate h of
        Some e \<Rightarrow> Inl e
      | None \<Rightarrow> rbind (Namespace_Add (h_ID h) hs) (\<lambda>hs.
          let hs = tags_Push (h_ID h) hs;
              h = h\<lparr>h_ClusterID := clusterID, h_Tags := hs_tags hs\<rparr>
          in Inr (tags_Pop (hs\<lparr>hs_All := hs_All hs @ [h]\<rparr>))))"

fun hosts_add_all :: "'v host list \<Rightarrow> string \<Rightarrow> 'v hosts \<Rightarrow> tree_error + 'v hosts" where
  "hosts_add_all [] clusterID hs = Inr hs"
| "hosts_add_all (h # rest) clusterID hs = rbind (hosts_add h clusterID hs) (hosts_add_all rest clusterID)"

fun addCluster :: "'v cluster \<Rightarrow> 'v hosts \<Rightarrow> tree_error + 'v hosts" where
  "addCluster (Cluster ident hosts any) hs =
     (case Validate_node ident any of
        Some e \<Rightarrow> Inl e
      | None \<Rightarrow> rbind (Namespace_Add ident hs) (\<lambda>hs.
          rbind (hosts_add_all hosts ident (tags_Push ident hs)) (\<lambda>hs. Inr (tags_Pop hs))))"

fun addClusters :: "'v cluster list \<Rightarrow> 'v hosts \<Rightarrow> tree_error + 'v hosts" where
  "addClusters [] hs = Inr hs"
| "addClusters (c # cs) hs = rbind (addCluster c hs) (addClusters cs)"

fun addGroup :: "'v hostgroup \<Rightarrow> 'v hosts \<Rightarrow> tree_error + 'v hosts"
  and addGroups :: "'v hostgroup list \<Rightarrow> 'v hosts \<Rightarrow> tree_error + 'v hosts" where
  "addGroup (HostGroup ident subs clusters any) hs =
     (case Validate_node ident any of
        Some e \<Rightarrow> Inl e
      | None \<Rightarrow> rbind (Namespace_Add ident hs) (\<lambda>hs.
          let hs = tags_Push ident hs in
          rbind
            (if subs \<noteq> [] then
               if clusters \<noteq> [] then Inl (HostgroupAndCluster ident) else addGroups subs hs
             else addClusters clusters hs)
            (\<lambda>hs. Inr (tags_Pop hs))))"
| "addGroups [] hs = Inr hs"
| "addGroups (g # gs) hs = rbind (addGroup g hs) (addGroups gs)"

section \<open>What a tree means\<close>

fun cluster_hosts :: "string list \<Rightarrow> 'v cluster \<Rightarrow> 'v host list" where
  "cluster_hosts path (Cluster ident hosts any) =
     map (\<lambda>h. h\<lparr>h_ClusterID := ident, h_Tags := path @ [ident, h_ID h]\<rparr>) hosts"

fun cluster_ids :: "'v cluster \<Rightarrow> string list" where
  "cluster_ids (Cluster ident hosts any) = ident # map h_ID hosts"

fun group_hosts :: "string list \<Rightarrow> 'v hostgroup \<Rightarrow> 'v host list"
  and groups_hosts :: "string list \<Rightarrow> 'v hostgroup list \<Rightarrow> 'v host list" where
  "group_hosts path (HostGroup ident subs clusters any) =
     groups_hosts (path @ [ident]) subs @ concat (map (cluster_hosts (path @ [ident])) clusters)"
| "groups_hosts path [] = []"
| "groups_hosts path (g # gs) = group_hosts path g @ groups_hosts path gs"

fun group_ids :: "'v hostgroup \<Rightarrow> string list"
  and groups_ids :: "'v hostgroup list \<Rightarrow> string list" where
  "group_ids (HostGroup ident subs clusters any) = ident # groups_ids subs @ concat (map cluster_ids clusters)"
| "groups_ids [] = []"
| "groups_ids (g # gs) = group_ids g @ groups_ids gs"

text \<open>One step that adds hosts and identifiers and restores the path.\<close>

definition added :: "'v hosts \<Rightarrow> 'v host list \<Rightarrow> string list \<Rightarrow> 'v hosts \<Rightarrow> bool" where
  "added hs new ids hs' \<longleftrightarrow>
     hs_All hs' = hs_All hs @ new \<and> hs_tags hs' = hs_tags hs \<and> hs_NS hs' = hs_NS hs \<union> set ids \<and>
     distinct ids \<and> set ids \<inter> hs_NS hs = {}"

lemma added_refl: "added hs [] [] hs"
  by (simp add: added_def)

lemma added_trans: "added hs xs is hs1 \<Longrightarrow> added hs1 ys js hs2 \<Longrightarrow> added hs (xs @ ys) (is @ js) hs2"
  by (auto simp: added_def)

lemma added_node:
  assumes "Namespace_Add ident hs = Inr hs1" "added (tags_Push ident hs1) new ids hs2"
  shows "added hs new (ident # ids) (tags_Pop hs2)"
  using assms by (auto simp: added_def Namespace_Add_def tags_Push_def tags_Pop_def split: if_splits)

lemma hosts_add_added:
  "hosts_add h cid hs = Inr hs' \<Longrightarrow>
     added hs [h\<lparr>h_ClusterID := cid, h_Tags := hs_tags hs @ [h_ID h]\<rparr>] [h_ID h] hs'"
  by (auto simp: added_def hosts_add_def Namespace_Add_def tags_Push_def tags_Pop_def Let_def
      split: option.splits if_splits)

lemma hosts_add_all_added:
  "hosts_add_all hosts cid hs = Inr hs' \<Longrightarrow>
     added hs (map (\<lambda>h. h\<lparr>h_ClusterID := cid, h_Tags := hs_tags hs @ [h_ID h]\<rparr>) hosts) (map h_ID hosts) hs'"
proof (induction hosts arbitrary: hs)
  case (Cons h hosts)
  then obtain hs1 where hs1: "hosts_add h cid hs = Inr hs1" "hosts_add_all hosts cid hs1 = Inr hs'"
    by (auto simp: rbind_eq_Inr)
  note h = hosts_add_added [OF hs1(1)]
  then have "hs_tags hs1 = hs_tags hs" by (simp add: added_def)
  with added_trans [OF h Cons.IH [OF hs1(2)]] show ?case by simp
qed (simp add: added_refl)

lemma addCluster_added:
  assumes "addCluster c hs = Inr hs'"
  shows "added hs (cluster_hosts (hs_tags hs) c) (cluster_ids c) hs'"
proof (cases c)
  case (Cluster ident hosts any)
  with assms obtain hs1 hs2 where
    n: "Namespace_Add ident hs = Inr hs1" "hosts_add_all hosts ident (tags_Push ident hs1) = Inr hs2" "hs' = tags_Pop hs2"
    by (auto simp: rbind_eq_Inr split: option.splits)
  have "hs_tags (tags_Push ident hs1) = hs_tags hs @ [ident]"
    using n(1) by (auto simp: Namespace_Add_def tags_Push_def split: if_splits)
  with added_node [OF n(1) hosts_add_all_added [OF n(2)]] n(3) Cluster show ?thesis by simp
qed

lemma addClusters_added:
  "addClusters cs hs = Inr hs' \<Longrightarrow>
     added hs (concat (map (cluster_hosts (hs_tags hs)) cs)) (concat (map cluster_ids cs)) hs'"
proof (induction cs arbitrary: hs)
  case (Cons c cs)
  then obtain hs1 where hs1: "addCluster c hs = Inr hs1" "addClusters cs hs1 = Inr hs'"
    by (auto simp: rbind_eq_Inr)
  note c = addCluster_added [OF hs1(1)]
  then have "hs_tags hs1 = hs_tags hs" by (simp add: added_def)
  with added_trans [OF c Cons.IH [OF hs1(2)]] show ?case by simp
qed (simp add: added_refl)

lemma addGroup_added:
  "addGroup g hs = Inr hs' \<Longrightarrow> added hs (group_hosts (hs_tags hs) g) (group_ids g) hs'"
  "addGroups gs hs = Inr hs' \<Longrightarrow> added hs (groups_hosts (hs_tags hs) gs) (groups_ids gs) hs'"
proof (induction g hs and gs hs arbitrary: hs' and hs' rule: addGroup_addGroups.induct)
  case (1 ident subs clusters any hs)
  then obtain hs1 hs2 where
    n: "Validate_node ident any = None" "Namespace_Add ident hs = Inr hs1" "hs' = tags_Pop hs2"
      "(if subs \<noteq> [] then if clusters \<noteq> [] then Inl (HostgroupAndCluster ident) else addGroups subs (tags_Push ident hs1)
        else addClusters clusters (tags_Push ident hs1)) = Inr hs2"
    by (auto simp: rbind_eq_Inr Let_def split: option.splits)
  have tags: "hs_tags (tags_Push ident hs1) = hs_tags hs @ [ident]"
    using n(2) by (auto simp: Namespace_Add_def tags_Push_def split: if_splits)
  show ?case
  proof (cases "subs = []")
    case True
    with n(4) addClusters_added [of clusters "tags_Push ident hs1" hs2] added_node [OF n(2), of _ _ hs2] tags n(3)
    show ?thesis by simp
  next
    case False
    with n(4) have "clusters = []" "addGroups subs (tags_Push ident hs1) = Inr hs2" by (auto split: if_splits)
    with "1.IH" [OF n(1) refl False]
    have "added (tags_Push ident hs1) (groups_hosts (hs_tags (tags_Push ident hs1)) subs) (groups_ids subs) hs2" by simp
    from added_node [OF n(2) this] tags n(3) \<open>clusters = []\<close> show ?thesis by simp
  qed
next
  case (2 hs)
  then show ?case by (simp add: added_refl)
next
  case (3 g gs hs)
  then obtain hs1 where hs1: "addGroup g hs = Inr hs1" "addGroups gs hs1 = Inr hs'"
    by (auto simp: rbind_eq_Inr)
  note g = "3.IH"(1) [OF hs1(1)]
  then have "hs_tags hs1 = hs_tags hs" by (simp add: added_def)
  with added_trans [OF g "3.IH"(2) [OF hs1(2)]] show ?case by simp
qed

section \<open>Scope\<close>

record subscriber =
  sb_ID :: string
  sb_Host :: string
  sb_Direct :: bool
  sb_Dedup :: bool

record network_config =
  nc_restrict :: "string list"
  nc_Aggregator :: "string option"
  nc_Subscriber :: "subscriber list"

datatype ctl_error =
    TreeError tree_error
  | Unsupported string
  | ModuleError string
  | NetworkError string
  | ScopeError string
  | NotAggregator string
  | MissingHostParameter
  | UnexpectedParameter string
  | FilterRun string

definition DefaultRestrictions :: "string list" where "DefaultRestrictions = [''.'']"

definition network_default :: "string \<Rightarrow> network_config" where
  "network_default self =
     \<lparr>nc_restrict = DefaultRestrictions, nc_Aggregator = None,
      nc_Subscriber = [\<lparr>sb_ID = ''default'', sb_Host = self, sb_Direct = True, sb_Dedup = True\<rparr>]\<rparr>"

text \<open>The outcome of reading and decoding the network file.\<close>

datatype network_file = NotExist | ReadFailed string | Parsed network_config

definition ReadFile :: "string \<Rightarrow> network_file \<Rightarrow> ctl_error + network_config" where
  "ReadFile self f =
     (case f of
        NotExist \<Rightarrow> Inr (network_default self)
      | ReadFailed e \<Rightarrow> Inl (NetworkError e)
      | Parsed c \<Rightarrow> Inr (if nc_restrict c = [] then c\<lparr>nc_restrict := DefaultRestrictions\<rparr> else c))"

text \<open>\<^verbatim>\<open>InScope\<close>, which panics on a configuration without restrictions.\<close>

definition InScope :: "regexlib \<Rightarrow> network_config \<Rightarrow> string \<Rightarrow> bool option" where
  "InScope R c h =
     (if nc_restrict c = [] then None else Some (list_ex (\<lambda>re. re_Find R re h \<noteq> None) (nc_restrict c)))"

section \<open>The configuration\<close>

record 'v config =
  cf_Hosts :: "'v hosts"
  cf_Network :: "network_config option"
  cf_FilterPath :: string
  cf_Extra :: "'v element list"

definition validateFilter :: "'v config \<Rightarrow> 'v config" where
  "validateFilter c =
     (if cf_FilterPath c = [] then c\<lparr>cf_FilterPath := ''/etc/tsp-controller/filter''\<rparr> else c)"

fun update_modules :: "('v config \<Rightarrow> string + 'v config) list \<Rightarrow> 'v config \<Rightarrow> ctl_error + 'v config" where
  "update_modules [] c = Inr c"
| "update_modules (f # fs) c = rbind (rmap_err ModuleError (f c)) (update_modules fs)"

fun supported :: "'v element list \<Rightarrow> ctl_error option" where
  "supported [] = None"
| "supported (e # es) = (case el_Value e of None \<Rightarrow> Some (Unsupported (el_Name e)) | Some _ \<Rightarrow> supported es)"

definition validateExtra :: "('v config \<Rightarrow> string + 'v config) list \<Rightarrow> 'v config \<Rightarrow> ctl_error + 'v config" where
  "validateExtra modules c =
     rbind (update_modules modules c) (\<lambda>c.
       case supported (cf_Extra c) of
         Some e \<Rightarrow> Inl e
       | None \<Rightarrow>
           (case supported (concat (map h_Extra (hs_All (cf_Hosts c)))) of
              Some e \<Rightarrow> Inl e
            | None \<Rightarrow> Inr c))"

definition validateNetwork :: "string \<Rightarrow> network_file \<Rightarrow> 'v config \<Rightarrow> ctl_error + 'v config" where
  "validateNetwork self f c =
     (case cf_Network c of
        Some _ \<Rightarrow> Inr c
      | None \<Rightarrow> rbind (ReadFile self f) (\<lambda>n. Inr (c\<lparr>cf_Network := Some n\<rparr>)))"

text \<open>\<^verbatim>\<open>decoder.Decode\<close>, from the elements of the file.\<close>

definition Decode_config ::
  "('v config \<Rightarrow> string + 'v config) list \<Rightarrow> string \<Rightarrow> network_file \<Rightarrow>
     'v hostgroup list \<Rightarrow> network_config option \<Rightarrow> string \<Rightarrow> 'v element list \<Rightarrow> ctl_error + 'v config" where
  "Decode_config modules self f groups net fpath extra =
     rbind (rmap_err TreeError (addGroups groups emptyHosts)) (\<lambda>hs.
       let c = \<lparr>cf_Hosts = hs\<lparr>hs_tags := []\<rparr>, cf_Network = net, cf_FilterPath = fpath, cf_Extra = extra\<rparr>;
           c = validateFilter c
       in rbind (validateExtra modules c) (validateNetwork self f))"

definition shortID :: "'v host \<Rightarrow> string" where
  "shortID h =
     (let label = split_byte (CHR ''.'') (h_ID h) in if length label = 1 then h_ID h else hd label)"

text \<open>The loop of \<^verbatim>\<open>Config.Host\<close>: the exact match, the last inexact one and their number.\<close>

fun find_host :: "string \<Rightarrow> 'v host list \<Rightarrow> 'v host option \<Rightarrow> nat \<Rightarrow> 'v host option \<times> 'v host option \<times> nat" where
  "find_host ident [] inexact n = (None, inexact, n)"
| "find_host ident (h # hs) inexact n =
     (if h_ID h = ident then (Some h, inexact, n)
      else if shortID h = ident then find_host ident hs (Some h) (n + 1)
      else find_host ident hs inexact n)"

definition invent_host :: "string \<Rightarrow> 'v host" where
  "invent_host ident = \<lparr>h_ID = ident, h_ClusterID = [], h_Tags = [], h_Extra = []\<rparr>"

definition config_Host :: "regexlib \<Rightarrow> network_config \<Rightarrow> 'v hosts \<Rightarrow> string \<Rightarrow> (ctl_error + 'v host) option" where
  "config_Host R net hs ident =
     (let (exact, inexact, n) = find_host ident (hs_All hs) None 0;
          h = (case exact of
                 Some h \<Rightarrow> h
               | None \<Rightarrow> if n = 1 then the inexact else invent_host ident)
      in case InScope R net (h_ID h) of
           None \<Rightarrow> None
         | Some True \<Rightarrow> Some (Inr h)
         | Some False \<Rightarrow> Some (Inl (ScopeError (h_ID h))))"

definition config_Cluster :: "regexlib \<Rightarrow> network_config \<Rightarrow> 'v hosts \<Rightarrow> string \<Rightarrow> 'v host list" where
  "config_Cluster R net hs ident =
     filter (\<lambda>h. InScope R net (h_ID h) = Some True \<and> h_ClusterID h = ident) (hs_All hs)"

lemma find_host_exact:
  "distinct (map h_ID hs) \<Longrightarrow> h \<in> set hs \<Longrightarrow> fst (find_host (h_ID h) hs i n) = Some h"
proof (induction hs arbitrary: i n)
  case (Cons a hs)
  then show ?case by (cases "a = h") (auto simp: rev_image_eqI)
qed simp

lemma find_host_member:
  "find_host ident hs i n = (exact, inexact, m) \<Longrightarrow>
     (case exact of Some h \<Rightarrow> h \<in> set hs \<and> h_ID h = ident | None \<Rightarrow> True) \<and>
     (inexact = i \<and> m = n \<or> (\<exists>h \<in> set hs. inexact = Some h \<and> shortID h = ident \<and> m > n))"
proof (induction hs arbitrary: i n)
  case (Cons a hs)
  consider "h_ID a = ident" | "h_ID a \<noteq> ident" "shortID a = ident" | "h_ID a \<noteq> ident" "shortID a \<noteq> ident"
    by blast
  then show ?case
  proof cases
    case 2
    with Cons.prems have "find_host ident hs (Some a) (n + 1) = (exact, inexact, m)" by simp
    from Cons.IH [OF this] 2 show ?thesis by (auto split: option.splits)
  next
    case 3
    with Cons.prems have "find_host ident hs i n = (exact, inexact, m)" by simp
    from Cons.IH [OF this] show ?thesis by (auto split: option.splits)
  qed (use Cons.prems in auto)
qed auto

section \<open>Views\<close>

record view_relay =
  vr_Host :: string
  vr_DropRepeats :: bool
  vr_MaxConnsPerHost :: int

record view =
  vw_Filter :: "Rule list"
  vw_Relay :: "(string \<times> view_relay) list"
  vw_ListenAddr :: string

text \<open>
  \<^verbatim>\<open>parseKey\<close>: the path and the query parameters with their values, already parsed.
\<close>

definition path_Base :: "string \<Rightarrow> string" where
  "path_Base p = rev (takeWhile (\<lambda>c. c \<noteq> CHR ''/'') (rev p))"

definition parseKey :: "string \<Rightarrow> (string \<times> string list) list \<Rightarrow> ctl_error + string \<times> string" where
  "parseKey p query =
     (let h = (case map_of query ''host'' of Some (v # _) \<Rightarrow> v | _ \<Rightarrow> []) in
      if h = [] then Inl MissingHostParameter
      else case filter (\<lambda>(k, v). k \<noteq> ''host'') query of
        (k, v) # _ \<Rightarrow> Inl (UnexpectedParameter k)
      | [] \<Rightarrow>
          let program = path_Base p in
          Inr (if has_prefix program ''tsdb-'' then ''tsp-'' @ drop 5 program else program, h))"

definition missing_tag_rule :: "string \<Rightarrow> string \<Rightarrow> Rule" where
  "missing_tag_rule key val = \<lparr>ru_Match = [[], key, ''^$''], ru_Set = [[], key, val], ru_Block = False\<rparr>"

text \<open>The external filter program: its rules, or an error. A missing program has no rules.\<close>

type_synonym filter_program = "string \<Rightarrow> string \<Rightarrow> string \<Rightarrow> string + Rule list"

definition newView ::
  "regexlib \<Rightarrow> filter_program \<Rightarrow> network_config \<Rightarrow> 'v hosts \<Rightarrow> string \<Rightarrow> string \<Rightarrow> (ctl_error + view) option" where
  "newView R run net hs program ident =
     map_option (\<lambda>r. rbind r (\<lambda>h.
       rbind (rmap_err FilterRun (run program (h_ID h) (h_ClusterID h))) (\<lambda>rules.
         Inr \<lparr>vw_Filter = rules @ [missing_tag_rule ''host'' (h_ID h)], vw_Relay = [], vw_ListenAddr = []\<rparr>)))
     (config_Host R net hs ident)"

definition add_relay :: "string \<Rightarrow> view_relay \<Rightarrow> view \<Rightarrow> view" where
  "add_relay name r v = v\<lparr>vw_Relay := AList.update name r (vw_Relay v)\<rparr>"

definition feed :: "int \<Rightarrow> subscriber list \<Rightarrow> view \<Rightarrow> view" where
  "feed conns subs v =
     fold (\<lambda>s. add_relay (sb_ID s)
       \<lparr>vr_Host = sb_Host s, vr_DropRepeats = sb_Dedup s, vr_MaxConnsPerHost = conns\<rparr>) subs v"

definition feed_aggregator :: "network_config \<Rightarrow> view \<Rightarrow> view" where
  "feed_aggregator net v =
     (case nc_Aggregator net of
        None \<Rightarrow> v
      | Some h \<Rightarrow> add_relay ''aggregator'' \<lparr>vr_Host = h, vr_DropRepeats = False, vr_MaxConnsPerHost = 0\<rparr> v)"

definition directSubscribers :: "network_config \<Rightarrow> subscriber list" where
  "directSubscribers net = filter sb_Direct (nc_Subscriber net)"

definition indirectSubscribers :: "network_config \<Rightarrow> subscriber list" where
  "indirectSubscribers net = filter (\<lambda>s. \<not> sb_Direct s) (nc_Subscriber net)"

definition forwarderView ::
  "regexlib \<Rightarrow> filter_program \<Rightarrow> network_config \<Rightarrow> 'v hosts \<Rightarrow> string \<Rightarrow> (ctl_error + view) option" where
  "forwarderView R run net hs ident =
     (case config_Host R net hs ident of
        None \<Rightarrow> None
      | Some (Inl e) \<Rightarrow> Some (Inl e)
      | Some (Inr h) \<Rightarrow>
          map_option (\<lambda>r. rbind r (\<lambda>v.
            let v = (if h_ClusterID h \<noteq> []
                     then v\<lparr>vw_Filter := vw_Filter v @ [missing_tag_rule ''cluster'' (h_ClusterID h)]\<rparr> else v)
            in Inr (feed_aggregator net (feed 0 (directSubscribers net) v))))
          (newView R run net hs ''tsp-forwarder'' ident))"

definition pollerMaxConnsPerHost :: int where "pollerMaxConnsPerHost = 12"

definition pollerView ::
  "regexlib \<Rightarrow> filter_program \<Rightarrow> network_config \<Rightarrow> 'v hosts \<Rightarrow> string \<Rightarrow> (ctl_error + view) option" where
  "pollerView R run net hs ident =
     map_option (\<lambda>r. rbind r (\<lambda>v.
       Inr (feed_aggregator net (feed pollerMaxConnsPerHost (directSubscribers net) v))))
     (newView R run net hs ''tsp-poller'' ident)"

text \<open>\<^verbatim>\<open>net.SplitHostPort\<close> with its results.\<close>

definition SplitHostPort :: "string \<Rightarrow> (string \<times> string) option" where
  "SplitHostPort s =
     (if \<not> SplitHostPort_ok s then None
      else let i = the (last_index s (CHR '':'')) in
        Some (if hd s = CHR ''['' then take (i - 2) (tl s) else take i s, drop (i + 1) s))"

definition isAggregator :: "string \<Rightarrow> network_config \<Rightarrow> bool" where
  "isAggregator h net =
     (case nc_Aggregator net of
        None \<Rightarrow> False
      | Some want \<Rightarrow>
          h = (case SplitHostPort want of Some (host, _) \<Rightarrow> host | None \<Rightarrow> want))"

definition listenAddr :: "network_config \<Rightarrow> string" where
  "listenAddr net =
     (case SplitHostPort (the (nc_Aggregator net)) of Some (_, port) \<Rightarrow> '':'' @ port | None \<Rightarrow> '':4242'')"

definition aggregatorView ::
  "regexlib \<Rightarrow> filter_program \<Rightarrow> network_config \<Rightarrow> 'v hosts \<Rightarrow> string \<Rightarrow> (ctl_error + view) option" where
  "aggregatorView R run net hs ident =
     (if \<not> isAggregator ident net then Some (Inl (NotAggregator ident))
      else map_option (\<lambda>r. rbind r (\<lambda>v.
        Inr ((feed 0 (indirectSubscribers net) v)\<lparr>vw_ListenAddr := listenAddr net\<rparr>)))
      (newView R run net hs ''tsp-aggregator'' ident))"

text \<open>\<^verbatim>\<open>handler.View\<close>; it panics on another program.\<close>

definition View ::
  "regexlib \<Rightarrow> filter_program \<Rightarrow> network_config \<Rightarrow> 'v hosts \<Rightarrow> string \<times> string \<Rightarrow> (ctl_error + view) option" where
  "View R run net hs key =
     (case key of (program, ident) \<Rightarrow>
        if program = ''tsp-forwarder'' then forwarderView R run net hs ident
        else if program = ''tsp-poller'' then pollerView R run net hs ident
        else if program = ''tsp-aggregator'' then aggregatorView R run net hs ident
        else None)"

section \<open>Lookups agree\<close>

lemma cluster_hosts_ids: "map h_ID (cluster_hosts path c) = tl (cluster_ids c)"
  by (cases c) (simp add: comp_def)

lemma group_hosts_ids:
  fixes g :: "'v hostgroup" and gs :: "'v hostgroup list"
  shows "distinct (group_ids g) \<Longrightarrow> distinct (map h_ID (group_hosts path g)) \<and> set (map h_ID (group_hosts path g)) \<subseteq> set (group_ids g)"
  "distinct (groups_ids gs) \<Longrightarrow> distinct (map h_ID (groups_hosts path gs)) \<and> set (map h_ID (groups_hosts path gs)) \<subseteq> set (groups_ids gs)"
proof (induction path g and path gs rule: group_hosts_groups_hosts.induct)
  case (1 path ident subs clusters any)
  have sub: "set (map h_ID (concat (map (cluster_hosts p) cs))) \<subseteq> set (concat (map cluster_ids cs))" for p and cs :: "'v cluster list"
  proof (induction cs)
    case (Cons c cs)
    moreover have "set (map h_ID (cluster_hosts p c)) \<subseteq> set (cluster_ids c)" by (cases c) auto
    ultimately show ?case by auto
  qed simp
  have dist: "distinct (concat (map cluster_ids cs)) \<Longrightarrow> distinct (map h_ID (concat (map (cluster_hosts p) cs)))" for p and cs :: "'v cluster list"
  proof (induction cs)
    case (Cons c cs)
    have "distinct (map h_ID (cluster_hosts p c)) \<and> set (map h_ID (cluster_hosts p c)) \<subseteq> set (cluster_ids c)"
      using Cons.prems by (cases c) (auto simp: comp_def)
    with Cons sub [of p cs] show ?case by (auto simp del: set_map)
  qed simp
  from 1 sub [of "path @ [ident]" clusters] dist [of clusters "path @ [ident]"] show ?case
    by (auto simp del: set_map)
next
  case (3 path g gs)
  then show ?case by (auto simp del: set_map)
qed simp_all

lemma decoded_hosts:
  assumes "addGroups groups emptyHosts = Inr hs"
  shows "hs_All hs = groups_hosts [] groups" "distinct (groups_ids groups)" "distinct (map h_ID (hs_All hs))"
proof -
  have "added emptyHosts (groups_hosts [] groups) (groups_ids groups) hs"
    using addGroup_added(2) [OF assms] by (simp add: emptyHosts_def)
  then show "hs_All hs = groups_hosts [] groups" "distinct (groups_ids groups)"
    by (auto simp: added_def emptyHosts_def)
  with group_hosts_ids(2) [of groups "[]"] show "distinct (map h_ID (hs_All hs))" by simp
qed

section \<open>Served configurations are accepted\<close>

text \<open>The configuration that a program reads from the JSON text of a view.\<close>

definition relay_of :: "view_relay \<Rightarrow> relay_config" where
  "relay_of r = \<lparr>rc_DropRepeats = vr_DropRepeats r, rc_Host = vr_Host r,
     rc_MaxConnsPerHost = (if vr_MaxConnsPerHost r = 0 then None else Some (vr_MaxConnsPerHost r)),
     rc_OnQueueFull = []\<rparr>"

definition config_of :: "view \<Rightarrow> program_config" where
  "config_of v = forwarder_default\<lparr>pc_Filter := Some (vw_Filter v),
     pc_Relay := Some (map (\<lambda>(n, r). (n, relay_of r)) (vw_Relay v))\<rparr>"

definition plain_regexes :: "regexlib \<Rightarrow> bool" where
  "plain_regexes R \<longleftrightarrow> list_all (\<lambda>re. re_MaxCap R re = Some 0) [[], ''host'', ''cluster'', ''^$'']"

lemma missing_tag_rule_valid:
  assumes "plain_regexes R" "key = ''host'' \<or> key = ''cluster''" "val \<noteq> []" "submatches val = []"
  shows "Rule_validate R (missing_tag_rule key val) = None"
proof -
  have "submatches ''host'' = []" "submatches ''cluster'' = []" by (simp_all add: submatch_here_def)
  with assms show ?thesis
    by (auto simp: missing_tag_rule_def Rule_validate_def rule_noop_def plain_regexes_def validate_set_def Let_def)
qed

lemma validate_each_all: "list_all (\<lambda>r. Rule_validate R r = None) rules \<Longrightarrow> validate_each R rules = None"
  by (induction rules) auto

lemma New_valid:
  assumes "rules \<noteq> []" "list_all (\<lambda>r. Rule_validate R r = None) rules"
  shows "\<exists>rs. New R rules = Some (Inr rs)"
proof -
  have "list_all (\<lambda>r. newRule R r \<noteq> None) rules"
    using newRule_valid assms(2) by (force simp: list_all_iff)
  then have "\<exists>xs. those (map (newRule R) rules) = Some xs" by (induction rules) auto
  then show ?thesis
    using assms by (auto simp: New_def validateRules_def validate_each_all)
qed

definition relays_ok :: "(string \<times> view_relay) list \<Rightarrow> bool" where
  "relays_ok rs \<longleftrightarrow> list_all (\<lambda>(n, r). vr_Host r \<noteq> [] \<and> vr_MaxConnsPerHost r < 16) rs"

lemma relays_ok_validate:
  "relays_ok rs \<Longrightarrow> \<exists>cs. validate_relays (map (\<lambda>(n, r). (n, relay_of r)) rs) = Inr cs"
proof (induction rs)
  case (Cons nr rs)
  obtain n r where nr: "nr = (n, r)" by (cases nr)
  with Cons.prems have "\<exists>c. relay_Validate (relay_of r) = Inr c"
    by (auto simp: relays_ok_def relay_Validate_def relay_of_def)
  with Cons nr show ?case by (auto simp: relays_ok_def)
qed simp

lemma update_relays_ok:
  assumes "relays_ok rs" "vr_Host r \<noteq> []" "vr_MaxConnsPerHost r < 16"
  shows "relays_ok (AList.update n r rs)" "length (AList.update n r rs) \<le> length rs + 1"
  using assms by (induction rs) (auto simp: relays_ok_def)

lemma feed_ok:
  assumes "list_all (\<lambda>s. sb_Host s \<noteq> []) subs" "conns < 16" "relays_ok (vw_Relay v)"
  shows "relays_ok (vw_Relay (feed conns subs v)) \<and> length (vw_Relay (feed conns subs v)) \<le> length (vw_Relay v) + length subs \<and>
    vw_Filter (feed conns subs v) = vw_Filter v"
  using assms
proof (induction subs arbitrary: v)
  case (Cons s subs)
  let ?r = "\<lparr>vr_Host = sb_Host s, vr_DropRepeats = sb_Dedup s, vr_MaxConnsPerHost = conns\<rparr>"
  have "relays_ok (vw_Relay (add_relay (sb_ID s) ?r v))" "length (vw_Relay (add_relay (sb_ID s) ?r v)) \<le> length (vw_Relay v) + 1"
    using update_relays_ok [OF Cons.prems(3), of ?r] Cons.prems by (auto simp: add_relay_def)
  with Cons.IH [of "add_relay (sb_ID s) ?r v"] Cons.prems show ?case by (auto simp: feed_def add_relay_def)
qed (simp add: feed_def)

lemma feed_aggregator_ok:
  assumes "nc_Aggregator net \<noteq> Some []" "relays_ok (vw_Relay v)"
  shows "relays_ok (vw_Relay (feed_aggregator net v))" "length (vw_Relay (feed_aggregator net v)) \<le> length (vw_Relay v) + 1"
    "vw_Filter (feed_aggregator net v) = vw_Filter v"
  using update_relays_ok [OF assms(2)] assms
  by (auto simp: feed_aggregator_def add_relay_def split: option.split)

lemma config_of_valid:
  assumes "vw_Filter v \<noteq> []" "list_all (\<lambda>r. Rule_validate R r = None) (vw_Filter v)" "length (vw_Filter v) \<le> 64"
    and "relays_ok (vw_Relay v)" "length (vw_Relay v) \<le> 8"
  shows "\<exists>c'. forwarder_Validate R (config_of v) = Some (Inr c')"
proof -
  obtain rs where "New R (vw_Filter v) = Some (Inr rs)" using New_valid assms(1,2) by blast
  moreover obtain cs where "validate_relays (map (\<lambda>(n, r). (n, relay_of r)) (vw_Relay v)) = Inr cs"
    using relays_ok_validate [OF assms(4)] by blast
  ultimately show ?thesis
    using assms(3,5)
    by (simp add: forwarder_Validate_def config_of_def forwarder_default_def validate_Filter_def maxRules_def
        validate_Relay_def maxRelays_def)
qed

section \<open>Properties\<close>

text \<open>
  C21: If the tree of the configuration file is accepted, then the identifiers of all groups,
  clusters and hosts are different, and the list of hosts is the list of all host elements in
  document order, each with the cluster it stands in and with the path of identifiers from the
  outermost group down to itself.
\<close>

theorem tree_decoded:
  assumes "addGroups groups emptyHosts = Inr hs"
  shows "hs_All hs = groups_hosts [] groups \<and> distinct (groups_ids groups) \<and> distinct (map h_ID (hs_All hs))"
  using decoded_hosts [OF assms] by blast

definition example_tree :: "unit hostgroup list" where
  "example_tree = [HostGroup ''g'' [] [Cluster ''c'' [invent_host ''a.x'', invent_host ''b.x''] None] None]"

theorem tree_decoded_witness:
  "\<exists>hs. addGroups example_tree emptyHosts = Inr hs \<and>
     map (\<lambda>h. (h_ID h, h_ClusterID h, h_Tags h)) (hs_All hs)
       = [(''a.x'', ''c'', [''g'', ''c'', ''a.x'']), (''b.x'', ''c'', [''g'', ''c'', ''b.x''])]"
proof -
  obtain hs where hs: "addGroups example_tree emptyHosts = Inr hs"
    by (simp add: example_tree_def Validate_node_def Namespace_Add_def emptyHosts_def tags_Push_def tags_Pop_def
        hosts_add_def host_Validate_def invent_host_def Let_def)
  from tree_decoded [OF this] hs show ?thesis by (simp add: example_tree_def invent_host_def)
qed

text \<open>
  Looking a host up by its full identifier finds the host itself, if it is in scope, even
  when other hosts have that name as their short name; the hosts of a cluster are found that
  way, every one; and whatever a lookup returns is in scope.
\<close>

theorem lookup_agrees:
  assumes "addGroups groups emptyHosts = Inr hs" "nc_restrict net \<noteq> []"
  shows "(\<forall>h. h \<in> set (config_Cluster R net hs cid) \<longrightarrow>
       h \<in> set (hs_All hs) \<and> h_ClusterID h = cid \<and> config_Host R net hs (h_ID h) = Some (Inr h)) \<and>
    (\<forall>ident h. config_Host R net hs ident = Some (Inr h) \<longrightarrow>
       InScope R net (h_ID h) = Some True \<and>
       (h \<in> set (hs_All hs) \<and> (h_ID h = ident \<or> shortID h = ident) \<or> h = invent_host ident))"
proof -
  have d: "distinct (map h_ID (hs_All hs))" using decoded_hosts(3) [OF assms(1)] .
  have "config_Host R net hs (h_ID h) = Some (Inr h)"
    if "h \<in> set (hs_All hs)" "InScope R net (h_ID h) = Some True" for h
    using find_host_exact [OF d that(1), of None 0] that(2)
    by (simp add: config_Host_def case_prod_unfold Let_def)
  moreover have "InScope R net (h_ID h) = Some True \<and>
      (h \<in> set (hs_All hs) \<and> (h_ID h = ident \<or> shortID h = ident) \<or> h = invent_host ident)"
    if "config_Host R net hs ident = Some (Inr h)" for ident h
  proof -
    obtain exact inexact n where f: "find_host ident (hs_All hs) None 0 = (exact, inexact, n)"
      by (cases "find_host ident (hs_All hs) None 0")
    from that f show ?thesis
      using find_host_member [OF f]
      by (cases exact) (auto simp: config_Host_def Let_def split: option.splits bool.splits if_splits)
  qed
  ultimately show ?thesis by (auto simp: config_Cluster_def)
qed

text \<open>
  C12: A forwarder accepts the configuration that the controller serves it. The conditions are
  on what the operator provides: valid rules from the filter program, at most 62 of them, at
  most seven direct subscribers, no empty host name, and identifiers that hold no reference to
  a group.
\<close>

theorem served_config_accepted:
  assumes "forwarderView R run net hs ident = Some (Inr v)" "config_Host R net hs ident = Some (Inr h)"
    and "run ''tsp-forwarder'' (h_ID h) (h_ClusterID h) = Inr rules"
    and "list_all (\<lambda>r. Rule_validate R r = None) rules" "length rules \<le> 62"
    and "plain_regexes R" "h_ID h \<noteq> []" "submatches (h_ID h) = []" "submatches (h_ClusterID h) = []"
    and "list_all (\<lambda>s. sb_Host s \<noteq> []) (nc_Subscriber net)" "length (directSubscribers net) \<le> 7"
    and "nc_Aggregator net \<noteq> Some []"
  shows "\<exists>c'. forwarder_Validate R (config_of v) = Some (Inr c')"
proof -
  let ?v0 = "\<lparr>vw_Filter = rules @ [missing_tag_rule ''host'' (h_ID h)] @
      (if h_ClusterID h \<noteq> [] then [missing_tag_rule ''cluster'' (h_ClusterID h)] else []),
      vw_Relay = [], vw_ListenAddr = []\<rparr>"
  let ?v1 = "feed 0 (directSubscribers net) ?v0"
  have v: "v = feed_aggregator net ?v1"
    using assms(1-3) by (auto simp: forwarderView_def newView_def Let_def)
  have "list_all (\<lambda>s. sb_Host s \<noteq> []) (directSubscribers net)"
    using assms(10) by (auto simp: directSubscribers_def list_all_iff)
  then have f: "relays_ok (vw_Relay ?v1)" "length (vw_Relay ?v1) \<le> 7" "vw_Filter ?v1 = vw_Filter ?v0"
    using feed_ok [of "directSubscribers net" 0 ?v0] assms(11) by (auto simp: relays_ok_def)
  have "list_all (\<lambda>r. Rule_validate R r = None) (vw_Filter ?v0)"
    using assms(4,6-9) by (auto intro!: missing_tag_rule_valid)
  moreover have "length (vw_Filter ?v0) \<le> 64" using assms(5) by auto
  ultimately show ?thesis
    using feed_aggregator_ok [OF assms(12) f(1)] f(2,3) unfolding v
    by (intro config_of_valid) auto
qed

theorem served_config_accepted_witness:
  "\<exists>v c'. forwarderView literal_lib (\<lambda>p h c. Inr []) ((network_default ''s'')\<lparr>nc_restrict := [''a'']\<rparr>) (emptyHosts :: unit hosts) ''a'' = Some (Inr v) \<and>
     forwarder_Validate literal_lib (config_of v) = Some (Inr c')"
proof -
  let ?net = "(network_default ''s'')\<lparr>nc_restrict := [''a'']\<rparr>" and ?run = "\<lambda>p h c. Inr []"
  have h: "config_Host literal_lib ?net (emptyHosts :: unit hosts) ''a'' = Some (Inr (invent_host ''a''))"
    by (simp add: config_Host_def emptyHosts_def InScope_def literal_lib_def invent_host_def)
  then obtain v where v: "forwarderView literal_lib ?run ?net (emptyHosts :: unit hosts) ''a'' = Some (Inr v)"
    by (simp add: forwarderView_def newView_def Let_def)
  have "\<exists>c'. forwarder_Validate literal_lib (config_of v) = Some (Inr c')"
    by (rule served_config_accepted [OF v h, where rules = "[]"])
      (simp_all add: plain_regexes_def literal_lib_def invent_host_def submatch_here_def network_default_def
        directSubscribers_def)
  with v show ?thesis by blast
qed

text \<open>The filter of a view: the rules of the filter program, then those for missing tags.\<close>

lemma feed_filter [simp]: "vw_Filter (feed conns subs v) = vw_Filter v"
  by (induction subs arbitrary: v) (simp_all add: feed_def add_relay_def)

lemma feed_aggregator_filter [simp]: "vw_Filter (feed_aggregator net v) = vw_Filter v"
  by (simp add: feed_aggregator_def add_relay_def split: option.split)

lemma newView_filter:
  assumes "newView R run net hs program ident = Some (Inr v)"
  shows "\<exists>h rules. config_Host R net hs ident = Some (Inr h) \<and> run program (h_ID h) (h_ClusterID h) = Inr rules \<and>
    vw_Filter v = rules @ [missing_tag_rule ''host'' (h_ID h)]"
proof -
  from assms obtain h where h: "config_Host R net hs ident = Some (Inr h)" by (auto simp: newView_def rbind_eq_Inr)
  with assms show ?thesis by (cases "run program (h_ID h) (h_ClusterID h)") (auto simp: newView_def rmap_err_def)
qed

lemma View_filter:
  assumes "View R run net hs (program, ident) = Some (Inr v)"
  shows "\<exists>i c rules tail. run program i c = Inr rules \<and>
    vw_Filter v = rules @ missing_tag_rule ''host'' i # tail \<and> (tail = [] \<or> (\<exists>c. tail = [missing_tag_rule ''cluster'' c]))"
proof -
  consider "program = ''tsp-forwarder''" "forwarderView R run net hs ident = Some (Inr v)"
    | "program = ''tsp-poller''" "pollerView R run net hs ident = Some (Inr v)"
    | "program = ''tsp-aggregator''" "aggregatorView R run net hs ident = Some (Inr v)"
    using assms by (auto simp: View_def split: if_splits)
  then show ?thesis
  proof cases
    case 1
    then obtain c v0 where v0: "newView R run net hs ''tsp-forwarder'' ident = Some (Inr v0)"
        "v = feed_aggregator net (feed 0 (directSubscribers net) (if c \<noteq> []
           then v0\<lparr>vw_Filter := vw_Filter v0 @ [missing_tag_rule ''cluster'' c]\<rparr> else v0))"
      by (auto simp: forwarderView_def rbind_eq_Inr Let_def split: option.splits sum.splits)
    then have "vw_Filter v = vw_Filter v0 @ (if c \<noteq> [] then [missing_tag_rule ''cluster'' c] else [])"
      by simp
    with newView_filter [OF v0(1)] 1(1) show ?thesis by fastforce
  next
    case 2
    then obtain v0 where "newView R run net hs ''tsp-poller'' ident = Some (Inr v0)" "vw_Filter v = vw_Filter v0"
      by (auto simp: pollerView_def rbind_eq_Inr)
    with newView_filter 2(1) show ?thesis by fastforce
  next
    case 3
    then obtain v0 where "newView R run net hs ''tsp-aggregator'' ident = Some (Inr v0)" "vw_Filter v = vw_Filter v0"
      by (auto simp: aggregatorView_def rbind_eq_Inr split: if_splits)
    with newView_filter 3(1) show ?thesis by fastforce
  qed
qed

text \<open>A rule of a filter program that asks for no empty tag name and sets no tag twice.\<close>

definition Rule_fine :: "Rule \<Rightarrow> bool" where
  "Rule_fine r \<longleftrightarrow> list_all (\<lambda>(k, re). k \<noteq> []) (pairs (tl (ru_Match r))) \<and> distinct_keys (tl (ru_Set r))"

lemma newRule_ok: "newRule R c = Some r \<Longrightarrow> Rule_fine c \<Longrightarrow> rule_ok r"
  by (auto simp: newRule_def Rule_fine_def rule_ok_def distinct_keys_def Let_def split: if_splits)

lemma missing_tag_rule_fine: "key \<noteq> [] \<Longrightarrow> Rule_fine (missing_tag_rule key val)"
  by (simp add: Rule_fine_def missing_tag_rule_def distinct_keys_def)

lemma those_Some: "those xs = Some ys \<longleftrightarrow> xs = map Some ys"
proof (induction xs arbitrary: ys)
  case (Cons x xs)
  then show ?case by (cases x; cases ys) (auto split: option.splits)
qed auto

lemma Eval_host_tag:
  assumes "wf_point L p" "list_all rule_ok (as @ r # bs)"
    and "newRule R (missing_tag_rule ''host'' v) = Some r"
    and "bs = [] \<or> (\<exists>r' c. newRule R (missing_tag_rule ''cluster'' c) = Some r' \<and> bs = [r'])"
    and "\<forall>s. re_Find R ''^$'' s \<noteq> None \<longleftrightarrow> s = []" "re_MaxCap R ''^$'' = Some 0"
    and "Eval R (tsdb_ops L) (as @ r # bs) p = Some (True, None, q)"
  shows "\<exists>w. Tag ''host'' q = Some (Some w)"
proof -
  have r: "\<not> r_Block r" "r_MatchMetric r = None" "r_MatchTag r = [(''host'', ''^$'')]" "r_SetTag r = [''host'', v]"
    using assms(3) by (auto simp: newRule_def missing_tag_rule_def Let_def split: if_splits)
  have "list_all (\<lambda>r. ''host'' \<notin> fst ` set (pairs (r_SetTag r))) bs"
    using assms(4) by (auto simp: newRule_def missing_tag_rule_def Let_def split: if_splits)
  from tsdb.Eval_ensures_Tag [OF assms(1) rules_ok_fit [OF assms(2)] r _ assms(5,6) this assms(7)] show ?thesis by simp
qed

lemma filter_series_each:
  "filter_series R ops rules ps = Some qs \<Longrightarrow> q \<in> set qs \<Longrightarrow> \<exists>p \<in> set ps. Eval R ops rules p = Some (True, None, q)"
  by (induction ps arbitrary: qs) (auto split: option.splits if_splits)

text \<open>
  C13: Every point that passes the filter which the controller serves to a forwarder, a poller
  or an aggregator has a host tag, as long as the rules of the operator's filter program ask for no
  empty tag name and set no tag twice; otherwise they may do what they like, removing or changing the
  host tag included. Of the engine it is assumed that the expression for the empty string matches exactly
  the empty string.
\<close>

theorem served_filter_host_tag:
  assumes "View R run net hs (program, ident) = Some (Inr v)" "New R (vw_Filter v) = Some (Inr rules)"
    and "\<And>h c rs. run program h c = Inr rs \<Longrightarrow> list_all Rule_fine rs"
    and "\<forall>s. re_Find R ''^$'' s \<noteq> None \<longleftrightarrow> s = []" "re_MaxCap R ''^$'' = Some 0"
    and "list_all (wf_point L) ps" "filter_series R (tsdb_ops L) rules ps = Some qs"
  shows "list_all (\<lambda>q. \<exists>w. Tag ''host'' q = Some (Some w)) qs"
proof -
  obtain i c rs tail where f: "run program i c = Inr rs" "vw_Filter v = rs @ missing_tag_rule ''host'' i # tail"
      "tail = [] \<or> (\<exists>c. tail = [missing_tag_rule ''cluster'' c])"
    using View_filter [OF assms(1)] by blast
  have new: "map (newRule R) (vw_Filter v) = map Some rules"
    using assms(2) by (auto simp: New_def those_Some split: option.splits)
  then obtain as r bs where rules: "rules = as @ r # bs" "newRule R (missing_tag_rule ''host'' i) = Some r" "map (newRule R) tail = map Some bs"
    unfolding f(2) by (auto simp: map_eq_append_conv append_eq_map_conv map_eq_Cons_conv Cons_eq_map_conv)
  have "bs = [] \<or> (\<exists>r' c. newRule R (missing_tag_rule ''cluster'' c) = Some r' \<and> bs = [r'])"
    using rules(3) f(3) by (cases bs) auto
  moreover have "list_all Rule_fine (vw_Filter v)" using assms(3) [OF f(1)] f(2,3) missing_tag_rule_fine by auto
  then have "list_all rule_ok rules"
    using new newRule_ok by (fastforce simp: list_all_length list_eq_iff_nth_eq)
  ultimately have "\<exists>w. Tag ''host'' q = Some (Some w)" if "wf_point L p" "Eval R (tsdb_ops L) rules p = Some (True, None, q)" for p q
    using Eval_host_tag [OF that(1) _ rules(2) _ assms(4,5)] that(2) unfolding rules(1) by blast
  then show ?thesis using filter_series_each [OF assms(7)] assms(6) unfolding list_all_iff by blast
qed

definition anchored_lib :: regexlib where
  "anchored_lib = literal_lib\<lparr>re_Find := \<lambda>re s. if re = ''^$'' then (if s = [] then Some [0, 0] else None) else re_Find literal_lib re s\<rparr>"

text \<open>A point without a host tag, which the served filter gives one.\<close>

definition hostless_point :: point where
  "hostless_point = (example_point 0 1)\<lparr>pt_tags := render [(''dc'', ''eu'')]\<rparr>"

lemma hostless_point_wf: "wf_point latin1_lib hostless_point"
  using wf_tags_render [of latin1_lib "[(''dc'', ''eu'')]"] example_point_wf [of 0 1 latin1_lib]
  by (simp add: wf_point_def hostless_point_def example_point_def maxTagsPerPoint_def in64_iff Value_def)

lemma hostless_point_Tag: "Tag ''host'' hostless_point = Some None"
  using hostless_point_wf taglist_render [of latin1_lib "[(''dc'', ''eu'')]"]
  by (simp add: wf_point_def Tag_spec [of latin1_lib] hostless_point_def del: render_simps)

theorem served_filter_host_tag_witness:
  "\<exists>v rules q. View anchored_lib (\<lambda>p h c. Inr []) ((network_default ''s'')\<lparr>nc_restrict := [''web1'']\<rparr>) (emptyHosts :: unit hosts)
       (''tsp-forwarder'', ''web1'') = Some (Inr v) \<and>
     New anchored_lib (vw_Filter v) = Some (Inr rules) \<and> Tag ''host'' hostless_point = Some None \<and>
     filter_series anchored_lib (tsdb_ops latin1_lib) rules [hostless_point] = Some [q] \<and> (\<exists>w. Tag ''host'' q = Some (Some w))"
proof -
  let ?net = "(network_default ''s'')\<lparr>nc_restrict := [''web1'']\<rparr>" and ?run = "\<lambda>p h c. Inr []"
  let ?r = "\<lparr>r_MatchMetric = None, r_MatchTag = [(''host'', ''^$'')], r_SetMetric = None, r_SetTag = [''host'', ''web1''], r_Block = False\<rparr>"
  let ?q = "hostless_point\<lparr>pt_tags := render [(''host'', ''web1''), (''dc'', ''eu'')]\<rparr>"
  have h: "config_Host anchored_lib ?net (emptyHosts :: unit hosts) ''web1'' = Some (Inr (invent_host ''web1''))"
    by (simp add: config_Host_def emptyHosts_def InScope_def anchored_lib_def literal_lib_def invent_host_def)
  then obtain v where v: "View anchored_lib ?run ?net (emptyHosts :: unit hosts) (''tsp-forwarder'', ''web1'') = Some (Inr v)"
      "vw_Filter v = [missing_tag_rule ''host'' ''web1'']"
    by (simp add: View_def forwarderView_def newView_def Let_def invent_host_def)
  have new: "New anchored_lib (vw_Filter v) = Some (Inr [?r])"
    unfolding v(2)
    by (simp add: New_def validateRules_def Rule_validate_def rule_noop_def validate_set_def newRule_def missing_tag_rule_def anchored_lib_def
        literal_lib_def submatch_here_def)
  have tl: "taglist (pt_tags hostless_point) = [(''dc'', ''eu'')]"
    using taglist_render [of latin1_lib "[(''dc'', ''eu'')]"] by (simp add: hostless_point_def del: render_simps)
  have "SetTags latin1_lib [''host'', ''web1''] hostless_point = Some (Inr ?q)"
    using SetTags_spec(1) [of latin1_lib hostless_point "[''host'', ''web1'']"] hostless_point_wf
    by (simp add: wf_point_def tl set_tags_def maxTagsPerPoint_def)
  then have "Rewrite anchored_lib (tsdb_ops latin1_lib) ?r hostless_point None = Some (None, ?q)"
    by (simp add: Rewrite_def Rewrite_tags_def tsdb_ops_def submatch_Expand_def)
  moreover have "Match anchored_lib (tsdb_ops latin1_lib) ?r hostless_point None = Some (True, None)"
    using hostless_point_Tag by (simp add: Match_def tsdb_ops_def anchored_lib_def literal_lib_def submatch_Set_def)
  ultimately have pass: "filter_series anchored_lib (tsdb_ops latin1_lib) [?r] [hostless_point] = Some [?q]" by simp
  have "list_all (\<lambda>q. \<exists>w. Tag ''host'' q = Some (Some w)) [?q]"
    by (rule served_filter_host_tag [OF v(1) new _ _ _ _ pass]) (simp_all add: anchored_lib_def literal_lib_def hostless_point_wf)
  with v(1) new pass hostless_point_Tag show ?thesis by auto
qed

end
