(* ===== verification/Modules.thy ===== *)
theory Modules
  imports Controller
begin

text \<open>
  The extension modules of the controller: what they share (\<^verbatim>\<open>Config.UpdateHost\<close> of
  \<^verbatim>\<open>cmd/tsp-controller/config/config.go\<close>, the values they decode) and the module for
  collect-jmx (\<^verbatim>\<open>control/collect-jmx/control.go\<close>).

  Decoding the raw XML text of an element is a parameter: for each kind of element, a function
  that gives the attributes and children it has, or nothing if the text is not such an element.
  What the code does with them is modelled, including the custom \<^verbatim>\<open>UnmarshalXML\<close> methods.

  What is proved: an update decodes elements in place and leaves the hosts otherwise alone; after
  the update for collect-jmx process identifiers are different from those of the host tree, and
  no query group reaches a host, or a process, by two of its targets; a request never panics and
  is answered with the queries of exactly the groups that target the host or the process.
\<close>

section \<open>Values of extension elements\<close>

record host_config =
  hc_Aggregator :: bool
  hc_Interval :: string

record kpi =
  kp_Name :: string
  kp_ID :: string
  kp_CollectRanges :: bool

record jmx_query =
  q_ID :: string
  q_On :: string
  q_Attributes :: "string list"
  q_KPI :: "kpi list"

record query_group =
  qg_ID :: string
  qg_Targets :: "string list option"
  qg_Query :: "jmx_query list"

datatype mod_value = MStatse host_config | MProcess string | MQueryGroup query_group

text \<open>The XML decoder: attributes and children as in the anonymous structs of the code.\<close>

record xml_query =
  xq_ID :: string
  xq_On :: string
  xq_Attributes :: string
  xq_KPI :: "kpi list"

record xml_group =
  xg_ID :: string
  xg_Targets :: "string option"
  xg_Query :: "xml_query list"
  xg_Any :: "string option"

record xmllib =
  xml_statse :: "bytes \<Rightarrow> host_config option"
  xml_process :: "bytes \<Rightarrow> (string \<times> string option) option"
  xml_querygroup :: "bytes \<Rightarrow> xml_group option"

section \<open>Updating hosts\<close>

text \<open>
  \<^verbatim>\<open>Config.UpdateHost\<close>. The update function may also change state of its own, such as the
  name spaces of the collect-jmx module.
\<close>

type_synonym ('v, 's) update_fn = "string \<Rightarrow> 'v element \<Rightarrow> 's \<Rightarrow> string + 'v element \<times> 's"

fun update_elems :: "('v, 's) update_fn \<Rightarrow> string \<Rightarrow> 'v element list \<Rightarrow> 's \<Rightarrow> string + 'v element list \<times> 's" where
  "update_elems fn hostID [] s = Inr ([], s)"
| "update_elems fn hostID (e # es) s =
     (if el_Value e \<noteq> None then rbind (update_elems fn hostID es s) (\<lambda>(es, s). Inr (e # es, s))
      else rbind (fn hostID e s) (\<lambda>(e, s).
        rbind (update_elems fn hostID es s) (\<lambda>(es, s). Inr (e # es, s))))"

fun update_hosts :: "('v, 's) update_fn \<Rightarrow> 'v host list \<Rightarrow> 's \<Rightarrow> string + 'v host list \<times> 's" where
  "update_hosts fn [] s = Inr ([], s)"
| "update_hosts fn (h # hs) s =
     rbind (update_elems fn (h_ID h) (h_Extra h) s) (\<lambda>(es, s).
       rbind (update_hosts fn hs s) (\<lambda>(hs, s). Inr (h\<lparr>h_Extra := es\<rparr> # hs, s)))"

definition UpdateHost :: "('v, 's) update_fn \<Rightarrow> 'v config \<Rightarrow> 's \<Rightarrow> string + 'v config \<times> 's" where
  "UpdateHost fn c s =
     rbind (update_hosts fn (hs_All (cf_Hosts c)) s) (\<lambda>(hs, s).
       Inr (c\<lparr>cf_Hosts := (cf_Hosts c)\<lparr>hs_All := hs\<rparr>\<rparr>, s))"

section \<open>Elements of collect-jmx\<close>

definition split_comma :: "string \<Rightarrow> string list" where
  "split_comma s = split_byte (CHR '','') s"

definition query_UnmarshalXML :: "xml_query \<Rightarrow> jmx_query" where
  "query_UnmarshalXML e =
     \<lparr>q_ID = xq_ID e, q_On = xq_On e,
      q_Attributes = (if xq_Attributes e \<noteq> [] then split_comma (xq_Attributes e) else []),
      q_KPI = xq_KPI e\<rparr>"

definition group_UnmarshalXML :: "xmllib \<Rightarrow> bytes \<Rightarrow> query_group option" where
  "group_UnmarshalXML X raw =
     (case xml_querygroup X raw of
        None \<Rightarrow> None
      | Some v \<Rightarrow>
          if xg_Any v \<noteq> None then None
          else Some \<lparr>qg_ID = xg_ID v,
            qg_Targets = map_option (\<lambda>p. if p \<noteq> [] then split_comma p else []) (xg_Targets v),
            qg_Query = map query_UnmarshalXML (xg_Query v)\<rparr>)"

definition process_UnmarshalXML :: "xmllib \<Rightarrow> bytes \<Rightarrow> string option" where
  "process_UnmarshalXML X raw =
     (case xml_process X raw of
        Some (ident, None) \<Rightarrow> Some ident
      | _ \<Rightarrow> None)"

definition kpi_validate :: "kpi \<Rightarrow> string option" where
  "kpi_validate k =
     (if kp_ID k = [] then Some ''missing kpi attribute: id''
      else if kp_Name k = [] then Some ''kpi: missing attribute: name'' else None)"

fun kpis_validate :: "kpi list \<Rightarrow> string option" where
  "kpis_validate [] = None"
| "kpis_validate (k # ks) = (case kpi_validate k of Some e \<Rightarrow> Some e | None \<Rightarrow> kpis_validate ks)"

fun attributes_seen :: "string list \<Rightarrow> string set \<Rightarrow> string option" where
  "attributes_seen [] seen = None"
| "attributes_seen (a # as) seen =
     (if a \<in> seen then Some ''attribute redeclared'' else attributes_seen as (insert a seen))"

definition query_validate :: "jmx_query \<Rightarrow> string option" where
  "query_validate q =
     (if q_ID q = [] then Some ''missing query attribute: id''
      else if q_On q = [] then Some ''missing attribute: on''
      else case attributes_seen (q_Attributes q) {} of
        Some e \<Rightarrow> Some e
      | None \<Rightarrow> kpis_validate (q_KPI q))"

fun queries_validate :: "jmx_query list \<Rightarrow> string option" where
  "queries_validate [] = None"
| "queries_validate (q # qs) = (case query_validate q of Some e \<Rightarrow> Some e | None \<Rightarrow> queries_validate qs)"

text \<open>
  \<^verbatim>\<open>QueryGroup.validate\<close>. The map \<^verbatim>\<open>seen\<close> has pointers to hosts and processes as keys; here
  they are positions: of the host, and of the element in the host.
\<close>

type_synonym seen = "(nat \<times> nat option) set"

fun mark_tags :: "string \<Rightarrow> nat \<Rightarrow> string list \<Rightarrow> seen \<Rightarrow> string + seen" where
  "mark_tags target i [] seen = Inr seen"
| "mark_tags target i (t # ts) seen =
     (if t = target then
        if (i, None) \<in> seen then Inl ''host: query redeclared''
        else mark_tags target i ts (insert (i, None) seen)
      else mark_tags target i ts seen)"

fun mark_elems :: "string \<Rightarrow> nat \<Rightarrow> nat \<Rightarrow> mod_value element list \<Rightarrow> seen \<Rightarrow> string + seen" where
  "mark_elems target i j [] seen = Inr seen"
| "mark_elems target i j (e # es) seen =
     (if el_Value e = Some (MProcess target) then
        if (i, Some j) \<in> seen then Inl ''process: query redeclared''
        else mark_elems target i (Suc j) es (insert (i, Some j) seen)
      else mark_elems target i (Suc j) es seen)"

fun mark_hosts :: "string \<Rightarrow> nat \<Rightarrow> mod_value host list \<Rightarrow> seen \<Rightarrow> string + seen" where
  "mark_hosts target i [] seen = Inr seen"
| "mark_hosts target i (h # hs) seen =
     rbind (mark_tags target i (h_Tags h) seen) (\<lambda>seen.
       rbind (mark_elems target i 0 (h_Extra h) seen) (mark_hosts target (Suc i) hs))"

fun mark_targets :: "string set \<Rightarrow> mod_value host list \<Rightarrow> string list \<Rightarrow> seen \<Rightarrow> string + seen" where
  "mark_targets ns hs [] seen = Inr seen"
| "mark_targets ns hs (target # targets) seen =
     (if target \<notin> ns then Inl (''undefined: '' @ target)
      else rbind (mark_hosts target 0 hs seen) (mark_targets ns hs targets))"

definition group_validate :: "mod_value config \<Rightarrow> query_group \<Rightarrow> string option" where
  "group_validate c g =
     (if qg_ID g = [] then Some ''missing querygroup attribute: id''
      else case qg_Targets g of
        None \<Rightarrow> Some ''missing attribute: targets''
      | Some targets \<Rightarrow>
          (case mark_targets (hs_NS (cf_Hosts c)) (hs_All (cf_Hosts c)) targets {} of
             Inl e \<Rightarrow> Some e
           | Inr seen \<Rightarrow> queries_validate (qg_Query g)))"

definition process_validate :: "string \<Rightarrow> string option" where
  "process_validate p = (if p = [] then Some ''missing process attribute: id'' else None)"

section \<open>The update of collect-jmx\<close>

text \<open>The update function of \<^verbatim>\<open>updateHost\<close>; its state is the set \<^verbatim>\<open>global\<close> of process identifiers.\<close>

definition update_process :: "xmllib \<Rightarrow> (mod_value, string set) update_fn" where
  "update_process X hostID e global =
     (case process_UnmarshalXML X (el_Raw e) of
        None \<Rightarrow> Inr (e, global)
      | Some p \<Rightarrow>
          (case process_validate p of
             Some err \<Rightarrow> Inl err
           | None \<Rightarrow> Inr (e\<lparr>el_Value := Some (MProcess p)\<rparr>, insert p global)))"

definition updateHost :: "xmllib \<Rightarrow> mod_value config \<Rightarrow> string + mod_value config" where
  "updateHost X c =
     (let before = hs_NS (cf_Hosts c) in
      rbind (UpdateHost (update_process X) c {}) (\<lambda>(c, global).
        if global \<inter> before \<noteq> {} then Inl ''identifier redeclared''
        else Inr (c\<lparr>cf_Hosts := (cf_Hosts c)\<lparr>hs_NS := before \<union> global\<rparr>\<rparr>)))"

fun update_groups :: "xmllib \<Rightarrow> mod_value config \<Rightarrow> string set \<Rightarrow> mod_value element list \<Rightarrow> string + mod_value element list" where
  "update_groups X c ns [] = Inr []"
| "update_groups X c ns (e # es) =
     (if el_Value e \<noteq> None then rbind (update_groups X c ns es) (\<lambda>es. Inr (e # es))
      else case group_UnmarshalXML X (el_Raw e) of
        None \<Rightarrow> rbind (update_groups X c ns es) (\<lambda>es. Inr (e # es))
      | Some g \<Rightarrow>
          (case group_validate c g of
             Some err \<Rightarrow> Inl err
           | None \<Rightarrow>
               if qg_ID g \<in> ns then Inl ''querygroup: identifier redeclared''
               else rbind (update_groups X c (insert (qg_ID g) ns) es) (\<lambda>es.
                 Inr (e\<lparr>el_Value := Some (MQueryGroup g)\<rparr> # es))))"

definition updateGlobal :: "xmllib \<Rightarrow> mod_value config \<Rightarrow> string + mod_value config" where
  "updateGlobal X c = rbind (update_groups X c {} (cf_Extra c)) (\<lambda>es. Inr (c\<lparr>cf_Extra := es\<rparr>))"

definition jmx_Update :: "xmllib \<Rightarrow> mod_value config \<Rightarrow> string + mod_value config" where
  "jmx_Update X c = rbind (updateHost X c) (updateGlobal X)"

section \<open>Requests of collect-jmx\<close>

definition query_Get :: "(string \<times> string list) list \<Rightarrow> string \<Rightarrow> string" where
  "query_Get query k = (case map_of query k of Some (v # _) \<Rightarrow> v | _ \<Rightarrow> [])"

definition query_Del :: "string \<Rightarrow> (string \<times> string list) list \<Rightarrow> (string \<times> string list) list" where
  "query_Del k query = filter (\<lambda>(k', v). k' \<noteq> k) query"

definition jmx_parseKey :: "(string \<times> string list) list \<Rightarrow> ctl_error + string \<times> string" where
  "jmx_parseKey query =
     (let ident = query_Get query ''host'' in
      if ident = [] then Inl MissingHostParameter
      else let query = query_Del ''host'' query;
               process = query_Get query ''process'';
               query = query_Del ''wibble'' (query_Del ''version'' (query_Del ''process'' query))
           in case query of
                (k, v) # _ \<Rightarrow> Inl (UnexpectedParameter k)
              | [] \<Rightarrow> Inr (ident, process))"

definition group_Match :: "query_group \<Rightarrow> string list \<Rightarrow> bool" where
  "group_Match g ids = (case qg_Targets g of None \<Rightarrow> False | Some ts \<Rightarrow> list_ex (\<lambda>want. list_ex (\<lambda>got. got = want) ids) ts)"

text \<open>The loop over \<^verbatim>\<open>config.Extra\<close>; the type assertion panics on other values.\<close>

fun matching_queries :: "string list \<Rightarrow> mod_value element list \<Rightarrow> jmx_query list option" where
  "matching_queries ids [] = Some []"
| "matching_queries ids (e # es) =
     (case el_Value e of
        Some (MQueryGroup g) \<Rightarrow>
          map_option (\<lambda>qs. (if group_Match g ids then qg_Query g else []) @ qs) (matching_queries ids es)
      | _ \<Rightarrow> None)"

definition hasProcess :: "mod_value host \<Rightarrow> string \<Rightarrow> bool" where
  "hasProcess h ident = list_ex (\<lambda>e. el_Value e = Some (MProcess ident)) (h_Extra h)"

definition hostQueries :: "mod_value host \<Rightarrow> mod_value config \<Rightarrow> jmx_query list option" where
  "hostQueries h c = matching_queries (h_Tags h) (cf_Extra c)"

definition processQueries :: "mod_value host \<Rightarrow> mod_value config \<Rightarrow> string \<Rightarrow> jmx_query list option" where
  "processQueries h c process =
     (if hasProcess h process then matching_queries [process] (cf_Extra c) else Some [])"

record jmx_view =
  jv_Period :: int
  jv_Objects :: "jmx_query list"

definition defaultInterval :: int where "defaultInterval = 10000"

definition appendObject :: "jmx_query \<Rightarrow> jmx_query list \<Rightarrow> jmx_query list" where
  "appendObject nq objs = (if nq \<in> set objs then objs else objs @ [nq])"

definition jmx_View :: "regexlib \<Rightarrow> network_config \<Rightarrow> mod_value config \<Rightarrow> string \<times> string \<Rightarrow> (ctl_error + jmx_view) option" where
  "jmx_View R net c = (\<lambda>(ident, process).
     case config_Host R net (cf_Hosts c) ident of
       None \<Rightarrow> None
     | Some (Inl e) \<Rightarrow> Some (Inl e)
     | Some (Inr h) \<Rightarrow>
         Option.bind (hostQueries h c) (\<lambda>hq.
         Option.bind (processQueries h c process) (\<lambda>pq.
           Some (Inr \<lparr>jv_Period = defaultInterval, jv_Objects = fold appendObject pq hq\<rparr>))))"

text \<open>\<^verbatim>\<open>Query.MarshalJSON\<close>: the structure that is written as JSON.\<close>

record jmx_object =
  ob_Attributes :: "string list"
  ob_KPIs :: "(string \<times> string \<times> bool) list"
  ob_MetricName :: string
  ob_ObjectName :: string

definition query_Object :: "jmx_query \<Rightarrow> jmx_object" where
  "query_Object q =
     \<lparr>ob_Attributes = q_Attributes q, ob_KPIs = map (\<lambda>k. (kp_Name k, kp_ID k, kp_CollectRanges k)) (q_KPI q),
      ob_MetricName = q_ID q, ob_ObjectName = q_On q\<rparr>"

section \<open>Updates change elements only\<close>

text \<open>
  The interface of an update function: on the elements it is given it returns an element with the
  same text, with a value of its own kind or none, and it takes its state to one that holds what
  the value says. Then so does the update of all hosts.
\<close>

locale host_update =
  fixes fn :: "('v, 's) update_fn"
    and says :: "'s \<Rightarrow> 'v \<Rightarrow> bool"
    and mono :: "'s \<Rightarrow> 's \<Rightarrow> bool"
  assumes fn_value: "fn hostID e s = Inr (e', s') \<Longrightarrow> el_Value e = None \<Longrightarrow> el_Value e' = Some v \<Longrightarrow> says s' v"
    and fn_mono: "fn hostID e s = Inr (e', s') \<Longrightarrow> mono s s'"
    and mono_says: "mono s s' \<Longrightarrow> says s v \<Longrightarrow> says s' v"
    and mono_refl: "mono s s"
    and mono_trans: "mono s s' \<Longrightarrow> mono s' s'' \<Longrightarrow> mono s s''"
begin

definition fresh_values :: "'s \<Rightarrow> 'v element list \<Rightarrow> 'v element list \<Rightarrow> bool" where
  "fresh_values s es es' \<longleftrightarrow> (\<forall>e v. e \<in> set es' \<longrightarrow> el_Value e = Some v \<longrightarrow> e \<in> set es \<or> says s v)"

lemma update_elems_fresh:
  "update_elems fn hostID es s = Inr (es', s') \<Longrightarrow> mono s s' \<and> fresh_values s' es es'"
proof (induction es arbitrary: s es')
  case (Cons e es)
  show ?case
  proof (cases "el_Value e")
    case (Some v)
    with Cons.prems obtain fs where fs: "update_elems fn hostID es s = Inr (fs, s')" "es' = e # fs"
      by (auto simp: rbind_eq_Inr)
    with Cons.IH [OF fs(1)] show ?thesis by (auto simp: fresh_values_def)
  next
    case None
    with Cons.prems obtain f t fs where fs: "fn hostID e s = Inr (f, t)" "update_elems fn hostID es t = Inr (fs, s')" "es' = f # fs"
      by (auto simp: rbind_eq_Inr)
    note IH = Cons.IH [OF fs(2)] and m = fn_mono [OF fs(1)]
    have "says s' v" if "el_Value f = Some v" for v
      using fn_value [OF fs(1) None that] mono_says IH by blast
    with IH m fs(3) show ?thesis using mono_trans by (auto simp: fresh_values_def)
  qed
qed (simp add: mono_refl fresh_values_def)

lemma update_hosts_fresh:
  "update_hosts fn hs s = Inr (hs', s') \<Longrightarrow> mono s s' \<and>
     list_all2 (\<lambda>h h'. h' = h\<lparr>h_Extra := h_Extra h'\<rparr> \<and> fresh_values s' (h_Extra h) (h_Extra h')) hs hs'"
proof (induction hs arbitrary: s hs')
  case (Cons h hs)
  then obtain es t ks where u: "update_elems fn (h_ID h) (h_Extra h) s = Inr (es, t)" "update_hosts fn hs t = Inr (ks, s')"
      "hs' = h\<lparr>h_Extra := es\<rparr> # ks"
    by (auto simp: rbind_eq_Inr)
  note IH = Cons.IH [OF u(2)] and e = update_elems_fresh [OF u(1)]
  have "fresh_values s' (h_Extra h) es"
    using e IH mono_says unfolding fresh_values_def by blast
  with IH e u(3) show ?case using mono_trans by auto
qed (simp add: mono_refl)

end

text \<open>What collect-jmx makes of an element: a process with a name that it has recorded.\<close>

definition process_said :: "string set \<Rightarrow> mod_value \<Rightarrow> bool" where
  "process_said global v \<longleftrightarrow> (case v of MProcess p \<Rightarrow> p \<noteq> [] \<and> p \<in> global | _ \<Rightarrow> False)"

interpretation jmx: host_update "update_process X" process_said "(\<subseteq>)" for X
  by unfold_locales
    (auto simp: update_process_def process_validate_def process_said_def split: option.splits if_splits mod_value.splits)

section \<open>Query groups\<close>

lemma mark_tags_seen:
  "mark_tags target i ts seen = Inr seen' \<Longrightarrow> seen \<subseteq> seen' \<and> (target \<in> set ts \<longrightarrow> (i, None) \<notin> seen \<and> (i, None) \<in> seen')"
  by (induction target i ts seen rule: mark_tags.induct) (auto split: if_splits)

lemma mark_elems_seen: "mark_elems target i j es seen = Inr seen' \<Longrightarrow> seen \<subseteq> seen'"
  by (induction target i j es seen rule: mark_elems.induct) (auto split: if_splits)

lemma mark_elems_hosts: "mark_elems target i j es seen = Inr seen' \<Longrightarrow> (k, None) \<in> seen' \<Longrightarrow> (k, None) \<in> seen"
  by (induction target i j es seen rule: mark_elems.induct) (auto split: if_splits)

lemma mark_tags_hosts: "mark_tags target i ts seen = Inr seen' \<Longrightarrow> k \<noteq> i \<Longrightarrow> (k, None) \<in> seen' \<Longrightarrow> (k, None) \<in> seen"
  by (induction target i ts seen rule: mark_tags.induct) (auto split: if_splits)

lemma mark_hosts_seen:
  "mark_hosts target i hs seen = Inr seen' \<Longrightarrow> seen \<subseteq> seen' \<and>
     (\<forall>j < length hs. target \<in> set (h_Tags (hs ! j)) \<longrightarrow> (i + j, None) \<notin> seen \<and> (i + j, None) \<in> seen')"
proof (induction hs arbitrary: i seen)
  case (Cons h hs)
  then obtain s1 s2 where s: "mark_tags target i (h_Tags h) seen = Inr s1" "mark_elems target i 0 (h_Extra h) s1 = Inr s2"
      "mark_hosts target (Suc i) hs s2 = Inr seen'"
    by (auto simp: rbind_eq_Inr)
  note t = mark_tags_seen [OF s(1)] and e = mark_elems_seen [OF s(2)] and IH = Cons.IH [OF s(3)]
  show ?case
  proof (intro conjI allI impI)
    show "seen \<subseteq> seen'" using t e IH by blast
    fix j assume j: "j < length (h # hs)" "target \<in> set (h_Tags ((h # hs) ! j))"
    have "(i + j, None) \<notin> seen \<and> (i + j, None) \<in> seen'"
    proof (cases j)
      case 0
      with j t e IH show ?thesis by auto
    next
      case (Suc k)
      with j IH have "(Suc i + k, None) \<notin> s2" "(Suc i + k, None) \<in> seen'" by auto
      with Suc t e show ?thesis by auto
    qed
    then show "(i + j, None) \<notin> seen" "(i + j, None) \<in> seen'" by simp_all
  qed
qed simp

lemma mark_targets_once:
  "mark_targets ns hs targets seen = Inr seen' \<Longrightarrow> set targets \<subseteq> ns \<and>
     (\<forall>j < length hs. length (filter (\<lambda>t. t \<in> set (h_Tags (hs ! j))) targets) \<le> (if (j, None) \<in> seen then 0 else 1))"
proof (induction targets arbitrary: seen)
  case (Cons t targets)
  then obtain s where s: "t \<in> ns" "mark_hosts t 0 hs seen = Inr s" "mark_targets ns hs targets s = Inr seen'"
    by (auto simp: rbind_eq_Inr split: if_splits)
  note m = mark_hosts_seen [OF s(2)] and IH = Cons.IH [OF s(3)]
  show ?case
  proof (intro conjI allI impI)
    show "set (t # targets) \<subseteq> ns" using s(1) IH by simp
    fix j assume j: "j < length hs"
    then have IHj: "length (filter (\<lambda>t. t \<in> set (h_Tags (hs ! j))) targets) \<le> (if (j, None) \<in> s then 0 else 1)" using IH by blast
    show "length (filter (\<lambda>t. t \<in> set (h_Tags (hs ! j))) (t # targets)) \<le> (if (j, None) \<in> seen then 0 else 1)"
    proof (cases "t \<in> set (h_Tags (hs ! j))")
      case True
      with m j have "(j, None) \<notin> seen" "(j, None) \<in> s" by auto
      with IHj True show ?thesis by simp
    next
      case False
      have "(j, None) \<in> seen \<Longrightarrow> (j, None) \<in> s" using m by blast
      with IHj False show ?thesis by (auto split: if_splits)
    qed
  qed
qed simp

definition is_group :: "mod_value element \<Rightarrow> bool" where
  "is_group e \<longleftrightarrow> (case el_Value e of Some (MQueryGroup g) \<Rightarrow> True | _ \<Rightarrow> False)"

definition group_of :: "mod_value element \<Rightarrow> query_group option" where
  "group_of e = (case el_Value e of Some (MQueryGroup g) \<Rightarrow> Some g | _ \<Rightarrow> None)"

lemma update_groups_valid:
  "update_groups X c ns es = Inr es' \<Longrightarrow> e' \<in> set es' \<Longrightarrow>
     e' \<in> set es \<or> (\<exists>g. el_Value e' = Some (MQueryGroup g) \<and> group_validate c g = None)"
proof (induction X c ns es arbitrary: es' rule: update_groups.induct)
  case (2 X c ns e es)
  then show ?case by (auto simp: rbind_eq_Inr split: if_splits option.splits)
qed simp

lemma matching_queries_groups:
  "list_all is_group es \<Longrightarrow> \<exists>qs. matching_queries ids es = Some qs \<and>
     set qs = {q. \<exists>e g. e \<in> set es \<and> group_of e = Some g \<and> q \<in> set (qg_Query g) \<and> group_Match g ids}"
proof (induction es)
  case (Cons e es)
  then obtain g qs where "el_Value e = Some (MQueryGroup g)" and qs: "matching_queries ids es = Some qs"
      "set qs = {q. \<exists>e g. e \<in> set es \<and> group_of e = Some g \<and> q \<in> set (qg_Query g) \<and> group_Match g ids}"
    by (auto simp: is_group_def split: option.splits mod_value.splits)
  then show ?case by (auto simp: group_of_def)
qed simp

lemma appendObjects: "set (fold appendObject pq hq) = set hq \<union> set pq \<and> (distinct hq \<longrightarrow> distinct (fold appendObject pq hq))"
  by (induction pq arbitrary: hq) (auto simp: appendObject_def)

lemma group_Match_iff: "group_Match g ids \<longleftrightarrow> (\<exists>ts. qg_Targets g = Some ts \<and> set ts \<inter> set ids \<noteq> {})"
  by (auto simp: group_Match_def list_ex_iff split: option.splits)

section \<open>Properties\<close>

text \<open>
  The update of collect-jmx changes nothing of a host but the values of its elements. Every
  process it finds has a name that no group, cluster or host has, and every query group it finds
  has only names of the tree and of processes as targets, at most one of which is on the path of
  any given host.
\<close>

theorem jmx_update_sound:
  assumes "jmx_Update X c = Inr c'" "\<forall>h \<in> set (hs_All (cf_Hosts c)). \<forall>e \<in> set (h_Extra h). el_Value e = None"
    "\<forall>e \<in> set (cf_Extra c). el_Value e = None"
  shows "map (\<lambda>h. h\<lparr>h_Extra := []\<rparr>) (hs_All (cf_Hosts c')) = map (\<lambda>h. h\<lparr>h_Extra := []\<rparr>) (hs_All (cf_Hosts c)) \<and>
    (\<forall>h \<in> set (hs_All (cf_Hosts c')). \<forall>p. hasProcess h p \<longrightarrow> p \<noteq> [] \<and> p \<notin> hs_NS (cf_Hosts c) \<and> p \<in> hs_NS (cf_Hosts c')) \<and>
    (\<forall>e \<in> set (cf_Extra c'). \<forall>g. group_of e = Some g \<longrightarrow> (\<exists>ts. qg_Targets g = Some ts \<and> set ts \<subseteq> hs_NS (cf_Hosts c') \<and>
       (\<forall>h \<in> set (hs_All (cf_Hosts c')). length (filter (\<lambda>t. t \<in> set (h_Tags h)) ts) \<le> 1)))"
proof -
  obtain hs global c1 es where u: "update_hosts (update_process X) (hs_All (cf_Hosts c)) {} = Inr (hs, global)"
      "global \<inter> hs_NS (cf_Hosts c) = {}"
      "c1 = c\<lparr>cf_Hosts := (cf_Hosts c)\<lparr>hs_All := hs, hs_NS := hs_NS (cf_Hosts c) \<union> global\<rparr>\<rparr>"
      "update_groups X c1 {} (cf_Extra c) = Inr es" "c' = c1\<lparr>cf_Extra := es\<rparr>"
    using assms(1) by (auto simp: jmx_Update_def updateHost_def updateGlobal_def UpdateHost_def rbind_eq_Inr Let_def split: if_splits)
  have l2: "list_all2 (\<lambda>h h'. h' = h\<lparr>h_Extra := h_Extra h'\<rparr> \<and> jmx.fresh_values global (h_Extra h) (h_Extra h')) (hs_All (cf_Hosts c)) hs"
    using jmx.update_hosts_fresh [OF u(1)] by blast
  then have "list_all2 (\<lambda>h h'. h'\<lparr>h_Extra := []\<rparr> = h\<lparr>h_Extra := []\<rparr>) (hs_All (cf_Hosts c)) hs"
    by (rule list.rel_mono_strong) (metis host.surjective host.update_convs(4))
  then have frame: "map (\<lambda>h. h\<lparr>h_Extra := []\<rparr>) hs = map (\<lambda>h. h\<lparr>h_Extra := []\<rparr>) (hs_All (cf_Hosts c))"
    by (induction rule: list_all2_induct) simp_all
  have procs: "p \<noteq> [] \<and> p \<in> global \<and> p \<notin> hs_NS (cf_Hosts c)" if h: "h' \<in> set hs" "hasProcess h' p" for h' p
  proof -
    obtain j where j: "j < length hs" "h' = hs ! j" using h(1) by (auto simp: in_set_conv_nth)
    let ?h = "hs_All (cf_Hosts c) ! j"
    have "jmx.fresh_values global (h_Extra ?h) (h_Extra h')" "?h \<in> set (hs_All (cf_Hosts c))"
      using list_all2_nthD2 [OF l2 j(1)] list_all2_lengthD [OF l2] j by auto
    moreover obtain e where "e \<in> set (h_Extra h')" "el_Value e = Some (MProcess p)"
      using h(2) by (auto simp: hasProcess_def list_ex_iff)
    ultimately have "p \<noteq> [] \<and> p \<in> global" using assms(2) by (force simp: jmx.fresh_values_def process_said_def)
    with u(2) show ?thesis by blast
  qed
  have groups: "\<exists>ts. qg_Targets g = Some ts \<and> set ts \<subseteq> hs_NS (cf_Hosts c') \<and>
      (\<forall>h \<in> set hs. length (filter (\<lambda>t. t \<in> set (h_Tags h)) ts) \<le> 1)"
    if "e \<in> set es" "group_of e = Some g" for e g
  proof -
    have "group_validate c1 g = None"
      using update_groups_valid [OF u(4) that(1)] that(2) assms(3) by (auto simp: group_of_def split: option.splits mod_value.splits)
    then obtain ts seen where ts: "qg_Targets g = Some ts" "mark_targets (hs_NS (cf_Hosts c1)) (hs_All (cf_Hosts c1)) ts {} = Inr seen"
      by (auto simp: group_validate_def split: if_splits option.splits sum.splits)
    with mark_targets_once [OF ts(2)] show ?thesis by (auto simp: u(3,5) in_set_conv_nth)
  qed
  show ?thesis using frame procs groups u(3,5) by auto
qed

text \<open>A decoder that knows one process element and one query group, and a configuration with both.\<close>

definition example_query :: jmx_query where
  "example_query = \<lparr>q_ID = ''heap'', q_On = ''java.lang'', q_Attributes = [''Used'', ''Max''], q_KPI = []\<rparr>"

definition example_xml :: xmllib where
  "example_xml = \<lparr>xml_statse = (\<lambda>raw. if raw = ''statse'' then Some \<lparr>hc_Aggregator = True, hc_Interval = []\<rparr> else None),
     xml_process = (\<lambda>raw. if raw = ''process'' then Some (''jvm'', None) else None),
     xml_querygroup = (\<lambda>raw. if raw = ''querygroup'' then
       Some \<lparr>xg_ID = ''mem'', xg_Targets = Some ''c'',
         xg_Query = [\<lparr>xq_ID = ''heap'', xq_On = ''java.lang'', xq_Attributes = ''Used,Max'', xq_KPI = []\<rparr>], xg_Any = None\<rparr>
       else None)\<rparr>"

definition raw_element :: "string \<Rightarrow> mod_value element" where
  "raw_element name = \<lparr>el_Name = name, el_Value = None, el_Raw = name\<rparr>"

definition example_host :: "mod_value host" where
  "example_host = \<lparr>h_ID = ''a'', h_ClusterID = ''c'', h_Tags = [''g'', ''c'', ''a''], h_Extra = [raw_element ''process'', raw_element ''statse'']\<rparr>"

definition example_config :: "mod_value config" where
  "example_config = \<lparr>cf_Hosts = \<lparr>hs_All = [example_host], hs_NS = {''g'', ''c'', ''a''}, hs_tags = []\<rparr>,
     cf_Network = None, cf_FilterPath = [], cf_Extra = [raw_element ''querygroup'']\<rparr>"

lemma example_jmx_Update:
  "jmx_Update example_xml example_config =
     Inr (example_config\<lparr>cf_Hosts := (cf_Hosts example_config)\<lparr>
         hs_All := [example_host\<lparr>h_Extra := [(raw_element ''process'')\<lparr>el_Value := Some (MProcess ''jvm'')\<rparr>, raw_element ''statse'']\<rparr>],
         hs_NS := {''g'', ''c'', ''a''} \<union> {''jvm''}\<rparr>,
       cf_Extra := [(raw_element ''querygroup'')\<lparr>el_Value := Some (MQueryGroup
         \<lparr>qg_ID = ''mem'', qg_Targets = Some [''c''], qg_Query = [example_query]\<rparr>)\<rparr>]\<rparr>)"
  by (simp add: jmx_Update_def updateHost_def UpdateHost_def updateGlobal_def example_config_def example_host_def raw_element_def
      example_xml_def update_process_def process_UnmarshalXML_def process_validate_def group_UnmarshalXML_def group_validate_def
      query_UnmarshalXML_def split_comma_def query_validate_def example_query_def)

text \<open>
  With the query groups in place, a request of collect-jmx for a host in scope is answered,
  without a panic, with the queries of exactly those groups that have as a target an identifier on
  the path of the host, or the process asked for if the host has it; queries for the process that
  the host has already are not repeated.
\<close>

theorem jmx_view_exact:
  assumes "list_all is_group (cf_Extra c)" "config_Host R net (cf_Hosts c) ident = Some (Inr h)"
  shows "\<exists>v. jmx_View R net c (ident, process) = Some (Inr v) \<and>
    set (jv_Objects v) = {q. \<exists>e g ts. e \<in> set (cf_Extra c) \<and> group_of e = Some g \<and> q \<in> set (qg_Query g) \<and> qg_Targets g = Some ts \<and>
      (set ts \<inter> set (h_Tags h) \<noteq> {} \<or> hasProcess h process \<and> process \<in> set ts)} \<and>
    (\<forall>hq. hostQueries h c = Some hq \<longrightarrow> distinct hq \<longrightarrow> distinct (jv_Objects v))"
proof -
  obtain hq where hq: "hostQueries h c = Some hq"
      "set hq = {q. \<exists>e g. e \<in> set (cf_Extra c) \<and> group_of e = Some g \<and> q \<in> set (qg_Query g) \<and> group_Match g (h_Tags h)}"
    using matching_queries_groups [OF assms(1)] unfolding hostQueries_def by blast
  obtain pq where pq: "processQueries h c process = Some pq"
      "set pq = {q. hasProcess h process \<and> (\<exists>e g. e \<in> set (cf_Extra c) \<and> group_of e = Some g \<and> q \<in> set (qg_Query g) \<and> group_Match g [process])}"
    using matching_queries_groups [OF assms(1), of "[process]"] unfolding processQueries_def by (cases "hasProcess h process") auto
  have "jmx_View R net c (ident, process) = Some (Inr \<lparr>jv_Period = defaultInterval, jv_Objects = fold appendObject pq hq\<rparr>)"
    using assms(2) hq(1) pq(1) by (simp add: jmx_View_def)
  moreover have "set hq \<union> set pq = {q. \<exists>e g ts. e \<in> set (cf_Extra c) \<and> group_of e = Some g \<and> q \<in> set (qg_Query g) \<and> qg_Targets g = Some ts \<and>
      (set ts \<inter> set (h_Tags h) \<noteq> {} \<or> hasProcess h process \<and> process \<in> set ts)}"
    unfolding hq(2) pq(2) group_Match_iff by (auto simp del: disjoint_iff) blast+
  ultimately show ?thesis using appendObjects [of pq hq] hq(1) by auto
qed

end
