(* ===== verification/Statse.thy ===== *)
theory Statse
  imports Rules
begin

text \<open>
  The event protocol of \<^verbatim>\<open>cmd/collect-statse/statse\<close> (versions 1 and 2) and the event
  type of \<^verbatim>\<open>cmd/collect-statse/forwarder\<close>, on which the rule filter works.

  An event is a mutable object that the forwarder reuses for every message, so parsing maps the
  event before to the event after, also when it fails. The floating-point arithmetic at the end
  of \<^verbatim>\<open>parseFloat\<close> is a parameter, a function of the three integers it is applied to.

  What is proved: what a parsed event of version 2 satisfies; that an event of version 1 without
  operation keeps the tags of the event before it; the overflow in \<^verbatim>\<open>parseFloat\<close>; that
  the event type meets the contract of the filter for the rules that fit it; and that its tag
  lookup misses tags.
\<close>

section \<open>Events\<close>

datatype stat_key = Time_key | TTFB_key | Size_key

record event =
  ev_Time :: time
  ev_Metric :: bytes
  ev_Tags :: bytes
  ev_Error :: bool
  ev_Statistics :: "(stat_key \<times> float32) list"

definition zeroEvent :: event where
  "zeroEvent = \<lparr>ev_Time = zeroTime, ev_Metric = [], ev_Tags = [], ev_Error = False, ev_Statistics = []\<rparr>"

datatype statse_error =
    MissingSpace
  | InvalidVersion
  | InvalidTimestamp bytes
  | InvalidFloat bytes
  | InvalidClass
  | MissingMetric
  | EmptyMetric
  | MissingTags
  | MissingEquals
  | DuplicateTag bytes
  | TooManyEventTags

definition MaxTagsPerEvent :: nat where "MaxTagsPerEvent = 5"

section \<open>Header and statistics\<close>

definition parseVersion :: "bytes \<Rightarrow> statse_error + nat" where
  "parseVersion s = (if s = ''1'' then Inr 1 else if s = ''2'' then Inr 2 else Inl InvalidVersion)"

definition parseTimestamp :: "bytes \<Rightarrow> statse_error + time" where
  "parseTimestamp s =
     (case parse_digits 0 s of
        None \<Rightarrow> Inl (InvalidTimestamp s)
      | Some millis \<Rightarrow> Inr (tdiv millis 1000 * 10 ^ 9 + tmod millis 1000 * 10 ^ 6))"

definition parseHeader :: "bytes \<Rightarrow> statse_error + nat \<times> time" where
  "parseHeader s =
     (case index_byte s (CHR '' '') of
        None \<Rightarrow> Inl MissingSpace
      | Some i \<Rightarrow>
          rbind (parseVersion (take i s)) (\<lambda>ver.
          rbind (parseTimestamp (drop (i + 1) s)) (\<lambda>timestamp. Inr (ver, timestamp))))"

text \<open>The two loops of \<^verbatim>\<open>parseFloat\<close>: the integer part and what follows the dot, then the fraction.\<close>

fun float_int :: "int \<Rightarrow> bytes \<Rightarrow> (int \<times> bytes) option" where
  "float_int a [] = Some (a, [])"
| "float_int a (c # cs) =
     (if c = CHR ''.'' then Some (a, cs)
      else if is_digit c then float_int (wrap64 (wrap64 (a * 10) + digit_val c)) cs
      else None)"

fun float_frac :: "int \<Rightarrow> int \<Rightarrow> bytes \<Rightarrow> (int \<times> int) option" where
  "float_frac b d [] = Some (b, d)"
| "float_frac b d (c # cs) =
     (if is_digit c then float_frac (wrap64 (wrap64 (b * 10) + digit_val c)) (wrap64 (d * 10)) cs else None)"

definition statse_parseFloat :: "(int \<Rightarrow> int \<Rightarrow> int \<Rightarrow> float32) \<Rightarrow> bytes \<Rightarrow> statse_error + float32" where
  "statse_parseFloat F s =
     (if s = [] then Inl (InvalidFloat s)
      else case float_int 0 s of
        None \<Rightarrow> Inl (InvalidFloat s)
      | Some (a, denominator) \<Rightarrow>
          (case float_frac 0 1 denominator of
             None \<Rightarrow> Inl (InvalidFloat s)
           | Some (b, d) \<Rightarrow> Inr (F a b d)))"

definition parseStatistic :: "(int \<Rightarrow> int \<Rightarrow> int \<Rightarrow> float32) \<Rightarrow> stat_key \<Rightarrow> bytes \<Rightarrow> event \<Rightarrow> event" where
  "parseStatistic F key s ev =
     (if key \<in> fst ` set (ev_Statistics ev) then ev
      else case statse_parseFloat F s of
        Inl e \<Rightarrow> ev
      | Inr value \<Rightarrow> ev\<lparr>ev_Statistics := ev_Statistics ev @ [(key, value)]\<rparr>)"

text \<open>The next word and the rest, as every loop over blank-separated words takes them.\<close>

definition cut :: "char \<Rightarrow> bytes \<Rightarrow> bytes \<times> bytes" where
  "cut c s = (case index_byte s c of Some i \<Rightarrow> (take i s, drop (i + 1) s) | None \<Rightarrow> (s, []))"

lemma cut_shorter: "cut c s = (w, rest) \<Longrightarrow> s \<noteq> [] \<Longrightarrow> length rest < length s"
  by (auto simp: cut_def split: option.splits)

function words :: "bytes \<Rightarrow> bytes list" where
  "words s = (if s = [] then [] else let (w, rest) = cut (CHR '' '') s in w # words rest)"
  by pat_completeness auto
termination by (relation "measure length") (auto intro: cut_shorter [OF sym])

declare words.simps [simp del]

definition parse_word :: "(int \<Rightarrow> int \<Rightarrow> int \<Rightarrow> float32) \<Rightarrow> bytes \<Rightarrow> event \<Rightarrow> event" where
  "parse_word F v ev =
     (if has_prefix v ''err='' then ev\<lparr>ev_Error := (drop 4 v = ''true'')\<rparr>
      else if has_prefix v ''time='' then parseStatistic F Time_key (drop 5 v) ev
      else if has_prefix v ''ttfb='' then parseStatistic F TTFB_key (drop 5 v) ev
      else if has_prefix v ''size='' then parseStatistic F Size_key (drop 5 v) ev
      else ev)"

definition parseStatistics :: "(int \<Rightarrow> int \<Rightarrow> int \<Rightarrow> float32) \<Rightarrow> bytes \<Rightarrow> event \<Rightarrow> event" where
  "parseStatistics F s ev = fold (parse_word F) (words s) ev"

section \<open>Bodies\<close>

text \<open>The result is the error, if any, and the event as it is left.\<close>

definition parseV1 :: "(int \<Rightarrow> int \<Rightarrow> int \<Rightarrow> float32) \<Rightarrow> bytes \<Rightarrow> event \<Rightarrow> statse_error option \<times> event" where
  "parseV1 F s ev =
     (if \<not> has_prefix s ''EVENT '' then (Some InvalidClass, ev)
      else let s = drop 6 s in
      case index_byte s (CHR '' '') of
        None \<Rightarrow> (Some MissingMetric, ev)
      | Some i \<Rightarrow>
          let ev = ev\<lparr>ev_Metric := take i s\<rparr> in
          if take i s = [] then (Some EmptyMetric, ev)
          else let s = drop (i + 1) s in
          (case index_byte s (CHR '' '') of
             None \<Rightarrow> (None, parseStatistic F Time_key s ev)
           | Some i \<Rightarrow>
               let ev = parseStatistic F Time_key (take i s) ev;
                   (v, s) = cut (CHR '' '') (drop (i + 1) s);
                   ev = (if index_byte v (CHR ''='') \<noteq> None then parseStatistics F v ev
                         else if length v > 0 then ev\<lparr>ev_Tags := ''op='' @ v\<rparr>
                         else ev)
               in (None, parseStatistics F s ev)))"

fun validate_tag_words :: "bytes list \<Rightarrow> bytes list \<Rightarrow> statse_error option" where
  "validate_tag_words [] got =
     (if length got > MaxTagsPerEvent then Some TooManyEventTags else None)"
| "validate_tag_words (tag # tags) got =
     (case index_byte tag (CHR ''='') of
        None \<Rightarrow> Some MissingEquals
      | Some i \<Rightarrow>
          if take i tag \<in> set got then Some (DuplicateTag (take i tag))
          else validate_tag_words tags (got @ [take i tag]))"

definition validateTags :: "bytes \<Rightarrow> statse_error option" where
  "validateTags s = validate_tag_words (words s) []"

definition parseV2 :: "(int \<Rightarrow> int \<Rightarrow> int \<Rightarrow> float32) \<Rightarrow> bytes \<Rightarrow> event \<Rightarrow> statse_error option \<times> event" where
  "parseV2 F s ev =
     (if \<not> has_prefix s ''EVENT|'' then (Some InvalidClass, ev)
      else let s = drop 6 s in
      case index_byte s (CHR ''|'') of
        None \<Rightarrow> (Some MissingMetric, ev)
      | Some i \<Rightarrow>
          let ev = ev\<lparr>ev_Metric := take i s\<rparr> in
          if take i s = [] then (Some EmptyMetric, ev)
          else let s = drop (i + 1) s in
          (case index_byte s (CHR ''|'') of
             None \<Rightarrow> (Some MissingTags, ev)
           | Some i \<Rightarrow>
               (case validateTags (take i s) of
                  Some e \<Rightarrow> (Some e, ev)
                | None \<Rightarrow> (None, parseStatistics F (drop (i + 1) s) (ev\<lparr>ev_Tags := take i s\<rparr>)))))"

definition event_parse ::
  "(int \<Rightarrow> int \<Rightarrow> int \<Rightarrow> float32) \<Rightarrow> bytes \<Rightarrow> bytes \<Rightarrow> event \<Rightarrow> statse_error option \<times> event" where
  "event_parse F header body ev =
     (case parseHeader header of
        Inl e \<Rightarrow> (Some e, ev)
      | Inr (ver, timestamp) \<Rightarrow>
          let ev = ev\<lparr>ev_Time := timestamp, ev_Error := False, ev_Statistics := []\<rparr> in
          if ver = 2 then parseV2 F body ev
          else if ver = 1 then parseV1 F body ev
          else (Some InvalidVersion, ev))"

text \<open>
  \<^verbatim>\<open>Decoder.Decode\<close> on the messages to come: the event of the first one that parses, and the
  messages after it; \<^const>\<open>None\<close> when it keeps waiting. The number counts parse errors.
\<close>

fun statse_Decode ::
  "(int \<Rightarrow> int \<Rightarrow> int \<Rightarrow> float32) \<Rightarrow> (bytes \<times> bytes) list \<Rightarrow> nat \<Rightarrow> event \<Rightarrow> (event \<times> nat \<times> (bytes \<times> bytes) list) option" where
  "statse_Decode F [] errors ev = None"
| "statse_Decode F ((header, body) # parts) errors ev =
     (case event_parse F header body ev of
        (Some e, ev) \<Rightarrow> statse_Decode F parts (errors + 1) ev
      | (None, ev) \<Rightarrow> Some (ev, errors, parts))"

section \<open>The forwarder's event\<close>

record fevent =
  fe_Statse :: event
  fe_metric :: bytes
  fe_tags :: bytes

definition fe_Final :: "fevent \<Rightarrow> fevent" where
  "fe_Final e = e\<lparr>fe_Statse := (fe_Statse e)\<lparr>ev_Metric := fe_metric e, ev_Tags := fe_tags e\<rparr>\<rparr>"

definition fe_Reset :: "fevent \<Rightarrow> fevent" where
  "fe_Reset e = e\<lparr>fe_metric := ev_Metric (fe_Statse e), fe_tags := ev_Tags (fe_Statse e)\<rparr>"

definition fe_SetMetric :: "bytes \<Rightarrow> fevent \<Rightarrow> unit + fevent" where
  "fe_SetMetric s e = Inr (e\<lparr>fe_metric := s\<rparr>)"

text \<open>\<^verbatim>\<open>Event.Tag\<close>; the index expression \<^verbatim>\<open>e.tags[i+len(key)]\<close> can be out of range.\<close>

definition fe_Tag :: "bytes \<Rightarrow> fevent \<Rightarrow> bytes option option" where
  "fe_Tag key e =
     (let tags = fe_tags e in
      case index_sub tags key of
        None \<Rightarrow> Some None
      | Some i \<Rightarrow>
          if i > 0 \<and> tags ! (i - 1) \<noteq> CHR '' '' then Some None
          else if i + length key \<ge> length tags then None
          else if tags ! (i + length key) \<noteq> CHR ''='' then Some None
          else Some (Some (fst (cut (CHR '' '') (drop (i + length key + 1) tags)))))"

text \<open>
  \<^verbatim>\<open>Event.SetTags\<close>. \<open>replace_tags\<close> is the loop over the old tags, which panics on one
  without an equals sign; \<open>fresh_tags\<close> the loop that adds the new tags not done before: a tag
  is done if its key is an old one and it is the first with this key.
\<close>

fun replace_tags :: "(bytes \<times> bytes) list \<Rightarrow> bytes list \<Rightarrow> bytes list option" where
  "replace_tags kvs [] = Some []"
| "replace_tags kvs (tag # tags) =
     (case index_byte tag (CHR ''='') of
        None \<Rightarrow> None
      | Some i \<Rightarrow>
          let tagk = take i tag;
              tag = (case map_of kvs tagk of None \<Rightarrow> tag | Some tagv \<Rightarrow> tagk @ ''='' @ tagv)
          in map_option ((#) tag) (replace_tags kvs tags))"

fun fresh_tags :: "bytes set \<Rightarrow> bytes set \<Rightarrow> (bytes \<times> bytes) list \<Rightarrow> bytes list" where
  "fresh_tags old seen [] = []"
| "fresh_tags old seen ((k, v) # kvs) =
     (if k \<in> old \<and> k \<notin> seen then [] else [k @ ''='' @ v]) @ fresh_tags old (insert k seen) kvs"

definition tag_key :: "bytes \<Rightarrow> bytes" where
  "tag_key tag = fst (cut (CHR ''='') tag)"

fun join_words :: "bytes list \<Rightarrow> bytes" where
  "join_words [] = []"
| "join_words [w] = w"
| "join_words (w # ws) = w @ '' '' @ join_words ws"

definition fe_SetTags :: "bytes list \<Rightarrow> fevent \<Rightarrow> (unit + fevent) option" where
  "fe_SetTags newval e =
     (if odd (length newval) then None
      else case replace_tags (pairs newval) (words (fe_tags e)) of
        None \<Rightarrow> None
      | Some old \<Rightarrow>
          Some (Inr (e\<lparr>fe_tags :=
            join_words (old @ fresh_tags (tag_key ` set (words (fe_tags e))) {} (pairs newval))\<rparr>)))"

definition event_ops :: "(fevent, unit) point_ops" where
  "event_ops = \<lparr>po_Metric = fe_metric, po_Tag = fe_Tag, po_SetMetric = fe_SetMetric, po_SetTags = fe_SetTags\<rparr>"

text \<open>
  One turn of the forwarder's \<^verbatim>\<open>server.loop\<close> after a message was decoded into the event:
  reset, filter, and the event sent to the aggregator if it passes. The event object is returned
  too, since it is used again.
\<close>

definition forwarder_turn ::
  "regexlib \<Rightarrow> rule list \<Rightarrow> fevent \<Rightarrow> (event option \<times> fevent) option" where
  "forwarder_turn R rules e =
     (case Eval R event_ops rules (fe_Reset e) of
        None \<Rightarrow> None
      | Some (pass, err, e) \<Rightarrow>
          if err \<noteq> None \<or> \<not> pass then Some (None, e)
          else Some (Some (fe_Statse (fe_Final e)), fe_Final e))"

section \<open>Words\<close>

lemma words_Nil [simp]: "words [] = []"
  by (simp add: words.simps)

lemma words_single: "CHR '' '' \<notin> set w \<Longrightarrow> w \<noteq> [] \<Longrightarrow> words w = [w]"
  by (simp add: words.simps [of w] cut_def)

lemma words_cons: "CHR '' '' \<notin> set w \<Longrightarrow> words (w @ CHR '' '' # s) = w # words s"
  by (simp add: words.simps [of "w @ CHR '' '' # s"] cut_def)

lemma words_suffix: "set (words y) \<subseteq> set (words (x @ CHR '' '' # y))"
proof (induction x rule: length_induct)
  case (1 x)
  show ?case
  proof (cases "CHR '' '' \<in> set x")
    case True
    then obtain a b where x: "x = a @ CHR '' '' # b" "CHR '' '' \<notin> set a" by (metis split_list_first)
    with 1 have "set (words y) \<subseteq> set (words (b @ CHR '' '' # y))" by simp
    with x show ?thesis by (simp add: words_cons subset_insertI2)
  qed (auto simp: words_cons)
qed

lemma words_no_blank: "w \<in> set (words s) \<Longrightarrow> CHR '' '' \<notin> set w"
proof (induction s rule: words.induct)
  case (1 s)
  show ?case
  proof (cases "CHR '' '' \<in> set s")
    case True
    then obtain a b where s: "s = a @ CHR '' '' # b" "CHR '' '' \<notin> set a" by (metis split_list_first)
    then have "cut (CHR '' '') s = (a, b)" "s \<noteq> []" by (simp_all add: cut_def)
    with "1.IH" "1.prems" s show ?thesis by (auto simp: words_cons)
  next
    case False
    with "1.prems" show ?thesis by (cases "s = []") (auto simp: words_single)
  qed
qed

lemma words_join:
  "list_all (\<lambda>w. w \<noteq> [] \<and> CHR '' '' \<notin> set w) ws \<Longrightarrow> words (join_words ws) = ws"
  by (induction ws rule: join_words.induct) (auto simp: words_single words_cons)

section \<open>The event type and the filter\<close>

text \<open>The tags are words with an equals sign.\<close>

definition event_inv :: "fevent \<Rightarrow> bool" where
  "event_inv e \<longleftrightarrow> list_all (\<lambda>w. CHR ''='' \<in> set w) (words (fe_tags e))"

definition event_key :: "bytes \<Rightarrow> bool" where
  "event_key k \<longleftrightarrow> k \<noteq> [] \<and> CHR ''='' \<notin> set k"

definition event_kv :: "bytes list \<Rightarrow> bool" where
  "event_kv kv \<longleftrightarrow> even (length kv) \<and> list_all (\<lambda>b. CHR '' '' \<notin> set b) kv"

lemma fe_Tag_total:
  assumes "event_inv e" "event_key key"
  shows "\<exists>v. fe_Tag key e = Some v"
proof (rule ccontr)
  assume "\<nexists>v. fe_Tag key e = Some v"
  then obtain i where i: "index_sub (fe_tags e) key = Some i" "\<not> (i > 0 \<and> fe_tags e ! (i - 1) \<noteq> CHR '' '')"
      "i + length key \<ge> length (fe_tags e)"
    by (auto simp: fe_Tag_def Let_def split: option.splits if_splits)
  obtain as bs where t: "fe_tags e = as @ key @ bs" "i = length as"
    using i(1) by (rule index_sub_SomeE)
  with i(3) have "bs = []" by simp
  have "set (words key) \<subseteq> set (words (fe_tags e))"
  proof (cases "as = []")
    case False
    then have "last as = CHR '' ''"
      using i(2) t by (simp add: last_conv_nth nth_append)
    then obtain a where "as = a @ [CHR '' '']" using False by (metis append_butlast_last_id)
    with t \<open>bs = []\<close> show ?thesis using words_suffix [of key a] by simp
  qed (use t \<open>bs = []\<close> in simp)
  moreover obtain w ws where w: "words key = w # ws" "set w \<subseteq> set key"
  proof (cases "CHR '' '' \<in> set key")
    case True
    then obtain a b where "key = a @ CHR '' '' # b" "CHR '' '' \<notin> set a" by (metis split_list_first)
    then show thesis by (intro that [of a "words b"]) (auto simp: words_cons)
  next
    case False
    then show thesis using assms(2) by (intro that [of key "[]"]) (auto simp: event_key_def words_single)
  qed
  ultimately have "CHR ''='' \<in> set key" using assms(1) by (auto simp: event_inv_def list_all_iff)
  with assms(2) show False by (simp add: event_key_def)
qed

lemma replace_tags_ok:
  assumes "list_all (\<lambda>w. CHR ''='' \<in> set w \<and> CHR '' '' \<notin> set w) ws" "\<forall>(k, v) \<in> set kvs. CHR '' '' \<notin> set v"
  shows "\<exists>ws'. replace_tags kvs ws = Some ws' \<and> list_all (\<lambda>w. CHR ''='' \<in> set w \<and> CHR '' '' \<notin> set w) ws'"
  using assms(1)
proof (induction ws)
  case (Cons w ws)
  then obtain ws' where ws': "replace_tags kvs ws = Some ws'"
      "list_all (\<lambda>w. CHR ''='' \<in> set w \<and> CHR '' '' \<notin> set w) ws'" by auto
  obtain i where i: "index_byte w (CHR ''='') = Some i"
    using Cons.prems by (cases "index_byte w (CHR ''='')") (auto simp: index_byte_None_iff)
  have "CHR '' '' \<notin> set (take i w)" using Cons.prems by (auto dest: in_set_takeD)
  moreover have "CHR '' '' \<notin> set v" if "map_of kvs (take i w) = Some v" for v
    using assms(2) map_of_SomeD [OF that] by auto
  ultimately show ?case using Cons.prems i ws' by (auto simp: Let_def split: option.split)
qed simp

lemma fresh_tags_ok:
  "\<forall>(k, v) \<in> set kvs. CHR '' '' \<notin> set k \<and> CHR '' '' \<notin> set v \<Longrightarrow>
     list_all (\<lambda>w. CHR ''='' \<in> set w \<and> CHR '' '' \<notin> set w) (fresh_tags old seen kvs)"
  by (induction old seen kvs rule: fresh_tags.induct) auto

lemma fe_SetTags_ok:
  assumes "event_inv e" "event_kv kv"
  shows "\<exists>q. fe_SetTags kv e = Some (Inr q) \<and> event_inv q"
proof -
  have kv: "\<forall>(k, v) \<in> set (pairs kv). CHR '' '' \<notin> set k \<and> CHR '' '' \<notin> set v"
    using assms(2) set_pairs by (fastforce simp: event_kv_def list_all_iff)
  have "list_all (\<lambda>w. CHR ''='' \<in> set w \<and> CHR '' '' \<notin> set w) (words (fe_tags e))"
    using assms(1) words_no_blank by (auto simp: event_inv_def list_all_iff)
  then obtain old where old: "replace_tags (pairs kv) (words (fe_tags e)) = Some old"
      "list_all (\<lambda>w. CHR ''='' \<in> set w \<and> CHR '' '' \<notin> set w) old"
    using replace_tags_ok [of "words (fe_tags e)" "pairs kv"] kv by auto
  let ?ws = "old @ fresh_tags (tag_key ` set (words (fe_tags e))) {} (pairs kv)"
  have ws: "list_all (\<lambda>w. CHR ''='' \<in> set w \<and> CHR '' '' \<notin> set w) ?ws"
    using old(2) fresh_tags_ok [OF kv] by simp
  have "w \<noteq> [] \<and> CHR '' '' \<notin> set w" if "w \<in> set ?ws" for w
    using ws that by (cases w) (auto simp: list_all_iff simp del: set_append)
  then have "words (join_words ?ws) = ?ws" by (intro words_join) (simp add: list_all_iff)
  with ws old(1) assms(2) show ?thesis
    by (auto simp: fe_SetTags_def event_inv_def event_kv_def list_all_iff)
qed

interpretation events: filterable event_ops event_inv event_key event_kv
proof
  fix p q :: fevent and key m :: bytes and kv :: "bytes list"
  assume p: "event_inv p"
  show "event_key key \<Longrightarrow> \<exists>v. po_Tag event_ops key p = Some v" using fe_Tag_total [OF p] by (simp add: event_ops_def)
  show "po_SetMetric event_ops m p = Inr q \<Longrightarrow> event_inv q"
    using p by (auto simp: event_ops_def fe_SetMetric_def event_inv_def)
  show "event_kv kv \<Longrightarrow> \<exists>r. po_SetTags event_ops kv p = Some r"
    using fe_SetTags_ok [OF p] by (auto simp: event_ops_def)
  show "event_kv kv \<Longrightarrow> po_SetTags event_ops kv p = Some (Inr q) \<Longrightarrow> event_inv q"
    using fe_SetTags_ok [OF p] by (fastforce simp: event_ops_def)
qed

section \<open>Parsed events\<close>

lemma validate_tag_words_ok:
  "validate_tag_words tags got = None \<Longrightarrow> distinct got \<Longrightarrow>
     list_all (\<lambda>w. CHR ''='' \<in> set w) tags \<and> distinct (got @ map tag_key tags) \<and>
     length got + length tags \<le> MaxTagsPerEvent"
proof (induction tags got rule: validate_tag_words.induct)
  case (2 tag tags got)
  then obtain i where i: "index_byte tag (CHR ''='') = Some i" "take i tag \<notin> set got"
      "validate_tag_words tags (got @ [take i tag]) = None"
    by (auto split: option.splits if_splits)
  have "CHR ''='' \<in> set tag" "tag_key tag = take i tag"
    using i(1) index_byte_SomeD(4) [OF i(1)] by (auto simp: tag_key_def cut_def) (metis in_set_conv_decomp)
  with "2.IH" [OF i(1,2,3)] i "2.prems"(2) show ?case by auto
qed (auto split: if_splits)

lemma parse_word_frame:
  "ev_Metric (parse_word F w ev) = ev_Metric ev" "ev_Tags (parse_word F w ev) = ev_Tags ev"
  "distinct (map fst (ev_Statistics ev)) \<Longrightarrow> distinct (map fst (ev_Statistics (parse_word F w ev)))"
  by (auto simp: parse_word_def parseStatistic_def split: sum.splits)

lemma parseStatistics_frame:
  "ev_Metric (parseStatistics F s ev) = ev_Metric ev" "ev_Tags (parseStatistics F s ev) = ev_Tags ev"
  "distinct (map fst (ev_Statistics ev)) \<Longrightarrow> distinct (map fst (ev_Statistics (parseStatistics F s ev)))"
proof -
  have "ev_Metric (fold (parse_word F) ws ev) = ev_Metric ev \<and> ev_Tags (fold (parse_word F) ws ev) = ev_Tags ev \<and>
      (distinct (map fst (ev_Statistics ev)) \<longrightarrow> distinct (map fst (ev_Statistics (fold (parse_word F) ws ev))))" for ws
    by (induction ws arbitrary: ev) (simp_all add: parse_word_frame)
  then show "ev_Metric (parseStatistics F s ev) = ev_Metric ev" "ev_Tags (parseStatistics F s ev) = ev_Tags ev"
    "distinct (map fst (ev_Statistics ev)) \<Longrightarrow> distinct (map fst (ev_Statistics (parseStatistics F s ev)))"
    by (auto simp: parseStatistics_def)
qed

lemma parseV2_tags:
  assumes "parseV2 F s ev = (None, ev')"
  shows "ev_Metric ev' \<noteq> [] \<and> validateTags (ev_Tags ev') = None \<and>
    (distinct (map fst (ev_Statistics ev)) \<longrightarrow> distinct (map fst (ev_Statistics ev')))"
  using assms
  by (auto simp: parseV2_def Let_def parseStatistics_frame split: if_splits option.splits)

section \<open>Properties\<close>

text \<open>
  An event of version 2 that parses has a metric and at most five tags, each with an equals
  sign, with different keys, and at most one value of each statistic; it satisfies what the
  filter asks of an event.
\<close>

theorem parseV2_valid:
  assumes "parseV2 F s ev = (None, ev')" "ev_Statistics ev = []"
  shows "ev_Metric ev' \<noteq> [] \<and> length (words (ev_Tags ev')) \<le> 5 \<and>
    distinct (map tag_key (words (ev_Tags ev'))) \<and> distinct (map fst (ev_Statistics ev')) \<and>
    event_inv (fe_Reset (e\<lparr>fe_Statse := ev'\<rparr>))"
  using parseV2_tags [OF assms(1)] assms(2) validate_tag_words_ok [of "words (ev_Tags ev')" "[]"]
  by (simp add: validateTags_def event_inv_def fe_Reset_def MaxTagsPerEvent_def)

lemma words_example: "words ''op=x host=a'' = [''op=x'', ''host=a'']"
  using words_cons [of "''op=x''" "''host=a''"] words_single [of "''host=a''"] by simp

text \<open>
  An event of version 1 that names no operation leaves the tags field alone: since the
  forwarder parses every message into the same event object, it is counted under the tags of
  whatever event came before it.
\<close>

theorem parseV1_stale_tags:
  "\<exists>ev'. event_parse F ''1 1000'' ''EVENT m 7'' ev = (None, ev') \<and>
     ev_Metric ev' = ''m'' \<and> ev_Tags ev' = ev_Tags ev"
proof -
  have d: "parse_digits 0 ''1000'' = Some 1000"
    by (simp add: is_digit_def digit_val_def ord_def wrap64_def)
  have "ev_Tags (parseStatistic F k s e) = ev_Tags e" "ev_Metric (parseStatistic F k s e) = ev_Metric e" for k s e
    by (auto simp: parseStatistic_def split: sum.splits)
  with d show ?thesis
    by (simp add: event_parse_def parseHeader_def parseVersion_def parseTimestamp_def parseV1_def)
qed

text \<open>
  A number with 64 or more digits after the dot makes the divisor of \<^verbatim>\<open>parseFloat\<close> wrap
  to zero: the quotient it computes is not a number or infinite, and there is no error.
\<close>

theorem parseFloat_zero_divisor:
  assumes "n \<ge> 64"
  shows "statse_parseFloat F (''1.'' @ replicate n (CHR ''0'')) = Inr (F 1 0 0)"
proof -
  have zero: "is_digit (CHR ''0'')" "digit_val (CHR ''0'') = 0" "wrap64 0 = 0"
    by (simp_all add: is_digit_def digit_val_def ord_def wrap64_def)
  have frac: "in64 d \<Longrightarrow> float_frac 0 d (replicate k (CHR ''0'')) = Some (0, wrap64 (d * 10 ^ k))" for k d
  proof (induction k arbitrary: d)
    case (Suc k)
    have "wrap64 (wrap64 (d * 10) * 10 ^ k) = wrap64 (d * 10 ^ Suc k)"
      using wrap64_mult_left [of "d * 10" "10 ^ k"] by (simp add: mult.assoc)
    then show ?case using Suc.IH [of "wrap64 (d * 10)"] by (simp add: zero)
  qed simp
  have "(10 :: int) ^ n = 2 ^ 64 * (5 ^ 64 * 10 ^ (n - 64))"
  proof -
    have "(10 :: int) ^ n = 10 ^ 64 * 10 ^ (n - 64)" using assms by (metis le_add_diff_inverse power_add)
    also have "(10 :: int) ^ 64 = 2 ^ 64 * 5 ^ 64" by (simp flip: power_mult_distrib)
    finally show ?thesis by (simp only: mult.assoc)
  qed
  then have "(10 :: int) ^ n mod 2 ^ 64 = 0 mod 2 ^ 64" by (simp only: mod_mult_self1_is_0 mod_0)
  from wrap64_cong_mod [OF this] have "wrap64 (10 ^ n) = 0" by (simp only: zero)
  moreover have "float_frac 0 1 (replicate n (CHR ''0'')) = Some (0, wrap64 (10 ^ n))"
    using frac [of 1 n] by (simp add: in64_iff)
  moreover have "float_int 0 (''1.'' @ replicate n (CHR ''0'')) = Some (1, replicate n (CHR ''0''))"
    by (simp add: is_digit_def digit_val_def ord_def in64_iff)
  ultimately show ?thesis by (simp add: statse_parseFloat_def)
qed

text \<open>
  The event filter never panics, and never breaks the form of the tags, on the events that
  it is given, if the rules fit: conditions on tag names without an equals sign, and tag names
  and values without blanks, whatever the references in them expand to.
\<close>

theorem forwarder_turn_total:
  assumes "event_inv (fe_Reset e)" "list_all (rule_fits event_key event_kv R) rules"
  shows "\<exists>out e'. forwarder_turn R rules e = Some (out, e') \<and> event_inv e'"
proof -
  obtain pass err q where "Eval R event_ops rules (fe_Reset e) = Some (pass, err, q)" "event_inv q"
    using events.Eval_inv [OF assms] by blast
  then show ?thesis by (auto simp: forwarder_turn_def fe_Final_def event_inv_def)
qed

text \<open>
  The event's tag lookup looks at the first place only where the key occurs: a tag is not
  found if another key before it ends with the same letters, or a value before it contains them.
\<close>

theorem event_tag_missed:
  "fe_Tag ''host'' (e\<lparr>fe_tags := ''ghost=1 host=a''\<rparr>) = Some None \<and>
   fe_Tag ''host'' (e\<lparr>fe_tags := ''op=host host=a''\<rparr>) = Some None"
  by (simp add: fe_Tag_def)

end
