(* ===== verification/Series.thy ===== *)
theory Series
  imports Point
begin

text \<open>
  Series written as text. Several programs of the repository name a series by a string such as
  \<^verbatim>\<open>nic.bytes direction=In interface=0/1\<close>, replace the equals signs by blanks, split the
  result with \<^verbatim>\<open>strings.Fields\<close> and pass the words to \<^verbatim>\<open>tsdb.NewPoint\<close>. This theory
  holds what these conversions have in common: if the names are plain text, nothing is lost on
  the way from the string to the tags of the point.
\<close>

section \<open>Plain text\<close>

text \<open>Names of ASCII letters, digits and the four marks that \<^verbatim>\<open>validText\<close> lets through.\<close>

definition plain :: "bytes \<Rightarrow> bool" where
  "plain b \<longleftrightarrow> b \<noteq> [] \<and> list_all text_byte b"

abbreviation unequal :: "bytes \<Rightarrow> bytes" where
  "unequal \<equiv> map (\<lambda>c. if c = CHR ''='' then CHR '' '' else c)"

lemma text_byte_word: "text_byte c \<Longrightarrow> word_byte c \<and> c \<noteq> CHR ''=''"
  by (auto simp: text_byte_def word_byte_def Let_def ord_def)

lemma plain_word: "plain b \<Longrightarrow> list_all word_byte b \<and> b \<noteq> []"
  by (auto simp: plain_def list_all_iff text_byte_word)

lemma plain_host: "plain ''host''" and plain_byhost: "plain ''.byhost.''"
  and plain_dot: "plain ''.''" and plain_NA: "plain ''NA''"
  by (simp_all add: plain_def text_byte_def Let_def ord_def)

lemma plain_unequal [simp]: "plain b \<Longrightarrow> unequal b = b"
  by (rule map_idI) (auto simp: plain_def list_all_iff text_byte_word)

lemma plain_text_ok: "plain b \<Longrightarrow> text_ok L b"
  by (auto simp: plain_def list_all_iff intro: text_ok_ascii)

lemma plain_append: "plain a \<Longrightarrow> plain b \<Longrightarrow> plain (a @ b)"
  by (auto simp: plain_def)

lemma plain_sub: "plain b \<Longrightarrow> set c \<subseteq> set b \<Longrightarrow> c \<noteq> [] \<Longrightarrow> plain c"
  by (auto simp: plain_def list_all_iff)

definition plain_tags :: "(bytes \<times> bytes) list \<Rightarrow> bool" where
  "plain_tags kvs \<longleftrightarrow> list_all (\<lambda>(k, v). plain k \<and> plain v) kvs"

lemma plain_tags_simps [simp]:
  "plain_tags []"
  "plain_tags ((k, v) # kvs) \<longleftrightarrow> plain k \<and> plain v \<and> plain_tags kvs"
  "plain_tags (kvs @ kvs') \<longleftrightarrow> plain_tags kvs \<and> plain_tags kvs'"
  by (simp_all add: plain_tags_def)

lemma plain_tags_ok: "plain_tags kvs \<Longrightarrow> tags_ok L kvs"
  by (auto simp: plain_tags_def tags_ok_def list_all_iff intro: plain_text_ok)

section \<open>The words of a series\<close>

lemma append_nameval_render:
  "append_nameval True (concat (map (\<lambda>(k, v). [k, v]) kvs)) buf = buf @ render kvs"
  by (induction kvs arbitrary: buf) (auto simp: tag_text_def)

text \<open>\<^verbatim>\<open>strings.Fields(strings.Replace(series, "=", " ", -1))\<close>\<close>

definition series_words :: "golib \<Rightarrow> bytes \<Rightarrow> bytes list" where
  "series_words L series = Fields L (unequal series)"

lemma Fields_tags:
  "plain w \<Longrightarrow> plain_tags kvs \<Longrightarrow>
     Fields L (w @ unequal (render kvs)) = w # concat (map (\<lambda>(k, v). [k, v]) kvs)"
proof (induction kvs arbitrary: w)
  case (Cons kv kvs)
  obtain k v where kv: "kv = (k, v)" by (cases kv)
  with Cons.prems have pl: "plain w" "plain k" "plain v" "plain_tags kvs" by simp_all
  then have "Fields L (w @ unequal (render (kv # kvs))) = w # k # Fields L (v @ unequal (render kvs))"
    using plain_word [OF pl(1)] plain_word [OF pl(2)]
    by (simp add: kv tag_text_def Fields_word_blank)
  with Cons.IH [OF pl(3,4)] show ?case by (simp add: kv)
qed (use plain_word Fields_word in simp)

lemma series_words_plain:
  "plain m \<Longrightarrow> plain_tags kvs \<Longrightarrow> series_words L (m @ render kvs) = m # concat (map (\<lambda>(k, v). [k, v]) kvs)"
  by (simp add: series_words_def Fields_tags)

text \<open>\<^verbatim>\<open>Point.Tags\<close>: the tags as alternating names and values, from their text.\<close>

definition Tags :: "golib \<Rightarrow> point \<Rightarrow> bytes list" where
  "Tags L p = (if pt_tags p = [] then [] else Fields L (unequal (tl (pt_tags p))))"

lemma Tags_plain:
  assumes "plain_tags kvs" "pt_tags p = render kvs"
  shows "Tags L p = concat (map (\<lambda>(k, v). [k, v]) kvs)"
proof (cases kvs)
  case (Cons kv rest)
  obtain k v where kv: "kv = (k, v)" by (cases kv)
  with Cons assms(1) have pl: "plain k" "plain v" "plain_tags rest" by simp_all
  have "unequal (tl (pt_tags p)) = k @ CHR '' '' # v @ unequal (render rest)"
    using assms(2) Cons kv pl by (simp add: tag_text_def)
  with plain_word [OF pl(1)] Fields_tags [OF pl(2,3), of L] assms(2) Cons kv show ?thesis
    by (simp add: Tags_def tag_text_def Fields_word_blank)
qed (use assms in \<open>simp add: Tags_def\<close>)

section \<open>Points made from a series\<close>

lemma NewPoint_set:
  assumes "t \<noteq> zeroTime" "text_ok L m" "tags_ok L kvs" "distinct (map fst kvs)" "length kvs \<le> 8"
    "\<And>p. SetValue L g p = Inr (setValueValid v p)"
  shows "\<exists>p. NewPoint L pooled t g m (concat (map (\<lambda>(k, v). [k, v]) kvs)) = Inr p \<and>
    pt_metric p = m \<and> pt_tags p = render kvs \<and> Value p = v \<and> pt_time p = UnixNano (Truncate t maxTimePrecision)"
proof -
  have "wf_tags L (render kvs)" using assms by (intro wf_tags_render) (simp_all add: maxTagsPerPoint_def)
  moreover have "Value (setValueValid v p) = v" "pt_time (setValueValid v p) = pt_time p" for p
    by (cases v; simp add: Value_def)+
  moreover have "setTime t p = Inr (p\<lparr>pt_time := UnixNano (Truncate t maxTimePrecision)\<rparr>)" for p
    using assms(1) by (simp add: setTime_ok)
  moreover have "SetMetric L m p = Inr (p\<lparr>pt_metric := m\<rparr>)" for p
    using assms(2) by (simp add: SetMetric_def setMetric_ok)
  ultimately show ?thesis
    using append_nameval_render [of kvs "[]"] assms(6) by (simp add: NewPoint_def setTags_render Let_def)
qed

lemma SetValue_number: "validateValue L g = Inr v \<Longrightarrow> SetValue L g p = Inr (setValueValid v p)"
  by (cases g) (simp_all add: SetValue_def setValue_def)

lemma NewPoint_ok:
  assumes "t \<noteq> zeroTime" "text_ok L m" "tags_ok L kvs" "distinct (map fst kvs)" "length kvs \<le> 8"
    "validateValue L g = Inr v"
  shows "\<exists>p. NewPoint L pooled t g m (concat (map (\<lambda>(k, v). [k, v]) kvs)) = Inr p \<and>
    pt_metric p = m \<and> pt_tags p = render kvs \<and> Value p = v \<and> pt_time p = UnixNano (Truncate t maxTimePrecision)"
  using assms(1-5) SetValue_number [OF assms(6)] by (rule NewPoint_set)

text \<open>What a point made from a series, a value and a time holds.\<close>

definition point_of :: "time \<Rightarrow> bytes \<Rightarrow> (bytes \<times> bytes) list \<Rightarrow> val \<Rightarrow> point \<Rightarrow> bool" where
  "point_of t m kvs v p \<longleftrightarrow>
     pt_metric p = m \<and> pt_tags p = render kvs \<and> Value p = v \<and> pt_time p = UnixNano (Truncate t maxTimePrecision)"

lemma NewPoint_plain:
  assumes "t \<noteq> zeroTime" "plain m" "plain_tags kvs" "distinct (map fst kvs)" "length kvs \<le> 8" "validateValue L g = Inr v"
  shows "\<exists>p. NewPoint L pooled t g m (concat (map (\<lambda>(k, v). [k, v]) kvs)) = Inr p \<and> point_of t m kvs v p"
  using NewPoint_ok [OF assms(1) plain_text_ok [OF assms(2)] plain_tags_ok [OF assms(3)] assms(4-6)]
  by (simp add: point_of_def)

section \<open>Series given as literals\<close>

text \<open>The metric and the tags of a literal, and the test that they are plain.\<close>

definition series_metric :: "bytes \<Rightarrow> bytes" where
  "series_metric s = hd (split_byte (CHR '' '') s)"

definition word_tag :: "bytes \<Rightarrow> bytes \<times> bytes" where
  "word_tag w = (case split_byte (CHR ''='') w of [k, v] \<Rightarrow> (k, v) | _ \<Rightarrow> ([], []))"

definition series_tags :: "bytes \<Rightarrow> (bytes \<times> bytes) list" where
  "series_tags s = map word_tag (tl (split_byte (CHR '' '') s))"

definition plain_series :: "bytes \<Rightarrow> bool" where
  "plain_series s \<longleftrightarrow> plain (series_metric s) \<and> plain_tags (series_tags s) \<and>
     distinct (map fst (series_tags s)) \<and> length (series_tags s) \<le> 7"

text \<open>A test of it that splits the literal once.\<close>

fun plain_words :: "bytes list \<Rightarrow> bytes list \<Rightarrow> bool" where
  "plain_words keys [] = True"
| "plain_words keys (w # ws) =
     (case split_byte (CHR ''='') w of
        [k, v] \<Rightarrow> list_all text_byte k \<and> list_all text_byte v \<and> k \<noteq> [] \<and> v \<noteq> [] \<and> k \<notin> set keys \<and> plain_words (k # keys) ws
      | _ \<Rightarrow> False)"

fun plain_parts :: "bytes list \<Rightarrow> bool" where
  "plain_parts (m # ws) \<longleftrightarrow> list_all text_byte m \<and> m \<noteq> [] \<and> length ws \<le> 7 \<and> plain_words [] ws"
| "plain_parts [] \<longleftrightarrow> False"

lemma plain_words_tags:
  "plain_words keys ws \<Longrightarrow> plain_tags (map word_tag ws) \<and> distinct (map fst (map word_tag ws)) \<and>
     set keys \<inter> set (map fst (map word_tag ws)) = {}"
proof (induction keys ws rule: plain_words.induct)
  case (2 keys w ws)
  then obtain k v where "split_byte (CHR ''='') w = [k, v]" "list_all text_byte k" "list_all text_byte v"
      "k \<noteq> []" "v \<noteq> []" "k \<notin> set keys" "plain_words (k # keys) ws"
    by (auto split: list.splits)
  moreover from this have "word_tag w = (k, v)" by (simp add: word_tag_def)
  moreover from calculation "2.IH" [of k "[v]" v "[]"] have "plain_tags (map word_tag ws) \<and>
      distinct (map fst (map word_tag ws)) \<and> set (k # keys) \<inter> set (map fst (map word_tag ws)) = {}" by simp
  ultimately show ?case by (auto simp: plain_def)
qed simp

lemma plain_parts_series: "plain_parts (split_byte (CHR '' '') s) \<Longrightarrow> plain_series s"
  using plain_words_tags [of "[]" "tl (split_byte (CHR '' '') s)"]
  by (cases "split_byte (CHR '' '') s") (simp_all add: plain_series_def series_metric_def series_tags_def plain_def)

lemma text_byte_literals:
  "text_byte (CHR ''a'')" "text_byte (CHR ''b'')" "text_byte (CHR ''c'')" "text_byte (CHR ''d'')"
  "text_byte (CHR ''e'')" "text_byte (CHR ''f'')" "text_byte (CHR ''g'')" "text_byte (CHR ''h'')"
  "text_byte (CHR ''i'')" "text_byte (CHR ''j'')" "text_byte (CHR ''k'')" "text_byte (CHR ''l'')"
  "text_byte (CHR ''m'')" "text_byte (CHR ''n'')" "text_byte (CHR ''o'')" "text_byte (CHR ''p'')"
  "text_byte (CHR ''q'')" "text_byte (CHR ''r'')" "text_byte (CHR ''s'')" "text_byte (CHR ''t'')"
  "text_byte (CHR ''u'')" "text_byte (CHR ''v'')" "text_byte (CHR ''w'')" "text_byte (CHR ''x'')"
  "text_byte (CHR ''y'')" "text_byte (CHR ''z'')" "text_byte (CHR ''A'')" "text_byte (CHR ''B'')"
  "text_byte (CHR ''C'')" "text_byte (CHR ''D'')" "text_byte (CHR ''E'')" "text_byte (CHR ''F'')"
  "text_byte (CHR ''G'')" "text_byte (CHR ''H'')" "text_byte (CHR ''I'')" "text_byte (CHR ''J'')"
  "text_byte (CHR ''K'')" "text_byte (CHR ''L'')" "text_byte (CHR ''M'')" "text_byte (CHR ''N'')"
  "text_byte (CHR ''O'')" "text_byte (CHR ''P'')" "text_byte (CHR ''Q'')" "text_byte (CHR ''R'')"
  "text_byte (CHR ''S'')" "text_byte (CHR ''T'')" "text_byte (CHR ''U'')" "text_byte (CHR ''V'')"
  "text_byte (CHR ''W'')" "text_byte (CHR ''X'')" "text_byte (CHR ''Y'')" "text_byte (CHR ''Z'')"
  "text_byte (CHR ''0'')" "text_byte (CHR ''1'')" "text_byte (CHR ''2'')" "text_byte (CHR ''3'')"
  "text_byte (CHR ''4'')" "text_byte (CHR ''5'')" "text_byte (CHR ''6'')" "text_byte (CHR ''7'')"
  "text_byte (CHR ''8'')" "text_byte (CHR ''9'')" "text_byte (CHR ''-'')" "text_byte (CHR ''_'')"
  "text_byte (CHR ''.'')" "text_byte (CHR ''/'')"
  by (simp_all add: text_byte_def ord_def)

lemma split_byte_ne [simp]: "split_byte c s \<noteq> []"
  by (induction s) (auto split: list.splits)

lemma split_byte_join: "s = hd (split_byte c s) @ concat (map (\<lambda>w. c # w) (tl (split_byte c s)))"
  by (induction s) (auto split: list.splits)

lemma word_tag_text: "fst (word_tag w) \<noteq> [] \<Longrightarrow> CHR '' '' # w = tag_text (fst (word_tag w)) (snd (word_tag w))"
proof -
  assume "fst (word_tag w) \<noteq> []"
  then obtain k v where kv: "split_byte (CHR ''='') w = [k, v]"
    by (auto simp: word_tag_def split: list.splits)
  from split_byte_join [of w "CHR ''=''"] have "w = k @ CHR ''='' # v" unfolding kv by simp
  then show ?thesis using kv by (simp add: word_tag_def tag_text_def)
qed

lemma words_render:
  "plain_tags (map word_tag ws) \<Longrightarrow> concat (map (\<lambda>w. CHR '' '' # w) ws) = render (map word_tag ws)"
proof (induction ws)
  case (Cons w ws)
  then have "plain (fst (word_tag w))" "plain_tags (map word_tag ws)"
    by (auto simp: plain_tags_def split: prod.splits)
  with Cons.IH word_tag_text [of w] show ?case by (cases "word_tag w") (simp add: plain_def)
qed simp

lemma plain_series_render: "plain_series s \<Longrightarrow> s = series_metric s @ render (series_tags s)"
  using split_byte_join [of s "CHR '' ''"] words_render
  by (simp add: plain_series_def series_metric_def series_tags_def)

lemma split_byte_absent: "c \<notin> set w \<Longrightarrow> split_byte c w = [w]"
  by (induction w) auto

lemma split_byte_append: "c \<notin> set w \<Longrightarrow> split_byte c (w @ c # s) = w # split_byte c s"
  by (induction w) auto

lemma plain_no_sep: "plain w \<Longrightarrow> CHR '' '' \<notin> set w \<and> CHR ''='' \<notin> set w"
  by (auto simp: plain_def list_all_iff text_byte_def ord_def)

text \<open>A series with one tag, put together from plain names.\<close>

lemma plain_series_tag:
  assumes "plain m" "plain k" "plain v"
  shows "plain_series (m @ CHR '' '' # k @ CHR ''='' # v)"
    and "series_metric (m @ CHR '' '' # k @ CHR ''='' # v) = m"
    and "series_tags (m @ CHR '' '' # k @ CHR ''='' # v) = [(k, v)]"
proof -
  have "split_byte (CHR '' '') (m @ CHR '' '' # k @ CHR ''='' # v) = [m, k @ CHR ''='' # v]"
    using assms [THEN plain_no_sep] by (simp add: split_byte_append split_byte_absent)
  moreover have "split_byte (CHR ''='') (k @ CHR ''='' # v) = [k, v]"
    using assms [THEN plain_no_sep] by (simp add: split_byte_append split_byte_absent)
  ultimately show m: "series_metric (m @ CHR '' '' # k @ CHR ''='' # v) = m"
      and t: "series_tags (m @ CHR '' '' # k @ CHR ''='' # v) = [(k, v)]"
    by (simp_all add: series_metric_def series_tags_def word_tag_def)
  show "plain_series (m @ CHR '' '' # k @ CHR ''='' # v)"
    unfolding plain_series_def m t using assms by simp
qed

end
