(* ===== verification/Aggregate.thy ===== *)
theory Aggregate
  imports Statse Series "HOL-Library.AList" "HOL-Library.Multiset"
begin

text \<open>
  The aggregator of \<^verbatim>\<open>cmd/collect-statse/aggregator\<close>: the store of counters and buffers
  (\<^verbatim>\<open>store.go\<close>), and the snapshot job that turns it into data points
  (\<^verbatim>\<open>snapshot.go\<close>), as the scheduler runs them.

  The store is an association list with distinct keys. Go visits a map in any order, so the
  snapshot takes a function \<open>visit\<close> that puts the entries in the order of the visit. The
  numbers drawn by \<^verbatim>\<open>math/rand\<close> are a stream \<open>r\<close>, of which an operation returns what is
  left. Comparing \<^verbatim>\<open>float32\<close> values is modelled on their bits, adding and dividing them is a
  parameter.

  What is proved: the counters count the events of their key; buffers stay within their limit;
  a snapshot does not panic, keeps keys and counters and empties the buffers, and its points have
  the counters of each host and their sums for each cluster; the statistics of a buffer are the
  order statistics they are named after; the cleanup removes exactly the idle entries.
  Further, that the place of the host tag splits a series in two, and that an idle statistic is
  reported for the host and not for the cluster.
\<close>

section \<open>The store\<close>

record skey =
  sk_Metric :: bytes
  sk_Tags :: bytes
  sk_Host :: bytes

record entry =
  en_ModTime :: time
  en_CountOkay :: "64 word"
  en_CountError :: "64 word"
  en_Buffer :: "stat_key \<Rightarrow> float32 list option"

type_synonym store = "(skey \<times> entry) list"
type_synonym draws = "nat \<Rightarrow> nat"

definition MaxBufferLen :: nat where "MaxBufferLen = 10000"

definition newEntry :: entry where
  "newEntry = \<lparr>en_ModTime = zeroTime, en_CountOkay = 0, en_CountError = 0, en_Buffer = (\<lambda>_. None)\<rparr>"

text \<open>A nil slice and an empty slice differ for \<open>calc\<close> below; both have no elements.\<close>

definition elems :: "'a list option \<Rightarrow> 'a list" where
  "elems buf = (case buf of None \<Rightarrow> [] | Some xs \<Rightarrow> xs)"

definition buffer_Append :: "float32 \<Rightarrow> draws \<Rightarrow> float32 list option \<Rightarrow> draws \<times> float32 list option" where
  "buffer_Append v r buf =
     (if length (elems buf) < MaxBufferLen then (r, Some (elems buf @ [v]))
      else (\<lambda>n. r (Suc n), Some ((elems buf)[r 0 mod MaxBufferLen := v])))"

definition buffer_Reset :: "float32 list option \<Rightarrow> float32 list option" where
  "buffer_Reset buf = map_option (\<lambda>_. []) buf"

definition append_stat :: "stat_key \<times> float32 \<Rightarrow> draws \<times> entry \<Rightarrow> draws \<times> entry" where
  "append_stat = (\<lambda>(k, v) (r, e).
     let (r, buf) = buffer_Append v r (en_Buffer e k) in (r, e\<lparr>en_Buffer := (en_Buffer e)(k := buf)\<rparr>))"

text \<open>\<^verbatim>\<open>parseHostTag\<close>: the host and the tags without the host tag.\<close>

definition parseHostTag :: "bytes \<Rightarrow> (bytes \<times> bytes) option" where
  "parseHostTag tags =
     (case index_sub tags ''host='' of
        None \<Rightarrow> None
      | Some i \<Rightarrow>
          if i > 0 \<and> tags ! (i - 1) \<noteq> CHR '' '' then None
          else let host = drop 5 (fst (cut (CHR '' '') (drop i tags)));
                   tagLen = 5 + length host
               in if host = [] then None
                  else if i = 0 then Some (host, drop tagLen tags)
                  else Some (host, take (i - 1) tags @ drop (i + tagLen) tags))"

definition event_key_of :: "event \<Rightarrow> skey option" where
  "event_key_of ev = map_option (\<lambda>(host, tags). \<lparr>sk_Metric = ev_Metric ev, sk_Tags = tags, sk_Host = host\<rparr>)
     (parseHostTag (ev_Tags ev))"

definition lookup_entry :: "store \<Rightarrow> skey \<Rightarrow> entry" where
  "lookup_entry m k = (case map_of m k of None \<Rightarrow> newEntry | Some e \<Rightarrow> e)"

text \<open>One turn of the loop in \<^verbatim>\<open>store.Write\<close>: what happens to the entry, and to the store.\<close>

definition write_entry :: "time \<Rightarrow> event \<Rightarrow> draws \<times> entry \<Rightarrow> draws \<times> entry" where
  "write_entry now ev = (\<lambda>(r, e).
     let e = e\<lparr>en_ModTime := now\<rparr> in
     if ev_Error ev then (r, e\<lparr>en_CountError := en_CountError e + 1\<rparr>)
     else fold append_stat (ev_Statistics ev) (r, e\<lparr>en_CountOkay := en_CountOkay e + 1\<rparr>))"

definition write_event :: "time \<Rightarrow> event \<Rightarrow> draws \<times> store \<Rightarrow> draws \<times> store" where
  "write_event now ev = (\<lambda>(r, m).
     case event_key_of ev of
       None \<Rightarrow> (r, m)
     | Some k \<Rightarrow> let (r, e) = write_entry now ev (r, lookup_entry m k) in (r, AList.update k e m))"

definition store_Write :: "time \<Rightarrow> event list \<Rightarrow> draws \<times> store \<Rightarrow> draws \<times> store" where
  "store_Write now events rm = fold (write_event now) events rm"

text \<open>\<^verbatim>\<open>cleanupJob.do\<close>, with the timeout that the scheduler gives it.\<close>

definition defaultTimeout :: duration where "defaultTimeout = 1 * minute"

definition cleanup :: "time \<Rightarrow> store \<Rightarrow> store" where
  "cleanup now m = [(k, e) \<leftarrow> m. \<not> Sub now (en_ModTime e) > defaultTimeout]"

section \<open>Statistics\<close>

text \<open>The order of \<^verbatim>\<open>float32\<close> values, from their bits: sign and magnitude.\<close>

definition f32_rank :: "float32 \<Rightarrow> int" where
  "f32_rank f = (if unat f < 2 ^ 31 then int (unat f) else - int (unat f mod 2 ^ 31))"

definition f32_less :: "float32 \<Rightarrow> float32 \<Rightarrow> bool" where
  "f32_less a b \<longleftrightarrow> \<not> IsNaN a \<and> \<not> IsNaN b \<and> f32_rank a < f32_rank b"

text \<open>
  \<^verbatim>\<open>sort.Sort(ascending(values))\<close>: a permutation in ascending order. Values that compare equal
  are the two zeros only.
\<close>

fun insert_asc :: "float32 \<Rightarrow> float32 list \<Rightarrow> float32 list" where
  "insert_asc x [] = [x]"
| "insert_asc x (y # ys) = (if f32_less y x then y # insert_asc x ys else x # y # ys)"

definition sort_asc :: "float32 list \<Rightarrow> float32 list" where
  "sort_asc xs = foldr insert_asc xs []"

record f32_arith =
  f32_add :: "float32 \<Rightarrow> float32 \<Rightarrow> float32"
  f32_div :: "float32 \<Rightarrow> float32 \<Rightarrow> float32"
  f32_of_nat :: "nat \<Rightarrow> float32"

definition st_sum :: "f32_arith \<Rightarrow> float32 list \<Rightarrow> float32" where
  "st_sum A a = foldl (f32_add A) 0 a"

definition st_min :: "float32 list \<Rightarrow> float32" where "st_min a = a ! 0"
definition st_avg :: "f32_arith \<Rightarrow> float32 list \<Rightarrow> float32" where
  "st_avg A a = f32_div A (st_sum A a) (f32_of_nat A (length a))"
definition st_p95 :: "float32 list \<Rightarrow> float32" where "st_p95 a = a ! (95 * length a div 100)"
definition st_p99 :: "float32 list \<Rightarrow> float32" where "st_p99 a = a ! (99 * length a div 100)"
definition st_max :: "float32 list \<Rightarrow> float32" where "st_max a = a ! (length a - 1)"

definition stat_keys :: "stat_key list" where "stat_keys = [Time_key, TTFB_key, Size_key]"

fun keyText :: "stat_key \<Rightarrow> bytes" where
  "keyText Time_key = ''time''"
| "keyText TTFB_key = ''ttfb''"
| "keyText Size_key = ''size''"

definition calc_values :: "f32_arith \<Rightarrow> stat_key \<Rightarrow> float32 list option \<Rightarrow> (bytes \<times> goval) list" where
  "calc_values A k buf =
     (case buf of
        None \<Rightarrow> []
      | Some values \<Rightarrow>
          let values = sort_asc (if values = [] then [0] else values) in
          [(keyText k @ ''.min'', GFloat32 (st_min values)),
           (keyText k @ ''.avg'', GFloat32 (st_avg A values)),
           (keyText k @ ''.p95'', GFloat32 (st_p95 values)),
           (keyText k @ ''.p99'', GFloat32 (st_p99 values)),
           (keyText k @ ''.max'', GFloat32 (st_max values))])"

definition calc :: "f32_arith \<Rightarrow> entry \<Rightarrow> (bytes \<times> goval) list" where
  "calc A e =
     [(''count error=false'', GUint64 (uint (en_CountOkay e))),
      (''count error=true'', GUint64 (uint (en_CountError e)))] @
     concat (map (\<lambda>k. calc_values A k (en_Buffer e k)) stat_keys)"

section \<open>The snapshot\<close>

text \<open>
  \<^verbatim>\<open>emitf\<close>; the series is given expanded. \<^const>\<open>None\<close> is the panic of \<^verbatim>\<open>id[0]\<close> when there is
  no word in it; a point that is refused is logged and left out.
\<close>

definition emitf :: "golib \<Rightarrow> point \<Rightarrow> time \<Rightarrow> goval \<Rightarrow> bytes \<Rightarrow> point list option" where
  "emitf L pooled t v series =
     (case series_words L series of
        [] \<Rightarrow> None
      | metric # keyval \<Rightarrow>
          Some (case NewPoint L pooled t v metric keyval of Inl e \<Rightarrow> [] | Inr p \<Rightarrow> [p]))"

fun emit_all :: "golib \<Rightarrow> point \<Rightarrow> time \<Rightarrow> (bytes \<Rightarrow> bytes) \<Rightarrow> (bytes \<times> goval) list \<Rightarrow> point list option" where
  "emit_all L pooled t series [] = Some []"
| "emit_all L pooled t series ((name, v) # stats) =
     Option.bind (emitf L pooled t v (series name)) (\<lambda>ps.
       map_option (\<lambda>qs. ps @ qs) (emit_all L pooled t series stats))"

definition host_series :: "skey \<Rightarrow> bytes \<Rightarrow> bytes" where
  "host_series k name = sk_Metric k @ ''.byhost.'' @ name @ '' '' @ sk_Tags k @ '' host='' @ sk_Host k"

definition cluster_series :: "skey \<Rightarrow> bytes \<Rightarrow> bytes" where
  "cluster_series k name = sk_Metric k @ ''.'' @ name @ '' '' @ sk_Tags k @ '' host=NA''"

text \<open>The update of the cluster entry by a host entry, and of the host entry.\<close>

definition host_values :: "entry \<Rightarrow> (stat_key \<times> float32) list" where
  "host_values host = concat (map (\<lambda>k. map (Pair k) (elems (en_Buffer host k))) stat_keys)"

definition merge_host :: "entry \<Rightarrow> draws \<times> entry \<Rightarrow> draws \<times> entry" where
  "merge_host host = (\<lambda>(r, cluster).
     fold append_stat (host_values host)
       (r, cluster\<lparr>en_CountError := en_CountError cluster + en_CountError host,
                   en_CountOkay := en_CountOkay cluster + en_CountOkay host\<rparr>))"

definition reset_host :: "entry \<Rightarrow> entry" where
  "reset_host host = host\<lparr>en_Buffer := (\<lambda>k. buffer_Reset (en_Buffer host k))\<rparr>"

definition merge_cluster :: "skey \<times> entry \<Rightarrow> draws \<times> store \<Rightarrow> draws \<times> store" where
  "merge_cluster = (\<lambda>(k, host) (r, byCluster).
     let ck = k\<lparr>sk_Host := []\<rparr>;
         (r, c) = merge_host host (r, lookup_entry byCluster ck)
     in (r, AList.update ck c byCluster))"

fun emit_entries ::
  "f32_arith \<Rightarrow> golib \<Rightarrow> point \<Rightarrow> time \<Rightarrow> (skey \<Rightarrow> bytes \<Rightarrow> bytes) \<Rightarrow> store \<Rightarrow> point list option" where
  "emit_entries A L pooled t series [] = Some []"
| "emit_entries A L pooled t series ((k, e) # m) =
     Option.bind (emit_all L pooled t (series k) (calc A e)) (\<lambda>ps.
       map_option (\<lambda>qs. ps @ qs) (emit_entries A L pooled t series m))"

text \<open>
  \<^verbatim>\<open>snapshotJob.do\<close>: the draws left, the store after it and the points. The loop over the hosts
  both fills the cluster entries and emits the points of the host; the two do not depend on
  each other, nor on the resets of earlier hosts.
\<close>

definition snapshot ::
  "f32_arith \<Rightarrow> golib \<Rightarrow> point \<Rightarrow> (store \<Rightarrow> store) \<Rightarrow> time \<Rightarrow> draws \<times> store \<Rightarrow> (draws \<times> store \<times> point list) option" where
  "snapshot A L pooled visit t = (\<lambda>(r, m).
     let (r, byCluster) = fold merge_cluster (visit m) (r, []) in
     Option.bind (emit_entries A L pooled t host_series (visit m)) (\<lambda>hosts.
     Option.bind (emit_entries A L pooled t cluster_series (visit byCluster)) (\<lambda>clusters.
       Some (r, map (\<lambda>(k, e). (k, reset_host e)) m, hosts @ clusters))))"

section \<open>Counting\<close>

text \<open>
  The interface of a tally: a step adds its amount under one key, or under none. The store and
  the cluster entries are tallies of accepted and of failed events.
\<close>

locale tally =
  fixes key :: "'i \<Rightarrow> 'k option"
    and amount :: "'i \<Rightarrow> 'n :: comm_monoid_add"
    and step :: "'i \<Rightarrow> 's \<Rightarrow> 's"
    and get :: "'s \<Rightarrow> 'k \<Rightarrow> 'n"
  assumes get_step: "get (step i s) k = get s k + (if key i = Some k then amount i else 0)"
begin

lemma get_fold: "get (fold step is s) k = get s k + sum_list (map amount (filter (\<lambda>i. key i = Some k) is))"
  by (induction "is" arbitrary: s) (simp_all add: get_step add.assoc)

lemma get_fold_perm:
  assumes "mset is' = mset is"
  shows "get (fold step is' s) k = get s k + sum_list (map amount (filter (\<lambda>i. key i = Some k) is))"
proof -
  have "mset (map amount (filter (\<lambda>i. key i = Some k) is')) = mset (map amount (filter (\<lambda>i. key i = Some k) is))"
    using assms by simp
  then have "sum_list (map amount (filter (\<lambda>i. key i = Some k) is')) = sum_list (map amount (filter (\<lambda>i. key i = Some k) is))"
    by (metis sum_mset_sum_list)
  then show ?thesis by (simp add: get_fold)
qed

end

lemma append_stat_frame [simp]:
  "en_CountOkay (snd (append_stat kv re)) = en_CountOkay (snd re)"
  "en_CountError (snd (append_stat kv re)) = en_CountError (snd re)"
  "en_ModTime (snd (append_stat kv re)) = en_ModTime (snd re)"
  by (auto simp: append_stat_def split: prod.split)

lemma append_stats_frame [simp]:
  "en_CountOkay (snd (fold append_stat kvs re)) = en_CountOkay (snd re)"
  "en_CountError (snd (fold append_stat kvs re)) = en_CountError (snd re)"
  "en_ModTime (snd (fold append_stat kvs re)) = en_ModTime (snd re)"
  by (induction kvs arbitrary: re) simp_all

lemma lookup_update [simp]:
  "lookup_entry (AList.update k e m) k' = (if k' = k then e else lookup_entry m k')"
  by (simp add: lookup_entry_def update_conv)

definition count_in :: "(entry \<Rightarrow> 64 word) \<Rightarrow> draws \<times> store \<Rightarrow> skey \<Rightarrow> 64 word" where
  "count_in f rm k = f (lookup_entry (snd rm) k)"

lemma write_event_snd:
  "lookup_entry (snd (write_event now ev rm)) k =
     (if event_key_of ev = Some k then snd (write_entry now ev (fst rm, lookup_entry (snd rm) k))
      else lookup_entry (snd rm) k)"
  by (auto simp: write_event_def split: prod.split option.split)

lemma merge_cluster_snd:
  "lookup_entry (snd (merge_cluster ke rm)) k =
     (if (fst ke)\<lparr>sk_Host := []\<rparr> = k then snd (merge_host (snd ke) (fst rm, lookup_entry (snd rm) k))
      else lookup_entry (snd rm) k)"
  by (auto simp: merge_cluster_def Let_def split: prod.split)

interpretation okay: tally event_key_of "\<lambda>ev. if ev_Error ev then 0 else 1" "write_event now" "count_in en_CountOkay" for now
  by unfold_locales (simp add: write_event_snd write_entry_def Let_def count_in_def)

interpretation failed: tally event_key_of "\<lambda>ev. if ev_Error ev then 1 else 0" "write_event now" "count_in en_CountError" for now
  by unfold_locales (simp add: write_event_snd write_entry_def Let_def count_in_def)

interpretation cluster_okay: tally "\<lambda>(k, e). Some (k\<lparr>sk_Host := []\<rparr>)" "\<lambda>(k, e). en_CountOkay e" merge_cluster "count_in en_CountOkay"
  by unfold_locales (auto simp: merge_cluster_snd merge_host_def count_in_def split: prod.split)

interpretation cluster_failed: tally "\<lambda>(k, e). Some (k\<lparr>sk_Host := []\<rparr>)" "\<lambda>(k, e). en_CountError e" merge_cluster "count_in en_CountError"
  by unfold_locales (auto simp: merge_cluster_snd merge_host_def count_in_def split: prod.split)

lemma sum_list_indicator:
  "sum_list (map (\<lambda>x. if P x then 1 else 0) xs) = (of_nat (length (filter P xs)) :: 64 word)"
  "sum_list (map (\<lambda>x. if P x then 0 else 1) xs) = (of_nat (length (filter (\<lambda>x. \<not> P x) xs)) :: 64 word)"
  by (induction xs) simp_all

section \<open>Buffers\<close>

definition entry_ok :: "entry \<Rightarrow> bool" where
  "entry_ok e \<longleftrightarrow> list_all (\<lambda>k. length (elems (en_Buffer e k)) \<le> MaxBufferLen) stat_keys"

lemma entry_ok_iff: "entry_ok e \<longleftrightarrow> (\<forall>k. length (elems (en_Buffer e k)) \<le> MaxBufferLen)"
proof
  show "\<forall>k. length (elems (en_Buffer e k)) \<le> MaxBufferLen" if "entry_ok e"
  proof
    fix k show "length (elems (en_Buffer e k)) \<le> MaxBufferLen"
      using that by (cases k) (simp_all add: entry_ok_def stat_keys_def)
  qed
qed (simp add: entry_ok_def list_all_iff)

lemma buffer_Append_bound:
  "length (elems buf) \<le> MaxBufferLen \<Longrightarrow> length (elems (snd (buffer_Append v r buf))) \<le> MaxBufferLen"
  by (auto simp: buffer_Append_def elems_def split: option.splits)

lemma append_stats_ok: "entry_ok (snd re) \<Longrightarrow> entry_ok (snd (fold append_stat kvs re))"
proof (induction kvs arbitrary: re)
  case (Cons kv kvs)
  obtain k v r e where re: "kv = (k, v)" "re = (r, e)" by (metis prod.exhaust)
  have "length (elems (snd (buffer_Append v r (en_Buffer e k)))) \<le> MaxBufferLen"
    using Cons.prems re by (intro buffer_Append_bound) (simp add: entry_ok_iff)
  then have "entry_ok (snd (append_stat kv re))"
    using Cons.prems re by (auto simp: append_stat_def entry_ok_iff split: prod.split)
  then show ?case by (simp add: Cons.IH)
qed simp

definition store_ok :: "store \<Rightarrow> bool" where
  "store_ok m \<longleftrightarrow> distinct (map fst m) \<and> list_all (\<lambda>(k, e). sk_Host k \<noteq> [] \<and> entry_ok e) m"

lemma set_update_subset: "set (AList.update k e m) \<subseteq> insert (k, e) (set m)"
  by (induction m) auto

lemma newEntry_ok: "entry_ok newEntry"
  by (simp add: entry_ok_iff newEntry_def elems_def)

lemma lookup_entry_ok: "store_ok m \<Longrightarrow> entry_ok (lookup_entry m k)"
  by (auto simp: lookup_entry_def store_ok_def list_all_iff newEntry_ok dest!: map_of_SomeD split: option.split)

lemma parseHostTag_ne: "parseHostTag tags = Some (host, rest) \<Longrightarrow> host \<noteq> []"
  by (auto simp: parseHostTag_def Let_def split: option.splits if_splits)

lemma write_event_ok: "store_ok (snd rm) \<Longrightarrow> store_ok (snd (write_event now ev rm))"
proof (cases "event_key_of ev")
  case (Some k)
  assume ok: "store_ok (snd rm)"
  let ?e = "snd (write_entry now ev (fst rm, lookup_entry (snd rm) k))"
  have "entry_ok (lookup_entry (snd rm) k)" using ok by (rule lookup_entry_ok)
  then have "entry_ok ?e"
    using append_stats_ok by (auto simp: write_entry_def Let_def entry_ok_iff)
  moreover have "sk_Host k \<noteq> []" using Some parseHostTag_ne by (auto simp: event_key_of_def)
  moreover have "snd (write_event now ev rm) = AList.update k ?e (snd rm)"
    using Some by (simp add: write_event_def split: prod.split)
  ultimately show ?thesis
    using ok set_update_subset [of k ?e "snd rm"] by (auto simp: store_ok_def list_all_iff distinct_update)
qed (simp add: write_event_def split: prod.split)

lemma store_Write_ok: "store_ok (snd rm) \<Longrightarrow> store_ok (snd (store_Write now evs rm))"
  unfolding store_Write_def by (induction evs arbitrary: rm) (simp_all add: write_event_ok)

lemma cleanup_ok: "store_ok m \<Longrightarrow> store_ok (cleanup now m)"
  by (auto simp: store_ok_def cleanup_def list_all_iff distinct_map inj_on_def)

lemma snapshot_store:
  "snapshot A L pooled visit t (r, m) = Some (r', m', ps) \<Longrightarrow> m' = map (\<lambda>(k, e). (k, reset_host e)) m"
  by (auto simp: snapshot_def split: prod.splits Option.bind_splits)

lemma reset_host_ok: "entry_ok (reset_host e)"
  by (simp add: entry_ok_iff reset_host_def buffer_Reset_def elems_def split: option.split)

lemma reset_store_ok: "store_ok m \<Longrightarrow> store_ok (map (\<lambda>(k, e). (k, reset_host e)) m)"
  by (auto simp: store_ok_def list_all_iff reset_host_ok comp_def case_prod_unfold)

text \<open>What the connections and the scheduler do to the store, one after the other under its lock.\<close>

inductive store_run :: "f32_arith \<Rightarrow> golib \<Rightarrow> draws \<times> store \<Rightarrow> bool" for A L where
  start: "store_run A L (r, [])"
| Write: "store_run A L s \<Longrightarrow> store_run A L (store_Write now evs s)"
| snapshot: "store_run A L s \<Longrightarrow> snapshot A L pooled visit t s = Some (r, m, ps) \<Longrightarrow> store_run A L (r, m)"
| cleanup: "store_run A L (r, m) \<Longrightarrow> store_run A L (r, cleanup now m)"

section \<open>Sorting and percentiles\<close>

lemma mset_insert_asc [simp]: "mset (insert_asc x xs) = add_mset x (mset xs)"
  by (induction xs) auto

lemma mset_sort_asc [simp]: "mset (sort_asc xs) = mset xs"
  by (induction xs) (simp_all add: sort_asc_def)

lemma set_sort_asc [simp]: "set (sort_asc xs) = set xs"
  by (metis mset_sort_asc set_mset_mset)

lemma length_sort_asc [simp]: "length (sort_asc xs) = length xs"
  by (metis mset_sort_asc size_mset)

lemma set_insert_asc [simp]: "set (insert_asc x xs) = insert x (set xs)"
  by (induction xs) auto

lemma sorted_insert_asc:
  "\<not> IsNaN x \<Longrightarrow> \<forall>y \<in> set ys. \<not> IsNaN y \<Longrightarrow> sorted (map f32_rank ys) \<Longrightarrow> sorted (map f32_rank (insert_asc x ys))"
  by (induction ys) (force simp: f32_less_def)+

lemma sorted_sort_asc: "\<forall>y \<in> set ys. \<not> IsNaN y \<Longrightarrow> sorted (map f32_rank (sort_asc ys))"
proof (induction ys)
  case (Cons y ys)
  then have "sorted (map f32_rank (insert_asc y (sort_asc ys)))"
    by (intro sorted_insert_asc) simp_all
  then show ?case by (simp add: sort_asc_def)
qed (simp add: sort_asc_def)

text \<open>How many of the values are at or below the value with a given index.\<close>

lemma rank_below:
  assumes "sorted (map f xs)" "i < length xs"
  shows "i < length (filter (\<lambda>x. f x \<le> (f (xs ! i) :: int)) xs)"
proof -
  have "f x \<le> f (xs ! i)" if x: "x \<in> set (take (Suc i) xs)" for x
  proof -
    obtain j where "j < length (take (Suc i) xs)" "x = take (Suc i) xs ! j"
      using x unfolding in_set_conv_nth by blast
    then have "j < Suc i" "x = xs ! j" by simp_all
    with assms show ?thesis using sorted_nth_mono [of "map f xs" j i] by simp
  qed
  then have "filter (\<lambda>x. f x \<le> f (xs ! i)) (take (Suc i) xs) = take (Suc i) xs" by simp
  moreover have "length (filter P (take (Suc i) xs)) \<le> length (filter P xs)" for P
    by (metis append_take_drop_id filter_append le_add1 length_append)
  ultimately have "length (take (Suc i) xs) \<le> length (filter (\<lambda>x. f x \<le> f (xs ! i)) xs)" by metis
  then show ?thesis using assms(2) by (simp add: min_def split: if_splits)
qed

lemma filter_sort_asc: "length (filter P (sort_asc xs)) = length (filter P xs)"
  by (metis mset_filter mset_sort_asc size_mset)

text \<open>And how many are below it.\<close>

lemma rank_above:
  assumes "sorted (map f xs)" "i < length xs"
  shows "length (filter (\<lambda>x. f x < (f (xs ! i) :: int)) xs) \<le> i"
proof -
  have "f (xs ! i) \<le> f x" if x: "x \<in> set (drop i xs)" for x
  proof -
    obtain j where "j < length xs - i" "x = xs ! (i + j)" using x by (auto simp: in_set_conv_nth)
    with assms show ?thesis using sorted_nth_mono [of "map f xs" i "i + j"] by simp
  qed
  then have "filter (\<lambda>x. f x < f (xs ! i)) (drop i xs) = []" by (force simp: filter_empty_conv)
  then have "filter (\<lambda>x. f x < f (xs ! i)) xs = filter (\<lambda>x. f x < f (xs ! i)) (take i xs)"
    by (metis append_Nil2 append_take_drop_id filter_append)
  then show ?thesis by (metis length_filter_le length_take min.absorb2 min.cobounded2 order_trans)
qed

definition number_below :: "float32 \<Rightarrow> float32 list \<Rightarrow> nat" where
  "number_below v xs = length (filter (\<lambda>x. f32_rank x < f32_rank v) xs)"

definition number_upto :: "float32 \<Rightarrow> float32 list \<Rightarrow> nat" where
  "number_upto v xs = length (filter (\<lambda>x. f32_rank x \<le> f32_rank v) xs)"

lemma percentile_exact:
  assumes "xs \<noteq> []" "\<forall>y \<in> set xs. \<not> IsNaN y" "q < 100"
  shows "q * length xs < 100 * number_upto (sort_asc xs ! (q * length xs div 100)) xs"
    and "100 * number_below (sort_asc xs ! (q * length xs div 100)) xs \<le> q * length xs"
proof -
  let ?i = "q * length xs div 100"
  have "q * length xs < 100 * length xs" using assms(1,3) by simp
  then have i: "?i < length (sort_asc xs)" by (simp add: div_less_iff_less_mult mult.commute)
  have "?i < number_upto (sort_asc xs ! ?i) xs"
    using rank_below [OF sorted_sort_asc [OF assms(2)] i] by (simp add: filter_sort_asc number_upto_def)
  then show "q * length xs < 100 * number_upto (sort_asc xs ! ?i) xs" by (simp add: div_less_iff_less_mult mult.commute)
  have "number_below (sort_asc xs ! ?i) xs \<le> ?i"
    using rank_above [OF sorted_sort_asc [OF assms(2)] i] by (simp add: filter_sort_asc number_below_def)
  then show "100 * number_below (sort_asc xs ! ?i) xs \<le> q * length xs" by (simp add: less_eq_div_iff_mult_less_eq mult.commute)
qed

lemma sort_asc_mono:
  "\<forall>y \<in> set xs. \<not> IsNaN y \<Longrightarrow> i \<le> j \<Longrightarrow> j < length xs \<Longrightarrow> f32_rank (sort_asc xs ! i) \<le> f32_rank (sort_asc xs ! j)"
  using sorted_nth_mono [of "map f32_rank (sort_asc xs)" i j] sorted_sort_asc [of xs] by simp

section \<open>Emission\<close>

lemma emitf_some: "CHR ''.'' \<in> set series \<Longrightarrow> \<exists>ps. emitf L pooled t v series = Some ps"
proof -
  let ?s = "map (\<lambda>c. if c = CHR ''='' then CHR '' '' else c) series"
  assume "CHR ''.'' \<in> set series"
  then have "CHR ''.'' \<in> set ?s" by force
  then have "Fields L ?s \<noteq> []" by (rule Fields_ne) (simp add: word_byte_def ord_def)
  then show ?thesis by (auto simp: emitf_def series_words_def split: list.split)
qed

lemma emit_all_some: "\<forall>name. CHR ''.'' \<in> set (series name) \<Longrightarrow> \<exists>ps. emit_all L pooled t series stats = Some ps"
proof (induction stats)
  case (Cons st stats)
  obtain name v where "st = (name, v)" by (cases st)
  with Cons emitf_some [of "series name" L pooled t v] show ?case by auto
qed simp

lemma emit_entries_some:
  "\<forall>k name. CHR ''.'' \<in> set (series k name) \<Longrightarrow> \<exists>ps. emit_entries A L pooled t series m = Some ps"
proof (induction m)
  case (Cons ke m)
  obtain k e where "ke = (k, e)" by (cases ke)
  with Cons emit_all_some [of "series k" L pooled t "calc A e"] show ?case by auto
qed simp

lemma series_dot: "CHR ''.'' \<in> set (host_series k name)" "CHR ''.'' \<in> set (cluster_series k name)"
  by (simp_all add: host_series_def cluster_series_def)

lemma snapshot_some:
  "\<exists>r' ps. snapshot A L pooled visit t (r, m) = Some (r', map (\<lambda>(k, e). (k, reset_host e)) m, ps)"
proof -
  obtain r' byCluster where c: "fold merge_cluster (visit m) (r, []) = (r', byCluster)" by (metis prod.exhaust)
  obtain hs where "emit_entries A L pooled t host_series (visit m) = Some hs"
    using emit_entries_some [of host_series] series_dot by blast
  moreover obtain cs where "emit_entries A L pooled t cluster_series (visit byCluster) = Some cs"
    using emit_entries_some [of cluster_series] series_dot by blast
  ultimately show ?thesis using c by (simp add: snapshot_def)
qed

section \<open>Properties\<close>

text \<open>
  C24: Whatever events were written, snapshots taken and cleanups run: the store has one entry
  per key, every key has a host, and no buffer holds more than ten thousand values.
\<close>

theorem store_invariant:
  assumes "store_run A L (r, m)"
  shows "distinct (map fst m) \<and> (\<forall>(k, e) \<in> set m. sk_Host k \<noteq> [] \<and> (\<forall>key. length (elems (en_Buffer e key)) \<le> 10000))"
proof -
  have "store_ok (snd s)" if "store_run A L s" for s
    using that
  proof (induction rule: store_run.induct)
    case (snapshot s pooled visit t r m ps)
    then show ?case by (cases s) (auto dest!: snapshot_store simp: reset_store_ok)
  qed (simp_all add: store_Write_ok cleanup_ok, simp add: store_ok_def)
  from this [OF assms] show ?thesis
    by (auto simp: store_ok_def list_all_iff entry_ok_iff MaxBufferLen_def)
qed

theorem store_invariant_witness:
  "distinct (map fst (snd (store_Write 0 [zeroEvent\<lparr>ev_Tags := ''host=a''\<rparr>] (\<lambda>n. n, []))))"
proof -
  let ?s = "store_Write 0 [zeroEvent\<lparr>ev_Tags := ''host=a''\<rparr>] (\<lambda>n. n, [])"
  have "store_run A L ?s" for A L by (intro store_run.intros)
  then have "store_run A L (fst ?s, snd ?s)" for A L by simp
  from store_invariant [OF this] show ?thesis by blast
qed

text \<open>
  The counters of a key grow by the number of events with this key that succeeded and that
  failed, modulo 2 to the 64; events without a host tag and events of other keys do not count.
\<close>

theorem store_counts:
  "en_CountOkay (lookup_entry (snd (store_Write now evs (r, m))) k) =
     en_CountOkay (lookup_entry m k) + of_nat (length (filter (\<lambda>ev. event_key_of ev = Some k \<and> \<not> ev_Error ev) evs)) \<and>
   en_CountError (lookup_entry (snd (store_Write now evs (r, m))) k) =
     en_CountError (lookup_entry m k) + of_nat (length (filter (\<lambda>ev. event_key_of ev = Some k \<and> ev_Error ev) evs))"
  using okay.get_fold [of now evs "(r, m)" k] failed.get_fold [of now evs "(r, m)" k]
  by (simp add: store_Write_def count_in_def sum_list_indicator filter_filter conj_commute)

text \<open>
  C23: The statistics that are calculated from a buffer of numbers are named as in the code, and
  are the order statistics of their names: minimum and maximum are the least and the greatest of
  the values; p95 is the value such that at most 95 per cent of the values are less and more than
  95 per cent are less or equal, which determines it, and p99 the same with 99. The average is the
  sum of all values, added in ascending order, divided by their number.
\<close>

theorem percentiles_correct:
  assumes "values \<noteq> []" "\<forall>v \<in> set values. \<not> IsNaN v"
  shows "\<exists>mn av v95 v99 mx. calc_values A k (Some values) =
      [(keyText k @ ''.min'', GFloat32 mn), (keyText k @ ''.avg'', GFloat32 av), (keyText k @ ''.p95'', GFloat32 v95),
       (keyText k @ ''.p99'', GFloat32 v99), (keyText k @ ''.max'', GFloat32 mx)] \<and>
    {mn, v95, v99, mx} \<subseteq> set values \<and>
    (\<forall>v \<in> set values. f32_rank mn \<le> f32_rank v \<and> f32_rank v \<le> f32_rank mx) \<and>
    100 * number_below v95 values \<le> 95 * length values \<and> 95 * length values < 100 * number_upto v95 values \<and>
    100 * number_below v99 values \<le> 99 * length values \<and> 99 * length values < 100 * number_upto v99 values \<and>
    (\<exists>ws. mset ws = mset values \<and> sorted (map f32_rank ws) \<and>
       av = f32_div A (foldl (f32_add A) 0 ws) (f32_of_nat A (length values)))"
proof (intro exI conjI)
  let ?n = "length values" and ?a = "sort_asc values"
  have n: "0 < ?n" using assms(1) by simp
  then have i: "99 * ?n div 100 < ?n" "95 * ?n div 100 < ?n" by (simp_all add: div_less_iff_less_mult)
  show "calc_values A k (Some values) =
      [(keyText k @ ''.min'', GFloat32 (st_min ?a)), (keyText k @ ''.avg'', GFloat32 (st_avg A ?a)), (keyText k @ ''.p95'', GFloat32 (st_p95 ?a)),
       (keyText k @ ''.p99'', GFloat32 (st_p99 ?a)), (keyText k @ ''.max'', GFloat32 (st_max ?a))]"
    using assms(1) by (simp add: calc_values_def Let_def)
  have "?a ! j \<in> set values" if "j < ?n" for j
    using nth_mem [of j ?a] that by simp
  with n i show "{st_min ?a, st_p95 ?a, st_p99 ?a, st_max ?a} \<subseteq> set values"
    by (simp add: st_min_def st_p95_def st_p99_def st_max_def)
  show "\<forall>v \<in> set values. f32_rank (st_min ?a) \<le> f32_rank v \<and> f32_rank v \<le> f32_rank (st_max ?a)"
  proof
    fix v assume "v \<in> set values"
    then obtain j where "j < ?n" "v = ?a ! j" by (metis in_set_conv_nth length_sort_asc set_sort_asc)
    then show "f32_rank (st_min ?a) \<le> f32_rank v \<and> f32_rank v \<le> f32_rank (st_max ?a)"
      using sort_asc_mono [OF assms(2), of 0 j] sort_asc_mono [OF assms(2), of j "?n - 1"]
      by (simp add: st_min_def st_max_def)
  qed
  show "100 * number_below (st_p95 ?a) values \<le> 95 * ?n" "95 * ?n < 100 * number_upto (st_p95 ?a) values"
    "100 * number_below (st_p99 ?a) values \<le> 99 * ?n" "99 * ?n < 100 * number_upto (st_p99 ?a) values"
    using percentile_exact [OF assms, of 95] percentile_exact [OF assms, of 99] by (simp_all add: st_p95_def st_p99_def)
  show "mset ?a = mset values" "sorted (map f32_rank ?a)" using sorted_sort_asc [OF assms(2)] by simp_all
  show "st_avg A ?a = f32_div A (foldl (f32_add A) 0 ?a) (f32_of_nat A ?n)" by (simp add: st_avg_def st_sum_def)
qed

theorem percentiles_correct_witness:
  "\<exists>v95 rest. calc_values \<lparr>f32_add = (+), f32_div = (div), f32_of_nat = of_nat\<rparr> Time_key (Some [3, 1, 2]) = rest \<and>
     (''time.p95'', GFloat32 v95) \<in> set rest \<and> 285 < 100 * number_upto v95 [3, 1, 2]"
proof -
  have "\<forall>v \<in> set [3, 1, 2 :: float32]. \<not> IsNaN v" by (simp add: IsNaN_def f32_exp_def)
  from percentiles_correct [OF _ this, of "\<lparr>f32_add = (+), f32_div = (div), f32_of_nat = of_nat\<rparr>" Time_key]
  show ?thesis by fastforce
qed

text \<open>
  The cleanup removes exactly the entries that were last written more than a minute ago.
\<close>

theorem cleanup_correct:
  "(k, e) \<in> set (cleanup now m) \<longleftrightarrow> (k, e) \<in> set m \<and> Sub now (en_ModTime e) \<le> 60 * second"
  by (auto simp: cleanup_def defaultTimeout_def minute_def)

section \<open>The points of a snapshot\<close>

definition tag_words :: "(bytes \<times> bytes) list \<Rightarrow> bytes" where
  "tag_words kvs = join_words (map (\<lambda>(k, v). k @ ''='' @ v) kvs)"

lemma Fields_tag_words:
  "\<forall>(k, v) \<in> set kvs. plain k \<and> plain v \<Longrightarrow>
     Fields L (unequal (tag_words kvs) @ CHR '' '' # s) = concat (map (\<lambda>(k, v). [k, v]) kvs) @ Fields L s"
proof (induction kvs)
  case (Cons kv kvs)
  obtain k v where kv: "kv = (k, v)" by (cases kv)
  have "Fields L (unequal (tag_words (kv # kvs)) @ CHR '' '' # s) =
      k # v # Fields L (if kvs = [] then s else unequal (tag_words kvs) @ CHR '' '' # s)"
    using Cons.prems kv plain_word [of k] plain_word [of v]
    by (cases kvs) (auto simp: tag_words_def Fields_word_blank)
  with Cons kv show ?case by (cases "kvs = []") (auto simp: tag_words_def)
qed (simp add: tag_words_def Fields_blank)

definition stat_name :: "bytes \<Rightarrow> (bytes \<times> bytes) list \<Rightarrow> bytes" where
  "stat_name nm ex = nm @ (if ex = [] then [] else '' '' @ tag_words ex)"

lemma emitf_words:
  assumes "plain m" "plain h" "\<forall>(k, v) \<in> set (ex @ kvs). plain k \<and> plain v"
  shows "emitf L pooled t g (stat_name m ex @ '' '' @ tag_words kvs @ '' host='' @ h) =
    Some (case NewPoint L pooled t g m (concat (map (\<lambda>(k, v). [k, v]) (ex @ kvs @ [(''host'', h)]))) of
      Inl e \<Rightarrow> [] | Inr p \<Rightarrow> [p])"
proof -
  let ?rest = "unequal (tag_words kvs) @ CHR '' '' # ''host'' @ CHR '' '' # h"
  have "unequal (stat_name m ex @ '' '' @ tag_words kvs @ '' host='' @ h) =
      m @ (if ex = [] then [] else CHR '' '' # unequal (tag_words ex)) @ CHR '' '' # ?rest"
    using assms plain_unequal [of m] plain_unequal [of h] by (simp add: stat_name_def)
  moreover have "Fields L ?rest = concat (map (\<lambda>(k, v). [k, v]) kvs) @ [''host'', h]"
    using Fields_tag_words [of kvs] assms(3) plain_word [OF plain_host] plain_word [OF assms(2)]
      Fields_word_blank [of "''host''" L h] Fields_word [of h L] by simp
  moreover have "Fields L (m @ (if ex = [] then [] else CHR '' '' # unequal (tag_words ex)) @ CHR '' '' # ?rest) =
      m # concat (map (\<lambda>(k, v). [k, v]) ex) @ Fields L ?rest"
    using plain_word [OF assms(1)] Fields_word_blank [of m L] Fields_tag_words [of ex L ?rest] assms(3)
    by (cases "ex = []") simp_all
  ultimately show ?thesis by (simp add: emitf_def series_words_def)
qed

lemma emitf_plain:
  assumes "plain m" "plain h" "\<forall>(k, v) \<in> set (ex @ kvs). plain k \<and> plain v" "t \<noteq> zeroTime"
    "distinct (map fst (ex @ kvs @ [(''host'', h)]))" "length (ex @ kvs) < 8" "validateValue L g = Inr v"
  shows "\<exists>p. emitf L pooled t g (stat_name m ex @ '' '' @ tag_words kvs @ '' host='' @ h) = Some [p] \<and>
    pt_metric p = m \<and> pt_tags p = render (ex @ kvs @ [(''host'', h)]) \<and> Value p = v \<and>
    pt_time p = UnixNano (Truncate t maxTimePrecision) \<and> taglist (pt_tags p) = ex @ kvs @ [(''host'', h)]"
proof -
  have tags: "tags_ok L (ex @ kvs @ [(''host'', h)])"
    using assms(2,3) plain_host by (auto simp: tags_ok_def intro: plain_text_ok)
  obtain p where "NewPoint L pooled t g m (concat (map (\<lambda>(k, v). [k, v]) (ex @ kvs @ [(''host'', h)]))) = Inr p"
      "pt_metric p = m" "pt_tags p = render (ex @ kvs @ [(''host'', h)])" "Value p = v"
      "pt_time p = UnixNano (Truncate t maxTimePrecision)"
    using NewPoint_ok [OF assms(4) plain_text_ok [OF assms(1)] tags assms(5) _ assms(7)] assms(6) by auto
  then show ?thesis using emitf_words [OF assms(1-3)] taglist_render [OF tags] by simp
qed

lemma host_series_plain:
  "host_series \<lparr>sk_Metric = m, sk_Tags = tags, sk_Host = h\<rparr> (stat_name nm ex) =
     stat_name (m @ ''.byhost.'' @ nm) ex @ '' '' @ tags @ '' host='' @ h"
  by (simp add: host_series_def stat_name_def)

lemma cluster_series_plain:
  "cluster_series \<lparr>sk_Metric = m, sk_Tags = tags, sk_Host = h\<rparr> (stat_name nm ex) =
     stat_name (m @ ''.'' @ nm) ex @ '' '' @ tags @ '' host='' @ ''NA''"
  by (simp add: cluster_series_def stat_name_def)

text \<open>
  A statistic of a host whose names are plain text is emitted as one point: the metric of
  the key extended by byhost and the name of the statistic, the tags of the statistic and of the
  key followed by the host, and the value unchanged. So the text that is built and split again
  loses nothing. The same holds of a cluster, with the host NA.
\<close>

theorem emitf_point:
  assumes "plain m" "plain nm" "plain h" "\<forall>(k, v) \<in> set (ex @ kvs). plain k \<and> plain v" "t \<noteq> zeroTime"
    "distinct (map fst (ex @ kvs @ [(''host'', h)]))" "length (ex @ kvs) < 8" "validateValue L g = Inr v"
  shows "(\<exists>p. emitf L pooled t g (host_series \<lparr>sk_Metric = m, sk_Tags = tag_words kvs, sk_Host = h\<rparr> (stat_name nm ex)) = Some [p] \<and>
      pt_metric p = m @ ''.byhost.'' @ nm \<and> taglist (pt_tags p) = ex @ kvs @ [(''host'', h)] \<and> Value p = v) \<and>
    (\<exists>p. emitf L pooled t g (cluster_series \<lparr>sk_Metric = m, sk_Tags = tag_words kvs, sk_Host = []\<rparr> (stat_name nm ex)) = Some [p] \<and>
      pt_metric p = m @ ''.'' @ nm \<and> taglist (pt_tags p) = ex @ kvs @ [(''host'', ''NA'')] \<and> Value p = v)"
proof -
  have "plain (m @ ''.byhost.'' @ nm)" using assms(1,2) plain_byhost by (simp only: plain_append)
  moreover have "plain (m @ ''.'' @ nm)" "plain ''NA''"
    using assms(1,2) plain_dot plain_NA by (simp_all only: plain_append)
  ultimately show ?thesis
    using emitf_plain [of "m @ ''.byhost.'' @ nm" h ex kvs t L g v pooled] emitf_plain [of "m @ ''.'' @ nm" "''NA''" ex kvs t L g v pooled] assms
    unfolding host_series_plain cluster_series_plain by auto
qed

text \<open>The points of the two counters of a host or a cluster.\<close>

definition counted :: "point list \<Rightarrow> bytes \<Rightarrow> (bytes \<times> bytes) list \<Rightarrow> bytes \<Rightarrow> 64 word \<Rightarrow> 64 word \<Rightarrow> bool" where
  "counted ps m kvs h okay err \<longleftrightarrow>
     (\<exists>p \<in> set ps. pt_metric p = m @ ''.count'' \<and> taglist (pt_tags p) = (''error'', ''false'') # kvs @ [(''host'', h)] \<and>
        Value p = VInt (wrap64 (uint okay))) \<and>
     (\<exists>p \<in> set ps. pt_metric p = m @ ''.count'' \<and> taglist (pt_tags p) = (''error'', ''true'') # kvs @ [(''host'', h)] \<and>
        Value p = VInt (wrap64 (uint err)))"

lemma counted_mono: "counted ps m kvs h a b \<Longrightarrow> set ps \<subseteq> set qs \<Longrightarrow> counted qs m kvs h a b"
  unfolding counted_def by blast

lemma emit_all_mem:
  "emit_all L pooled t series stats = Some ps \<Longrightarrow> (name, v) \<in> set stats \<Longrightarrow> emitf L pooled t v (series name) = Some qs \<Longrightarrow>
     set qs \<subseteq> set ps"
proof (induction stats arbitrary: ps)
  case (Cons st stats)
  obtain nm w where "st = (nm, w)" by (cases st)
  with Cons show ?case by (auto split: Option.bind_splits)
qed simp

lemma emit_entries_mem:
  "emit_entries A L pooled t series m = Some ps \<Longrightarrow> (k, e) \<in> set m \<Longrightarrow>
     \<exists>qs. emit_all L pooled t (series k) (calc A e) = Some qs \<and> set qs \<subseteq> set ps"
proof (induction m arbitrary: ps)
  case (Cons ke m)
  obtain k' e' where ke: "ke = (k', e')" by (cases ke)
  from Cons.prems(1) obtain as bs where ab: "emit_all L pooled t (series k') (calc A e') = Some as"
      "emit_entries A L pooled t series m = Some bs" "ps = as @ bs" by (auto simp: ke split: Option.bind_splits)
  show ?case
  proof (cases "(k, e) = ke")
    case True
    with ab ke show ?thesis by auto
  next
    case False
    with Cons.IH [OF ab(2)] Cons.prems(2) ab(3) show ?thesis by fastforce
  qed
qed simp

definition plain_tags :: "(bytes \<times> bytes) list \<Rightarrow> bool" where
  "plain_tags kvs \<longleftrightarrow> (\<forall>(k, v) \<in> set kvs. plain k \<and> plain v) \<and> distinct (''error'' # ''host'' # map fst kvs) \<and> length kvs < 7"

lemma plain_words: "plain ''count''" "plain ''error''" "plain ''true''" "plain ''false''"
  by (simp_all add: plain_def text_byte_literals)

lemma emit_counted:
  assumes "emit_all L pooled t series (calc A e) = Some ps" "plain m" "plain h" "plain_tags kvs" "t \<noteq> zeroTime"
    and "\<And>ex. series (stat_name ''count'' ex) = stat_name (m @ ''.count'') ex @ '' '' @ tag_words kvs @ '' host='' @ h"
  shows "counted ps m kvs h (en_CountOkay e) (en_CountError e)"
proof -
  have name: "stat_name ''count'' [(''error'', b)] = ''count error='' @ b" for b
    by (simp add: stat_name_def tag_words_def)
  have "\<exists>p \<in> set ps. pt_metric p = m @ ''.count'' \<and> taglist (pt_tags p) = (''error'', b) # kvs @ [(''host'', h)] \<and> Value p = VInt (wrap64 n)"
    if b: "plain b" "(''count error='' @ b, GUint64 n) \<in> set (calc A e)" for b n
  proof -
    have "plain (m @ ''.count'')" using assms(2) by (simp add: plain_def text_byte_literals)
    then obtain p where p: "emitf L pooled t (GUint64 n) (series (stat_name ''count'' [(''error'', b)])) = Some [p]"
        "pt_metric p = m @ ''.count''" "Value p = VInt (wrap64 n)" "taglist (pt_tags p) = [(''error'', b)] @ kvs @ [(''host'', h)]"
      using emitf_plain [of "m @ ''.count''" h "[(''error'', b)]" kvs t L "GUint64 n" "VInt (wrap64 n)" pooled] assms(3-5) b(1) plain_words(2)
      unfolding assms(6) by (auto simp: plain_tags_def)
    from emit_all_mem [OF assms(1) b(2)] p(1) name have "p \<in> set ps" by simp
    with p show ?thesis by auto
  qed
  from this [of "''false''" "uint (en_CountOkay e)"] this [of "''true''" "uint (en_CountError e)"] plain_words show ?thesis
    by (simp add: counted_def calc_def)
qed

text \<open>The cluster entries have the keys of the hosts, without the host.\<close>

lemma merge_cluster_keys:
  "fst ` set (snd (fold merge_cluster xs rm)) = fst ` set (snd rm) \<union> (\<lambda>(k, e). k\<lparr>sk_Host := []\<rparr>) ` set xs"
proof (induction xs arbitrary: rm)
  case (Cons x xs)
  have "fst ` set (snd (merge_cluster x rm)) = insert ((fst x)\<lparr>sk_Host := []\<rparr>) (fst ` set (snd rm))"
    by (auto simp: merge_cluster_def Let_def update_conv simp flip: dom_map_of_conv_image_fst split: prod.splits)
  with Cons show ?case by (cases x) auto
qed simp

lemma cluster_entry:
  assumes "\<And>xs. mset (visit xs) = mset xs" "(k, e) \<in> set m" "fold merge_cluster (visit m) (r, []) = (r', byCluster)"
  shows "\<exists>c. (k\<lparr>sk_Host := []\<rparr>, c) \<in> set (visit byCluster) \<and>
    en_CountOkay c = (\<Sum>(k', e') \<leftarrow> filter (\<lambda>(k', e'). k'\<lparr>sk_Host := []\<rparr> = k\<lparr>sk_Host := []\<rparr>) m. en_CountOkay e') \<and>
    en_CountError c = (\<Sum>(k', e') \<leftarrow> filter (\<lambda>(k', e'). k'\<lparr>sk_Host := []\<rparr> = k\<lparr>sk_Host := []\<rparr>) m. en_CountError e')"
proof -
  let ?c = "k\<lparr>sk_Host := []\<rparr>"
  have v: "set (visit xs) = set xs" for xs by (metis assms(1) set_mset_mset)
  have "?c \<in> fst ` set byCluster" using merge_cluster_keys [of "visit m" "(r, [])"] assms(2,3) v by force
  then obtain c where c: "map_of byCluster ?c = Some c" by (metis map_of_eq_None_iff not_None_eq)
  then have "lookup_entry byCluster ?c = c" by (simp add: lookup_entry_def)
  with cluster_okay.get_fold_perm [OF assms(1), of m "(r, [])" ?c] cluster_failed.get_fold_perm [OF assms(1), of m "(r, [])" ?c] assms(3)
    map_of_SomeD [OF c] v show ?thesis
    by (intro exI [of _ c]) (simp add: count_in_def lookup_entry_def newEntry_def case_prod_unfold)
qed

text \<open>
  C22: A snapshot never panics. It keeps the keys and both counters of every entry of the store
  and empties every buffer. Its points include, for every host whose names are plain text, the
  number of events that succeeded and of those that failed; and for its cluster the sums of each
  over the hosts with the same metric and tags, in whatever order the hosts are visited. Sums are
  modulo 2 to the 64, and a point has them as a signed number.
\<close>

theorem snapshot_sums:
  assumes "\<And>xs. mset (visit xs) = mset xs" "t \<noteq> zeroTime"
  shows "\<exists>r' m' ps. snapshot A L pooled visit t (r, m) = Some (r', m', ps) \<and>
    map (\<lambda>(k, e). (k, en_CountOkay e, en_CountError e)) m' = map (\<lambda>(k, e). (k, en_CountOkay e, en_CountError e)) m \<and>
    (\<forall>(k, e) \<in> set m'. \<forall>key. elems (en_Buffer e key) = []) \<and>
    (\<forall>metric kvs h e. (\<lparr>sk_Metric = metric, sk_Tags = tag_words kvs, sk_Host = h\<rparr>, e) \<in> set m \<and>
       plain metric \<and> plain h \<and> plain_tags kvs \<longrightarrow>
       counted ps (metric @ ''.byhost'') kvs h (en_CountOkay e) (en_CountError e) \<and>
       counted ps metric kvs ''NA''
         (\<Sum>(k', e') \<leftarrow> filter (\<lambda>(k', e'). sk_Metric k' = metric \<and> sk_Tags k' = tag_words kvs) m. en_CountOkay e')
         (\<Sum>(k', e') \<leftarrow> filter (\<lambda>(k', e'). sk_Metric k' = metric \<and> sk_Tags k' = tag_words kvs) m. en_CountError e'))"
proof -
  obtain r' byCluster where c: "fold merge_cluster (visit m) (r, []) = (r', byCluster)" by (metis prod.exhaust)
  obtain hs where hs: "emit_entries A L pooled t host_series (visit m) = Some hs"
    using emit_entries_some [of host_series] series_dot by blast
  obtain cs where cs: "emit_entries A L pooled t cluster_series (visit byCluster) = Some cs"
    using emit_entries_some [of cluster_series] series_dot by blast
  let ?m' = "map (\<lambda>(k, e). (k, reset_host e)) m"
  have snap: "snapshot A L pooled visit t (r, m) = Some (r', ?m', hs @ cs)" using c hs cs by (simp add: snapshot_def)
  have "elems (en_Buffer (reset_host e) key) = []" for e key
    by (simp add: reset_host_def buffer_Reset_def elems_def split: option.split)
  moreover have "counted (hs @ cs) (metric @ ''.byhost'') kvs h (en_CountOkay e) (en_CountError e)"
    "counted (hs @ cs) metric kvs ''NA''
         (\<Sum>(k', e') \<leftarrow> filter (\<lambda>(k', e'). sk_Metric k' = metric \<and> sk_Tags k' = tag_words kvs) m. en_CountOkay e')
         (\<Sum>(k', e') \<leftarrow> filter (\<lambda>(k', e'). sk_Metric k' = metric \<and> sk_Tags k' = tag_words kvs) m. en_CountError e')"
    if k: "(\<lparr>sk_Metric = metric, sk_Tags = tag_words kvs, sk_Host = h\<rparr>, e) \<in> set m" "plain metric" "plain h" "plain_tags kvs"
    for metric kvs h e
  proof -
    let ?k = "\<lparr>sk_Metric = metric, sk_Tags = tag_words kvs, sk_Host = h\<rparr>"
    have "(?k, e) \<in> set (visit m)" using k(1) assms(1) by (metis set_mset_mset)
    from emit_entries_mem [OF hs this] obtain qs where qs: "emit_all L pooled t (host_series ?k) (calc A e) = Some qs" "set qs \<subseteq> set hs" by blast
    have "plain (metric @ ''.byhost'')" using k(2) by (simp add: plain_def text_byte_literals)
    from emit_counted [OF qs(1) this k(3,4) assms(2)] have "counted qs (metric @ ''.byhost'') kvs h (en_CountOkay e) (en_CountError e)"
      by (simp add: host_series_plain)
    then show "counted (hs @ cs) (metric @ ''.byhost'') kvs h (en_CountOkay e) (en_CountError e)"
      by (rule counted_mono) (use qs(2) in auto)
    have same: "k'\<lparr>sk_Host := []\<rparr> = ?k\<lparr>sk_Host := []\<rparr> \<longleftrightarrow> sk_Metric k' = metric \<and> sk_Tags k' = tag_words kvs" for k' :: skey
      by (cases k') simp
    obtain ce where ce: "(?k\<lparr>sk_Host := []\<rparr>, ce) \<in> set (visit byCluster)"
        "en_CountOkay ce = (\<Sum>(k', e') \<leftarrow> filter (\<lambda>(k', e'). sk_Metric k' = metric \<and> sk_Tags k' = tag_words kvs) m. en_CountOkay e')"
        "en_CountError ce = (\<Sum>(k', e') \<leftarrow> filter (\<lambda>(k', e'). sk_Metric k' = metric \<and> sk_Tags k' = tag_words kvs) m. en_CountError e')"
      using cluster_entry [OF assms(1) k(1) c] unfolding same by blast
    from emit_entries_mem [OF cs ce(1)] obtain qs where qs: "emit_all L pooled t (cluster_series (?k\<lparr>sk_Host := []\<rparr>)) (calc A ce) = Some qs"
      "set qs \<subseteq> set cs" by blast
    from emit_counted [OF qs(1) k(2) plain_NA k(4) assms(2)] have "counted qs metric kvs ''NA'' (en_CountOkay ce) (en_CountError ce)"
      by (simp add: cluster_series_plain)
    then have "counted (hs @ cs) metric kvs ''NA'' (en_CountOkay ce) (en_CountError ce)" by (rule counted_mono) (use qs(2) in auto)
    then show "counted (hs @ cs) metric kvs ''NA''
         (\<Sum>(k', e') \<leftarrow> filter (\<lambda>(k', e'). sk_Metric k' = metric \<and> sk_Tags k' = tag_words kvs) m. en_CountOkay e')
         (\<Sum>(k', e') \<leftarrow> filter (\<lambda>(k', e'). sk_Metric k' = metric \<and> sk_Tags k' = tag_words kvs) m. en_CountError e')"
      unfolding ce .
  qed
  ultimately show ?thesis using snap by (intro exI [of _ r'] exI [of _ ?m'] exI [of _ "hs @ cs"]) (auto simp: case_prod_unfold reset_host_def)
qed

theorem snapshot_sums_witness:
  "\<exists>r' m' ps. snapshot \<lparr>f32_add = (\<lambda>a b. a), f32_div = (\<lambda>a b. a), f32_of_nat = of_nat\<rparr> latin1_lib newPoint rev 0
     (\<lambda>n. n, [(\<lparr>sk_Metric = ''m'', sk_Tags = [], sk_Host = ''a''\<rparr>, newEntry\<lparr>en_CountError := 2\<rparr>),
              (\<lparr>sk_Metric = ''m'', sk_Tags = [], sk_Host = ''b''\<rparr>, newEntry\<lparr>en_CountOkay := 4, en_CountError := 3\<rparr>)]) = Some (r', m', ps) \<and>
     counted ps ''m'' [] ''NA'' 4 5"
proof -
  let ?m = "[(\<lparr>sk_Metric = ''m'', sk_Tags = [], sk_Host = ''a''\<rparr>, newEntry\<lparr>en_CountError := 2\<rparr>),
              (\<lparr>sk_Metric = ''m'', sk_Tags = [], sk_Host = ''b''\<rparr>, newEntry\<lparr>en_CountOkay := 4, en_CountError := 3\<rparr>)]"
  let ?A = "\<lparr>f32_add = (\<lambda>a b. a), f32_div = (\<lambda>a b. a), f32_of_nat = of_nat\<rparr>"
  have pl: "plain ''m''" "plain ''a''" "plain_tags []" by (simp_all add: plain_def text_byte_literals plain_tags_def)
  have tw: "tag_words [] = []" by (simp add: tag_words_def)
  have "(0 :: int) \<noteq> zeroTime" by (simp add: zeroTime_def)
  note sums = snapshot_sums [OF _ this, of rev ?A latin1_lib newPoint "\<lambda>n. n" ?m]
  obtain r' m' ps where snap: "snapshot ?A latin1_lib newPoint rev 0 (\<lambda>n. n, ?m) = Some (r', m', ps)"
      and all: "\<forall>metric kvs h e. (\<lparr>sk_Metric = metric, sk_Tags = tag_words kvs, sk_Host = h\<rparr>, e) \<in> set ?m \<and>
       plain metric \<and> plain h \<and> plain_tags kvs \<longrightarrow>
       counted ps (metric @ ''.byhost'') kvs h (en_CountOkay e) (en_CountError e) \<and>
       counted ps metric kvs ''NA''
         (\<Sum>(k', e') \<leftarrow> filter (\<lambda>(k', e'). sk_Metric k' = metric \<and> sk_Tags k' = tag_words kvs) ?m. en_CountOkay e')
         (\<Sum>(k', e') \<leftarrow> filter (\<lambda>(k', e'). sk_Metric k' = metric \<and> sk_Tags k' = tag_words kvs) ?m. en_CountError e')"
    using sums [OF mset_rev] by (elim exE conjE) (rule that)
  from all [rule_format, of "''m''" "[]" "''a''" "newEntry\<lparr>en_CountError := 2\<rparr>"] pl tw
  have "counted ps ''m'' [] ''NA'' 4 5" by (simp add: newEntry_def)
  with snap show ?thesis by blast
qed

section \<open>Findings\<close>

text \<open>
  The key of an event keeps a leading blank in its tags if the host tag came first. So the
  same series has two entries, which are counted apart and emitted as points with the same
  metric, tags and time.
\<close>

theorem host_tag_place:
  "\<exists>k1 k2. event_key_of (zeroEvent\<lparr>ev_Metric := ''m'', ev_Tags := ''host=a op=x''\<rparr>) = Some k1 \<and>
     event_key_of (zeroEvent\<lparr>ev_Metric := ''m'', ev_Tags := ''op=x host=a''\<rparr>) = Some k2 \<and> k1 \<noteq> k2 \<and>
     emitf L pooled t g (host_series k1 ''count'') = emitf L pooled t g (host_series k2 ''count'')"
proof -
  let ?k1 = "\<lparr>sk_Metric = ''m'', sk_Tags = '' op=x'', sk_Host = ''a''\<rparr>"
  let ?k2 = "\<lparr>sk_Metric = ''m'', sk_Tags = ''op=x'', sk_Host = ''a''\<rparr>"
  have "event_key_of (zeroEvent\<lparr>ev_Metric := ''m'', ev_Tags := ''host=a op=x''\<rparr>) = Some ?k1"
    "event_key_of (zeroEvent\<lparr>ev_Metric := ''m'', ev_Tags := ''op=x host=a''\<rparr>) = Some ?k2"
    by (simp_all add: event_key_of_def parseHostTag_def cut_def)
  moreover have "Fields L (''m.byhost.count'' @ CHR '' '' # CHR '' '' # s) = Fields L (''m.byhost.count'' @ CHR '' '' # s)" for s
    using Fields_word_blank [of "''m.byhost.count''" L] Fields_blank [of L] by (simp add: word_byte_def ord_def)
  from this [of "''op x host a''"] have "emitf L pooled t g (host_series ?k1 ''count'') = emitf L pooled t g (host_series ?k2 ''count'')"
    by (simp add: emitf_def series_words_def host_series_def)
  ultimately show ?thesis by (intro exI [of _ ?k1] exI [of _ ?k2]) simp
qed

text \<open>
  In the cycles after the one in which a statistic was seen, the host entry reports a dummy
  zero for it and the cluster entry reports nothing.
\<close>

theorem idle_statistic:
  assumes "en_Buffer e k \<noteq> None"
  shows "length (calc_values A k (en_Buffer (reset_host e) k)) = 5 \<and>
    calc_values A k (en_Buffer (snd (merge_host (reset_host e) (r, newEntry))) k) = []"
proof -
  have "elems (en_Buffer (reset_host e) key) = []" for key
    by (simp add: reset_host_def buffer_Reset_def elems_def split: option.split)
  then have "host_values (reset_host e) = []" by (simp add: host_values_def)
  with assms show ?thesis
    by (auto simp: calc_values_def reset_host_def buffer_Reset_def merge_host_def newEntry_def Let_def)
qed

end
