(* ===== verification/StatseControl.thy ===== *)
theory StatseControl
  imports Modules Aggregate
begin

text \<open>
  The configuration of collect-statse: its validation
  (\<^verbatim>\<open>cmd/collect-statse/config/config.go\<close> and the \<^verbatim>\<open>config.go\<close> files of its forwarder
  and aggregator), and the module of the controller that serves it
  (\<^verbatim>\<open>cmd/tsp-controller/control/collect-statse/control.go\<close>); further the modules of the
  controller together, as \<^verbatim>\<open>main.go\<close> registers them.

  Host lookups and \<^verbatim>\<open>time.ParseDuration\<close> are parameters.

  What is proved: the hosts of a cluster are sent to one and the same aggregator, which alone is
  told a snapshot interval; collect-statse accepts what it is served; and once the controller has
  accepted its configuration file, no request of collect-jmx panics.
\<close>

section \<open>The configuration of collect-statse\<close>

record fwd_config =
  fc_AggregatorHost :: string
  fc_Filter :: "Rule list option"

record statse_config =
  sc_Forwarder :: fwd_config
  sc_SnapshotInterval :: string

record statse_env =
  se_LookupHost :: "string \<Rightarrow> bool"
  se_ParseDuration :: "string \<Rightarrow> duration option"

datatype statse_config_error =
    LookupFailed string
  | StatseFilter filter_error
  | StatseTooManyRules nat
  | BadInterval string
  | IntervalTooShort string

definition validateAggregatorHost :: "statse_env \<Rightarrow> fwd_config \<Rightarrow> statse_config_error + fwd_config" where
  "validateAggregatorHost E c =
     (let c = (if fc_AggregatorHost c = [] then c\<lparr>fc_AggregatorHost := ''localhost''\<rparr> else c) in
      if se_LookupHost E (fc_AggregatorHost c) then Inr c else Inl (LookupFailed (fc_AggregatorHost c)))"

text \<open>The outer option is a panic of \<^const>\<open>New\<close>.\<close>

definition statse_validateFilter :: "regexlib \<Rightarrow> fwd_config \<Rightarrow> (statse_config_error + fwd_config) option" where
  "statse_validateFilter R c =
     (let rules = (case fc_Filter c of None \<Rightarrow> [\<lparr>ru_Match = [], ru_Set = [], ru_Block = True\<rparr>] | Some rs \<Rightarrow> rs) in
      map_option (\<lambda>r. rbind (rmap_err StatseFilter r) (\<lambda>_. Inr (c\<lparr>fc_Filter := Some rules\<rparr>))) (New R rules))"

definition statse_forwarder_Validate :: "statse_env \<Rightarrow> regexlib \<Rightarrow> fwd_config \<Rightarrow> (statse_config_error + fwd_config) option" where
  "statse_forwarder_Validate E R c =
     (case validateAggregatorHost E c of
        Inl e \<Rightarrow> Some (Inl e)
      | Inr c \<Rightarrow> statse_validateFilter R c)"

definition validateSnapshotInterval :: "statse_env \<Rightarrow> string \<Rightarrow> statse_config_error + string" where
  "validateSnapshotInterval E s =
     (let s = (if s = [] then ''10s'' else s) in
      case se_ParseDuration E s of
        None \<Rightarrow> Inl (BadInterval s)
      | Some d \<Rightarrow> if d < 1 * second then Inl (IntervalTooShort s) else Inr s)"

definition statse_maxRules :: nat where "statse_maxRules = 64"

definition validateForwarder :: "statse_env \<Rightarrow> regexlib \<Rightarrow> fwd_config \<Rightarrow> (statse_config_error + fwd_config) option" where
  "validateForwarder E R c =
     map_option (\<lambda>r. rbind r (\<lambda>c.
       let n = length (the (fc_Filter c)) in
       if n > statse_maxRules then Inl (StatseTooManyRules n) else Inr c))
     (statse_forwarder_Validate E R c)"

definition statse_Validate :: "statse_env \<Rightarrow> regexlib \<Rightarrow> statse_config \<Rightarrow> (statse_config_error + statse_config) option" where
  "statse_Validate E R c =
     map_option (\<lambda>r. rbind r (\<lambda>f.
       rbind (validateSnapshotInterval E (sc_SnapshotInterval c)) (\<lambda>i.
         Inr (c\<lparr>sc_Forwarder := f, sc_SnapshotInterval := i\<rparr>))))
     (validateForwarder E R (sc_Forwarder c))"

section \<open>The controller module\<close>

definition hc_validate :: "host_config \<Rightarrow> string + host_config" where
  "hc_validate hc =
     (if \<not> hc_Aggregator hc \<and> hc_Interval hc \<noteq> [] then Inl ''interval set for non-aggregator''
      else Inr (if hc_Interval hc = [] then hc\<lparr>hc_Interval := ''10s''\<rparr> else hc))"

definition update_statse :: "xmllib \<Rightarrow> (mod_value, unit) update_fn" where
  "update_statse X hostID e s =
     (case xml_statse X (el_Raw e) of
        None \<Rightarrow> Inr (e, s)
      | Some hc \<Rightarrow> rbind (hc_validate hc) (\<lambda>hc. Inr (e\<lparr>el_Value := Some (MStatse hc)\<rparr>, s)))"

definition statse_Update :: "xmllib \<Rightarrow> mod_value config \<Rightarrow> string + mod_value config" where
  "statse_Update X c = rbind (UpdateHost (update_statse X) c ()) (\<lambda>(c, s). Inr c)"

definition statse_parseKey :: "(string \<times> string list) list \<Rightarrow> ctl_error + string" where
  "statse_parseKey query =
     (let ident = query_Get query ''host'' in
      if ident = [] then Inl MissingHostParameter
      else case query_Del ''host'' query of
        (k, v) # _ \<Rightarrow> Inl (UnexpectedParameter k)
      | [] \<Rightarrow> Inr ident)"

fun hostConfig_of :: "mod_value element list \<Rightarrow> host_config option" where
  "hostConfig_of [] = None"
| "hostConfig_of (e # es) = (case el_Value e of Some (MStatse hc) \<Rightarrow> Some hc | _ \<Rightarrow> hostConfig_of es)"

definition hostConfig :: "mod_value host \<Rightarrow> host_config option" where
  "hostConfig h = hostConfig_of (h_Extra h)"

definition aggregating :: "mod_value host \<Rightarrow> bool" where
  "aggregating h = (case hostConfig h of None \<Rightarrow> False | Some hc \<Rightarrow> hc_Aggregator hc)"

definition aggregator :: "regexlib \<Rightarrow> network_config \<Rightarrow> mod_value hosts \<Rightarrow> mod_value host \<Rightarrow> mod_value host option" where
  "aggregator R net hs f = find aggregating (config_Cluster R net hs (h_ClusterID f))"

definition aggregatorHost :: "regexlib \<Rightarrow> network_config \<Rightarrow> mod_value hosts \<Rightarrow> mod_value host \<Rightarrow> string option" where
  "aggregatorHost R net hs f = map_option h_ID (aggregator R net hs f)"

definition snapshotInterval :: "regexlib \<Rightarrow> network_config \<Rightarrow> mod_value hosts \<Rightarrow> mod_value host \<Rightarrow> string option" where
  "snapshotInterval R net hs f =
     (case aggregator R net hs f of
        None \<Rightarrow> None
      | Some a \<Rightarrow> if h_ID f \<noteq> h_ID a then None else map_option hc_Interval (hostConfig a))"

record statse_view =
  sv_AggregatorHost :: string
  sv_Filter :: "Rule list"
  sv_Aggregator :: "string option"

definition statse_View ::
  "regexlib \<Rightarrow> filter_program \<Rightarrow> network_config \<Rightarrow> mod_value hosts \<Rightarrow> string \<Rightarrow> (ctl_error + statse_view) option" where
  "statse_View R run net hs ident =
     map_option (\<lambda>r. rbind r (\<lambda>h.
       rbind (rmap_err FilterRun (run ''collect-statse'' (h_ID h) (h_ClusterID h))) (\<lambda>rules.
         Inr \<lparr>sv_AggregatorHost = (case aggregatorHost R net hs h of None \<Rightarrow> [] | Some a \<Rightarrow> a),
              sv_Filter = rules @ [missing_tag_rule ''host'' ident] @
                (if h_ClusterID h \<noteq> [] then [missing_tag_rule ''cluster'' (h_ClusterID h)] else []),
              sv_Aggregator = snapshotInterval R net hs h\<rparr>)))
     (config_Host R net hs ident)"

text \<open>The configuration that collect-statse reads from the JSON text of a view.\<close>

definition statse_config_of :: "statse_view \<Rightarrow> statse_config" where
  "statse_config_of v =
     \<lparr>sc_Forwarder = \<lparr>fc_AggregatorHost = sv_AggregatorHost v, fc_Filter = (if sv_Filter v = [] then None else Some (sv_Filter v))\<rparr>,
      sc_SnapshotInterval = (case sv_Aggregator v of None \<Rightarrow> [] | Some i \<Rightarrow> i)\<rparr>"

text \<open>The modules in the order of their registration; that of tsp-forwarder does nothing.\<close>

definition controller_modules :: "xmllib \<Rightarrow> (mod_value config \<Rightarrow> string + mod_value config) list" where
  "controller_modules X = [jmx_Update X, statse_Update X, Inr]"

section \<open>One aggregator per cluster\<close>

lemma aggregator_Some:
  "aggregator R net hs f = Some a \<Longrightarrow> a \<in> set (config_Cluster R net hs (h_ClusterID f)) \<and> aggregating a"
  unfolding aggregator_def by (metis (no_types, lifting) find_Some_iff nth_mem)

definition statse_said :: "unit \<Rightarrow> mod_value \<Rightarrow> bool" where
  "statse_said s v \<longleftrightarrow> (case v of MStatse hc \<Rightarrow> hc_Interval hc \<noteq> [] | _ \<Rightarrow> False)"

interpretation statse: host_update "update_statse X" statse_said "\<lambda>s s'. True" for X
  by unfold_locales
    (auto simp: update_statse_def hc_validate_def statse_said_def rbind_eq_Inr split: option.splits if_splits mod_value.splits)

section \<open>Properties\<close>

text \<open>
  C37: All hosts of a cluster are told the same aggregator, if any. It is a host of the cluster that
  is in scope and marked as aggregator; and a snapshot interval is served to the aggregator and to
  no other host.
\<close>

theorem one_aggregator:
  assumes "statse_View R run net hs i1 = Some (Inr v1)" "statse_View R run net hs i2 = Some (Inr v2)"
    "config_Host R net hs i1 = Some (Inr h1)" "config_Host R net hs i2 = Some (Inr h2)" "h_ClusterID h1 = h_ClusterID h2"
  shows "sv_AggregatorHost v1 = sv_AggregatorHost v2 \<and>
    (sv_AggregatorHost v1 \<noteq> [] \<longrightarrow> (\<exists>a \<in> set (config_Cluster R net hs (h_ClusterID h1)). aggregating a \<and> h_ID a = sv_AggregatorHost v1)) \<and>
    (sv_Aggregator v1 \<noteq> None \<longleftrightarrow> (\<exists>a \<in> set (config_Cluster R net hs (h_ClusterID h1)). aggregating a \<and> h_ID a = h_ID h1 \<and> sv_AggregatorHost v1 = h_ID a)) \<and>
    (sv_Aggregator v1 \<noteq> None \<longrightarrow> sv_Aggregator v2 \<noteq> None \<longrightarrow> h_ID h1 = h_ID h2)"
proof -
  have v: "sv_AggregatorHost v1 = (case aggregatorHost R net hs h1 of None \<Rightarrow> [] | Some a \<Rightarrow> a)"
      "sv_AggregatorHost v2 = (case aggregatorHost R net hs h2 of None \<Rightarrow> [] | Some a \<Rightarrow> a)"
      "sv_Aggregator v1 = snapshotInterval R net hs h1" "sv_Aggregator v2 = snapshotInterval R net hs h2"
    using assms(1-4) by (auto simp: statse_View_def rbind_eq_Inr)
  have same: "aggregator R net hs h1 = aggregator R net hs h2" using assms(5) by (simp add: aggregator_def)
  show ?thesis
  proof (cases "aggregator R net hs h1")
    case None
    then have "\<not> aggregating a" if "a \<in> set (config_Cluster R net hs (h_ClusterID h1))" for a
      using that by (auto simp: aggregator_def find_None_iff)
    with None same v show ?thesis by (auto simp: aggregatorHost_def snapshotInterval_def)
  next
    case (Some a)
    note a = aggregator_Some [OF Some]
    then obtain hc where hc: "hostConfig a = Some hc" by (auto simp: aggregating_def split: option.splits)
    with Some same v a show ?thesis by (auto simp: aggregatorHost_def snapshotInterval_def split: if_splits)
  qed
qed

text \<open>A cluster with an aggregator and another host, as the controller has them after its update.\<close>

definition pair_hosts :: "mod_value hosts" where
  "pair_hosts = \<lparr>hs_All =
       [\<lparr>h_ID = ''a'', h_ClusterID = ''c'', h_Tags = [''g'', ''c'', ''a''],
          h_Extra = [(raw_element ''statse'')\<lparr>el_Value := Some (MStatse \<lparr>hc_Aggregator = True, hc_Interval = ''10s''\<rparr>)\<rparr>]\<rparr>,
        \<lparr>h_ID = ''ab'', h_ClusterID = ''c'', h_Tags = [''g'', ''c'', ''ab''], h_Extra = []\<rparr>],
     hs_NS = {''g'', ''c'', ''a'', ''ab''}, hs_tags = []\<rparr>"

definition pair_net :: network_config where
  "pair_net = \<lparr>nc_restrict = [''a'', ''ab''], nc_Aggregator = None, nc_Subscriber = []\<rparr>"

lemma pair_lookup:
  "config_Host literal_lib pair_net pair_hosts ''a'' = Some (Inr (hs_All pair_hosts ! 0))"
  "config_Host literal_lib pair_net pair_hosts ''ab'' = Some (Inr (hs_All pair_hosts ! 1))"
  by (simp_all add: config_Host_def pair_hosts_def pair_net_def InScope_def literal_lib_def shortID_def)

theorem one_aggregator_witness:
  "\<exists>v1 v2. statse_View literal_lib (\<lambda>p h c. Inr []) pair_net pair_hosts ''a'' = Some (Inr v1) \<and>
     statse_View literal_lib (\<lambda>p h c. Inr []) pair_net pair_hosts ''ab'' = Some (Inr v2) \<and>
     sv_AggregatorHost v1 = ''a'' \<and> sv_AggregatorHost v1 = sv_AggregatorHost v2"
proof -
  have agg: "aggregator literal_lib pair_net pair_hosts (hs_All pair_hosts ! 0) = Some (hs_All pair_hosts ! 0)"
      "h_ID (hs_All pair_hosts ! 0) = ''a''"
    by (simp_all add: aggregator_def config_Cluster_def InScope_def literal_lib_def pair_hosts_def pair_net_def aggregating_def
        hostConfig_def raw_element_def)
  obtain v1 v2 where v: "statse_View literal_lib (\<lambda>p h c. Inr []) pair_net pair_hosts ''a'' = Some (Inr v1)"
      "statse_View literal_lib (\<lambda>p h c. Inr []) pair_net pair_hosts ''ab'' = Some (Inr v2)" "sv_AggregatorHost v1 = ''a''"
    by (simp add: statse_View_def pair_lookup aggregatorHost_def agg)
  have "h_ClusterID (hs_All pair_hosts ! 0) = h_ClusterID (hs_All pair_hosts ! 1)" by (simp add: pair_hosts_def)
  from one_aggregator [OF v(1,2) pair_lookup this] v show ?thesis by blast
qed

text \<open>
  C38: collect-statse accepts the configuration that the controller serves it. The conditions are
  on what the operator provides: at most 62 valid rules from the filter program, identifiers
  without references to a group, an aggregator that can be looked up, and an interval, if one is
  served, that is a duration of a second or more.
\<close>

theorem served_statse_accepted:
  assumes "statse_View R run net hs ident = Some (Inr v)" "config_Host R net hs ident = Some (Inr h)"
    and "run ''collect-statse'' (h_ID h) (h_ClusterID h) = Inr rules"
    and "list_all (\<lambda>r. Rule_validate R r = None) rules" "length rules \<le> 62"
    and "plain_regexes R" "ident \<noteq> []" "submatches ident = []" "submatches (h_ClusterID h) = []"
    and "se_LookupHost E (if sv_AggregatorHost v = [] then ''localhost'' else sv_AggregatorHost v)"
    and "\<exists>d \<ge> second. se_ParseDuration E (if sv_Aggregator v \<in> {None, Some []} then ''10s'' else the (sv_Aggregator v)) = Some d"
  shows "\<exists>c'. statse_Validate E R (statse_config_of v) = Some (Inr c')"
proof -
  let ?rules = "rules @ [missing_tag_rule ''host'' ident] @
      (if h_ClusterID h \<noteq> [] then [missing_tag_rule ''cluster'' (h_ClusterID h)] else [])"
  have v: "sv_Filter v = ?rules" using assms(1-3) by (auto simp: statse_View_def)
  have "list_all (\<lambda>r. Rule_validate R r = None) ?rules"
    using assms(4,6-9) by (auto intro!: missing_tag_rule_valid)
  then obtain rs where rs: "New R ?rules = Some (Inr rs)" using New_valid [of ?rules R] by auto
  let ?f = "\<lparr>fc_AggregatorHost = if sv_AggregatorHost v = [] then ''localhost'' else sv_AggregatorHost v, fc_Filter = Some ?rules\<rparr>"
  have "length ?rules \<le> statse_maxRules" using assms(5) by (simp add: statse_maxRules_def)
  then have "validateForwarder E R (sc_Forwarder (statse_config_of v)) = Some (Inr ?f)"
    using rs v assms(10)
    by (auto simp: validateForwarder_def statse_forwarder_Validate_def validateAggregatorHost_def statse_validateFilter_def
        statse_config_of_def Let_def)
  moreover have "\<exists>i. validateSnapshotInterval E (sc_SnapshotInterval (statse_config_of v)) = Inr i"
    using assms(11) by (auto simp: validateSnapshotInterval_def statse_config_of_def split: option.splits if_splits)
  ultimately show ?thesis by (auto simp: statse_Validate_def)
qed

theorem served_statse_accepted_witness:
  "\<exists>v c'. statse_View literal_lib (\<lambda>p h c. Inr []) pair_net pair_hosts ''ab'' = Some (Inr v) \<and>
     statse_Validate \<lparr>se_LookupHost = \<lambda>h. True, se_ParseDuration = \<lambda>s. Some (10 * second)\<rparr> literal_lib (statse_config_of v) = Some (Inr c')"
proof -
  obtain v where v: "statse_View literal_lib (\<lambda>p h c. Inr []) pair_net pair_hosts ''ab'' = Some (Inr v)"
    by (simp add: statse_View_def pair_lookup)
  have "\<exists>c'. statse_Validate \<lparr>se_LookupHost = \<lambda>h. True, se_ParseDuration = \<lambda>s. Some (10 * second)\<rparr> literal_lib (statse_config_of v) = Some (Inr c')"
    by (rule served_statse_accepted [OF v pair_lookup(2), where rules = "[]"])
      (simp_all add: plain_regexes_def literal_lib_def submatch_here_def pair_hosts_def second_def)
  with v show ?thesis by blast
qed

section \<open>The modules together\<close>

lemma jmx_Update_extra:
  assumes "jmx_Update X c = Inr c'" "\<forall>e \<in> set (cf_Extra c). el_Value e = None"
  shows "\<forall>e \<in> set (cf_Extra c'). el_Value e = None \<or> is_group e"
proof
  fix e assume e: "e \<in> set (cf_Extra c')"
  obtain c1 es where "update_groups X c1 {} (cf_Extra c1) = Inr es" "cf_Extra c1 = cf_Extra c" "c' = c1\<lparr>cf_Extra := es\<rparr>"
    using assms(1) by (auto simp: jmx_Update_def updateHost_def updateGlobal_def UpdateHost_def rbind_eq_Inr Let_def split: if_splits)
  with update_groups_valid [of X c1 "{}" "cf_Extra c1" es e] e assms(2) show "el_Value e = None \<or> is_group e"
    by (auto simp: is_group_def)
qed

lemma statse_Update_extra: "statse_Update X c = Inr c' \<Longrightarrow> cf_Extra c' = cf_Extra c"
  by (auto simp: statse_Update_def UpdateHost_def rbind_eq_Inr)

lemma supported_None: "supported es = None \<longleftrightarrow> (\<forall>e \<in> set es. el_Value e \<noteq> None)"
  by (induction es) (auto split: option.splits)

text \<open>
  Once the controller has accepted its configuration file, with the modules it has, every
  top-level element is a query group, and so no request of collect-jmx makes it panic.
\<close>

theorem decoded_jmx_total:
  assumes "Decode_config (controller_modules X) self f groups net fpath extra = Inr c"
    "\<forall>e \<in> set extra. el_Value e = None" "cf_Network c = Some n" "nc_restrict n \<noteq> []"
  shows "list_all is_group (cf_Extra c) \<and> (\<exists>r. jmx_View R n c (ident, process) = Some r)"
proof -
  obtain c0 c1 c2 where u: "cf_Extra c0 = extra" "jmx_Update X c0 = Inr c1" "statse_Update X c1 = Inr c2"
      "supported (cf_Extra c2) = None" "cf_Extra c = cf_Extra c2"
  proof -
    from assms(1) obtain hs where hs: "addGroups groups emptyHosts = Inr hs"
      by (auto simp: Decode_config_def rbind_eq_Inr)
    let ?c0 = "validateFilter \<lparr>cf_Hosts = hs\<lparr>hs_tags := []\<rparr>, cf_Network = net, cf_FilterPath = fpath, cf_Extra = extra\<rparr>"
    from assms(1) hs obtain c2 where c2: "validateExtra (controller_modules X) ?c0 = Inr c2" "validateNetwork self f c2 = Inr c"
      by (auto simp: Decode_config_def rbind_eq_Inr)
    from c2(1) obtain c1 where "jmx_Update X ?c0 = Inr c1" "statse_Update X c1 = Inr c2" "supported (cf_Extra c2) = None"
      by (auto simp: validateExtra_def controller_modules_def rbind_eq_Inr split: option.splits)
    moreover have "cf_Extra c = cf_Extra c2" using c2(2) by (auto simp: validateNetwork_def rbind_eq_Inr split: option.splits)
    moreover have "cf_Extra ?c0 = extra" by (simp add: validateFilter_def)
    ultimately show thesis by (intro that)
  qed
  have g: "list_all is_group (cf_Extra c)"
    using jmx_Update_extra [OF u(2)] u(1,4,5) statse_Update_extra [OF u(3)] assms(2)
    by (fastforce simp: list_all_iff supported_None)
  have "config_Host R n (cf_Hosts c) ident \<noteq> None"
    using assms(4) by (auto simp: config_Host_def InScope_def Let_def split: prod.splits option.splits bool.splits)
  then consider e where "config_Host R n (cf_Hosts c) ident = Some (Inl e)" | h where "config_Host R n (cf_Hosts c) ident = Some (Inr h)"
    by (metis option.exhaust sum.exhaust)
  then show ?thesis
  proof cases
    case 1
    with g show ?thesis by (simp add: jmx_View_def)
  next
    case 2
    obtain hq where "hostQueries h c = Some hq" using matching_queries_groups [OF g] unfolding hostQueries_def by blast
    moreover obtain pq where "processQueries h c process = Some pq"
      using matching_queries_groups [OF g, of "[process]"] unfolding processQueries_def by (cases "hasProcess h process") auto
    ultimately show ?thesis using g 2 by (simp add: jmx_View_def)
  qed
qed

end
