(* ===== verification/Http.thy ===== *)
theory Http
  imports Load StatseControl
begin

text \<open>
  Between the programs and the controller: the requests of \<^verbatim>\<open>internal/config/load.go\<close>
  (\<^verbatim>\<open>Load\<close>, \<^verbatim>\<open>Next\<close>, the URL, the attempts over TLS and without it) and the handlers of
  \<^verbatim>\<open>cmd/tsp-controller\<close> that answer them (\<^verbatim>\<open>control/control.go\<close>,
  \<^verbatim>\<open>config/validate.go\<close>, and \<^verbatim>\<open>Handle\<close>, \<^verbatim>\<open>ServeHTTP\<close> of the modules).

  Of the library, the parts in use are modelled: parsing of query strings, cleaning of rooted
  paths, the template action \<^verbatim>\<open>{{.Hostname}}\<close>, the limited reader, and the way of a URL: its text
  (\<^verbatim>\<open>URL.String\<close>), which \<^verbatim>\<open>http.Client.Get\<close> parses again and writes as a request line, which the server
  splits at blanks and parses once more. What a request meets on the network is a function of the text of
  its URL; encoding a view as JSON is a parameter.

  What is proved: the request of a program reaches the handler that is meant for it, and the
  handler reads from it the program and the host name; the program gets the payload if and only if
  there is a view; a connection is left open after each refused request; \<^verbatim>\<open>Load\<close> and
  \<^verbatim>\<open>Next\<close> return as documented, and \<^verbatim>\<open>Next\<close> only with a new payload; line numbers in
  errors are those of the file; and at most ten validations run at a time.
\<close>

section \<open>Query strings\<close>

definition unhex :: "char \<Rightarrow> nat option" where
  "unhex c =
     (if is_digit c then Some (ord c - 48)
      else if 97 \<le> ord c \<and> ord c \<le> 102 then Some (ord c - 87)
      else if 65 \<le> ord c \<and> ord c \<le> 70 then Some (ord c - 55)
      else None)"

fun QueryUnescape :: "bytes \<Rightarrow> bytes option" where
  "QueryUnescape [] = Some []"
| "QueryUnescape (c # cs) =
     (if c = CHR ''%'' then
        (case cs of
           a # b # rest \<Rightarrow>
             (case (unhex a, unhex b) of
                (Some x, Some y) \<Rightarrow> map_option ((#) (char_of (16 * x + y))) (QueryUnescape rest)
              | _ \<Rightarrow> None)
         | _ \<Rightarrow> None)
      else map_option ((#) (if c = CHR ''+'' then CHR '' '' else c)) (QueryUnescape cs))"

text \<open>\<^verbatim>\<open>url.ParseQuery\<close>: parameters that cannot be unescaped are left out.\<close>

fun split_params :: "bytes \<Rightarrow> bytes list" where
  "split_params [] = [[]]"
| "split_params (c # cs) =
     (if c = CHR ''&'' \<or> c = CHR '';'' then [] # split_params cs
      else case split_params cs of [] \<Rightarrow> [[c]] | w # ws \<Rightarrow> (c # w) # ws)"

definition parse_param :: "bytes \<Rightarrow> (bytes \<times> bytes) option" where
  "parse_param s =
     (if s = [] then None
      else let (key, val) = (case index_byte s (CHR ''='') of None \<Rightarrow> (s, []) | Some i \<Rightarrow> (take i s, drop (i + 1) s))
           in Option.bind (QueryUnescape key) (\<lambda>key. map_option (Pair key) (QueryUnescape val)))"

definition add_param :: "bytes \<times> bytes \<Rightarrow> (bytes \<times> bytes list) list \<Rightarrow> (bytes \<times> bytes list) list" where
  "add_param = (\<lambda>(key, val) m. AList.update key (case map_of m key of None \<Rightarrow> [val] | Some vs \<Rightarrow> vs @ [val]) m)"

definition ParseQuery :: "bytes \<Rightarrow> (bytes \<times> bytes list) list" where
  "ParseQuery q = fold add_param (List.map_filter parse_param (split_params q)) []"

section \<open>The handlers of the controller\<close>

text \<open>The answer to a request; after a panic the library closes the connection.\<close>

datatype 'v response = Answer 'v | HttpError nat | Aborted

definition internalError :: "ctl_error \<Rightarrow> bool" where
  "internalError e = (case e of FilterRun _ \<Rightarrow> True | _ \<Rightarrow> False)"

definition ServeHTTP :: "ctl_error + 'k \<Rightarrow> ('k \<Rightarrow> (ctl_error + 'v) option) \<Rightarrow> 'v response" where
  "ServeHTTP key view =
     (case key of
        Inl e \<Rightarrow> HttpError 400
      | Inr k \<Rightarrow>
          (case view k of
             None \<Rightarrow> Aborted
           | Some (Inl e) \<Rightarrow> HttpError (if internalError e then 500 else 400)
           | Some (Inr v) \<Rightarrow> Answer v))"

datatype route = TspRoute | JmxRoute | StatseRoute | ValidateRoute

definition tsp_Handle :: "(bytes \<times> route) list" where
  "tsp_Handle = map (\<lambda>p. (p, TspRoute))
     [''/control/v1/tsp-forwarder'', ''/control/v1/tsp-aggregator'', ''/control/v1/tsp-poller'',
      ''/control/v1/tsdb-forwarder'', ''/control/v1/tsdb-aggregator'', ''/control/v1/tsdb-poller'']"

definition jmx_Handle :: "(bytes \<times> route) list" where
  "jmx_Handle = map (\<lambda>p. (p, JmxRoute)) [''/control/v1/collect-jmx'', ''/config/betex'', ''/config/jmx'']"

definition statse_Handle :: "(bytes \<times> route) list" where
  "statse_Handle = [(''/control/v1/collect-statse'', StatseRoute)]"

definition validate_init :: "(bytes \<times> route) list" where
  "validate_init = [(''/config/v1/validate'', ValidateRoute), (''/config/validate'', ValidateRoute)]"

text \<open>\<^verbatim>\<open>ListenAndServe\<close>: the handlers of all modules, in the order of their registration.\<close>

definition routes :: "(bytes \<times> route) list" where
  "routes = validate_init @ jmx_Handle @ statse_Handle @ tsp_Handle"

datatype served = TspView view | JmxView jmx_view | StatseView statse_view | ValidateText bytes

text \<open>\<^verbatim>\<open>handler.Validate\<close>, with the outcome of decoding the body.\<close>

definition Validate_request :: "bytes \<Rightarrow> bytes option \<Rightarrow> served response" where
  "Validate_request meth err =
     (if meth \<noteq> ''PUT'' then HttpError 400
      else Answer (ValidateText (case err of Some e \<Rightarrow> e | None \<Rightarrow> ''ok'')))"

record controller =
  ct_regex :: regexlib
  ct_filter :: filter_program
  ct_net :: network_config
  ct_config :: "mod_value config"
  ct_validate :: "bytes \<Rightarrow> bytes option"   \<comment> \<open>the error that \<^verbatim>\<open>Decode\<close> has for a body\<close>

definition serve_path :: "controller \<Rightarrow> bytes \<Rightarrow> bytes \<Rightarrow> bytes \<Rightarrow> bytes \<Rightarrow> served response" where
  "serve_path ct meth p rawQuery body =
     (let query = ParseQuery rawQuery; hs = cf_Hosts (ct_config ct) in
      case map_of routes p of
        None \<Rightarrow> HttpError 404
      | Some TspRoute \<Rightarrow>
          map_response TspView (ServeHTTP (parseKey p query) (View (ct_regex ct) (ct_filter ct) (ct_net ct) hs))
      | Some JmxRoute \<Rightarrow>
          map_response JmxView (ServeHTTP (jmx_parseKey query) (jmx_View (ct_regex ct) (ct_net ct) (ct_config ct)))
      | Some StatseRoute \<Rightarrow>
          map_response StatseView (ServeHTTP (statse_parseKey query) (statse_View (ct_regex ct) (ct_filter ct) (ct_net ct) hs))
      | Some ValidateRoute \<Rightarrow> Validate_request meth (ct_validate ct body))"

section \<open>The request of a program\<close>

record ctl_client =
  cc_addr :: bytes
  cc_path :: bytes

record url =
  u_Scheme :: bytes
  u_Host :: bytes
  u_Path :: bytes
  u_RawQuery :: bytes

text \<open>\<^verbatim>\<open>path.Join\<close> with a rooted first part: the elements of the path without the empty ones.\<close>

definition clean_elem :: "bytes \<Rightarrow> bytes list \<Rightarrow> bytes list" where
  "clean_elem e out = (if e = [] \<or> e = ''.'' then out else if e = ''..'' then butlast out else out @ [e])"

definition path_Join :: "bytes \<Rightarrow> bytes \<Rightarrow> bytes" where
  "path_Join root p =
     (let out = fold clean_elem (split_byte (CHR ''/'') (root @ ''/'' @ p)) [] in
      if out = [] then ''/'' else concat (map ((#) (CHR ''/'')) out))"

text \<open>
  \<^verbatim>\<open>expand\<close> on templates with the action \<^verbatim>\<open>{{.Hostname}}\<close> only, as the programs have them;
  \<^const>\<open>None\<close> is the panic on anything else between braces.
\<close>

definition hostname_action :: bytes where "hostname_action = ''{{.Hostname}}''"

function expand :: "bytes \<Rightarrow> bytes \<Rightarrow> bytes option" where
  "expand hostname s =
     (if s = [] then Some []
      else if has_prefix s hostname_action then map_option ((@) hostname) (expand hostname (drop (length hostname_action) s))
      else if has_prefix s ''{{'' then None
      else map_option ((#) (hd s)) (expand hostname (tl s)))"
  by pat_completeness auto
termination by (relation "measure (\<lambda>(h, s). length s)") (auto simp: hostname_action_def)

declare expand.simps [simp del]

text \<open>
  \<^verbatim>\<open>URL.String\<close> and \<^verbatim>\<open>url.Parse\<close>. In a path, some bytes are escaped; a query is copied as it is.
  Parsing cuts off the fragment first, then takes the scheme, the query, the authority without
  the user, and the path. A URL that is not rooted is no request to a server.
\<close>

definition unreserved :: "char \<Rightarrow> bool" where
  "unreserved c \<longleftrightarrow> is_digit c \<or> 97 \<le> ord c \<and> ord c \<le> 122 \<or> 65 \<le> ord c \<and> ord c \<le> 90 \<or>
     c \<in> {CHR ''-'', CHR ''_'', CHR ''.'', CHR ''~''}"

definition path_byte :: "char \<Rightarrow> bool" where
  "path_byte c \<longleftrightarrow> unreserved c \<or> c \<in> set ''$&+,/:;=@''"

definition upper_hex :: "nat \<Rightarrow> char" where "upper_hex n = char_of (if n < 10 then 48 + n else 55 + n)"

fun path_escape :: "bytes \<Rightarrow> bytes" where
  "path_escape [] = []"
| "path_escape (c # cs) = (if path_byte c then [c] else [CHR ''%'', upper_hex (ord c div 16), upper_hex (ord c mod 16)]) @ path_escape cs"

fun path_unescape :: "bytes \<Rightarrow> bytes option" where
  "path_unescape [] = Some []"
| "path_unescape (c # cs) =
     (if c = CHR ''%'' then
        (case cs of
           a # b # rest \<Rightarrow>
             (case (unhex a, unhex b) of
                (Some x, Some y) \<Rightarrow> map_option ((#) (char_of (16 * x + y))) (path_unescape rest)
              | _ \<Rightarrow> None)
         | _ \<Rightarrow> None)
      else map_option ((#) c) (path_unescape cs))"

definition query_part :: "bytes \<Rightarrow> bytes" where
  "query_part q = (if q = [] then [] else CHR ''?'' # q)"

definition url_String :: "url \<Rightarrow> bytes" where
  "url_String u =
     u_Scheme u @ ''://'' @ u_Host u @
     (if u_Path u \<noteq> [] \<and> hd (u_Path u) \<noteq> CHR ''/'' \<and> u_Host u \<noteq> [] then ''/'' else []) @
     path_escape (u_Path u) @ query_part (u_RawQuery u)"

definition scheme_byte :: "char \<Rightarrow> bool" where
  "scheme_byte c \<longleftrightarrow> is_digit c \<or> 97 \<le> ord c \<and> ord c \<le> 122 \<or> 65 \<le> ord c \<and> ord c \<le> 90 \<or> c \<in> set ''+-.''"

definition getscheme :: "bytes \<Rightarrow> (bytes \<times> bytes) option" where
  "getscheme s =
     (let w = takeWhile scheme_byte s; rest = drop (length w) s in
      if w \<noteq> [] \<and> (is_digit (hd w) \<or> hd w \<in> set ''+-.'') then Some ([], s)
      else if rest = [] \<or> hd rest \<noteq> CHR '':'' then Some ([], s)
      else if w = [] then None
      else Some (map (\<lambda>c. if 65 \<le> ord c \<and> ord c \<le> 90 then char_of (ord c + 32) else c) w, tl rest))"

definition url_Parse :: "bytes \<Rightarrow> url option" where
  "url_Parse s =
     Option.bind (getscheme (fst (cut (CHR ''#'') s))) (\<lambda>(scheme, rest).
       let (rest, q) = cut (CHR ''?'') rest in
       if \<not> has_prefix rest ''/'' then None
       else
         let (authority, p) =
           (if has_prefix rest ''//''
            then let r = drop 2 rest in (takeWhile (\<lambda>c. c \<noteq> CHR ''/'') r, dropWhile (\<lambda>c. c \<noteq> CHR ''/'') r)
            else ([], rest));
           host = (case last_index authority (CHR ''@'') of None \<Rightarrow> authority | Some i \<Rightarrow> drop (i + 1) authority)
         in map_option (\<lambda>p. \<lparr>u_Scheme = scheme, u_Host = host, u_Path = p, u_RawQuery = q\<rparr>) (path_unescape p))"

text \<open>
  The request line that \<^verbatim>\<open>Get\<close> writes for a URL, and how the server reads it: the text up to the
  end of the line, split at the first two blanks, and the URI without a fragment.
\<close>

definition request_line :: "url \<Rightarrow> bytes" where
  "request_line u =
     ''GET '' @ (if u_Path u = [] then ''/'' else path_escape (u_Path u)) @ query_part (u_RawQuery u) @ '' HTTP/1.1'' @ [CHR 0x0D, CHR 0x0A]"

definition parseRequestLine :: "bytes \<Rightarrow> (bytes \<times> bytes \<times> bytes) option" where
  "parseRequestLine text =
     (let line = takeWhile (\<lambda>c. c \<noteq> CHR 0x0A) text;
          line = (if line \<noteq> [] \<and> last line = CHR 0x0D then butlast line else line) in
      case index_byte line (CHR '' '') of
        None \<Rightarrow> None
      | Some i \<Rightarrow>
          let rest = drop (i + 1) line in
          (case index_byte rest (CHR '' '') of
             None \<Rightarrow> None
           | Some j \<Rightarrow> Some (take i line, take j rest, drop (j + 1) rest)))"

definition ParseRequestURI :: "bytes \<Rightarrow> (bytes \<times> bytes) option" where
  "ParseRequestURI uri =
     (if \<not> has_prefix uri ''/'' then None
      else let (p, q) = cut (CHR ''?'') uri in map_option (\<lambda>p. (p, q)) (path_unescape p))"

text \<open>\<^verbatim>\<open>requestURL\<close>, which returns the text; the slice expression panics on a path without query.\<close>

definition requestURL :: "bytes \<Rightarrow> ctl_client \<Rightarrow> bytes \<Rightarrow> bytes option" where
  "requestURL hostname c scheme =
     (case index_byte (cc_path c) (CHR ''?'') of
        None \<Rightarrow> None
      | Some i \<Rightarrow>
          map_option (\<lambda>q. url_String \<lparr>u_Scheme = scheme, u_Host = cc_addr c,
              u_Path = path_Join ''/control/v1'' (take i (cc_path c)), u_RawQuery = q\<rparr>)
            (expand hostname (drop (i + 1) (cc_path c))))"

text \<open>What a request meets: an error of the network, or a status and a body, which may break off.\<close>

datatype http_result = NetError | Response nat bytes bool

definition StatusOK :: nat where "StatusOK = 200"
definition maxBytes :: nat where "maxBytes = 1048576"

text \<open>The loop of \<^verbatim>\<open>getPlainOrTLS\<close>, with the number of bodies it leaves open.\<close>

fun first_ok :: "(bytes \<Rightarrow> http_result) \<Rightarrow> bytes list \<Rightarrow> (bytes \<times> bool) option \<times> nat" where
  "first_ok http [] = (None, 0)"
| "first_ok http (u # us) =
     (case http u of
        NetError \<Rightarrow> first_ok http us
      | Response status body whole \<Rightarrow>
          if status \<noteq> StatusOK then (let (r, n) = first_ok http us in (r, n + 1)) else (Some (body, whole), 0))"

definition getPlainOrTLS :: "(bytes \<Rightarrow> http_result) \<Rightarrow> bytes \<Rightarrow> ctl_client \<Rightarrow> ((bytes \<times> bool) option \<times> nat) option" where
  "getPlainOrTLS http hostname c =
     (case (requestURL hostname c ''https'', requestURL hostname c ''http'') of
        (Some a, Some b) \<Rightarrow> Some (first_ok http [a, b])
      | _ \<Rightarrow> None)"

text \<open>
  \<^verbatim>\<open>get\<close>: the payload up to the limit of the reader, and the number of bodies left open. An
  error of the body matters only if the reader gets to it.
\<close>

definition read_limited :: "bytes \<times> bool \<Rightarrow> bytes option" where
  "read_limited = (\<lambda>(body, whole). if \<not> whole \<and> length body < maxBytes then None else Some (take maxBytes body))"

definition http_get :: "(bytes \<Rightarrow> http_result) \<Rightarrow> bytes \<Rightarrow> ctl_client \<Rightarrow> (bytes option \<times> nat) option" where
  "http_get http hostname c =
     map_option (\<lambda>(resp, open). (Option.bind resp read_limited, open)) (getPlainOrTLS http hostname c)"

text \<open>The server paths of the programs.\<close>

definition programs :: "bytes list" where
  "programs = [''tsp-forwarder'', ''tsp-poller'', ''tsp-aggregator'', ''collect-statse'']"

definition server_path :: "bytes \<Rightarrow> bytes" where
  "server_path prog = prog @ ''?host={{.Hostname}}''"

text \<open>
  What a request for a URL meets when the controller listens at an address: it does not speak TLS;
  a request line that cannot be read is answered with an error.
\<close>

definition serve_text :: "controller \<Rightarrow> (served \<Rightarrow> bytes) \<Rightarrow> (nat \<Rightarrow> bytes) \<Rightarrow> bytes \<Rightarrow> http_result" where
  "serve_text ct marshal errtext text =
     (case parseRequestLine text of
        Some (meth, uri, proto) \<Rightarrow>
          (case ParseRequestURI uri of
             Some (p, q) \<Rightarrow>
               if proto \<noteq> ''HTTP/1.1'' then Response 400 (errtext 400) True
               else (case serve_path ct meth p q [] of
                 Answer v \<Rightarrow> Response StatusOK (marshal v) True
               | HttpError n \<Rightarrow> Response n (errtext n) True
               | Aborted \<Rightarrow> NetError)
           | None \<Rightarrow> Response 400 (errtext 400) True)
      | None \<Rightarrow> Response 400 (errtext 400) True)"

definition controller_http :: "controller \<Rightarrow> (served \<Rightarrow> bytes) \<Rightarrow> (nat \<Rightarrow> bytes) \<Rightarrow> bytes \<Rightarrow> bytes \<Rightarrow> http_result" where
  "controller_http ct marshal errtext addr text =
     (case url_Parse text of
        None \<Rightarrow> NetError
      | Some u \<Rightarrow>
          if u_Scheme u \<noteq> ''http'' \<or> u_Host u \<noteq> addr then NetError else serve_text ct marshal errtext (request_line u))"

text \<open>What the controller has for a host and a program.\<close>

definition program_view :: "controller \<Rightarrow> bytes \<Rightarrow> bytes \<Rightarrow> (ctl_error + served) option" where
  "program_view ct prog h =
     (if prog = ''collect-statse''
      then map_option (map_sum id StatseView) (statse_View (ct_regex ct) (ct_filter ct) (ct_net ct) (cf_Hosts (ct_config ct)) h)
      else map_option (map_sum id TspView) (View (ct_regex ct) (ct_filter ct) (ct_net ct) (cf_Hosts (ct_config ct)) (prog, h)))"

section \<open>Files and errors\<close>

datatype file_outcome = Missing | Unopenable | Unreadable | Contents bytes

datatype offset_error = SyntaxAt nat | OtherJson

datatype decode_failure = FileError | AtLine nat offset_error | JsonError offset_error

definition addLineNum :: "offset_error \<Rightarrow> bytes \<Rightarrow> decode_failure" where
  "addLineNum err buf =
     (case err of
        OtherJson \<Rightarrow> JsonError err
      | SyntaxAt offset \<Rightarrow>
          let start = (case last_index (take offset buf) (CHR 0x0A) of None \<Rightarrow> 0 | Some i \<Rightarrow> i + 1);
              num = count_list (take start buf) (CHR 0x0A) + 1
          in AtLine num err)"

definition config_unmarshal :: "(bytes \<Rightarrow> 'c \<Rightarrow> offset_error + 'c) \<Rightarrow> bytes \<Rightarrow> 'c \<Rightarrow> decode_failure + 'c" where
  "config_unmarshal json buf c = rmap_err (\<lambda>err. addLineNum err buf) (json buf c)"

definition decodeFile :: "(bytes \<Rightarrow> 'c \<Rightarrow> offset_error + 'c) \<Rightarrow> file_outcome \<Rightarrow> 'c \<Rightarrow> decode_failure + 'c" where
  "decodeFile json f c =
     (case f of
        Missing \<Rightarrow> Inr c
      | Unopenable \<Rightarrow> Inl FileError
      | Unreadable \<Rightarrow> Inl FileError
      | Contents buf \<Rightarrow> config_unmarshal json buf c)"

text \<open>The loader of a program whose environments say what reading the file meets.\<close>

definition file_loader :: "(bytes \<Rightarrow> 'c \<Rightarrow> offset_error + 'c) \<Rightarrow> ('e \<Rightarrow> file_outcome) \<Rightarrow> ('c, 'e) loader \<Rightarrow> ('c, 'e) loader" where
  "file_loader json file ld =
     ld\<lparr>ld_decodeFile := (\<lambda>e c. case decodeFile json (file e) c of Inl _ \<Rightarrow> None | Inr c \<Rightarrow> Some c)\<rparr>"

section \<open>Load and Next\<close>

text \<open>
  The variables of the package: the paths that were saved, and the client of the control server
  with the payload it handed out last.
\<close>

record globals =
  gl_saved :: "(bytes \<times> bytes) option"
  gl_defaultClient :: "bytes option option"

datatype 'c outcome = Panics | Exits | Blocks | Returns 'c globals "bytes option list"

definition dial_last :: "globals \<Rightarrow> bytes option" where
  "dial_last g = (case gl_defaultClient g of None \<Rightarrow> None | Some prev \<Rightarrow> prev)"

definition run_load :: "('c, 'e) loader \<Rightarrow> bytes \<Rightarrow> bytes \<Rightarrow> 'e list \<Rightarrow> bytes option list \<Rightarrow> globals \<Rightarrow> 'c outcome" where
  "run_load ld filePath serverPath es gets g =
     (case load ld (filePath \<noteq> []) (serverPath \<noteq> []) es (dial_last g) gets of
        Exit \<Rightarrow> Exits
      | Blocked \<Rightarrow> Blocks
      | Loaded c prev gets \<Rightarrow>
          Returns c (if serverPath \<noteq> [] then g\<lparr>gl_defaultClient := Some prev\<rparr> else g) gets)"

definition Load_config ::
  "('c, 'e) loader \<Rightarrow> bytes \<Rightarrow> bytes \<Rightarrow> bytes \<Rightarrow> 'e list \<Rightarrow> bytes option list \<Rightarrow> globals \<Rightarrow> 'c outcome" where
  "Load_config ld control_host filePath serverPath es gets g =
     (if gl_saved g \<noteq> None then Panics
      else let serverPath = (if serverPath \<noteq> [] \<and> control_host = [] then [] else serverPath)
           in run_load ld filePath serverPath es gets (g\<lparr>gl_saved := Some (filePath, serverPath)\<rparr>))"

definition Next_config :: "('c, 'e) loader \<Rightarrow> 'e list \<Rightarrow> bytes option list \<Rightarrow> globals \<Rightarrow> 'c outcome" where
  "Next_config ld es gets g =
     (case gl_saved g of
        None \<Rightarrow> Panics
      | Some (filePath, serverPath) \<Rightarrow>
          if serverPath = [] then Blocks else run_load ld filePath serverPath es gets g)"

section \<open>The limit on validations\<close>

text \<open>Requests that wait for a place of \<^verbatim>\<open>validateJobLimit\<close>, and those that have one.\<close>

record validate_sem =
  vs_waiting :: nat
  vs_running :: nat

definition validateJobLimit :: nat where "validateJobLimit = 10"

inductive validate_step :: "validate_sem \<Rightarrow> validate_sem \<Rightarrow> bool" where
  request: "validate_step s (s\<lparr>vs_waiting := vs_waiting s + 1\<rparr>)"
| Wait: "0 < vs_waiting s \<Longrightarrow> vs_running s < validateJobLimit \<Longrightarrow>
    validate_step s (s\<lparr>vs_waiting := vs_waiting s - 1, vs_running := vs_running s + 1\<rparr>)"
| Done: "0 < vs_running s \<Longrightarrow> validate_step s (s\<lparr>vs_running := vs_running s - 1\<rparr>)"

interpretation val: stepping validate_step "\<lambda>s. vs_running s \<le> validateJobLimit"
proof unfold_locales
  show "vs_running t \<le> validateJobLimit" if "validate_step s t" "vs_running s \<le> validateJobLimit" for s t
    using that by (induction rule: validate_step.induct) auto
qed

lemma validations_limited:
  assumes "validate_step\<^sup>*\<^sup>* \<lparr>vs_waiting = 0, vs_running = 0\<rparr> s"
  shows "vs_running s \<le> 10"
  using val.run_inv [OF assms] by (simp add: validateJobLimit_def)

section \<open>Requests\<close>

lemma QueryUnescape_plain: "CHR ''%'' \<notin> set s \<Longrightarrow> CHR ''+'' \<notin> set s \<Longrightarrow> QueryUnescape s = Some s"
  by (induction s) auto

lemma split_params_plain: "CHR ''&'' \<notin> set s \<Longrightarrow> CHR '';'' \<notin> set s \<Longrightarrow> split_params s = [s]"
  by (induction s) auto

lemma host_query:
  assumes "set h \<inter> set ''%+&;'' = {}"
  shows "ParseQuery (''host='' @ h) = [(''host'', [h])]"
proof -
  have "split_params (''host='' @ h) = [''host='' @ h]" using assms by (intro split_params_plain) auto
  moreover have "parse_param (''host='' @ h) = Some (''host'', h)"
    using assms QueryUnescape_plain [of h] by (simp add: parse_param_def QueryUnescape_plain)
  ultimately show ?thesis by (simp add: ParseQuery_def List.map_filter_simps add_param_def)
qed

lemma expand_host: "expand h ''host={{.Hostname}}'' = Some (''host='' @ h)"
  by (simp add: expand.simps hostname_action_def)

lemma upper_hex_unhex: "n < 16 \<Longrightarrow> unhex (upper_hex n) = Some n"
  by (auto simp: unhex_def upper_hex_def is_digit_def ord_def)

lemma char_of_nibbles: "char_of (16 * (ord c div 16) + ord c mod 16) = c"
  by (simp add: ord_def)

text \<open>A path survives its escaping, and an escaped path has no delimiters of a URL or a request line.\<close>

lemma path_unescape_escape: "path_unescape (path_escape p) = Some p"
proof (induction p)
  case (Cons c p)
  have n: "ord c div 16 < 16" "ord c mod 16 < 16" using ord_less [of c] by (simp_all add: div_less_iff_less_mult)
  have "c \<noteq> CHR ''%''" if "path_byte c" using that by (auto simp: path_byte_def unreserved_def is_digit_def ord_def)
  then show ?case using Cons n upper_hex_unhex char_of_nibbles [of c] by auto
qed simp

lemma path_escape_bytes: "c \<in> set (path_escape p) \<Longrightarrow> path_byte c \<or> c = CHR ''%''"
proof (induction p)
  case (Cons a p)
  have "path_byte (upper_hex n)" if "n < 16" for n
    using that by (auto simp: path_byte_def unreserved_def upper_hex_def is_digit_def ord_def)
  moreover have "ord a div 16 < 16" "ord a mod 16 < 16" using ord_less [of a] by (simp_all add: div_less_iff_less_mult)
  ultimately show ?case using Cons by (auto split: if_splits)
qed simp

lemma path_escape_delims: "set (path_escape p) \<inter> {CHR ''?'', CHR ''#'', CHR '' '', CHR 0x0A, CHR 0x0D} = {}"
proof -
  have "\<not> path_byte c \<and> c \<noteq> CHR ''%''" if "c \<in> {CHR ''?'', CHR ''#'', CHR '' '', CHR 0x0A, CHR 0x0D}" for c
    using that by (auto simp: path_byte_def unreserved_def is_digit_def ord_def)
  then show ?thesis using path_escape_bytes [of _ p] by blast
qed

lemma cut_sep: "c \<notin> set s \<Longrightarrow> cut c (s @ c # t) = (s, t)" "c \<notin> set s \<Longrightarrow> cut c s = (s, [])"
  by (simp_all add: cut_def)

lemma cut_query: "CHR ''?'' \<notin> set s \<Longrightarrow> cut (CHR ''?'') (s @ query_part q) = (s, q)"
  by (simp add: query_part_def cut_sep)

text \<open>The text of a URL is parsed to this URL, if the host has no delimiters and the query no fragment.\<close>

definition host_ok :: "bytes \<Rightarrow> bool" where
  "host_ok h \<longleftrightarrow> set h \<inter> set ''/?#@'' = {}"

lemma last_index_None: "c \<notin> set s \<Longrightarrow> last_index s c = None"
  by (induction s) auto

lemma url_Parse_String:
  assumes "u_Scheme u \<in> {''http'', ''https''}" "host_ok (u_Host u)" "has_prefix (u_Path u) ''/''" "CHR ''#'' \<notin> set (u_RawQuery u)"
  shows "url_Parse (url_String u) = Some u"
proof -
  let ?p = "path_escape (u_Path u)"
  obtain p where p: "u_Path u = CHR ''/'' # p" using assms(3) by (cases "u_Path u") auto
  have d: "CHR ''?'' \<notin> set ?p" "CHR ''#'' \<notin> set ?p" using path_escape_delims [of "u_Path u"] by auto
  have h: "CHR ''/'' \<notin> set (u_Host u)" "CHR ''?'' \<notin> set (u_Host u)" "CHR ''#'' \<notin> set (u_Host u)" "CHR ''@'' \<notin> set (u_Host u)"
    using assms(2) by (auto simp: host_ok_def)
  have s: "url_String u = u_Scheme u @ ''://'' @ u_Host u @ ?p @ query_part (u_RawQuery u)" by (simp add: url_String_def p)
  have "CHR ''#'' \<notin> set (url_String u)" using assms(1,4) d h unfolding s by (auto simp: query_part_def)
  then have "fst (cut (CHR ''#'') (url_String u)) = url_String u" by (simp add: cut_sep)
  moreover have "getscheme (url_String u) = Some (u_Scheme u, ''//'' @ u_Host u @ ?p @ query_part (u_RawQuery u))"
    using assms(1) unfolding s by (auto simp: getscheme_def scheme_byte_def is_digit_def ord_def)
  moreover have "cut (CHR ''?'') (''//'' @ u_Host u @ ?p @ query_part (u_RawQuery u)) = (''//'' @ u_Host u @ ?p, u_RawQuery u)"
    using cut_query [of "''//'' @ u_Host u @ ?p"] d h by simp
  moreover have "takeWhile (\<lambda>c. c \<noteq> CHR ''/'') (u_Host u @ ?p) = u_Host u" "dropWhile (\<lambda>c. c \<noteq> CHR ''/'') (u_Host u @ ?p) = ?p"
    using h(1) p by (auto simp: path_byte_def takeWhile_append dropWhile_append)
  ultimately show ?thesis
    using path_unescape_escape [of "u_Path u"] last_index_None [OF h(4)] by (cases u) (simp add: url_Parse_def)
qed

lemma parseRequestLine_words:
  assumes "CHR '' '' \<notin> set a" "CHR '' '' \<notin> set b" "CHR 0x0A \<notin> set a \<union> set b \<union> set c"
  shows "parseRequestLine (a @ CHR '' '' # b @ CHR '' '' # c @ [CHR 0x0D, CHR 0x0A]) = Some (a, b, c)"
proof -
  let ?line = "a @ CHR '' '' # b @ CHR '' '' # c"
  have "\<forall>x \<in> set (?line @ [CHR 0x0D]). x \<noteq> CHR 0x0A" using assms(3) by auto
  then have "takeWhile (\<lambda>x. x \<noteq> CHR 0x0A) ((?line @ [CHR 0x0D]) @ [CHR 0x0A]) = ?line @ [CHR 0x0D]"
    by (subst takeWhile_append2) auto
  then have line: "takeWhile (\<lambda>x. x \<noteq> CHR 0x0A) (a @ CHR '' '' # b @ CHR '' '' # c @ [CHR 0x0D, CHR 0x0A]) = ?line @ [CHR 0x0D]" by simp
  have "last (?line @ [CHR 0x0D]) = CHR 0x0D" "butlast (?line @ [CHR 0x0D]) = ?line" by (simp_all only: last_snoc butlast_snoc)
  with line assms(1,2) show ?thesis unfolding parseRequestLine_def Let_def line by simp
qed

text \<open>The server reads the path and the query from the request line, if the query has no blanks and line breaks.\<close>

lemma request_line_read:
  assumes "has_prefix (u_Path u) ''/''" "set (u_RawQuery u) \<inter> {CHR '' '', CHR 0x0A} = {}"
  shows "\<exists>uri. parseRequestLine (request_line u) = Some (''GET'', uri, ''HTTP/1.1'') \<and> ParseRequestURI uri = Some (u_Path u, u_RawQuery u)"
proof -
  let ?p = "path_escape (u_Path u)" and ?uri = "path_escape (u_Path u) @ query_part (u_RawQuery u)"
  obtain p where p: "u_Path u = CHR ''/'' # p" using assms(1) by (cases "u_Path u") auto
  have d: "set ?p \<inter> {CHR ''?'', CHR '' '', CHR 0x0A} = {}" using path_escape_delims [of "u_Path u"] by auto
  then have uri: "CHR '' '' \<notin> set ?uri" "CHR 0x0A \<notin> set ?uri" using assms(2) by (auto simp: query_part_def)
  have "parseRequestLine (request_line u) = Some (''GET'', ?uri, ''HTTP/1.1'')"
    using parseRequestLine_words [of "''GET''" ?uri "''HTTP/1.1''"] uri by (simp add: request_line_def p)
  moreover have "ParseRequestURI ?uri = Some (u_Path u, u_RawQuery u)"
    using cut_query [of ?p "u_RawQuery u"] d path_unescape_escape [of "u_Path u"] p
    by (simp add: ParseRequestURI_def path_byte_def)
  ultimately show ?thesis by blast
qed

lemma program_URL:
  assumes "prog \<in> set programs"
  shows "requestURL h \<lparr>cc_addr = addr, cc_path = server_path prog\<rparr> scheme =
    Some (url_String \<lparr>u_Scheme = scheme, u_Host = addr, u_Path = ''/control/v1/'' @ prog, u_RawQuery = ''host='' @ h\<rparr>)"
  using assms
  by (auto simp: programs_def requestURL_def server_path_def expand_host path_Join_def clean_elem_def)

lemma ServeHTTP_map:
  "map_response f (ServeHTTP (Inr k) view) =
     (case map_option (map_sum id f) (view k) of
        None \<Rightarrow> Aborted
      | Some (Inl e) \<Rightarrow> HttpError (if internalError e then 500 else 400)
      | Some (Inr v) \<Rightarrow> Answer v)"
  by (auto simp: ServeHTTP_def split: option.split sum.split)

lemma served_program:
  assumes "prog \<in> set programs" "h \<noteq> []" "set h \<inter> set ''%+&;'' = {}"
  shows "serve_path ct meth (''/control/v1/'' @ prog) (''host='' @ h) body =
    (case program_view ct prog h of
       None \<Rightarrow> Aborted
     | Some (Inl e) \<Rightarrow> HttpError (if internalError e then 500 else 400)
     | Some (Inr v) \<Rightarrow> Answer v)"
proof -
  note q = host_query [OF assms(3)]
  show ?thesis
  proof (cases "prog = ''collect-statse''")
    case True
    have "map_of routes ''/control/v1/collect-statse'' = Some StatseRoute" by code_simp
    moreover have "statse_parseKey [(''host'', [h])] = Inr h"
      using assms(2) by (simp add: statse_parseKey_def query_Get_def query_Del_def)
    ultimately show ?thesis using True q by (simp add: serve_path_def ServeHTTP_map program_view_def)
  next
    case False
    have r: "map_of routes (''/control/v1/'' @ prog) = Some TspRoute"
      using assms(1) False unfolding programs_def
      by (auto simp: routes_def validate_init_def jmx_Handle_def statse_Handle_def tsp_Handle_def)
    have k: "parseKey (''/control/v1/'' @ prog) [(''host'', [h])] = Inr (prog, h)"
      using assms(1,2) False unfolding programs_def by (auto simp: parseKey_def path_Base_def)
    show ?thesis using False q r k by (simp add: serve_path_def ServeHTTP_map program_view_def)
  qed
qed

lemma program_request:
  assumes "prog \<in> set programs" "h \<noteq> []" "set h \<inter> set ''%+&;# '' = {}" "CHR 0x0A \<notin> set h" "host_ok addr"
  shows "http_get (controller_http ct marshal errtext addr) h \<lparr>cc_addr = addr, cc_path = server_path prog\<rparr> =
    Some (case program_view ct prog h of
        None \<Rightarrow> (None, 0)
      | Some (Inl e) \<Rightarrow> (None, 1)
      | Some (Inr v) \<Rightarrow> (Some (take maxBytes (marshal v)), 0))"
proof -
  let ?u = "\<lambda>scheme. \<lparr>u_Scheme = scheme, u_Host = addr, u_Path = ''/control/v1/'' @ prog, u_RawQuery = ''host='' @ h\<rparr>"
  have parse: "url_Parse (url_String (?u scheme)) = Some (?u scheme)" if "scheme \<in> {''http'', ''https''}" for scheme
    using that assms(3,5) by (intro url_Parse_String) auto
  obtain uri where "parseRequestLine (request_line (?u ''http'')) = Some (''GET'', uri, ''HTTP/1.1'')"
      "ParseRequestURI uri = Some (''/control/v1/'' @ prog, ''host='' @ h)"
    using request_line_read [of "?u ''http''"] assms(3,4) by auto
  moreover have "set h \<inter> set ''%+&;'' = {}" using assms(3) by auto
  ultimately have "serve_text ct marshal errtext (request_line (?u ''http'')) =
      (case program_view ct prog h of
         None \<Rightarrow> NetError
       | Some (Inl e) \<Rightarrow> Response (if internalError e then 500 else 400) (errtext (if internalError e then 500 else 400)) True
       | Some (Inr v) \<Rightarrow> Response StatusOK (marshal v) True)"
    using served_program [OF assms(1,2)] by (simp add: serve_text_def split: option.split sum.split)
  then show ?thesis
    using parse by (simp add: http_get_def getPlainOrTLS_def program_URL [OF assms(1)] controller_http_def
      StatusOK_def read_limited_def split: option.split sum.split)
qed

section \<open>Line numbers\<close>

lemma last_index_count:
  "count_list (take (case last_index xs c of None \<Rightarrow> 0 | Some i \<Rightarrow> i + 1) xs) c = count_list xs c"
proof (induction xs)
  case (Cons x xs)
  have "count_list xs c = 0" if "last_index xs c = None" using Cons that by simp
  with Cons show ?case by (auto split: option.splits)
qed simp

lemma last_index_less: "last_index xs c = Some i \<Longrightarrow> i < length xs"
  by (induction xs arbitrary: i) (auto split: option.splits if_splits)

section \<open>New payloads\<close>

lemma load_loop_new:
  assumes "set gets \<subseteq> {None, Some p}"
  shows "load_loop ld file es (Some p) gets = None"
proof -
  have "NextUpdate (Some p) gets = None" using assms by (intro NextUpdate_same) auto
  then show ?thesis by (induction es) (simp_all split: option.split)
qed

lemma load_loop_payload:
  "load_loop ld file es prev gets = Some (c, prev', gets') \<Longrightarrow> \<exists>buf. prev' = Some buf \<and> Some buf \<in> set gets"
proof (induction es arbitrary: prev gets)
  case (Cons e es)
  show ?case
  proof (cases "decodeBase ld file e")
    case None
    with Cons show ?thesis by auto
  next
    case (Some c0)
    with Cons.prems obtain buf rest where u: "NextUpdate prev gets = Some (buf, rest)" by (auto split: option.splits)
    then have sub: "Some buf \<in> set gets" "set rest \<subseteq> set gets" using NextUpdate_Some by fastforce+
    show ?thesis
    proof (cases "Option.bind (decodeServer ld buf c0) (ld_Validate ld e)")
      case None
      with Cons.prems Some u have "load_loop ld file es (Some buf) rest = Some (c, prev', gets')" by simp
      from Cons.IH [OF this] sub(2) show ?thesis by blast
    next
      case (Some d)
      with Cons.prems u sub \<open>decodeBase ld file e = Some c0\<close> show ?thesis by auto
    qed
  qed
qed simp

section \<open>Properties\<close>

text \<open>
  C35: A program that asks the controller for its configuration gets it. The URL is turned into
  text, parsed, written as a request line and parsed again; for a host name without the characters
  that have a meaning in a query, a fragment or a request line, and an address without those that
  delimit it, the request of each program is routed to its handler, which reads from it the program
  and the host name. If there is a view, its text is the payload, up to the limit of the reader; if there
  is none, the request fails, and for an error reported by the handler the program leaves the body of the
  answer open.
\<close>

theorem controller_reached:
  assumes "prog \<in> set programs" "h \<noteq> []" "set h \<inter> set ''%+&;# '' = {}" "CHR 0x0A \<notin> set h" "host_ok addr"
  shows "http_get (controller_http ct marshal errtext addr) h \<lparr>cc_addr = addr, cc_path = server_path prog\<rparr> =
    Some (case program_view ct prog h of
        None \<Rightarrow> (None, 0)
      | Some (Inl e) \<Rightarrow> (None, 1)
      | Some (Inr v) \<Rightarrow> (Some (take maxBytes (marshal v)), 0))"
  using assms by (rule program_request)

text \<open>A host name with a fragment asks for the configuration of another host.\<close>

lemma fragment_cut:
  assumes "prog \<in> set programs" "CHR ''#'' \<notin> set h" "host_ok addr"
  shows "\<exists>s. requestURL (h @ CHR ''#'' # rest) \<lparr>cc_addr = addr, cc_path = server_path prog\<rparr> ''http'' = Some s \<and>
    url_Parse s = url_Parse (url_String \<lparr>u_Scheme = ''http'', u_Host = addr, u_Path = ''/control/v1/'' @ prog, u_RawQuery = ''host='' @ h\<rparr>)"
proof -
  let ?u = "\<lambda>h. \<lparr>u_Scheme = ''http'', u_Host = addr, u_Path = ''/control/v1/'' @ prog, u_RawQuery = ''host='' @ h\<rparr>"
  have "url_String (?u (h @ CHR ''#'' # rest)) = url_String (?u h) @ CHR ''#'' # rest" by (simp add: url_String_def query_part_def)
  moreover have "CHR ''#'' \<notin> set (url_String (?u h))"
    using assms(2,3) path_escape_delims [of "''/control/v1/'' @ prog"] unfolding url_String_def query_part_def host_ok_def
    by (auto simp del: path_escape.simps)
  ultimately have "url_Parse (url_String (?u (h @ CHR ''#'' # rest))) = url_Parse (url_String (?u h))"
    by (simp add: url_Parse_def cut_sep)
  with program_URL [OF assms(1)] show ?thesis by simp
qed

definition pair_controller :: controller where
  "pair_controller = \<lparr>ct_regex = literal_lib, ct_filter = (\<lambda>p h c. Inr []), ct_net = pair_net,
     ct_config = \<lparr>cf_Hosts = pair_hosts, cf_Network = None, cf_FilterPath = [], cf_Extra = []\<rparr>, ct_validate = (\<lambda>_. None)\<rparr>"

theorem controller_reached_witness:
  "\<exists>v. program_view pair_controller ''collect-statse'' ''ab'' = Some (Inr v) \<and>
     http_get (controller_http pair_controller (\<lambda>v. ''{}'') (\<lambda>n. []) ''ctl'') ''ab'' \<lparr>cc_addr = ''ctl'', cc_path = server_path ''collect-statse''\<rparr> =
       Some (Some ''{}'', 0)"
proof -
  obtain v where "program_view pair_controller ''collect-statse'' ''ab'' = Some (Inr v)"
    by (simp add: program_view_def pair_controller_def statse_View_def pair_lookup)
  moreover from this have "http_get (controller_http pair_controller (\<lambda>v. ''{}'') (\<lambda>n. []) ''ctl'') ''ab''
      \<lparr>cc_addr = ''ctl'', cc_path = server_path ''collect-statse''\<rparr> = Some (Some ''{}'', 0)"
    using controller_reached [of "''collect-statse''" "''ab''" "''ctl''" pair_controller "\<lambda>v. ''{}''" "\<lambda>n. []"]
    by (simp add: programs_def maxBytes_def host_ok_def)
  ultimately show ?thesis by blast
qed

text \<open>
  C36: \<^verbatim>\<open>Load\<close> panics when it is called twice and \<^verbatim>\<open>Next\<close> when it is called before
  \<^verbatim>\<open>Load\<close>. After a load without a control server, \<^verbatim>\<open>Next\<close> blocks forever. After a load from
  the server with some payload, \<^verbatim>\<open>Next\<close> returns only if the server answers with another payload
  at some time.
\<close>

theorem load_next:
  assumes "Load_config ld control_host filePath serverPath es gets \<lparr>gl_saved = None, gl_defaultClient = None\<rparr> = Returns c g gets1"
  shows "Load_config ld control_host filePath' serverPath' es' gets' g = Panics \<and>
    Next_config ld es' gets' \<lparr>gl_saved = None, gl_defaultClient = None\<rparr> = Panics \<and>
    (if serverPath = [] \<or> control_host = [] then Next_config ld es' gets' g = Blocks
     else \<exists>p. gl_defaultClient g = Some (Some p) \<and> Some p \<in> set gets \<and>
       (\<forall>c' g' rest. Next_config ld es' gets' g = Returns c' g' rest \<longrightarrow> (\<exists>q. Some q \<in> set gets' \<and> q \<noteq> p)))"
proof -
  let ?sp = "if serverPath \<noteq> [] \<and> control_host = [] then [] else serverPath"
  have saved: "gl_saved g = Some (filePath, ?sp)"
    using assms by (auto simp: Load_config_def run_load_def Let_def split: load_result.splits if_splits)
  show ?thesis
  proof (cases "serverPath = [] \<or> control_host = []")
    case True
    with saved show ?thesis by (auto simp: Load_config_def Next_config_def)
  next
    case False
    then obtain prev where l: "load_loop ld (filePath \<noteq> []) es None gets = Some (c, prev, gets1)"
        "gl_defaultClient g = Some prev"
      using assms
      by (auto simp: Load_config_def run_load_def load_def dial_last_def Let_def
          split: load_result.splits if_splits option.splits)
    from load_loop_payload [OF l(1)] obtain p where p: "prev = Some p" "Some p \<in> set gets" by blast
    have "\<exists>q. Some q \<in> set gets' \<and> q \<noteq> p" if "Next_config ld es' gets' g = Returns c' g' rest" for c' g' rest
    proof (rule ccontr)
      assume "\<not> (\<exists>q. Some q \<in> set gets' \<and> q \<noteq> p)"
      then have "set gets' \<subseteq> {None, Some p}" by (metis insertCI not_None_eq subsetI)
      from load_loop_new [OF this, of ld "filePath \<noteq> []" es'] that False saved l(2) p(1) show False
        by (auto simp: Next_config_def run_load_def load_def dial_last_def split: option.splits)
    qed
    with False saved l(2) p show ?thesis by (auto simp: Load_config_def Next_config_def)
  qed
qed

theorem load_next_witness:
  "\<exists>c g. Load_config example_loader ''ctl'' ''file'' ''path'' [True] [Some ''new''] \<lparr>gl_saved = None, gl_defaultClient = None\<rparr> = Returns c g [] \<and>
     Next_config example_loader [True, True] [Some ''new'', None, Some ''new''] g \<noteq> Returns c g []"
proof -
  obtain c g where g: "Load_config example_loader ''ctl'' ''file'' ''path'' [True] [Some ''new''] \<lparr>gl_saved = None, gl_defaultClient = None\<rparr> = Returns c g []"
    by (simp add: Load_config_def run_load_def dial_last_def load_def example_loader_def decodeBase_def decodeServer_def
        fieldFilter_Unmarshal_def newFieldFilter_def)
  then show ?thesis
    using load_next [OF g, of "[]" "[]" "[True, True]" "[Some ''new'', None, Some ''new'']"] by fastforce
qed

text \<open>
  The line number added to a syntax error is one more than the number of newlines before
  the offset of the error, so it is the line of the file that the offset is in.
\<close>

theorem addLineNum_exact:
  assumes "offset \<le> length buf"
  shows "addLineNum (SyntaxAt offset) buf = AtLine (Suc (count_list (take offset buf) (CHR 0x0A))) (SyntaxAt offset)"
proof -
  let ?start = "case last_index (take offset buf) (CHR 0x0A) of None \<Rightarrow> 0 | Some i \<Rightarrow> i + 1"
  have "?start \<le> offset"
    using last_index_less [of "take offset buf" "CHR 0x0A"] assms by (auto split: option.split)
  then have "take ?start buf = take ?start (take offset buf)" by (simp add: min_absorb1)
  with last_index_count [of "take offset buf" "CHR 0x0A"] show ?thesis by (simp add: addLineNum_def)
qed

text \<open>
  A payload that is longer than the limit is cut off without an error; what is left is handed
  out as if it were the configuration.
\<close>

lemma long_payload_cut:
  assumes "prog \<in> set programs" "h \<noteq> []" "set h \<inter> set ''%+&;# '' = {}" "CHR 0x0A \<notin> set h" "host_ok addr"
    and "program_view ct prog h = Some (Inr v)" "length (marshal v) > maxBytes"
  shows "\<exists>buf. http_get (controller_http ct marshal errtext addr) h \<lparr>cc_addr = addr, cc_path = server_path prog\<rparr> = Some (Some buf, 0) \<and>
    buf \<noteq> marshal v"
proof -
  have "http_get (controller_http ct marshal errtext addr) h \<lparr>cc_addr = addr, cc_path = server_path prog\<rparr> =
      Some (Some (take maxBytes (marshal v)), 0)"
    using program_request [OF assms(1-5)] assms(6) by simp
  moreover have "take maxBytes (marshal v) \<noteq> marshal v" using arg_cong [of _ _ length] assms(7) by fastforce
  ultimately show ?thesis by blast
qed

end
