(* ===== verification/Mains.thy ===== *)
theory Mains
  imports Http Server Programs Ticker "HOL-Library.Sublist"
begin

text \<open>
  The programs as a whole: \<^verbatim>\<open>init\<close>, \<^verbatim>\<open>load\<close> and \<^verbatim>\<open>main\<close> of \<^verbatim>\<open>cmd/tsp-forwarder\<close>,
  \<^verbatim>\<open>cmd/tsp-poller\<close> and \<^verbatim>\<open>cmd/tsp-aggregator\<close>, the flags they share (\<^verbatim>\<open>internal/flag\<close>), and the
  connections of a relay as \<^verbatim>\<open>internal/relay\<close> counts them (\<^verbatim>\<open>dial\<close>, \<^verbatim>\<open>connMonitor\<close>).

  A running program is a step relation: \<^verbatim>\<open>Broadcast\<close> takes a point of one of its two channels
  through the filter to all relays, the main loop of a client sends a queued command, a dialing
  goroutine gets a connection or fails. What the plugins (or remote clients) and the export of own
  variables deliver are two lists of points. A run goes on as long as nothing panics.

  What is proved: a program with a validated configuration starts; in every run, what a connection
  of a relay carries is a part of the filtered and joined input in its order, and the aggregator at
  its other end enqueues exactly that; as long as no point was dropped and the relay has one
  connection, nothing is missing. The gauge of established connections is exact unless closing
  fails.
\<close>

section \<open>Flags and loading\<close>

record tsp_flags =
  tf_FilePath :: "bytes option"
  tf_unknown :: bool   \<comment> \<open>an argument that is no flag of the program\<close>
  tf_NArg :: nat
  tf_VersionMode :: bool
  tf_TestMode :: bool

text \<open>\<^verbatim>\<open>flag.Parse\<close>: the exit code, or the path of the configuration file.\<close>

definition flag_Parse :: "bytes \<Rightarrow> tsp_flags \<Rightarrow> nat + bytes" where
  "flag_Parse configPath fl =
     (if tf_unknown fl then Inl 2
      else if tf_NArg fl \<noteq> 0 then Inl 1
      else if tf_VersionMode fl then Inl 0
      else Inr (case tf_FilePath fl of None \<Rightarrow> configPath | Some path \<Rightarrow> path))"

datatype 'c init_result = ExitsWith nat | NoReturn | Initialised 'c globals

text \<open>
  \<^verbatim>\<open>load\<close> of the programs, with \<^verbatim>\<open>config.Load\<close> as a function of the path. In test mode the
  configuration is printed and the program ends.
\<close>

definition program_load :: "(bytes \<Rightarrow> 'c outcome) \<Rightarrow> tsp_flags \<Rightarrow> bytes \<Rightarrow> 'c init_result" where
  "program_load Load fl path =
     (case Load path of
        Panics \<Rightarrow> ExitsWith 2
      | Exits \<Rightarrow> ExitsWith 1
      | Blocks \<Rightarrow> NoReturn
      | Returns c g _ \<Rightarrow> if tf_TestMode fl then ExitsWith 0 else Initialised c g)"

text \<open>\<^verbatim>\<open>init\<close>; opening the log file is fatal if it fails.\<close>

definition program_init ::
  "bytes \<Rightarrow> (bytes \<Rightarrow> 'c outcome) \<Rightarrow> ('c \<Rightarrow> bytes) \<Rightarrow> (bytes \<Rightarrow> bool) \<Rightarrow> tsp_flags \<Rightarrow> 'c init_result" where
  "program_init configPath Load logPath openable fl =
     (case flag_Parse configPath fl of
        Inl code \<Rightarrow> ExitsWith code
      | Inr path \<Rightarrow>
          (case program_load Load fl path of
             Initialised c g \<Rightarrow> if openable (logPath c) then Initialised c g else ExitsWith 1
           | r \<Rightarrow> r))"

section \<open>The connections of a relay\<close>

text \<open>
  The gauge \<^verbatim>\<open>relay.CurrEstab\<close> and the counter of failed dials of one relay; the last field counts
  the connections whose \<^verbatim>\<open>Close\<close> failed.
\<close>

record link =
  lk_relay :: relay
  lk_CurrEstab :: int
  lk_DialErrors :: nat
  lk_unclosed :: nat

definition newLink :: "relay \<Rightarrow> link" where
  "newLink r = \<lparr>lk_relay = r, lk_CurrEstab = 0, lk_DialErrors = 0, lk_unclosed = 0\<rparr>"

definition relay_dial :: "bytes \<Rightarrow> bool \<Rightarrow> link \<Rightarrow> link" where
  "relay_dial addr ok l =
     (if \<not> ok then l\<lparr>lk_DialErrors := lk_DialErrors l + 1\<rparr>
      else l\<lparr>lk_CurrEstab := lk_CurrEstab l + 1,
             lk_relay := (lk_relay l)\<lparr>rl_client := dial_done addr (rl_client (lk_relay l))\<rparr>\<rparr>)"

definition connMonitor_Close :: "bool \<Rightarrow> link \<Rightarrow> link" where
  "connMonitor_Close ok l =
     (if ok then l\<lparr>lk_CurrEstab := lk_CurrEstab l - 1\<rparr> else l\<lparr>lk_unclosed := lk_unclosed l + 1\<rparr>)"

text \<open>A turn of the main loop of the client; a connection that it gives up is closed.\<close>

definition link_turn :: "network \<Rightarrow> bool \<Rightarrow> link \<Rightarrow> link option" where
  "link_turn net ok l =
     (case with_drops (lk_relay l) (mainloop net (rl_client (lk_relay l))) of
        None \<Rightarrow> None
      | Some r \<Rightarrow>
          let l' = l\<lparr>lk_relay := r\<rparr>
          in Some (if length (cl_up (rl_client r)) < length (cl_up (rl_client (lk_relay l)))
                   then connMonitor_Close ok l' else l'))"

section \<open>The running programs\<close>

text \<open>What stands between a channel and the relays.\<close>

datatype gate = Unfiltered | Filtered "rule list" | EmptySeries

definition gate_of :: "regexlib \<Rightarrow> Rule list \<Rightarrow> gate" where
  "gate_of R rules = (case Series R rules of None \<Rightarrow> EmptySeries | Some rs \<Rightarrow> Filtered rs)"

fun gate_pass :: "golib \<Rightarrow> regexlib \<Rightarrow> gate \<Rightarrow> point list \<Rightarrow> point list option" where
  "gate_pass L R Unfiltered ps = Some ps"
| "gate_pass L R (Filtered rules) ps = filter_series R (tsdb_ops L) rules ps"
| "gate_pass L R EmptySeries ps = (if ps = [] then Some [] else None)"

text \<open>
  The two channels that are joined, each with its gate, and the relays. \<open>pg_passed\<close> is the history
  of the points given to \<^verbatim>\<open>Submit\<close>.
\<close>

record program =
  pg_first :: "point list"
  pg_second :: "point list"
  pg_gate1 :: gate
  pg_gate2 :: gate
  pg_relays :: "link list"
  pg_passed :: "point list"

definition start_program :: "gate \<Rightarrow> gate \<Rightarrow> relay_configs \<Rightarrow> point list \<Rightarrow> point list \<Rightarrow> program option" where
  "start_program g1 g2 relays as bs =
     map_option (\<lambda>rs. \<lparr>pg_first = as, pg_second = bs, pg_gate1 = g1, pg_gate2 = g2,
       pg_relays = map newLink rs, pg_passed = []\<rparr>) (NewPool relays)"

text \<open>A configuration that was not validated may have no rules and no relays.\<close>

definition forwarder_main :: "regexlib \<Rightarrow> program_config \<Rightarrow> point list \<Rightarrow> point list \<Rightarrow> program option" where
  "forwarder_main R cfg plugins self =
     (let final = gate_of R (case pc_Filter cfg of None \<Rightarrow> [] | Some rules \<Rightarrow> rules)
      in start_program final final (case pc_Relay cfg of None \<Rightarrow> [] | Some rs \<Rightarrow> rs) plugins self)"

definition poller_main :: "regexlib \<Rightarrow> program_config \<Rightarrow> point list \<Rightarrow> point list \<Rightarrow> program option" where
  "poller_main R cfg plugins self =
     (let final = gate_of R (case pc_Filter cfg of None \<Rightarrow> [] | Some rules \<Rightarrow> rules)
      in start_program final final (case pc_Relay cfg of None \<Rightarrow> [] | Some rs \<Rightarrow> rs) plugins self)"

text \<open>The aggregator filters only its own variables.\<close>

definition SelfStats :: "regexlib \<Rightarrow> Rule list option \<Rightarrow> gate" where
  "SelfStats R rules = gate_of R (case rules of None \<Rightarrow> [] | Some rules \<Rightarrow> rules)"

definition aggregator_main :: "regexlib \<Rightarrow> aggregator_config \<Rightarrow> point list \<Rightarrow> point list \<Rightarrow> program option" where
  "aggregator_main R cfg remote self =
     start_program Unfiltered (SelfStats R (ac_Filter cfg)) (case ac_Relay cfg of None \<Rightarrow> [] | Some rs \<Rightarrow> rs) remote self"

text \<open>The point that \<^verbatim>\<open>Broadcast\<close> got is submitted to every relay, in turn.\<close>

definition submit_all :: "golib \<Rightarrow> time \<Rightarrow> point \<Rightarrow> link list \<Rightarrow> link list option" where
  "submit_all L now p ls =
     map_option (map2 (\<lambda>l r. l\<lparr>lk_relay := r\<rparr>) ls) (Broadcast L now p (map lk_relay ls))"

definition take_point :: "golib \<Rightarrow> regexlib \<Rightarrow> gate \<Rightarrow> time \<Rightarrow> point \<Rightarrow> program \<Rightarrow> program option" where
  "take_point L R g now p s =
     (case gate_pass L R g [p] of
        None \<Rightarrow> None
      | Some [] \<Rightarrow> Some s
      | Some (q # _) \<Rightarrow>
          map_option (\<lambda>ls. s\<lparr>pg_relays := ls, pg_passed := pg_passed s @ [q]\<rparr>) (submit_all L now q (pg_relays s)))"

inductive main_step :: "golib \<Rightarrow> regexlib \<Rightarrow> program \<Rightarrow> program \<Rightarrow> bool" for L R where
  take_first: "pg_first s = p # ps \<Longrightarrow> take_point L R (pg_gate1 s) now p s = Some t \<Longrightarrow>
     main_step L R s (t\<lparr>pg_first := ps\<rparr>)"
| take_second: "pg_second s = p # ps \<Longrightarrow> take_point L R (pg_gate2 s) now p s = Some t \<Longrightarrow>
     main_step L R s (t\<lparr>pg_second := ps\<rparr>)"
| client_turn: "i < length (pg_relays s) \<Longrightarrow> link_turn net ok (pg_relays s ! i) = Some l \<Longrightarrow>
     main_step L R s (s\<lparr>pg_relays := (pg_relays s)[i := l]\<rparr>)"
| client_dial: "i < length (pg_relays s) \<Longrightarrow> addr \<in> set (cl_dialing (rl_client (lk_relay (pg_relays s ! i)))) \<Longrightarrow>
     main_step L R s (s\<lparr>pg_relays := (pg_relays s)[i := relay_dial addr ok (pg_relays s ! i)]\<rparr>)"

inductive_cases main_stepE: "main_step L R s t"

section \<open>What a client carries\<close>

lemma joined_snoc:
  "joined_run as bs cs \<Longrightarrow> joined_run (as @ [x]) bs (cs @ [x]) \<and> joined_run as (bs @ [x]) (cs @ [x])"
  by (induction rule: joined_run.induct) (auto intro: joined_run.intros)

lemma filter_series_append:
  "filter_series R ops rules (ps @ qs) =
     (case filter_series R ops rules ps of
        None \<Rightarrow> None
      | Some xs \<Rightarrow> map_option ((@) xs) (filter_series R ops rules qs))"
  by (induction ps; cases "filter_series R ops rules qs") (auto split: option.splits)

text \<open>
  The queue holds points that were submitted, in their order. What a connection carries are put
  commands of points that were submitted before, and version commands. As long as there was at most
  one connection and nothing was dropped, all points are on it or in the queue.
\<close>

definition on_conn :: "golib \<Rightarrow> point list \<Rightarrow> point list \<Rightarrow> clientConn \<Rightarrow> bool" where
  "on_conn L qs ps conn \<longleftrightarrow> (\<exists>cs. cn_written conn = session L cs \<and> subseq (put_points cs @ ps) qs)"

definition all_on_one :: "golib \<Rightarrow> point list \<Rightarrow> point list \<Rightarrow> client \<Rightarrow> bool" where
  "all_on_one L qs ps c \<longleftrightarrow> (\<exists>conn cs. cl_up c = [conn] \<and> cn_written conn = session L cs \<and> qs = put_points cs @ ps)"

definition carries :: "golib \<Rightarrow> point list \<Rightarrow> client \<Rightarrow> bool" where
  "carries L qs c \<longleftrightarrow> (\<exists>ps. cl_cmd c = map (put L) ps \<and> subseq ps qs \<and> (\<forall>conn \<in> set (cl_up c). on_conn L qs ps conn) \<and>
     (cl_next c = 0 \<longrightarrow> cl_up c = []) \<and> (cl_drops c = [] \<longrightarrow> cl_next c = 0 \<longrightarrow> qs = ps) \<and>
     (cl_drops c = [] \<longrightarrow> cl_next c = 1 \<longrightarrow> all_on_one L qs ps c))"

lemma carriesE:
  assumes "carries L qs c"
  obtains ps where "cl_cmd c = map (put L) ps" "subseq ps qs" "\<forall>conn \<in> set (cl_up c). on_conn L qs ps conn"
    "cl_next c = 0 \<longrightarrow> cl_up c = []" "cl_drops c = [] \<longrightarrow> cl_next c = 0 \<longrightarrow> qs = ps"
    "cl_drops c = [] \<longrightarrow> cl_next c = 1 \<longrightarrow> all_on_one L qs ps c"
  using assms unfolding carries_def by (elim exE conjE)

lemma carriesI:
  "cl_cmd c = map (put L) ps \<Longrightarrow> subseq ps qs \<Longrightarrow> \<forall>conn \<in> set (cl_up c). on_conn L qs ps conn \<Longrightarrow>
   cl_next c = 0 \<longrightarrow> cl_up c = [] \<Longrightarrow> cl_drops c = [] \<longrightarrow> cl_next c = 0 \<longrightarrow> qs = ps \<Longrightarrow>
   cl_drops c = [] \<longrightarrow> cl_next c = 1 \<longrightarrow> all_on_one L qs ps c \<Longrightarrow> carries L qs c"
  unfolding carries_def by (intro exI conjI)

lemma carries_new: "carries L [] (NewClient hosts config)"
  by (simp add: carries_def NewClient_def)

lemma session_append [simp]: "session L (as @ bs) = session L as @ session L bs"
  by (simp add: session_def)

lemma put_points_append [simp]: "put_points (as @ bs) = put_points as @ put_points bs"
  by (simp add: put_points_def List.map_filter_def)

lemma subseq_grow: "subseq xs qs \<Longrightarrow> subseq xs (qs @ [q])"
  by (rule list_emb_prefix)

lemma subseq_both: "subseq (xs @ ps) qs \<Longrightarrow> subseq (xs @ ps @ [q]) (qs @ [q])"
  using list_emb_append_mono [of "(=)" "xs @ ps" qs "[q]" "[q]"] by simp

lemma subseq_skip: "subseq (xs @ p # ps) qs \<Longrightarrow> subseq (xs @ ps) qs"
  by (rule subseq_order.trans [OF list_emb_append_mono]) auto

lemma on_conn_grow: "on_conn L qs ps conn \<Longrightarrow> on_conn L (qs @ [p]) ps conn"
  unfolding on_conn_def by (elim exE, rule exI, erule conjE, rule conjI, assumption, rule subseq_grow)

lemma on_conn_both: "on_conn L qs ps conn \<Longrightarrow> on_conn L (qs @ [p]) (ps @ [p]) conn"
  unfolding on_conn_def by (elim exE, rule exI, erule conjE, rule conjI, assumption, rule subseq_both)

lemma on_conn_skip: "on_conn L qs (p # ps) conn \<Longrightarrow> on_conn L qs ps conn"
  unfolding on_conn_def by (elim exE, rule exI, erule conjE, rule conjI, assumption, rule subseq_skip)

lemma on_conn_write:
  assumes "on_conn L qs (p # ps) conn" "cn_written conn' = cn_written conn @ session L cs" "put_points cs = [p]"
  shows "on_conn L qs ps conn'"
proof -
  obtain cs0 where "cn_written conn = session L cs0" "subseq (put_points cs0 @ p # ps) qs"
    using assms(1) by (auto simp: on_conn_def)
  then show ?thesis unfolding on_conn_def using assms(2,3) by (intro exI [of _ "cs0 @ cs"]) simp
qed

lemma all_on_one_both:
  "all_on_one L qs ps c \<Longrightarrow> cl_up c' = cl_up c \<Longrightarrow> all_on_one L (qs @ [p]) (ps @ [p]) c'"
  by (auto simp: all_on_one_def)

lemma all_on_one_write:
  assumes "all_on_one L qs (p # ps) c" "cl_up c' = (cl_up c)[i := conn']" "i < length (cl_up c)"
    "cn_written conn' = cn_written (cl_up c ! i) @ session L cs" "put_points cs = [p]"
  shows "all_on_one L qs ps c'"
proof -
  obtain conn cs0 where "cl_up c = [conn]" "cn_written conn = session L cs0" "qs = put_points cs0 @ p # ps"
    using assms(1) by (auto simp: all_on_one_def)
  then show ?thesis
    unfolding all_on_one_def using assms(2-) by (intro exI [of _ conn'] exI [of _ "cs0 @ cs"]) simp
qed

lemma Put_carries:
  assumes "carries L qs c" "\<not> cc_DropRepeats (cl_config c)" "cc_Drop (cl_config c)" "Put L now p c = Some c'"
  shows "carries L (qs @ [p]) c'"
proof -
  let ?s = "started c"
  have s: "cl_cmd ?s = cl_cmd c" "cl_up ?s = cl_up c" "cl_next ?s = cl_next c" "cl_drops ?s = cl_drops c" "cl_config ?s = cl_config c"
    by (simp_all add: started_def dialAll_def)
  have c': "send (put L p) ?s = Some c'"
    using assms(2,4) s(5) by (simp add: Put_def started_def Let_def split: if_splits)
  from assms(1) obtain ps where ps: "cl_cmd c = map (put L) ps" "subseq ps qs" "\<forall>conn \<in> set (cl_up c). on_conn L qs ps conn"
      "cl_next c = 0 \<longrightarrow> cl_up c = []" "cl_drops c = [] \<longrightarrow> cl_next c = 0 \<longrightarrow> qs = ps"
      "cl_drops c = [] \<longrightarrow> cl_next c = 1 \<longrightarrow> all_on_one L qs ps c"
    by (rule carriesE)
  show ?thesis
  proof (cases "length (cl_cmd c) < clientMaxQueue")
    case True
    then have c: "c' = ?s\<lparr>cl_cmd := map (put L) (ps @ [p])\<rparr>" using c' s ps(1) by (simp add: send_def)
    show ?thesis
      by (rule carriesI [of _ _ "ps @ [p]"])
        (use ps(2-) c s subseq_both [of "[]" ps qs p] on_conn_both all_on_one_both [of L qs ps c c'] in simp_all)
  next
    case False
    then have c: "c' = ?s\<lparr>cl_drops := cl_drops c @ [append_point L [] p]\<rparr>"
      using c' s assms(3) by (simp add: send_def client_drop_def)
    show ?thesis
      by (rule carriesI [of _ _ ps]) (use ps c s subseq_grow on_conn_grow in simp_all)
  qed
qed

lemma dial_carries:
  assumes "carries L qs c"
  shows "carries L qs (dial_done addr c)"
proof -
  from assms obtain ps where ps: "cl_cmd c = map (put L) ps" "subseq ps qs" "\<forall>conn \<in> set (cl_up c). on_conn L qs ps conn"
      "cl_next c = 0 \<longrightarrow> cl_up c = []" "cl_drops c = [] \<longrightarrow> cl_next c = 0 \<longrightarrow> qs = ps"
    by (rule carriesE)
  let ?conn = "newClientConn (cl_next c) addr"
  have w: "cn_written ?conn = session L []" by (simp add: newClientConn_def session_def)
  have new: "on_conn L qs ps ?conn" unfolding on_conn_def using w ps(2) by (intro exI [of _ "[]"]) simp
  have one: "all_on_one L ps ps (dial_done addr c)" if "cl_next c = 0"
    unfolding all_on_one_def using w ps(4) that by (intro exI [of _ ?conn] exI [of _ "[]"]) (simp add: dial_done_def)
  show ?thesis
    by (rule carriesI [of _ _ ps]) (use ps new one in \<open>simp_all add: dial_done_def\<close>)
qed

lemma conn_Put_written:
  assumes "conn_Put net (put L p) conn st = Some (True, conn', st')"
  shows "\<exists>cs. cn_written conn' = cn_written conn @ session L cs \<and> put_points cs = [p]"
proof -
  have "cn_written conn' = cn_written conn @ session L [Some p] \<or> cn_written conn' = cn_written conn @ session L [Some p, None]"
    using assms
    by (auto simp: conn_Put_def conn_put_def ack_def version_def session_def wire_def split: if_splits prod.splits bool.splits)
  then show ?thesis by fastforce
qed

lemma mainloop_carries:
  assumes "carries L qs c" "cc_Drop (cl_config c)" "mainloop net c = Some c'"
  shows "carries L qs c'"
  using assms(3)
proof (cases rule: mainloop_elim)
  case (turn cmd rest i ok conn st)
  from assms(1) obtain ps where ps: "cl_cmd c = map (put L) ps" "subseq ps qs" "\<forall>conn \<in> set (cl_up c). on_conn L qs ps conn"
      "cl_next c = 0 \<longrightarrow> cl_up c = []" "cl_drops c = [] \<longrightarrow> cl_next c = 0 \<longrightarrow> qs = ps"
      "cl_drops c = [] \<longrightarrow> cl_next c = 1 \<longrightarrow> all_on_one L qs ps c"
    by (rule carriesE)
  obtain p ps' where p: "ps = p # ps'" "cmd = put L p" "rest = map (put L) ps'" using turn(1) ps(1) by (cases ps) auto
  have other: "\<forall>conn \<in> set (cl_up c). on_conn L qs ps' conn" using ps(3) p(1) on_conn_skip by blast
  have sub: "subseq ps' qs" using ps(2) p(1) subseq_skip [of "[]"] by simp
  have next0: "cl_next c \<noteq> 0" using ps(4) turn(3) by auto
  show ?thesis
  proof (cases ok)
    case True
    obtain cs where cs: "cn_written conn = cn_written (cl_up c ! i) @ session L cs" "put_points cs = [p]"
      using conn_Put_written [of net L p "cl_up c ! i" "cl_stats c" conn st] turn(4) True p(2) by auto
    have c: "c' = c\<lparr>cl_cmd := rest, cl_up := (cl_up c)[i := conn], cl_stats := st\<rparr>" using turn(5) True by simp
    have "on_conn L qs ps' conn" using on_conn_write [OF _ cs] ps(3) p(1) turn(3) by simp
    with other have all: "\<forall>k \<in> set ((cl_up c)[i := conn]). on_conn L qs ps' k"
      using set_update_subset_insert by fastforce
    show ?thesis
      by (rule carriesI [of _ _ ps']) (use all sub c p ps(6) next0 all_on_one_write [OF _ _ turn(3) cs, of qs ps' c'] in simp_all)
  next
    case False
    have up: "set (cl_up c') \<subseteq> set (cl_up c)"
      using turn(3,5) False set_update_subset_insert [of "cl_up c" i conn]
      by (auto simp: client_error_def client_drop_def remove_def Let_def)
    have "cl_cmd c' = map (put L) ps'" "cl_next c' = cl_next c" "cl_drops c' \<noteq> []"
      using turn(5) False p(3) assms(2) by (auto simp: client_error_def client_drop_def Let_def)
    then show ?thesis
      by (intro carriesI [of _ _ ps']) (use up other sub next0 in auto)
  qed
qed (use assms in simp)

section \<open>What a program carries\<close>

abbreviation link_client :: "link \<Rightarrow> client" where
  "link_client l \<equiv> rl_client (lk_relay l)"

definition link_inv :: "golib \<Rightarrow> point list \<Rightarrow> link \<Rightarrow> bool" where
  "link_inv L qs l \<longleftrightarrow> client_inv (link_client l) \<and> cc_Drop (cl_config (link_client l)) \<and>
     (\<not> cc_DropRepeats (cl_config (link_client l)) \<longrightarrow> carries L qs (link_client l)) \<and>
     lk_CurrEstab l = int (length (cl_up (link_client l))) + int (lk_unclosed l)"

lemma with_drops_client: "with_drops r c = Some r' \<Longrightarrow> c = Some (rl_client r')"
  by (auto simp: with_drops_def split: option.splits)

lemma Submit_link:
  assumes "link_inv L qs l" "Submit L now p (lk_relay l) = Some r"
  shows "link_inv L (qs @ [p]) (l\<lparr>lk_relay := r\<rparr>)"
proof -
  have put: "Put L now p (link_client l) = Some (rl_client r)"
    using assms(2) with_drops_client by (simp add: Submit_def)
  then have st: "client_step L (link_client l) (rl_client r)" by (rule step_Put)
  have "cl_up (rl_client r) = cl_up (link_client l)"
    using put by (cases rule: Put_cases) (auto simp: started_def dialAll_def dest!: send_frame(1))
  with assms(1) Put_inv [OF _ put] Put_carries [OF _ _ _ put] client_step_frame [OF st] show ?thesis
    by (simp add: link_inv_def)
qed

lemma remove_length: "distinct (map cn_id up) \<Longrightarrow> conn \<in> set up \<Longrightarrow> Suc (length (remove up conn)) = length up"
proof (induction up)
  case (Cons k up)
  show ?case
  proof (cases "cn_id k = cn_id conn")
    case True
    then have "filter (\<lambda>c. cn_id c \<noteq> cn_id conn) up = up"
      using Cons.prems(1) by (intro filter_True) (auto simp: image_iff)
    with True show ?thesis by (simp add: remove_def)
  next
    case False
    with Cons show ?thesis by (auto simp: remove_def)
  qed
qed simp

lemma mainloop_up:
  assumes "client_inv c" "mainloop net c = Some c'"
  shows "length (cl_up c') = length (cl_up c) \<or> length (cl_up c) = Suc (length (cl_up c'))"
  using assms(2)
proof (cases rule: mainloop_elim)
  case (turn cmd rest i ok conn st)
  let ?up = "(cl_up c)[i := conn]"
  have id: "cn_id conn = cn_id (cl_up c ! i)" using conn_Put_frame [OF turn(4)] by simp
  then have "map cn_id ?up = map cn_id (cl_up c)" using turn(3) by (metis list_update_id map_update)
  then have "distinct (map cn_id ?up)" using assms(1) by (simp add: client_inv_def)
  moreover have "conn \<in> set ?up" using turn(3) by (simp add: set_update_memI)
  ultimately have "Suc (length (remove ?up conn)) = length ?up"
    by (rule remove_length)
  then show ?thesis using turn(5) by (auto simp: client_error_def client_drop_def Let_def)
qed simp

lemma turn_link:
  assumes "link_inv L qs l" "link_turn net ok l = Some l'"
  shows "link_inv L qs l'"
proof -
  obtain r where r: "with_drops (lk_relay l) (mainloop net (link_client l)) = Some r"
      "l' = (if length (cl_up (rl_client r)) < length (cl_up (link_client l))
             then connMonitor_Close ok (l\<lparr>lk_relay := r\<rparr>) else l\<lparr>lk_relay := r\<rparr>)"
    using assms(2) by (auto simp: link_turn_def Let_def split: option.splits)
  have m: "mainloop net (link_client l) = Some (rl_client r)" using with_drops_client [OF r(1)] .
  then have st: "client_step L (link_client l) (rl_client r)" by (rule step_mainloop)
  from assms(1) have inv: "client_inv (link_client l)" by (simp add: link_inv_def)
  with assms(1) m mainloop_up [OF inv m] mainloop_inv [OF inv m] mainloop_carries [OF _ _ m] client_step_frame [OF st] r(2)
  show ?thesis by (auto simp: link_inv_def connMonitor_Close_def)
qed

lemma dial_link:
  assumes "link_inv L qs l" "addr \<in> set (cl_dialing (link_client l))"
  shows "link_inv L qs (relay_dial addr ok l)"
proof -
  have "cl_config (dial_done addr c) = cl_config c" "length (cl_up (dial_done addr c)) = Suc (length (cl_up c))" for c
    by (simp_all add: dial_done_def)
  with assms dial_carries dial_done_inv show ?thesis by (simp add: link_inv_def relay_dial_def)
qed

text \<open>The input so far, the points of it that passed, and what the relays have of them.\<close>

definition program_inv :: "golib \<Rightarrow> regexlib \<Rightarrow> program \<Rightarrow> program \<Rightarrow> bool" where
  "program_inv L R s0 s \<longleftrightarrow> pg_gate1 s = pg_gate1 s0 \<and> pg_gate2 s = pg_gate2 s0 \<and> length (pg_relays s) = length (pg_relays s0) \<and>
     (\<exists>as bs as' bs'. pg_first s0 = as @ pg_first s \<and> pg_second s0 = bs @ pg_second s \<and>
        gate_pass L R (pg_gate1 s0) as = Some as' \<and> gate_pass L R (pg_gate2 s0) bs = Some bs' \<and>
        joined_run as' bs' (pg_passed s)) \<and>
     (\<forall>l \<in> set (pg_relays s). link_inv L (pg_passed s) l)"

lemma gate_pass_snoc:
  assumes "gate_pass L R g as = Some as'" "gate_pass L R g [p] = Some qs"
  shows "gate_pass L R g (as @ [p]) = Some (as' @ qs)"
  using assms by (cases g) (simp_all add: filter_series_append split: if_splits)

lemma gate_pass_one: "gate_pass L R g [p] = Some qs \<Longrightarrow> qs = [] \<or> (\<exists>q. qs = [q])"
  by (cases g) (auto split: option.splits prod.splits if_splits)

lemma Broadcast_each: "Broadcast L now p rs = Some rs' \<Longrightarrow> list_all2 (\<lambda>r r'. Submit L now p r = Some r') rs rs'"
  by (induction rs arbitrary: rs') (auto split: option.splits)

lemma submit_all_links:
  assumes "submit_all L now p ls = Some ls'" "\<forall>l \<in> set ls. link_inv L qs l"
  shows "length ls' = length ls \<and> (\<forall>l \<in> set ls'. link_inv L (qs @ [p]) l)"
proof -
  obtain rs where rs: "Broadcast L now p (map lk_relay ls) = Some rs" "ls' = map2 (\<lambda>l r. l\<lparr>lk_relay := r\<rparr>) ls rs"
    using assms(1) by (auto simp: submit_all_def)
  from Broadcast_each [OF rs(1)] have a: "list_all2 (\<lambda>l r. Submit L now p (lk_relay l) = Some r) ls rs"
    by (simp add: list_all2_map1)
  have "link_inv L (qs @ [p]) (l\<lparr>lk_relay := r\<rparr>)" if "(l, r) \<in> set (zip ls rs)" for l r
  proof (rule Submit_link)
    show "link_inv L qs l" using that assms(2) set_zip_leftD by fast
    show "Submit L now p (lk_relay l) = Some r" using that a by (auto simp: list_all2_iff)
  qed
  with rs(2) list_all2_lengthD [OF a] show ?thesis by auto
qed

lemma take_point_inv:
  assumes "take_point L R g now p s = Some t" "\<forall>l \<in> set (pg_relays s). link_inv L (pg_passed s) l"
  shows "\<exists>qs. gate_pass L R g [p] = Some qs \<and> pg_passed t = pg_passed s @ qs \<and> length qs \<le> 1 \<and>
    pg_first t = pg_first s \<and> pg_second t = pg_second s \<and> pg_gate1 t = pg_gate1 s \<and> pg_gate2 t = pg_gate2 s \<and>
    length (pg_relays t) = length (pg_relays s) \<and> (\<forall>l \<in> set (pg_relays t). link_inv L (pg_passed t) l)"
proof -
  obtain qs where qs: "gate_pass L R g [p] = Some qs" using assms(1) by (auto simp: take_point_def split: option.splits)
  from gate_pass_one [OF this] consider "qs = []" | q where "qs = [q]" by blast
  then show ?thesis
  proof cases
    case 1
    with qs assms show ?thesis by (auto simp: take_point_def)
  next
    case 2
    with qs assms(1) obtain ls where "submit_all L now q (pg_relays s) = Some ls"
        "t = s\<lparr>pg_relays := ls, pg_passed := pg_passed s @ [q]\<rparr>"
      by (auto simp: take_point_def)
    with qs 2 submit_all_links [OF _ assms(2)] show ?thesis by simp
  qed
qed

lemma joined_snoc_list:
  assumes "joined_run as bs cs" "length qs \<le> 1"
  shows "joined_run (as @ qs) bs (cs @ qs)" "joined_run as (bs @ qs) (cs @ qs)"
  using assms joined_snoc [OF assms(1)] by (cases qs; simp)+

lemma main_step_inv:
  assumes "main_step L R s t" "program_inv L R s0 s"
  shows "program_inv L R s0 t"
proof -
  have g: "pg_gate1 s = pg_gate1 s0" "pg_gate2 s = pg_gate2 s0" and len: "length (pg_relays s) = length (pg_relays s0)"
    and links: "\<forall>l \<in> set (pg_relays s). link_inv L (pg_passed s) l"
    using assms(2) by (simp_all add: program_inv_def)
  obtain as bs as' bs' where i: "pg_first s0 = as @ pg_first s" "pg_second s0 = bs @ pg_second s"
      "gate_pass L R (pg_gate1 s0) as = Some as'" "gate_pass L R (pg_gate2 s0) bs = Some bs'" "joined_run as' bs' (pg_passed s)"
    using assms(2) by (auto simp: program_inv_def)
  have upd: "program_inv L R s0 (s\<lparr>pg_relays := (pg_relays s)[k := l]\<rparr>)" if "link_inv L (pg_passed s) l" for k l
    using assms(2) that set_update_subset_insert [of "pg_relays s" k l] by (auto simp: program_inv_def)
  from assms(1) show ?thesis
  proof (cases rule: main_step.cases)
    case (take_first p ps now u)
    obtain qs where q: "gate_pass L R (pg_gate1 s) [p] = Some qs" "pg_passed u = pg_passed s @ qs" "length qs \<le> 1"
        "pg_first u = pg_first s" "pg_second u = pg_second s" "pg_gate1 u = pg_gate1 s" "pg_gate2 u = pg_gate2 s"
        "length (pg_relays u) = length (pg_relays s)" "\<forall>l \<in> set (pg_relays u). link_inv L (pg_passed u) l"
      using take_point_inv [OF take_first(3) links] by blast
    have "pg_first s0 = (as @ [p]) @ pg_first t" "pg_second s0 = bs @ pg_second t" using i take_first q by simp_all
    moreover have "gate_pass L R (pg_gate1 s0) (as @ [p]) = Some (as' @ qs)" using gate_pass_snoc i(3) q(1) g by simp
    moreover have "joined_run (as' @ qs) bs' (pg_passed t)" using joined_snoc_list(1) [OF i(5) q(3)] q(2) take_first(1) by simp
    ultimately show ?thesis unfolding program_inv_def using i(4) g len q take_first(1) by auto
  next
    case (take_second p ps now u)
    obtain qs where q: "gate_pass L R (pg_gate2 s) [p] = Some qs" "pg_passed u = pg_passed s @ qs" "length qs \<le> 1"
        "pg_first u = pg_first s" "pg_second u = pg_second s" "pg_gate1 u = pg_gate1 s" "pg_gate2 u = pg_gate2 s"
        "length (pg_relays u) = length (pg_relays s)" "\<forall>l \<in> set (pg_relays u). link_inv L (pg_passed u) l"
      using take_point_inv [OF take_second(3) links] by blast
    have "pg_first s0 = as @ pg_first t" "pg_second s0 = (bs @ [p]) @ pg_second t" using i take_second q by simp_all
    moreover have "gate_pass L R (pg_gate2 s0) (bs @ [p]) = Some (bs' @ qs)" using gate_pass_snoc i(4) q(1) g by simp
    moreover have "joined_run as' (bs' @ qs) (pg_passed t)" using joined_snoc_list(2) [OF i(5) q(3)] q(2) take_second(1) by simp
    ultimately show ?thesis unfolding program_inv_def using i(3) g len q take_second(1) by auto
  next
    case (client_turn k net ok l)
    then show ?thesis using upd turn_link links nth_mem by blast
  next
    case (client_dial k addr ok)
    then show ?thesis using upd dial_link links nth_mem by blast
  qed
qed

interpretation prog: stepping "main_step L R" "program_inv L R s0" for L R s0
  by unfold_locales (rule main_step_inv)

lemma NewPool_links: "NewPool cs = Some rs \<Longrightarrow> \<forall>r \<in> set rs. link_inv L [] (newLink r)"
proof (induction cs arbitrary: rs)
  case (Cons c cs)
  obtain name cfg where c: "c = (name, cfg)" by (cases c)
  with Cons.prems obtain r rs' where r: "NewRelay name cfg = Inr r" "NewPool cs = Some rs'" "rs = r # rs'"
    by (auto split: sum.splits)
  obtain hosts config where "rl_client r = NewClient hosts config" "cc_Drop config"
    using r(1) by (auto simp: NewRelay_def rbind_eq_Inr)
  then have "link_inv L [] (newLink r)"
    using carries_new NewClient_inv by (simp add: link_inv_def newLink_def) (simp add: NewClient_def)
  with Cons.IH [OF r(2)] r(3) show ?case by simp
qed simp

lemma start_inv: "start_program g1 g2 relays as bs = Some s0 \<Longrightarrow> program_inv L R s0 s0"
proof -
  have "gate_pass L R g [] = Some []" for g by (cases g) simp_all
  then show "start_program g1 g2 relays as bs = Some s0 \<Longrightarrow> ?thesis"
    using NewPool_links by (auto simp: start_program_def program_inv_def intro: joined_done)
qed

section \<open>Properties\<close>

definition runs_from :: "regexlib \<Rightarrow> program \<Rightarrow> bool" where
  "runs_from R s0 \<longleftrightarrow> (\<exists>c as bs. forwarder_main R c as bs = Some s0 \<or> poller_main R c as bs = Some s0) \<or>
     (\<exists>a as bs. aggregator_main R a as bs = Some s0)"

lemma runs_from_inv: "runs_from R s0 \<Longrightarrow> program_inv L R s0 s0"
  by (auto simp: runs_from_def forwarder_main_def poller_main_def aggregator_main_def Let_def intro: start_inv)

text \<open>
  The gauge of established connections of a relay is the number of its connections, plus the
  connections whose \<^verbatim>\<open>Close\<close> failed: those are counted for ever.
\<close>

theorem relay_gauge:
  assumes "runs_from R s0" "(main_step L R)\<^sup>*\<^sup>* s0 s" "l \<in> set (pg_relays s)"
  shows "lk_CurrEstab l = int (length (cl_up (link_client l))) + int (lk_unclosed l)"
  using prog.run_inv [OF assms(2) runs_from_inv [OF assms(1)]] assms(3) by (auto simp: program_inv_def link_inv_def)

text \<open>
  A program whose configuration was validated starts, and it reads its input: none of its gates
  is the empty series.
\<close>

theorem validated_program_starts:
  assumes "forwarder_Validate R c = Some (Inr c') \<or> poller_Validate R c = Some (Inr c')"
  shows "\<exists>s rules. forwarder_main R c' as bs = Some s \<and> poller_main R c' as bs = Some s \<and>
    pg_gate1 s = Filtered rules \<and> pg_gate2 s = Filtered rules"
proof -
  obtain rules relays rs pool where "pc_Filter c' = Some rules" "pc_Relay c' = Some relays"
      "Series R rules = Some rs" "NewPool relays = Some pool"
    using validated_config_starts [OF assms] by blast
  then show ?thesis by (simp add: forwarder_main_def poller_main_def start_program_def gate_of_def Let_def)
qed

lemma serve_session:
  assumes "list_all (\<lambda>c. case c of None \<Rightarrow> True | Some p \<Rightarrow> sendable L p) cs"
  shows "\<exists>rs. serve L pooled (session L cs) = (rs, 0) \<and> list_all2 same_point rs (put_points cs)"
proof -
  have "list_all (encodable L) (put_points cs)"
    using assms by (induction cs) (auto simp: sendable_def split: option.splits)
  then show ?thesis
    unfolding serve_def protocolReader_session [OF assms]
    by (intro serverConn_loop_encoded) (auto simp: DisableOrderCheck_def NewDecoder_def)
qed

lemma set_put_points: "Some p \<in> set cs \<longleftrightarrow> p \<in> set (put_points cs)"
  by (induction cs) (auto simp: put_points_def List.map_filter_simps split: option.splits)

text \<open>
  C8: In every run of a forwarder, a poller or an aggregator, the points submitted to the relays
  are the input read so far, filtered, and joined in some order. What the aggregator at the other
  end of a connection of a relay enqueues, after the version command of the dial, is a part of
  these points in their order, each at most once and with no syntax error. As long as the relay has
  dropped nothing and has had one connection, nothing is missing: the rest is in its queue. The
  relay is one that does not drop repeats, and the points can be sent as a line.
\<close>

theorem program_delivers:
  assumes "runs_from R s0" "(main_step L R)\<^sup>*\<^sup>* s0 s" "list_all (sendable L) (pg_passed s)"
    and "l \<in> set (pg_relays s)" "\<not> cc_DropRepeats (cl_config (link_client l))" "conn \<in> set (cl_up (link_client l))"
  shows "(\<exists>as bs as' bs'. pg_first s0 = as @ pg_first s \<and> pg_second s0 = bs @ pg_second s \<and>
      gate_pass L R (pg_gate1 s0) as = Some as' \<and> gate_pass L R (pg_gate2 s0) bs = Some bs' \<and>
      joined_run as' bs' (pg_passed s)) \<and>
    (\<exists>ps rs. serve L pooled (''version'' @ CHR 0x0A # cn_written conn) = (rs, 0) \<and> list_all2 same_point rs ps \<and>
      subseq ps (pg_passed s) \<and>
      (cl_drops (link_client l) = [] \<and> cl_next (link_client l) = 1 \<longrightarrow>
        (\<exists>queued. pg_passed s = ps @ queued \<and> cl_cmd (link_client l) = map (put L) queued)))"
proof -
  let ?c = "link_client l"
  note inv = prog.run_inv [OF assms(2) runs_from_inv [OF assms(1)]]
  have "carries L (pg_passed s) ?c" using inv assms(4,5) by (auto simp: program_inv_def link_inv_def)
  then obtain queued where q: "cl_cmd ?c = map (put L) queued" "\<forall>conn \<in> set (cl_up ?c). on_conn L (pg_passed s) queued conn"
      "cl_drops ?c = [] \<longrightarrow> cl_next ?c = 1 \<longrightarrow> all_on_one L (pg_passed s) queued ?c"
    by (rule carriesE)
  obtain cs where cs: "cn_written conn = session L cs" "subseq (put_points cs @ queued) (pg_passed s)"
      "cl_drops ?c = [] \<and> cl_next ?c = 1 \<longrightarrow> pg_passed s = put_points cs @ queued"
  proof (cases "cl_drops ?c = [] \<and> cl_next ?c = 1")
    case True
    with q(3) assms(6) obtain cs where "cn_written conn = session L cs" "pg_passed s = put_points cs @ queued"
      by (auto simp: all_on_one_def)
    then show ?thesis by (intro that [of cs]) simp_all
  next
    case False
    obtain cs where "cn_written conn = session L cs" "subseq (put_points cs @ queued) (pg_passed s)"
      using q(2) assms(6) by (auto simp: on_conn_def)
    with False show ?thesis by (intro that [of cs]) auto
  qed
  have sub: "subseq (put_points cs) (pg_passed s)"
    using cs(2) subseq_order.trans list_emb_prefix [OF subseq_order.refl, of "put_points cs" queued] by blast
  have "sendable L p" if "Some p \<in> set cs" for p
  proof -
    have "p \<in> set (put_points cs)" using that set_put_points by blast
    then have "p \<in> set (pg_passed s)" using list_emb_set [OF sub] by metis
    with assms(3) show ?thesis by (simp add: list_all_iff)
  qed
  then have ok: "list_all (\<lambda>c. case c of None \<Rightarrow> True | Some p \<Rightarrow> sendable L p) (None # cs)"
    by (auto simp: list_all_iff split: option.split)
  have w: "''version'' @ CHR 0x0A # cn_written conn = session L (None # cs)" using cs(1) by (simp add: session_def wire_def)
  obtain rs where rs: "serve L pooled (session L (None # cs)) = (rs, 0)" "list_all2 same_point rs (put_points cs)"
    using serve_session [OF ok, of pooled] by auto
  have "cl_drops ?c = [] \<and> cl_next ?c = 1 \<longrightarrow> (\<exists>queued. pg_passed s = put_points cs @ queued \<and> cl_cmd ?c = map (put L) queued)"
    using cs(3) q(1) by blast
  with rs sub have "\<exists>ps rs. serve L pooled (''version'' @ CHR 0x0A # cn_written conn) = (rs, 0) \<and> list_all2 same_point rs ps \<and>
      subseq ps (pg_passed s) \<and> (cl_drops ?c = [] \<and> cl_next ?c = 1 \<longrightarrow>
        (\<exists>queued. pg_passed s = ps @ queued \<and> cl_cmd ?c = map (put L) queued))"
    unfolding w by (intro exI conjI)
  moreover have "\<exists>as bs as' bs'. pg_first s0 = as @ pg_first s \<and> pg_second s0 = bs @ pg_second s \<and>
      gate_pass L R (pg_gate1 s0) as = Some as' \<and> gate_pass L R (pg_gate2 s0) bs = Some bs' \<and> joined_run as' bs' (pg_passed s)"
    using inv unfolding program_inv_def by (elim conjE)
  ultimately show ?thesis by (intro conjI)
qed

text \<open>An aggregator with one relay, that receives a point, connects and sends it.\<close>

definition one_relay :: relay_config where
  "one_relay = \<lparr>rc_DropRepeats = False, rc_Host = ''h'', rc_MaxConnsPerHost = None, rc_OnQueueFull = []\<rparr>"

definition good_network :: network where
  "good_network = \<lparr>nt_now = 0, nt_write = True, nt_lines = [''Built on ... (tsp-aggregator)''], nt_end = ScanFails\<rparr>"

definition example_aggregator :: aggregator_config where
  "example_aggregator = aggregator_default\<lparr>ac_Relay := Some [(''a'', one_relay)]\<rparr>"

lemma example_relay_life:
  assumes "NewRelay ''a'' one_relay = Inr r" "wf_point L p" "value_blank_free L p" "pt_tags p \<noteq> []"
  shows "\<exists>r' l conn. Submit L 0 p r = Some r' \<and> ''h'' \<in> set (cl_dialing (rl_client r')) \<and>
    link_turn good_network True (relay_dial ''h'' True ((newLink r)\<lparr>lk_relay := r'\<rparr>)) = Some l \<and>
    cl_config (link_client l) = \<lparr>cc_DropRepeats = False, cc_MaxConnsPerHost = 1, cc_Drop = True\<rparr> \<and>
    cl_up (link_client l) = [conn] \<and> cl_drops (link_client l) = [] \<and> cl_next (link_client l) = 1 \<and> cl_cmd (link_client l) = []"
proof -
  have r: "r = \<lparr>rl_name = ''a'', rl_log = False, rl_client = NewClient ''h'' \<lparr>cc_DropRepeats = False, cc_MaxConnsPerHost = 1, cc_Drop = True\<rparr>,
      rl_sink = \<lparr>sk_drops = 0, sk_log = []\<rparr>\<rparr>"
    using assms(1) by (simp add: NewRelay_def relay_Validate_def one_relay_def)
  have h: "parseHosts ''h'' = [''h'']" by (simp add: parseHosts_def)
  obtain n where n: "SeriesHash (put L p) = Some n" using SeriesHash_put [OF assms(2,3)] assms(4) by simp
  show ?thesis
    using n h r by (simp add: Submit_def Put_def NewClient_def send_def clientMaxQueue_def with_drops_def dialAll_def
        relay_dial_def dial_done_def newLink_def link_turn_def mainloop_def lookupConn_def conn_Put_def conn_put_def good_network_def
        ack_def version_def isVersionResponsePart1_def isVersionResponsePart2_def newClientConn_def Let_def split: prod.split)
qed

theorem program_delivers_witness:
  "\<exists>s0 s l conn rs. aggregator_main literal_lib example_aggregator [example_point 5000000000 1] [] = Some s0 \<and>
     (main_step latin1_lib literal_lib)\<^sup>*\<^sup>* s0 s \<and> pg_relays s = [l] \<and> cl_up (link_client l) = [conn] \<and>
     serve latin1_lib newPoint (''version'' @ CHR 0x0A # cn_written conn) = (rs, 0) \<and>
     list_all2 same_point rs [example_point 5000000000 1]"
proof -
  let ?p = "example_point 5000000000 1"
  let ?step = "main_step latin1_lib literal_lib"
  have snd: "sendable latin1_lib ?p" using example_sendable [of 5 1 latin1_lib] by simp
  then have wf: "wf_point latin1_lib ?p" by (simp add: sendable_def encodable_def)
  obtain r where r: "NewRelay ''a'' one_relay = Inr r" by (simp add: NewRelay_def relay_Validate_def one_relay_def)
  have "pt_tags ?p \<noteq> []" by (simp add: example_point_def tag_text_def)
  from example_relay_life [OF r wf example_blank_free this] obtain r' l conn where l: "Submit latin1_lib 0 ?p r = Some r'"
      "''h'' \<in> set (cl_dialing (rl_client r'))"
      "link_turn good_network True (relay_dial ''h'' True ((newLink r)\<lparr>lk_relay := r'\<rparr>)) = Some l"
      "cl_config (link_client l) = \<lparr>cc_DropRepeats = False, cc_MaxConnsPerHost = 1, cc_Drop = True\<rparr>"
      "cl_up (link_client l) = [conn]" "cl_drops (link_client l) = []" "cl_next (link_client l) = 1" "cl_cmd (link_client l) = []"
    by auto
  obtain s0 where s0: "aggregator_main literal_lib example_aggregator [?p] [] = Some s0" "pg_first s0 = [?p]"
      "pg_gate1 s0 = Unfiltered" "pg_relays s0 = [newLink r]" "pg_passed s0 = []"
    using r by (simp add: aggregator_main_def start_program_def example_aggregator_def)
  let ?s1 = "s0\<lparr>pg_relays := [(newLink r)\<lparr>lk_relay := r'\<rparr>], pg_passed := [?p], pg_first := []\<rparr>"
  let ?s2 = "?s1\<lparr>pg_relays := [relay_dial ''h'' True ((newLink r)\<lparr>lk_relay := r'\<rparr>)]\<rparr>"
  have "take_point latin1_lib literal_lib (pg_gate1 s0) 0 ?p s0 = Some (s0\<lparr>pg_relays := [(newLink r)\<lparr>lk_relay := r'\<rparr>], pg_passed := [?p]\<rparr>)"
    using s0 l(1) by (simp add: take_point_def submit_all_def newLink_def)
  then have "?step s0 ?s1" using main_step.take_first [OF s0(2)] by fastforce
  moreover have "?step ?s1 ?s2" using main_step.client_dial [of 0 ?s1 "''h''" latin1_lib literal_lib True] l(2) by simp
  moreover have "?step ?s2 (?s2\<lparr>pg_relays := [l]\<rparr>)"
    using main_step.client_turn [of 0 ?s2 good_network True l] l(3) by simp
  ultimately have run: "?step\<^sup>*\<^sup>* s0 (?s2\<lparr>pg_relays := [l]\<rparr>)" by (meson rtranclp.rtrancl_into_rtrancl rtranclp.rtrancl_refl)
  have "runs_from literal_lib s0" using s0(1) by (auto simp: runs_from_def)
  from program_delivers [OF this run, of l conn newPoint] snd l(4-) obtain rs ps queued where
    "serve latin1_lib newPoint (''version'' @ CHR 0x0A # cn_written conn) = (rs, 0)" "list_all2 same_point rs ps"
    "[?p] = ps @ queued" "queued = []"
    by auto
  with s0(1) run l(5) show ?thesis by (intro exI conjI) auto
qed

end
