(* ===== verification/Collect.thy ===== *)
theory Collect
  imports Decoder
begin

text \<open>
  Running plugins: the directory watcher of \<^verbatim>\<open>internal/config/directory.go\<close> and the pool of
  plugin processes of \<^verbatim>\<open>internal/collect\<close> (\<^verbatim>\<open>pool.go\<close>, \<^verbatim>\<open>process.go\<close>,
  \<^verbatim>\<open>decoder.go\<close>).

  A scan of the directory is a list of paths with mode and modification time. The goroutine of a
  directory entry selects between events, the exit of its process and the restart timer, so it is
  a step relation. A process is seen from outside: it runs, or its exit status is in its channel.

  What is proved: the events of a scan lead from the old directory to the new one; the pool never
  sends an entry an event it does not handle, and holds at most 128 entries; an entry has at most
  one running process, and none when it has ended; an entry that is not in the pool for lack of
  room is not added later; and a plugin that writes an overlong line is no longer read and not
  killed.
\<close>

section \<open>The directory\<close>

record file_info =
  fi_Mode :: nat
  fi_ModTime :: time

datatype dir_event = Create bytes | Remove bytes | Modify bytes

fun de_Target :: "dir_event \<Rightarrow> bytes" where
  "de_Target (Create p) = p"
| "de_Target (Remove p) = p"
| "de_Target (Modify p) = p"

type_synonym listing = "(bytes \<times> file_info) list"

text \<open>
  \<^verbatim>\<open>Directory.diff\<close>: the events of a scan that found \<open>now\<close> after one that found \<open>old\<close>,
  the maps visited in the order of the lists.
\<close>

definition present_event :: "listing \<Rightarrow> bytes \<times> file_info \<Rightarrow> dir_event option" where
  "present_event old = (\<lambda>(path, now).
     case map_of old path of
       None \<Rightarrow> Some (Create path)
     | Some l \<Rightarrow> if now \<noteq> l then Some (Modify path) else None)"

definition diff :: "listing \<Rightarrow> listing \<Rightarrow> dir_event list" where
  "diff old now =
     List.map_filter (present_event old) now @
     map Remove (filter (\<lambda>path. path \<notin> set (map fst now)) (map fst old))"

text \<open>
  \<^verbatim>\<open>Directory.walk\<close>: of the entries of the directory, the files whose names do not start with a
  dot. The entries come with their base name and whether they are directories.
\<close>

record dirent =
  dn_path :: bytes
  dn_base :: bytes
  dn_isDir :: bool
  dn_info :: file_info

definition isDotfile :: "dirent \<Rightarrow> bool" where
  "isDotfile e \<longleftrightarrow> has_prefix (dn_base e) ''.''"

definition walk :: "dirent list \<Rightarrow> listing" where
  "walk es = map (\<lambda>e. (dn_path e, dn_info e)) (filter (\<lambda>e. \<not> dn_isDir e \<and> \<not> isDotfile e) es)"

section \<open>Processes\<close>

text \<open>How a process ends: its exit status, a signal, or an error when it is started.\<close>

datatype exit_status = CleanExit | ExitCode nat | Signalled | StartError

definition retryDelay :: duration where "retryDelay = 5 * second"
definition repairDelay :: duration where "repairDelay = 5 * second"
definition rescheduleDelay :: duration where "rescheduleDelay = 1 * hour"
definition statusReschedule :: nat where "statusReschedule = 13"

definition reschedule :: "exit_status \<Rightarrow> bool" where
  "reschedule err \<longleftrightarrow> (case err of ExitCode n \<Rightarrow> n = statusReschedule | _ \<Rightarrow> False)"

definition restart :: "exit_status \<Rightarrow> duration" where
  "restart err =
     (case err of
        CleanExit \<Rightarrow> retryDelay
      | StartError \<Rightarrow> retryDelay
      | _ \<Rightarrow> if reschedule err then rescheduleDelay else repairDelay)"

definition blacklist :: "bytes list" where
  "blacklist = [''GODEBUG'', ''GOGC'', ''GOMAXPROCS'']"

text \<open>\<^verbatim>\<open>safeEnviron\<close>; the slice expression panics on a variable without equals sign.\<close>

fun safeEnviron :: "bytes list \<Rightarrow> bytes list option" where
  "safeEnviron [] = Some []"
| "safeEnviron (kv # environ) =
     (case index_byte kv (CHR ''='') of
        None \<Rightarrow> None
      | Some i \<Rightarrow>
          if take i kv \<in> set blacklist then safeEnviron environ
          else map_option ((#) kv) (safeEnviron environ))"

text \<open>
  \<^verbatim>\<open>process.decode\<close> over what the calls of \<^verbatim>\<open>Decode\<close> meet: idleness beyond the timeout, or
  input at a time. The result is the points sent, how it ended, and the input left.
\<close>

datatype decode_turn = Idle | Ready time point
datatype decode_end = Waiting | Stopped | KilledIdle

fun process_decode :: "golib \<Rightarrow> decode_turn list \<Rightarrow> decoder \<Rightarrow> point list \<times> decode_end \<times> decoder" where
  "process_decode L [] d = ([], Waiting, d)"
| "process_decode L (Idle # turns) d = ([], KilledIdle, d)"
| "process_decode L (Ready now pooled # turns) d =
     (case Decode L now pooled d of
        (Inl (ReadError e), d) \<Rightarrow> ([], Stopped, d)
      | (Inl e, d) \<Rightarrow> process_decode L turns d
      | (Inr p, d) \<Rightarrow> let (ps, e, d) = process_decode L turns d in (p # ps, e, d))"

section \<open>Directory entries\<close>

text \<open>
  The state of \<^verbatim>\<open>directoryEntry.mainloop\<close>: the number of running processes of the entry, the
  status in the exit channel of the current process, the restart delay, whether the loop has
  returned, and the counter of start errors.
\<close>

record pool_entry =
  pe_live :: nat
  pe_Exit :: "exit_status option"
  pe_RestartDelay :: "duration option"
  pe_done :: bool
  pe_statStart :: nat

definition startProcess :: "bool \<Rightarrow> pool_entry \<Rightarrow> pool_entry" where
  "startProcess ok e =
     (if ok then e\<lparr>pe_live := pe_live e + 1, pe_Exit := None\<rparr>
      else e\<lparr>pe_Exit := Some StartError, pe_statStart := pe_statStart e + 1\<rparr>)"

definition new_pool_entry :: "bool \<Rightarrow> pool_entry" where
  "new_pool_entry ok = startProcess ok
     \<lparr>pe_live = 0, pe_Exit = None, pe_RestartDelay = None, pe_done = False, pe_statStart = 0\<rparr>"

text \<open>\<^verbatim>\<open>process.Kill\<close> and waiting for the exit, unless a restart is pending.\<close>

definition kill_wait :: "pool_entry \<Rightarrow> pool_entry" where
  "kill_wait e =
     (if pe_RestartDelay e \<noteq> None then e
      else case pe_Exit e of
        None \<Rightarrow> e\<lparr>pe_live := pe_live e - 1\<rparr>
      | Some _ \<Rightarrow> e\<lparr>pe_Exit := None\<rparr>)"

inductive entry_step :: "pool_entry \<Rightarrow> pool_entry \<Rightarrow> bool" where
  modify: "\<not> pe_done e \<Longrightarrow> entry_step e (startProcess ok ((kill_wait e)\<lparr>pe_RestartDelay := None\<rparr>))"
| remove: "\<not> pe_done e \<Longrightarrow> entry_step e ((kill_wait e)\<lparr>pe_done := True\<rparr>)"
| die: "pe_live e > 0 \<Longrightarrow> pe_Exit e = None \<Longrightarrow> status \<noteq> StartError \<Longrightarrow>
    entry_step e (e\<lparr>pe_live := pe_live e - 1, pe_Exit := Some status\<rparr>)"
| exit: "\<not> pe_done e \<Longrightarrow> pe_Exit e = Some err \<Longrightarrow>
    entry_step e (e\<lparr>pe_Exit := None, pe_RestartDelay := Some (restart err),
      pe_statStart := pe_statStart e + (if err = StartError then 1 else 0)\<rparr>)"
| timer: "\<not> pe_done e \<Longrightarrow> pe_RestartDelay e = Some delay \<Longrightarrow>
    entry_step e (startProcess ok (e\<lparr>pe_RestartDelay := None\<rparr>))"

inductive entry_reachable :: "pool_entry \<Rightarrow> bool" where
  start: "entry_reachable (new_pool_entry ok)"
| step: "entry_reachable e \<Longrightarrow> entry_step e e' \<Longrightarrow> entry_reachable e'"

section \<open>The pool\<close>

definition MaxProc :: nat where "MaxProc = 128"

text \<open>
  A turn of \<^verbatim>\<open>Pool.loop\<close> on an event, on the paths that have an entry; \<^const>\<open>None\<close> is the
  panic of the entry's loop, which is sent every event and handles modification and removal only.
\<close>

definition pool_add :: "bytes \<Rightarrow> bytes list \<Rightarrow> bytes list" where
  "pool_add path byPath = (if length byPath = MaxProc then byPath else path # byPath)"

definition pool_del :: "bytes \<Rightarrow> bytes list \<Rightarrow> bytes list" where
  "pool_del path byPath = filter (\<lambda>p. p \<noteq> path) byPath"

definition pool_event :: "dir_event \<Rightarrow> bytes list \<Rightarrow> bytes list option" where
  "pool_event event byPath =
     (if de_Target event \<notin> set byPath then
        (case event of Create path \<Rightarrow> Some (pool_add path byPath) | _ \<Rightarrow> Some byPath)
      else (case event of
          Create _ \<Rightarrow> None
        | Modify _ \<Rightarrow> Some byPath
        | Remove path \<Rightarrow> Some (pool_del path byPath)))"

fun pool_events :: "dir_event list \<Rightarrow> bytes list \<Rightarrow> bytes list option" where
  "pool_events [] byPath = Some byPath"
| "pool_events (event # events) byPath = Option.bind (pool_event event byPath) (pool_events events)"

text \<open>The watcher and the pool over successive scans, from a directory not looked at before.\<close>

fun pool_scans :: "listing \<Rightarrow> listing list \<Rightarrow> bytes list \<Rightarrow> (listing \<times> bytes list) option" where
  "pool_scans old [] byPath = Some (old, byPath)"
| "pool_scans old (now # scans) byPath =
     Option.bind (pool_events (diff old now) byPath) (pool_scans now scans)"

section \<open>The contract between watcher and pool\<close>

text \<open>
  What the events mean for the set of paths: creation of a path that was not there, modification
  and removal of one that was.
\<close>

fun legal_event :: "dir_event \<Rightarrow> bytes set \<Rightarrow> bytes set option" where
  "legal_event (Create p) S = (if p \<in> S then None else Some (insert p S))"
| "legal_event (Remove p) S = (if p \<in> S then Some (S - {p}) else None)"
| "legal_event (Modify p) S = (if p \<in> S then Some S else None)"

fun legal_events :: "dir_event list \<Rightarrow> bytes set \<Rightarrow> bytes set option" where
  "legal_events [] S = Some S"
| "legal_events (e # es) S = Option.bind (legal_event e S) (legal_events es)"

lemma legal_events_append:
  "legal_events (xs @ ys) S = Option.bind (legal_events xs S) (legal_events ys)"
  by (induction xs arbitrary: S) (simp_all split: Option.bind_split)

definition follows :: "bytes list \<Rightarrow> bytes set \<Rightarrow> bool" where
  "follows byPath S \<longleftrightarrow> distinct byPath \<and> set byPath \<subseteq> S \<and> length byPath \<le> MaxProc"

lemma pool_event_follows:
  assumes "follows byPath S" "legal_event e S = Some S'"
  shows "\<exists>byPath'. pool_event e byPath = Some byPath' \<and> follows byPath' S'"
proof (cases e)
  case (Create p)
  with assms have "p \<notin> set byPath" "S' = insert p S" by (auto simp: follows_def split: if_splits)
  with Create assms(1) show ?thesis by (auto simp: pool_event_def pool_add_def follows_def)
next
  case (Remove p)
  have "length (pool_del p byPath) \<le> length byPath" by (simp add: pool_del_def)
  then have "length (pool_del p byPath) \<le> MaxProc" using assms(1) by (simp add: follows_def)
  with Remove assms show ?thesis
    by (auto simp: pool_event_def pool_del_def follows_def split: if_splits)
qed (use assms in \<open>auto simp: pool_event_def split: if_splits\<close>)

lemma pool_events_follow:
  "follows byPath S \<Longrightarrow> legal_events es S = Some S' \<Longrightarrow> \<exists>byPath'. pool_events es byPath = Some byPath' \<and> follows byPath' S'"
proof (induction es arbitrary: byPath S)
  case (Cons e es)
  from Cons.prems(2) obtain T where T: "legal_event e S = Some T" "legal_events es T = Some S'"
    by (auto split: Option.bind_splits)
  with pool_event_follows [OF Cons.prems(1) T(1)] Cons.IH show ?case by fastforce
qed simp

text \<open>With room for all paths around, the pool has an entry for every path.\<close>

lemma pool_events_exact:
  "set byPath = S \<Longrightarrow> distinct byPath \<Longrightarrow> legal_events es S = Some S' \<Longrightarrow> finite U \<Longrightarrow> card U \<le> MaxProc \<Longrightarrow>
     S \<subseteq> U \<Longrightarrow> de_Target ` set es \<subseteq> U \<Longrightarrow>
     \<exists>byPath'. pool_events es byPath = Some byPath' \<and> set byPath' = S' \<and> distinct byPath'"
proof (induction es arbitrary: byPath S)
  case (Cons e es)
  from Cons.prems(3) obtain T where T: "legal_event e S = Some T" "legal_events es T = Some S'"
    by (auto split: Option.bind_splits)
  have "\<exists>b. pool_event e byPath = Some b \<and> set b = T \<and> distinct b"
  proof (cases e)
    case (Create p)
    with T(1) Cons.prems(6,7) have "S \<subset> U" by (auto split: if_splits)
    then have "card S < MaxProc" 
      by (rule less_le_trans [OF psubset_card_mono [OF Cons.prems(4)] Cons.prems(5)])
    then have "length byPath < MaxProc" using distinct_card [OF Cons.prems(2)] Cons.prems(1) by simp
    with Create T(1) Cons.prems(1,2) show ?thesis by (auto simp: pool_event_def pool_add_def split: if_splits)
  qed (use T(1) Cons.prems(1,2) in \<open>auto simp: pool_event_def pool_del_def split: if_splits\<close>)
  then obtain b where b: "pool_event e byPath = Some b" "set b = T" "distinct b" by blast
  have "T \<subseteq> U" using T(1) Cons.prems(6,7) by (cases e) (auto split: if_splits)
  then have "\<exists>b'. pool_events es b = Some b' \<and> set b' = S' \<and> distinct b'"
    using Cons.prems(7) by (intro Cons.IH [OF b(2,3) T(2) Cons.prems(4,5)]) simp_all
  with b(1) show ?case by simp
qed simp

text \<open>
  The interface of a watcher: between two of its views of the directory, its events are legal
  and are about paths of the two.
\<close>

locale watcher =
  fixes wf :: "'d \<Rightarrow> bool"
    and paths :: "'d \<Rightarrow> bytes set"
    and events :: "'d \<Rightarrow> 'd \<Rightarrow> dir_event list"
  assumes legal: "wf a \<Longrightarrow> wf b \<Longrightarrow> legal_events (events a b) (paths a) = Some (paths b)"
    and targets: "de_Target ` set (events a b) \<subseteq> paths a \<union> paths b"
    and finite_paths: "finite (paths a)"
begin

lemma scan_follows:
  assumes "wf a" "wf b" "follows byPath (paths a)"
  shows "\<exists>byPath'. pool_events (events a b) byPath = Some byPath' \<and> follows byPath' (paths b)"
  using pool_events_follow [OF assms(3) legal [OF assms(1,2)]] .

lemma scan_exact:
  assumes "wf a" "wf b" "set byPath = paths a" "distinct byPath" "card (paths a \<union> paths b) \<le> MaxProc"
  shows "\<exists>byPath'. pool_events (events a b) byPath = Some byPath' \<and> set byPath' = paths b \<and> distinct byPath'"
  using pool_events_exact [OF assms(3,4) legal [OF assms(1,2)] _ assms(5) _ targets] finite_paths by simp

end

section \<open>The watcher of the code\<close>

lemma legal_removes:
  "distinct ps \<Longrightarrow> set ps \<subseteq> S \<Longrightarrow> legal_events (map Remove ps) S = Some (S - set ps)"
proof (induction ps arbitrary: S)
  case (Cons p ps)
  then have "legal_events (map Remove ps) (S - {p}) = Some (S - {p} - set ps)" by (intro Cons.IH) auto
  moreover have "S - {p} - set ps = S - set (p # ps)" by auto
  ultimately show ?case using Cons.prems by simp
qed simp

lemma legal_present:
  "distinct (map fst now) \<Longrightarrow> set (map fst now) \<inter> (S - set (map fst old)) = {} \<Longrightarrow> set (map fst old) \<subseteq> S \<Longrightarrow>
     legal_events (List.map_filter (present_event old) now) S = Some (S \<union> set (map fst now))"
proof (induction now arbitrary: S)
  case (Cons fi now)
  obtain p i where fi: "fi = (p, i)" by (cases fi)
  show ?case
  proof (cases "map_of old p")
    case None
    then have "p \<notin> set (map fst old)" by (simp add: map_of_eq_None_iff)
    with Cons.prems fi have "p \<notin> S" by auto
    moreover have "legal_events (List.map_filter (present_event old) now) (insert p S) = Some (insert p S \<union> set (map fst now))"
      using Cons.prems fi by (intro Cons.IH) auto
    ultimately show ?thesis using None fi by (simp add: map_filter_simps present_event_def)
  next
    case (Some j)
    then have "p \<in> S" using Cons.prems(3) by (auto dest!: map_of_SomeD)
    moreover have "legal_events (List.map_filter (present_event old) now) S = Some (S \<union> set (map fst now))"
      using Cons.prems by (intro Cons.IH) auto
    ultimately show ?thesis using Some fi by (auto simp: map_filter_simps present_event_def insert_absorb)
  qed
qed (simp add: map_filter_simps)

lemma legal_diff:
  assumes "distinct (map fst old)" "distinct (map fst now)"
  shows "legal_events (diff old now) (set (map fst old)) = Some (set (map fst now))"
proof -
  let ?gone = "filter (\<lambda>p. p \<notin> set (map fst now)) (map fst old)"
  have "legal_events (map Remove ?gone) (set (map fst old) \<union> set (map fst now)) =
      Some (set (map fst old) \<union> set (map fst now) - set ?gone)"
    using assms(1) by (intro legal_removes distinct_filter) auto
  moreover have "set (map fst old) \<union> set (map fst now) - set ?gone = set (map fst now)" by auto
  ultimately show ?thesis
    using legal_present [of now "set (map fst old)" old] assms(2) by (simp add: diff_def legal_events_append)
qed

lemma diff_targets: "de_Target ` set (diff old now) \<subseteq> set (map fst old) \<union> set (map fst now)"
  by (force simp: diff_def present_event_def List.map_filter_def split: option.splits if_splits)

interpretation dir: watcher "\<lambda>s. distinct (map fst s)" "\<lambda>s. set (map fst s)" diff
  by unfold_locales (rule legal_diff, assumption+, rule diff_targets, simp)

lemma pool_scans_follow:
  "distinct (map fst old) \<Longrightarrow> list_all (\<lambda>s. distinct (map fst s)) scans \<Longrightarrow> follows byPath (set (map fst old)) \<Longrightarrow>
     \<exists>byPath'. pool_scans old scans byPath = Some (last (old # scans), byPath') \<and> follows byPath' (set (map fst (last (old # scans))))"
proof (induction scans arbitrary: old byPath)
  case (Cons now scans)
  then obtain b where "pool_events (diff old now) byPath = Some b" "follows b (set (map fst now))"
    using dir.scan_follows [of old now byPath] by auto
  with Cons.IH [of now b] Cons.prems(2) show ?case by simp
qed simp

lemma pool_scans_exact:
  "distinct (map fst old) \<Longrightarrow> length old \<le> 64 \<Longrightarrow> list_all (\<lambda>s. distinct (map fst s) \<and> length s \<le> 64) scans \<Longrightarrow>
     set byPath = set (map fst old) \<Longrightarrow> distinct byPath \<Longrightarrow>
     \<exists>byPath'. pool_scans old scans byPath = Some (last (old # scans), byPath') \<and> set byPath' = set (map fst (last (old # scans)))"
proof (induction scans arbitrary: old byPath)
  case (Cons now scans)
  have "card (set (map fst old) \<union> set (map fst now)) \<le> card (set (map fst old)) + card (set (map fst now))"
    by (rule card_Un_le)
  also have "\<dots> \<le> 64 + 64"
    using Cons.prems(2,3) card_length [of "map fst old"] card_length [of "map fst now"] by simp
  finally have "card (set (map fst old) \<union> set (map fst now)) \<le> MaxProc" by (simp add: MaxProc_def)
  then obtain b where "pool_events (diff old now) byPath = Some b" "set b = set (map fst now)" "distinct b"
    using dir.scan_exact [of old now byPath] Cons.prems by auto
  with Cons.IH [of now b] Cons.prems(3) show ?case by simp
qed simp

section \<open>One process per entry\<close>

definition entry_inv :: "pool_entry \<Rightarrow> bool" where
  "entry_inv e \<longleftrightarrow>
     pe_live e = (if \<not> pe_done e \<and> pe_Exit e = None \<and> pe_RestartDelay e = None then 1 else 0) \<and>
     (pe_RestartDelay e \<noteq> None \<longrightarrow> pe_Exit e = None)"

lemma entry_step_inv: "entry_step e e' \<Longrightarrow> entry_inv e \<Longrightarrow> entry_inv e'"
  by (induction rule: entry_step.induct)
    (auto simp: entry_inv_def startProcess_def kill_wait_def split: if_splits option.splits)

lemma entry_reachable_inv: "entry_reachable e \<Longrightarrow> entry_inv e"
proof (induction rule: entry_reachable.induct)
  case (start ok)
  show ?case by (simp add: entry_inv_def new_pool_entry_def startProcess_def)
qed (rule entry_step_inv)

section \<open>Properties\<close>

text \<open>
  C28: Whatever the directory scans find, the pool never sends an entry an event it does not
  handle, so its loops do not panic; it has at most 128 entries, one per path, for files that the
  last scan found. If no scan finds more than 64 files, it has an entry for each of them.
\<close>

theorem pool_follows_directory:
  assumes "list_all (\<lambda>s. distinct (map fst s)) scans"
  shows "\<exists>byPath. pool_scans [] scans [] = Some (last ([] # scans), byPath) \<and> distinct byPath \<and>
    length byPath \<le> 128 \<and> set byPath \<subseteq> set (map fst (last ([] # scans))) \<and>
    (list_all (\<lambda>s. length s \<le> 64) scans \<longrightarrow> set byPath = set (map fst (last ([] # scans))))"
proof -
  obtain byPath where b: "pool_scans [] scans [] = Some (last ([] # scans), byPath)"
      "follows byPath (set (map fst (last ([] # scans))))"
    using pool_scans_follow [of "[]" scans "[]"] assms by (auto simp: follows_def)
  moreover have "set byPath = set (map fst (last ([] # scans)))" if "list_all (\<lambda>s. length s \<le> 64) scans"
    using pool_scans_exact [of "[]" scans "[]"] assms that b(1) by (auto simp: list_all_iff)
  ultimately show ?thesis by (auto simp: follows_def MaxProc_def)
qed

theorem pool_follows_directory_witness:
  "\<exists>byPath. pool_scans [] [[(''a'', \<lparr>fi_Mode = 0, fi_ModTime = 0\<rparr>)], []] [] = Some ([], byPath) \<and> byPath = []"
  using pool_follows_directory [of "[[(''a'', \<lparr>fi_Mode = 0, fi_ModTime = 0\<rparr>)], []]"] by auto

text \<open>
  C29: A directory entry never has two processes running. It has none once its loop has returned;
  and as long as the loop runs, it has one or the exit status of the last one is waiting to be
  handled or a restart is scheduled.
\<close>

theorem one_process:
  assumes "entry_reachable e"
  shows "pe_live e \<le> 1 \<and> (pe_done e \<longrightarrow> pe_live e = 0) \<and>
    (\<not> pe_done e \<longrightarrow> pe_live e = 1 \<or> pe_Exit e \<noteq> None \<or> pe_RestartDelay e \<noteq> None)"
  using entry_reachable_inv [OF assms] by (auto simp: entry_inv_def split: if_splits)

theorem one_process_witness:
  "entry_reachable (startProcess True ((kill_wait (new_pool_entry False))\<lparr>pe_RestartDelay := None\<rparr>)) \<and>
   pe_live (startProcess True ((kill_wait (new_pool_entry False))\<lparr>pe_RestartDelay := None\<rparr>)) \<le> 1"
proof -
  have "entry_reachable (startProcess True ((kill_wait (new_pool_entry False))\<lparr>pe_RestartDelay := None\<rparr>))"
    by (intro entry_reachable.step [OF entry_reachable.start [of False]] entry_step.modify)
      (simp add: new_pool_entry_def startProcess_def)
  with one_process [OF this] show ?thesis by blast
qed

text \<open>
  A program that appears while the pool is full is forgotten: it does not get a process when
  another one is removed, nor when its file is modified later.
\<close>

theorem full_pool_forgets:
  assumes "length byPath = 128" "path \<notin> set byPath" "q \<in> set byPath"
  shows "pool_events [Create path, Remove q, Modify path] byPath = Some (pool_del q byPath) \<and>
    path \<notin> set (pool_del q byPath) \<and> length (pool_del q byPath) < 128"
proof -
  have "length (pool_del q byPath) < length byPath"
    unfolding pool_del_def using assms(3) by (intro length_filter_less) auto
  with assms show ?thesis
    by (auto simp: pool_event_def pool_add_def MaxProc_def pool_del_def)
qed

text \<open>
  A plugin that writes 4096 bytes without a newline is no longer read from, and it is not
  killed either: whatever happens later, the loop that would notice has returned.
\<close>

theorem overlong_line_unread:
  assumes "length line \<ge> 4096" "CHR 0x0A \<notin> set (take 4096 line)"
  shows "fst (process_decode L (Ready now pooled # turns) (NewDecoder line)) = [] \<and>
    fst (snd (process_decode L (Ready now pooled # turns) (NewDecoder line))) = Stopped"
  using assms by (simp add: Decode_def scan_def ReadSlice_def NewDecoder_def bufioSize_def)

end
