(* ===== verification/Pipeline.thy ===== *)
theory Pipeline
  imports Aggregate Collect Server
begin

text \<open>
  From one program to the next: what the statse aggregator writes to its standard output
  (\<^verbatim>\<open>cmd/collect-statse/tsdb.go\<close>) is read by the plugin pool of the forwarder
  (\<^verbatim>\<open>internal/collect\<close>).

  The lemmas here are about a decoder that has not yet seen the series of the points to come, and
  about the points that a snapshot emits.
\<close>

section \<open>Fresh series\<close>

lemma same_point_series: "same_point q p \<Longrightarrow> appendSeries b q = appendSeries b p"
  by (simp add: same_point_def appendSeries_def)

lemma cleanup_keys: "Mapping.keys (d_bySeries (dec_cleanup now d)) \<subseteq> Mapping.keys (d_bySeries d)"
proof -
  have "Mapping.keys (Mapping.filter P m) \<subseteq> Mapping.keys m" for P and m :: "(bytes, int) mapping"
    by transfer (auto split: option.splits if_splits)
  then show ?thesis by (auto simp: dec_cleanup_def Let_def)
qed

lemma validOrder_fresh:
  assumes "appendSeries [] p \<notin> Mapping.keys (d_bySeries d)" "finite (Mapping.keys (d_bySeries d))"
    "card (Mapping.keys (d_bySeries d)) < decoderMaxSeries"
  shows "\<exists>d'. validOrder now p d = (None, d') \<and>
    Mapping.keys (d_bySeries d') \<subseteq> insert (appendSeries [] p) (Mapping.keys (d_bySeries d))"
proof -
  note sub = cleanup_keys [of now d]
  have "Mapping.size (d_bySeries (dec_cleanup now d)) < decoderMaxSeries"
    using card_mono [OF assms(2) sub] assms(3) by (simp add: Mapping.size_def)
  moreover have "Mapping.lookup (d_bySeries (dec_cleanup now d)) (appendSeries [] p) = None"
    using sub assms(1) by (cases "Mapping.lookup (d_bySeries (dec_cleanup now d)) (appendSeries [] p)")
      (auto simp: keys_is_none_rep subset_iff)
  ultimately show ?thesis using sub by (auto simp: validOrder_def Let_def)
qed

lemma Decode_fresh:
  assumes "encodable L p" "d_input d = append_point L [] p @ CHR 0x0A # rest"
    "appendSeries [] p \<notin> Mapping.keys (d_bySeries d)" "finite (Mapping.keys (d_bySeries d))"
    "card (Mapping.keys (d_bySeries d)) < decoderMaxSeries"
  shows "\<exists>q d'. Decode L now pooled d = (Inr q, d') \<and> same_point q p \<and> d_input d' = rest \<and>
    Mapping.keys (d_bySeries d') \<subseteq> insert (appendSeries [] p) (Mapping.keys (d_bySeries d))"
proof -
  obtain q where q: "unmarshalText L (append_point L [] p) (getPoint pooled) = Inr q" "same_point q p"
    using unmarshal_append [OF assms(1)] by blast
  let ?d = "d\<lparr>d_input := rest, d_statBytes := d_statBytes d + length (append_point L [] p) + 1\<rparr>"
  obtain d' where d': "validOrder now q ?d = (None, d')"
      "Mapping.keys (d_bySeries d') \<subseteq> insert (appendSeries [] p) (Mapping.keys (d_bySeries d))"
    using validOrder_fresh [of q ?d now] assms(3-5) same_point_series [OF q(2)] by auto
  have "d_input d' = rest" using validOrder_frame [OF d'(1)] by simp
  with q d' scan_line [OF encodable_line [OF assms(1)] assms(2)] show ?thesis
    by (auto simp: Decode_def)
qed

abbreviation ready_turns :: "(time \<times> point) list \<Rightarrow> decode_turn list" where
  "ready_turns envs \<equiv> map (\<lambda>(now, pooled). Ready now pooled) envs"

lemma process_decode_fresh:
  assumes "length envs = length ps" "\<forall>p \<in> set ps. encodable L p" "distinct (map (appendSeries []) ps)"
    "d_input d = encode_all L ps" "finite (Mapping.keys (d_bySeries d))"
    "card (Mapping.keys (d_bySeries d)) + length ps \<le> decoderMaxSeries"
    "appendSeries [] ` set ps \<inter> Mapping.keys (d_bySeries d) = {}"
  shows "\<exists>qs d'. process_decode L (ready_turns envs) d = (qs, Waiting, d') \<and> list_all2 same_point qs ps"
  using assms
proof (induction envs ps arbitrary: d rule: list_induct2)
  case (Cons env envs p ps)
  obtain now pooled where env: "env = (now, pooled)" by (cases env)
  have inp: "d_input d = append_point L [] p @ CHR 0x0A # encode_all L ps"
    using Cons.prems(3) by (simp add: encode_all_def)
  obtain q d' where d': "Decode L now pooled d = (Inr q, d')" "same_point q p" "d_input d' = encode_all L ps"
      "Mapping.keys (d_bySeries d') \<subseteq> insert (appendSeries [] p) (Mapping.keys (d_bySeries d))"
    using Decode_fresh [OF _ inp, of now pooled] Cons.prems by auto
  let ?K = "insert (appendSeries [] p) (Mapping.keys (d_bySeries d))"
  have fin: "finite ?K" using Cons.prems(4) by simp
  then have "card (Mapping.keys (d_bySeries d')) \<le> card ?K" using d'(4) by (rule card_mono)
  also have "\<dots> \<le> Suc (card (Mapping.keys (d_bySeries d)))" by (rule card_insert_le_m1) (simp_all)
  finally have "card (Mapping.keys (d_bySeries d')) + length ps \<le> decoderMaxSeries" using Cons.prems(5) by simp
  moreover have "appendSeries [] ` set ps \<inter> Mapping.keys (d_bySeries d') = {}"
    using d'(4) Cons.prems(2,6) by (fastforce simp: image_iff)
  ultimately have "\<exists>qs d''. process_decode L (ready_turns envs) d' = (qs, Waiting, d'') \<and> list_all2 same_point qs ps"
    using Cons.prems d'(3) finite_subset [OF d'(4) fin] by (intro Cons.IH) auto
  with d'(1,2) env show ?case by auto
qed (simp add: encode_all_def)

section \<open>The points of a snapshot\<close>

lemma NewPoint_time:
  assumes "NewPoint L pooled t g m kv = Inr p"
  shows "pt_time p = UnixNano (Truncate t maxTimePrecision)"
proof -
  from assms obtain p1 p2 p3 where p: "setTime t (getPoint pooled) = Inr p1" "SetValue L g p1 = Inr p2"
      "SetMetric L m p2 = Inr p3" "setTags L True (append_nameval True kv []) p3 = Inr p"
    by (auto simp: NewPoint_def Let_def rbind_eq_Inr)
  have "pt_time p2 = pt_time p1" using p(2)
    by (cases g) (auto simp: SetValue_def setValue_def setValueBytes_def rbind_eq_Inr split: option.splits)
  moreover have "pt_time p3 = pt_time p2" using p(3) by (auto simp: SetMetric_def setMetric_ok)
  ultimately show ?thesis using p(1) setTags_wf(3) [OF p(4)] by (simp add: setTime_ok)
qed

definition stamped :: "golib \<Rightarrow> time \<Rightarrow> point \<Rightarrow> bool" where
  "stamped L t p \<longleftrightarrow> wf_point L p \<and> pt_time p = UnixNano (Truncate t maxTimePrecision)"

lemma calc_goval_ok: "(name, g) \<in> set (calc A e) \<Longrightarrow> goval_ok g"
  by (auto simp: calc_def calc_values_def stat_keys_def Let_def split: option.splits)

lemma emit_all_stamped:
  "emit_all L pooled t series stats = Some ps \<Longrightarrow> \<forall>(name, g) \<in> set stats. goval_ok g \<Longrightarrow> \<forall>p \<in> set ps. stamped L t p"
proof (induction stats arbitrary: ps)
  case (Cons st stats)
  obtain name g where st: "st = (name, g)" by (cases st)
  from Cons.prems st obtain as bs where ab: "emitf L pooled t g (series name) = Some as"
      "emit_all L pooled t series stats = Some bs" "ps = as @ bs"
    by (auto split: Option.bind_splits)
  have "stamped L t p" if "p \<in> set as" for p
    using ab(1) that Cons.prems(2) st NewPoint_wf NewPoint_time
    by (auto simp: emitf_def stamped_def split: list.splits sum.splits)
  with Cons.IH [OF ab(2)] Cons.prems(2) ab(3) show ?case by auto
qed simp

lemma emit_entries_stamped:
  "emit_entries A L pooled t series m = Some ps \<Longrightarrow> \<forall>p \<in> set ps. stamped L t p"
proof (induction m arbitrary: ps)
  case (Cons ke m)
  obtain k e where ke: "ke = (k, e)" by (cases ke)
  from Cons.prems ke obtain as bs where ab: "emit_all L pooled t (series k) (calc A e) = Some as"
      "emit_entries A L pooled t series m = Some bs" "ps = as @ bs"
    by (auto split: Option.bind_splits)
  have "\<forall>p \<in> set as. stamped L t p"
    using emit_all_stamped [OF ab(1)] calc_goval_ok by blast
  with Cons.IH [OF ab(2)] ab(3) show ?case by auto
qed simp

lemma snapshot_stamped:
  assumes "snapshot A L pooled visit t (r, m) = Some (r', m', ps)"
  shows "\<forall>p \<in> set ps. stamped L t p"
proof -
  from assms obtain hs cs byCluster where "emit_entries A L pooled t host_series (visit m) = Some hs"
      "emit_entries A L pooled t cluster_series (visit byCluster) = Some cs" "ps = hs @ cs"
    by (auto simp: snapshot_def split: prod.splits Option.bind_splits)
  then show ?thesis using emit_entries_stamped by fastforce
qed

lemma stamped_encodable:
  assumes "stamped L t p" "0 \<le> t" "in64 t" "val_encodable L (Value p)" "length (append_point L [] p) \<le> maxLineLength"
  shows "encodable L p"
proof -
  have tr: "Truncate t maxTimePrecision = t - t mod 10 ^ 9"
    using Truncate_second [of t] by (simp add: maxTimePrecision_def)
  have "0 \<le> t mod 10 ^ 9" "t mod 10 ^ 9 \<le> t" using assms(2) by (simp_all add: zmod_le_nonneg_dividend)
  then have "0 \<le> t - t mod 10 ^ 9" "in64 (t - t mod 10 ^ 9)"
    using assms(3) unfolding in64_iff by linarith+
  moreover have "(t - t mod 10 ^ 9) mod 10 ^ 9 = 0" by (simp add: mod_diff_eq)
  ultimately show ?thesis using assms tr by (simp add: encodable_def stamped_def UnixNano_def)
qed

end
