(* ===== verification/StatseMain.thy ===== *)
theory StatseMain
  imports Mains Pipeline StatseControl
begin

text \<open>
  The program \<^verbatim>\<open>cmd/collect-statse\<close> as a whole: its flags and configuration
  (\<^verbatim>\<open>config/config.go\<close>), the start of its two services (\<^verbatim>\<open>ListenAndServe\<close> of
  \<^verbatim>\<open>forwarder\<close> and \<^verbatim>\<open>aggregator\<close>), and the way of its points to standard output
  (\<^verbatim>\<open>tsdb.go\<close>, \<^verbatim>\<open>scheduler.go\<close>): the scheduler and the export of own variables share a channel,
  which one goroutine empties.

  What is proved: a validated configuration starts both services unless a port is taken; the
  goroutines that write the points do not block each other, and what they have written when they
  come to rest are the points of both, each once, in some order that keeps the order of each.
\<close>

section \<open>Start\<close>

text \<open>\<^verbatim>\<open>config.Load\<close>; the program has its own flags, with the same meaning as those of the others.\<close>

definition statse_Load :: "(bytes \<Rightarrow> 'c outcome) \<Rightarrow> tsp_flags \<Rightarrow> 'c init_result" where
  "statse_Load Load fl =
     (if tf_unknown fl then ExitsWith 2
      else if tf_NArg fl \<noteq> 0 then ExitsWith 1
      else if tf_VersionMode fl then ExitsWith 0
      else case Load (case tf_FilePath fl of None \<Rightarrow> ''/etc/collect-statse/config'' | Some path \<Rightarrow> path) of
        Panics \<Rightarrow> ExitsWith 2
      | Exits \<Rightarrow> ExitsWith 1
      | Blocks \<Rightarrow> NoReturn
      | Returns c g _ \<Rightarrow> if tf_TestMode fl then ExitsWith 0 else Initialised c g)"

datatype service_error = ServiceConfig statse_config_error | ServiceFilter filter_error | ListenFailed

text \<open>
  \<^verbatim>\<open>forwarder.ListenAndServe\<close> up to its loop: the rules and the host of the aggregator. The outer
  option is a panic.
\<close>

definition forwarder_ListenAndServe ::
  "statse_env \<Rightarrow> regexlib \<Rightarrow> bool \<Rightarrow> fwd_config \<Rightarrow> (service_error + rule list \<times> string) option" where
  "forwarder_ListenAndServe E R listens c =
     (case statse_forwarder_Validate E R c of
        None \<Rightarrow> None
      | Some (Inl e) \<Rightarrow> Some (Inl (ServiceConfig e))
      | Some (Inr c) \<Rightarrow>
          (case New R (the (fc_Filter c)) of
             None \<Rightarrow> None
           | Some (Inl e) \<Rightarrow> Some (Inl (ServiceFilter e))
           | Some (Inr rules) \<Rightarrow> Some (if listens then Inr (rules, fc_AggregatorHost c) else Inl ListenFailed)))"

text \<open>
  \<^verbatim>\<open>aggregator.ListenAndServe\<close> up to its loop: the empty store and the interval of the scheduler.
  An error of the second \<^verbatim>\<open>ParseDuration\<close> is ignored and leaves the interval zero.
\<close>

definition aggregator_ListenAndServe :: "statse_env \<Rightarrow> bool \<Rightarrow> string \<Rightarrow> service_error + store \<times> duration" where
  "aggregator_ListenAndServe E listens interval =
     rbind (rmap_err ServiceConfig (validateSnapshotInterval E interval)) (\<lambda>interval.
       if \<not> listens then Inl ListenFailed
       else Inr ([], case se_ParseDuration E interval of None \<Rightarrow> 0 | Some d \<Rightarrow> d))"

text \<open>
  \<^verbatim>\<open>main\<close>: both services are started from the loaded configuration, and an error of one of them
  ends the program.
\<close>

datatype statse_run = StatseExits nat | StatseWaits | StatseRuns "rule list" string store duration

definition statse_main ::
  "statse_env \<Rightarrow> regexlib \<Rightarrow> (bytes \<Rightarrow> statse_config outcome) \<Rightarrow> bool \<Rightarrow> bool \<Rightarrow> tsp_flags \<Rightarrow> statse_run" where
  "statse_main E R Load listens1 listens2 fl =
     (case statse_Load Load fl of
        ExitsWith n \<Rightarrow> StatseExits n
      | NoReturn \<Rightarrow> StatseWaits
      | Initialised c g \<Rightarrow>
          (case forwarder_ListenAndServe E R listens1 (sc_Forwarder c) of
             None \<Rightarrow> StatseExits 2
           | Some (Inl e) \<Rightarrow> StatseExits 1
           | Some (Inr (rules, host)) \<Rightarrow>
               (case aggregator_ListenAndServe E listens2 (sc_SnapshotInterval c) of
                  Inl e \<Rightarrow> StatseExits 1
                | Inr (m, d) \<Rightarrow> StatseRuns rules host m d)))"

section \<open>The way to standard output\<close>

definition tsdbChan_cap :: nat where "tsdbChan_cap = 100000"

text \<open>
  The points the scheduler has still to send, those of the export of own variables, the channel
  and the bytes written.
\<close>

record statse_process =
  sp_sched :: "point list"
  sp_self :: "point list"
  sp_chan :: "point list"
  sp_stdout :: bytes
  sp_stats :: encoder_stats

text \<open>One turn of \<^verbatim>\<open>encode\<close>; \<^const>\<open>None\<close> if the write fails, which ends the program.\<close>

definition encode_turn :: "golib \<Rightarrow> bool \<Rightarrow> point \<Rightarrow> statse_process \<Rightarrow> statse_process option" where
  "encode_turn L ok p s =
     (case Encode L (\<lambda>buf w. if ok then (None, w @ buf) else (Some (), w)) p (sp_stdout s) (sp_stats s) of
        (Some _, _, _) \<Rightarrow> None
      | (None, w, st) \<Rightarrow> Some (s\<lparr>sp_stdout := w, sp_stats := st\<rparr>))"

inductive output_step :: "golib \<Rightarrow> statse_process \<Rightarrow> statse_process \<Rightarrow> bool" for L where
  send_sched: "sp_sched s = p # ps \<Longrightarrow> length (sp_chan s) < tsdbChan_cap \<Longrightarrow>
     output_step L s (s\<lparr>sp_sched := ps, sp_chan := sp_chan s @ [p]\<rparr>)"
| send_self: "sp_self s = p # ps \<Longrightarrow> length (sp_chan s) < tsdbChan_cap \<Longrightarrow>
     output_step L s (s\<lparr>sp_self := ps, sp_chan := sp_chan s @ [p]\<rparr>)"
| encode: "sp_chan s = p # ps \<Longrightarrow> encode_turn L True p s = Some t \<Longrightarrow> output_step L s (t\<lparr>sp_chan := ps\<rparr>)"

definition new_output :: "point list \<Rightarrow> point list \<Rightarrow> statse_process" where
  "new_output ps ss = \<lparr>sp_sched = ps, sp_self = ss, sp_chan = [], sp_stdout = [], sp_stats = \<lparr>enc_bytes = 0, enc_errors = 0\<rparr>\<rparr>"

definition output_final :: "statse_process \<Rightarrow> bool" where
  "output_final s \<longleftrightarrow> sp_sched s = [] \<and> sp_self s = [] \<and> sp_chan s = []"

definition output_rank :: "statse_process \<Rightarrow> nat" where
  "output_rank s = 2 * length (sp_sched s) + 2 * length (sp_self s) + length (sp_chan s)"

definition output_inv :: "golib \<Rightarrow> point list \<Rightarrow> point list \<Rightarrow> statse_process \<Rightarrow> bool" where
  "output_inv L ps ss s \<longleftrightarrow> length (sp_chan s) \<le> tsdbChan_cap \<and>
     (\<exists>as bs ws. ps = as @ sp_sched s \<and> ss = bs @ sp_self s \<and> joined_run as bs (ws @ sp_chan s) \<and> sp_stdout s = encode_all L ws)"

lemma encode_turn_ok:
  "\<exists>st. encode_turn L True p s = Some (s\<lparr>sp_stdout := sp_stdout s @ append_point L [] p @ [CHR 0x0A], sp_stats := st\<rparr>)"
  by (simp add: encode_turn_def Encode_def) (rule exI, rule refl)

lemma output_step_inv:
  assumes "output_step L s t" "output_inv L ps ss s"
  shows "output_inv L ps ss t"
proof -
  obtain as bs ws where i: "length (sp_chan s) \<le> tsdbChan_cap" "ps = as @ sp_sched s" "ss = bs @ sp_self s"
      "joined_run as bs (ws @ sp_chan s)" "sp_stdout s = encode_all L ws"
    using assms(2) by (auto simp: output_inv_def)
  note j = joined_snoc [OF i(4)]
  from assms(1) show ?thesis
  proof cases
    case (send_sched p ps')
    with i j [of p] show ?thesis unfolding output_inv_def
      by (intro conjI exI [of _ "as @ [p]"] exI [of _ bs] exI [of _ ws]) simp_all
  next
    case (send_self p ps')
    with i j [of p] show ?thesis unfolding output_inv_def
      by (intro conjI exI [of _ as] exI [of _ "bs @ [p]"] exI [of _ ws]) simp_all
  next
    case (encode p ps' u)
    with encode_turn_ok [of L p s] obtain st where
      "t = s\<lparr>sp_stdout := sp_stdout s @ append_point L [] p @ [CHR 0x0A], sp_stats := st, sp_chan := ps'\<rparr>" by auto
    with i encode(2) show ?thesis unfolding output_inv_def
      by (intro conjI exI [of _ as] exI [of _ bs] exI [of _ "ws @ [p]"]) (simp_all add: encode_all_def)
  qed
qed

interpretation outp: ending "output_step L" "output_inv L ps ss" output_rank output_final for L ps ss
proof unfold_locales
  show "output_step L s t \<Longrightarrow> output_inv L ps ss s \<Longrightarrow> output_inv L ps ss t" for s t by (rule output_step_inv)
  show "output_step L s t \<Longrightarrow> output_rank t < output_rank s" for s t
    by (induction rule: output_step.induct) (auto simp: output_rank_def encode_turn_def split: prod.splits option.splits)
  show "\<exists>t. output_step L s t" if "\<not> output_final s" for s
  proof (cases "sp_chan s")
    case Nil
    then have room: "length (sp_chan s) < tsdbChan_cap" by (simp add: tsdbChan_cap_def)
    from that Nil consider p qs where "sp_sched s = p # qs" | p qs where "sp_self s = p # qs"
      by (auto simp: output_final_def neq_Nil_conv)
    then show ?thesis using send_sched [OF _ room] send_self [OF _ room] by cases blast+
  next
    case (Cons p qs)
    then show ?thesis using encode [OF Cons] encode_turn_ok [of L p s] by blast
  qed
qed

lemma new_output_inv: "output_inv L ps ss (new_output ps ss)"
  by (auto simp: output_inv_def new_output_def encode_all_def intro: joined_done)

text \<open>No run of the goroutines is stuck, and at rest all points are written.\<close>

lemma output_goes_on:
  "(output_step L)\<^sup>*\<^sup>* (new_output ps ss) s \<Longrightarrow> \<exists>t. (output_step L)\<^sup>*\<^sup>* s t \<and> output_final t"
  using outp.run_ends outp.run_inv new_output_inv by blast

lemma output_written:
  assumes "(output_step L)\<^sup>*\<^sup>* (new_output ps ss) s" "output_final s"
  shows "\<exists>cs. joined_run ps ss cs \<and> sp_stdout s = encode_all L cs"
  using outp.run_inv [OF assms(1) new_output_inv] assms(2) by (auto simp: output_inv_def output_final_def)

section \<open>Validated configurations\<close>

text \<open>
  If what \<^verbatim>\<open>config.Load\<close> returns was validated, the program runs with both services, unless a port
  is taken; the interval of the scheduler is then at least one second.
\<close>

theorem statse_starts:
  assumes "statse_Validate E R c = Some (Inr c')" "flag_Parse ''/etc/collect-statse/config'' fl = Inr path" "\<not> tf_TestMode fl"
    "Load path = Returns c' g gets"
  shows "if listens1 \<and> listens2
    then \<exists>rules d. statse_main E R Load listens1 listens2 fl = StatseRuns rules (fc_AggregatorHost (sc_Forwarder c')) [] d \<and> second \<le> d
    else statse_main E R Load listens1 listens2 fl = StatseExits 1"
proof -
  obtain f i where v: "validateForwarder E R (sc_Forwarder c) = Some (Inr f)" "validateSnapshotInterval E (sc_SnapshotInterval c) = Inr i"
      "c' = c\<lparr>sc_Forwarder := f, sc_SnapshotInterval := i\<rparr>"
    using assms(1) by (auto simp: statse_Validate_def rbind_eq_Inr)
  have f: "\<exists>rules. forwarder_ListenAndServe E R listens f = Some (if listens then Inr (rules, fc_AggregatorHost f) else Inl ListenFailed)" for listens
    using v(1)
    by (auto simp: validateForwarder_def statse_forwarder_Validate_def statse_validateFilter_def validateAggregatorHost_def
        forwarder_ListenAndServe_def rbind_eq_Inr Let_def split: if_splits sum.splits option.splits)
  have a: "\<exists>d \<ge> second. aggregator_ListenAndServe E listens i = (if listens then Inr ([], d) else Inl ListenFailed)" for listens
  proof -
    obtain d where "se_ParseDuration E i = Some d" "second \<le> d" "i \<noteq> []"
      using v(2) by (auto simp: validateSnapshotInterval_def Let_def split: if_splits option.splits)
    then show ?thesis by (auto simp: validateSnapshotInterval_def aggregator_ListenAndServe_def intro!: exI [of _ d])
  qed
  have l: "statse_Load Load fl = Initialised c' g"
    using assms(2-4) by (auto simp: statse_Load_def flag_Parse_def split: if_splits option.splits)
  show ?thesis
    using f [of listens1] a [of listens2] l v(3) by (auto simp: statse_main_def)
qed

end
