(* ===== verification/Json.thy ===== *)
theory Json
  imports Numbers
begin

text \<open>
  The part of Go's \<^verbatim>\<open>encoding/json\<close> that the programs rely on when they decode a document
  into a struct: which field of the struct a key of an object sets, and what the value becomes.
  A type is described as data, so that a struct declaration of the source is a definition of the
  model, with its field names, tags and types.

  The rules are those the package documents. A field is known under its tag or else its name.
  Of fields known under one name the tagged ones are considered, and if more than one is left
  all are ignored, without an error. A key matches a field exactly or else up to case. The option
  \<^verbatim>\<open>,string\<close> reads a number from a JSON string. Decoding goes into the old value: what the
  document does not mention stays. Elements a slice once had beyond its length are not modelled;
  Go would decode into them.
\<close>

section \<open>Documents, types and values\<close>

text \<open>The number of a document is its text.\<close>

datatype jval =
    JNull | JBool bool | JNum bytes | JStr bytes | JArr "jval list" | JObj "(bytes \<times> jval) list"

datatype gotype =
    TString | TInt | TUint64 | TFloat64 | TPtr gotype | TSlice gotype | TStruct "gofield list"
and gofield = Field (f_name: bytes) (f_tag: "bytes option") (f_quoted: bool) (f_type: gotype)

text \<open>A pointer that is not nil is the value it points to.\<close>

datatype gvalue =
    VNil | VString bytes | VGoInt int | VUint64 "64 word" | VFloat64 float64
  | VSlice "gvalue list" | VStruct "(bytes \<times> gvalue) list"

datatype json_error = TypeMismatch | NotQuoted | BadLiteral bytes

lemma f_type_size [termination_simp]: "f \<in> set fs \<Longrightarrow> size (f_type f) < Suc (size_list size fs)"
proof -
  assume "f \<in> set fs"
  then have "size f \<le> size_list size fs" by (rule size_list_estimation') simp
  then show ?thesis by (cases f) simp
qed

fun zero_value :: "gotype \<Rightarrow> gvalue" where
  "zero_value TString = VString []"
| "zero_value TInt = VGoInt 0"
| "zero_value TUint64 = VUint64 0"
| "zero_value TFloat64 = VFloat64 0"
| "zero_value (TPtr t) = VNil"
| "zero_value (TSlice t) = VSlice []"
| "zero_value (TStruct fs) = VStruct (map (\<lambda>f. (f_name f, zero_value (f_type f))) fs)"

text \<open>The selector \<^verbatim>\<open>x.F\<close>; \<^const>\<open>None\<close> is the panic on a nil pointer.\<close>

fun sel :: "gvalue \<Rightarrow> bytes \<Rightarrow> gvalue option" where
  "sel (VStruct fs) name = map_of fs name"
| "sel _ name = None"

definition elements :: "gvalue \<Rightarrow> gvalue list" where
  "elements v = (case v of VSlice vs \<Rightarrow> vs | _ \<Rightarrow> [])"

definition text_of :: "gvalue option \<Rightarrow> bytes" where
  "text_of v = (case v of Some (VString s) \<Rightarrow> s | _ \<Rightarrow> [])"

section \<open>The field a key sets\<close>

definition json_name :: "gofield \<Rightarrow> bytes" where
  "json_name f = (case f_tag f of Some s \<Rightarrow> s | None \<Rightarrow> f_name f)"

text \<open>The fields that are left of those known under a name.\<close>

definition dominant :: "gofield list \<Rightarrow> bytes \<Rightarrow> gofield list" where
  "dominant fs name =
     (let same = filter (\<lambda>f. json_name f = name) fs;
          tagged = filter (\<lambda>f. f_tag f \<noteq> None) same
      in if tagged = [] then same else tagged)"

definition visible :: "gofield list \<Rightarrow> gofield list" where
  "visible fs = filter (\<lambda>f. dominant fs (json_name f) = [f]) fs"

text \<open>
  \<^verbatim>\<open>equalFold\<close> for names of ASCII letters: case is ignored, and the Kelvin sign and the long
  s are the letters they fold to.
\<close>

definition lower :: "char \<Rightarrow> char" where
  "lower c = (if 65 \<le> ord c \<and> ord c \<le> 90 then chr (int (ord c) + 32) else c)"

fun fold_key :: "bytes \<Rightarrow> bytes" where
  "fold_key [] = []"
| "fold_key (c # cs) =
     (case cs of
        d # ds \<Rightarrow>
          if c = CHR 0xC5 \<and> d = CHR 0xBF then CHR ''s'' # fold_key ds
          else if c = CHR 0xE2 \<and> d = CHR 0x84 \<and> take 1 ds = [CHR 0xAA] then CHR ''k'' # fold_key (drop 1 ds)
          else lower c # fold_key cs
      | [] \<Rightarrow> [lower c])"

definition find_field :: "gofield list \<Rightarrow> bytes \<Rightarrow> gofield option" where
  "find_field fs key =
     (case find (\<lambda>f. json_name f = key) (visible fs) of
        Some f \<Rightarrow> Some f
      | None \<Rightarrow> find (\<lambda>f. fold_key (json_name f) = fold_key key) (visible fs))"

lemma find_field_mem: "find_field fs key = Some f \<Longrightarrow> f \<in> set (visible fs)"
  by (auto simp: find_field_def find_Some_iff split: option.splits)

lemma visible_subset: "set (visible fs) \<subseteq> set fs"
  by (auto simp: visible_def)

section \<open>Decoding\<close>

definition parse_uint :: "bytes \<Rightarrow> 64 word option" where
  "parse_uint s =
     (if s \<noteq> [] \<and> list_all is_digit s \<and> dec_value s < 2 ^ 64 then Some (word_of_int (dec_value s)) else None)"

definition parse_int :: "bytes \<Rightarrow> int option" where
  "parse_int s =
     (let neg = has_prefix s ''-''; digits = (if neg then drop 1 s else s);
          n = (if neg then - dec_value digits else dec_value digits)
      in if digits \<noteq> [] \<and> list_all is_digit digits \<and> in64 n then Some n else None)"

text \<open>\<^verbatim>\<open>literalStore\<close> on the text of a number.\<close>

definition number :: "golib \<Rightarrow> gotype \<Rightarrow> bytes \<Rightarrow> json_error + gvalue" where
  "number L t s =
     (case (case t of
              TInt \<Rightarrow> map_option VGoInt (parse_int s)
            | TUint64 \<Rightarrow> map_option VUint64 (parse_uint s)
            | TFloat64 \<Rightarrow> map_option VFloat64 (lib_ParseFloat L s)
            | _ \<Rightarrow> None) of
        Some v \<Rightarrow> Inr v
      | None \<Rightarrow> Inl (BadLiteral s))"

definition number_start :: "bytes \<Rightarrow> bool" where
  "number_start s \<longleftrightarrow> s \<noteq> [] \<and> (hd s = CHR ''-'' \<or> is_digit (hd s))"

definition unmarshal_number :: "golib \<Rightarrow> gotype \<Rightarrow> bool \<Rightarrow> jval \<Rightarrow> gvalue \<Rightarrow> json_error + gvalue" where
  "unmarshal_number L t quoted j old =
     (if quoted then
        (case j of
           JNull \<Rightarrow> Inr old
         | JStr s \<Rightarrow> if s = ''null'' then Inr old else if number_start s then number L t s else Inl NotQuoted
         | _ \<Rightarrow> Inl NotQuoted)
      else
        (case j of JNull \<Rightarrow> Inr old | JNum s \<Rightarrow> number L t s | _ \<Rightarrow> Inl TypeMismatch))"

function unmarshal :: "golib \<Rightarrow> gotype \<Rightarrow> bool \<Rightarrow> jval \<Rightarrow> gvalue \<Rightarrow> json_error + gvalue"
  and unmarshal_fields :: "golib \<Rightarrow> gofield list \<Rightarrow> (bytes \<times> jval) list \<Rightarrow> (bytes \<times> gvalue) list \<Rightarrow> json_error + (bytes \<times> gvalue) list"
  and unmarshal_elems :: "golib \<Rightarrow> gotype \<Rightarrow> jval list \<Rightarrow> gvalue list \<Rightarrow> json_error + gvalue list" where
  "unmarshal L (TPtr t) q j old =
     (if j = JNull \<or> q \<and> j = JStr ''null'' then Inr VNil
      else unmarshal L t q j (if old = VNil then zero_value t else old))"
| "unmarshal L TString q j old =
     (case j of JNull \<Rightarrow> Inr old | JStr s \<Rightarrow> Inr (VString s) | _ \<Rightarrow> Inl TypeMismatch)"
| "unmarshal L TInt q j old = unmarshal_number L TInt q j old"
| "unmarshal L TUint64 q j old = unmarshal_number L TUint64 q j old"
| "unmarshal L TFloat64 q j old = unmarshal_number L TFloat64 q j old"
| "unmarshal L (TSlice t) q j old =
     (case j of
        JNull \<Rightarrow> Inr (VSlice [])
      | JArr js \<Rightarrow> rbind (unmarshal_elems L t js (elements old)) (\<lambda>vs. Inr (VSlice vs))
      | _ \<Rightarrow> Inl TypeMismatch)"
| "unmarshal L (TStruct fs) q j old =
     (case j of
        JNull \<Rightarrow> Inr old
      | JObj kvs \<Rightarrow>
          rbind (unmarshal_fields L fs kvs (case old of VStruct vs \<Rightarrow> vs | _ \<Rightarrow> [])) (\<lambda>vs. Inr (VStruct vs))
      | _ \<Rightarrow> Inl TypeMismatch)"
| "unmarshal_fields L fs [] vs = Inr vs"
| "unmarshal_fields L fs ((key, j) # kvs) vs =
     (case find_field fs key of
        None \<Rightarrow> unmarshal_fields L fs kvs vs
      | Some f \<Rightarrow>
          rbind (unmarshal L (f_type f) (f_quoted f) j
                   (case map_of vs (f_name f) of Some v \<Rightarrow> v | None \<Rightarrow> zero_value (f_type f))) (\<lambda>v.
            unmarshal_fields L fs kvs (map (\<lambda>(n, w). (n, if n = f_name f then v else w)) vs)))"
| "unmarshal_elems L t [] old = Inr []"
| "unmarshal_elems L t (j # js) old =
     rbind (unmarshal L t False j (case old of v # _ \<Rightarrow> v | [] \<Rightarrow> zero_value t)) (\<lambda>v.
       rbind (unmarshal_elems L t js (drop 1 old)) (\<lambda>vs. Inr (v # vs)))"
  by pat_completeness auto
termination
  by (relation "measures [\<lambda>x. case x of Inl (L, t, q, j, old) \<Rightarrow> size j
      | Inr (Inl (L, fs, kvs, vs)) \<Rightarrow> size_list (size_prod (\<lambda>_. 0) size) kvs
      | Inr (Inr (L, t, js, old)) \<Rightarrow> size_list size js,
    \<lambda>x. case x of Inl (L, t, q, j, old) \<Rightarrow> size t | _ \<Rightarrow> 0]") simp_all

declare unmarshal.simps [simp del] unmarshal_fields.simps [simp del] unmarshal_elems.simps [simp del]

section \<open>What a key sets\<close>

lemma visible_dominant: "f \<in> set (visible fs) \<Longrightarrow> dominant fs (json_name f) = [f]"
  by (simp add: visible_def)

lemma find_field_exact: "f \<in> set (visible fs) \<Longrightarrow> find_field fs (json_name f) = Some f"
proof -
  assume f: "f \<in> set (visible fs)"
  then obtain g where g: "find (\<lambda>g. json_name g = json_name f) (visible fs) = Some g"
    by (cases "find (\<lambda>g. json_name g = json_name f) (visible fs)") (auto simp: find_None_iff)
  then have "g \<in> set (visible fs)" "json_name g = json_name f" by (auto simp: find_Some_iff)
  with f have "g = f" using visible_dominant [of f fs] visible_dominant [of g fs] by simp
  with g show ?thesis by (simp add: find_field_def)
qed

lemma filter_distinct_map: "distinct (map h xs) \<Longrightarrow> x \<in> set xs \<Longrightarrow> filter (\<lambda>y. h y = h x) xs = [x]"
  by (induction xs) (auto simp: filter_empty_conv rev_image_eqI)

text \<open>
  Fields with different names are all visible; two tagged fields with the same name hide each
  other.
\<close>

lemma visible_but:
  assumes "distinct (map json_name (filter (\<lambda>f. \<not> P f) fs))"
    and "\<forall>f \<in> set fs. P f \<longrightarrow> json_name f = k \<and> f_tag f \<noteq> None"
    and "\<forall>f \<in> set fs. \<not> P f \<longrightarrow> json_name f \<noteq> k" "length (filter P fs) \<noteq> 1"
  shows "visible fs = filter (\<lambda>f. \<not> P f) fs"
  unfolding visible_def
proof (rule filter_cong [OF refl])
  fix f assume f: "f \<in> set fs"
  show "dominant fs (json_name f) = [f] \<longleftrightarrow> \<not> P f"
  proof (cases "P f")
    case True
    have "filter (\<lambda>g. json_name g = k) fs = filter P fs"
      using assms(2,3) by (intro filter_cong) auto
    moreover have "filter (\<lambda>f. f_tag f \<noteq> None) (filter P fs) = filter P fs"
      using assms(2) by (intro filter_True) auto
    ultimately have "dominant fs (json_name f) = filter P fs"
      using True f assms(2) by (simp add: dominant_def)
    with assms(4) True show ?thesis by (metis One_nat_def length_Cons list.size(3))
  next
    case False
    have "filter (\<lambda>g. json_name g = json_name f) fs =
        filter (\<lambda>g. json_name g = json_name f) (filter (\<lambda>f. \<not> P f) fs)"
      unfolding filter_filter using f False assms(2,3) by (intro filter_cong) auto
    also have "\<dots> = [f]" using filter_distinct_map [OF assms(1)] f False by simp
    finally show ?thesis using False by (simp add: dominant_def)
  qed
qed

lemma visible_all: "distinct (map json_name fs) \<Longrightarrow> visible fs = fs"
  by (simp add: visible_def dominant_def filter_distinct_map filter_id_conv del: filter_filter)

text \<open>Values are stored under the name of a visible field only.\<close>

lemma map_of_set_field:
  "map_of (map (\<lambda>(n, w). (n, if n = a then v else w)) vs) b = (if b = a then map_option (\<lambda>_. v) (map_of vs b) else map_of vs b)"
  by (induction vs) auto

lemma unmarshal_fields_inv:
  assumes "unmarshal_fields L fs kvs vs = Inr vs'"
    and "\<And>f j old v. f \<in> set (visible fs) \<Longrightarrow> f_name f = n \<Longrightarrow> Q old \<Longrightarrow> unmarshal L (f_type f) (f_quoted f) j old = Inr v \<Longrightarrow> Q v"
    and "map_of vs n = Some w" "Q w"
  shows "\<exists>w'. map_of vs' n = Some w' \<and> Q w'"
  using assms(1,3,4)
proof (induction kvs arbitrary: vs w)
  case (Cons kv kvs)
  obtain key j where kv: "kv = (key, j)" by (cases kv)
  show ?case
  proof (cases "find_field fs key")
    case None
    with Cons kv show ?thesis by (simp add: unmarshal_fields.simps)
  next
    case (Some f)
    then obtain v where v: "unmarshal L (f_type f) (f_quoted f) j
          (case map_of vs (f_name f) of Some v \<Rightarrow> v | None \<Rightarrow> zero_value (f_type f)) = Inr v"
        "unmarshal_fields L fs kvs (map (\<lambda>(n, w). (n, if n = f_name f then v else w)) vs) = Inr vs'"
      using Cons.prems(1) kv by (auto simp: unmarshal_fields.simps rbind_eq_Inr)
    show ?thesis
    proof (cases "f_name f = n")
      case True
      then have "Q v" using assms(2) [OF find_field_mem [OF Some]] v(1) Cons.prems(2,3) by simp
      with Cons.IH [OF v(2), of v] Cons.prems(2) True show ?thesis by (simp add: map_of_set_field)
    next
      case False
      with Cons.IH [OF v(2), of w] Cons.prems(2,3) show ?thesis by (simp add: map_of_set_field)
    qed
  qed
qed (simp add: unmarshal_fields.simps)

lemma unmarshal_fields_last:
  assumes "unmarshal_fields L fs (pre @ (key, j) # post) vs = Inr vs'" "find_field fs key = Some f"
    and "\<forall>k \<in> fst ` set post. \<forall>g. find_field fs k = Some g \<longrightarrow> f_name g \<noteq> f_name f" "f_name f \<in> fst ` set vs"
  shows "\<exists>old v. unmarshal L (f_type f) (f_quoted f) j old = Inr v \<and> map_of vs' (f_name f) = Some v"
  using assms(1,4)
proof (induction pre arbitrary: vs)
  case Nil
  then obtain old v where v: "unmarshal L (f_type f) (f_quoted f) j old = Inr v"
      "unmarshal_fields L fs post (map (\<lambda>(n, w). (n, if n = f_name f then v else w)) vs) = Inr vs'"
    using assms(2) by (auto simp: unmarshal_fields.simps rbind_eq_Inr)
  have "unmarshal_fields L fs post us = Inr vs' \<Longrightarrow> map_of us (f_name f) = Some v \<Longrightarrow> map_of vs' (f_name f) = Some v" for us
    using assms(3)
    by (induction post arbitrary: us)
      (auto simp: unmarshal_fields.simps rbind_eq_Inr map_of_set_field split: option.splits)
  moreover have "map_of (map (\<lambda>(n, w). (n, if n = f_name f then v else w)) vs) (f_name f) = Some v"
    using Nil(2) by (cases "map_of vs (f_name f)") (auto simp: map_of_set_field map_of_eq_None_iff)
  ultimately show ?case using v by blast
next
  case (Cons kv pre)
  obtain k i where kv: "kv = (k, i)" by (cases kv)
  have keep: "f_name f \<in> fst ` set (map (\<lambda>(n, w). (n, if n = a then v else w)) vs)" for a v
    using Cons.prems(2) by force
  from Cons kv show ?case
    by (auto simp: unmarshal_fields.simps rbind_eq_Inr split: option.splits intro!: Cons.IH keep)
qed

end
