(* ===== verification/Expvar.thy ===== *)
theory Expvar
  imports Series Json Relay
begin

text \<open>
  The export of a program's own counters as data points:
  \<^verbatim>\<open>internal/tsdb/tsdbutil/expvar.go\<close> and its users \<^verbatim>\<open>internal/stats/stats.go\<close>,
  \<^verbatim>\<open>cmd/collect-statse/tsdb.go\<close> and \<^verbatim>\<open>contrib/collect-netscaler/tsdb.go\<close>. The text of
  a float and the result of a function are given; the JSON parser that reads the memory
  statistics is a parameter.

  What is proved: if the names are plain and the values numbers, every variable becomes one
  point with its name, its tags and its value, and the export does not panic. But the keys are
  made from names that nobody checks: the name of a relay, and the address of a device. A colon
  in one of them makes the export panic, which ends the program.
\<close>

section \<open>Variables\<close>

text \<open>The types of variables \<^verbatim>\<open>ExportVars\<close> tells apart; a function is the text it returns.\<close>

datatype var = VarInt int | VarFloat bytes | VarFunc bytes | VarMap "(bytes \<times> var) list" | VarOther

text \<open>\<^verbatim>\<open>strconv.FormatInt(n, 10)\<close>\<close>

definition FormatInt :: "int \<Rightarrow> bytes" where
  "FormatInt n = (if n < 0 then CHR ''-'' # dec (- n) else dec n)"

fun var_text :: "var \<Rightarrow> bytes option" where
  "var_text (VarInt n) = Some (FormatInt n)"
| "var_text (VarFloat s) = Some s"
| "var_text (VarFunc s) = Some s"
| "var_text _ = None"

section \<open>The export\<close>

text \<open>Points passed to the callback, and whether the end was reached without a panic.\<close>

type_synonym export = "point list \<times> bool"

fun in_turn :: "export list \<Rightarrow> export" where
  "in_turn [] = ([], True)"
| "in_turn ((ps, ok) # es) = (if ok then (case in_turn es of (qs, ok) \<Rightarrow> (ps @ qs, ok)) else (ps, False))"

definition export_number :: "golib \<Rightarrow> point \<Rightarrow> time \<Rightarrow> bytes \<Rightarrow> bytes \<Rightarrow> export" where
  "export_number L pooled t metric s =
     (case NewPoint L pooled t (GString s) metric [] of Inl _ \<Rightarrow> ([], False) | Inr p \<Rightarrow> ([p], True))"

text \<open>An entry of a map, whose key is the text of its tags.\<close>

definition export_entry :: "golib \<Rightarrow> point \<Rightarrow> time \<Rightarrow> bytes \<Rightarrow> bytes \<times> var \<Rightarrow> export" where
  "export_entry L pooled t metric = (\<lambda>(tags, v).
     case var_text v of
       None \<Rightarrow> ([], True)
     | Some s \<Rightarrow>
         (case NewPoint L pooled t (GInt 0) metric (series_words L tags) of
            Inl _ \<Rightarrow> ([], False)
          | Inr p \<Rightarrow> (case SetValue L (GString s) p of Inl _ \<Rightarrow> ([], False) | Inr p \<Rightarrow> ([p], True))))"

text \<open>The numbers among the memory statistics, in the order they are visited.\<close>

definition export_memstats ::
  "golib \<Rightarrow> point \<Rightarrow> ((bytes \<times> jval) list \<Rightarrow> (bytes \<times> jval) list) \<Rightarrow> jval option \<Rightarrow> time \<Rightarrow> point list" where
  "export_memstats L pooled visit doc t =
     (case doc of
        Some (JObj kvs) \<Rightarrow>
          concat (map (\<lambda>(key, v).
            case v of
              JNum n \<Rightarrow> (case NewPoint L pooled t (GString n) (''mem.'' @ key) [] of Inl _ \<Rightarrow> [] | Inr p \<Rightarrow> [p])
            | _ \<Rightarrow> []) (visit kvs))
      | _ \<Rightarrow> [])"

record export_env =
  ee_lib :: golib
  ee_pooled :: point
  ee_parse :: "bytes \<Rightarrow> jval option"
  ee_visit :: "(bytes \<times> jval) list \<Rightarrow> (bytes \<times> jval) list"

definition export_var :: "export_env \<Rightarrow> time \<Rightarrow> bytes \<times> var \<Rightarrow> export" where
  "export_var E t = (\<lambda>(metric, v).
     case v of
       VarFunc s \<Rightarrow>
         if metric \<noteq> ''memstats'' then ([], True)
         else (export_memstats (ee_lib E) (ee_pooled E) (ee_visit E) (ee_parse E s) t, True)
     | VarInt n \<Rightarrow> export_number (ee_lib E) (ee_pooled E) t metric (FormatInt n)
     | VarFloat s \<Rightarrow> export_number (ee_lib E) (ee_pooled E) t metric s
     | VarMap kvs \<Rightarrow> in_turn (map (export_entry (ee_lib E) (ee_pooled E) t metric) kvs)
     | VarOther \<Rightarrow> ([], True))"

definition ExportVars :: "export_env \<Rightarrow> time \<Rightarrow> (bytes \<times> var) list \<Rightarrow> export" where
  "ExportVars E t vars = in_turn (map (export_var E t) vars)"

text \<open>
  The callback of the programs: it puts a prefix before the metric, and panics if the result is
  no metric.
\<close>

fun with_prefix :: "golib \<Rightarrow> bytes \<Rightarrow> point list \<Rightarrow> export" where
  "with_prefix L prefix [] = ([], True)"
| "with_prefix L prefix (p # ps) =
     (case SetMetric L (prefix @ pt_metric p) p of
        Inl _ \<Rightarrow> ([], False)
      | Inr p \<Rightarrow> (case with_prefix L prefix ps of (qs, ok) \<Rightarrow> (p # qs, ok)))"

definition Self :: "export_env \<Rightarrow> bytes \<Rightarrow> time \<Rightarrow> (bytes \<times> var) list \<Rightarrow> export" where
  "Self E prefix now vars =
     (case ExportVars E now vars of (ps, ok) \<Rightarrow>
        (case with_prefix (ee_lib E) prefix ps of (qs, ok') \<Rightarrow> (qs, ok \<and> ok')))"

definition expvarLoop_statse :: "export_env \<Rightarrow> time \<Rightarrow> (bytes \<times> var) list \<Rightarrow> export" where
  "expvarLoop_statse E now vars = Self E ''tsp.collect-statse.'' now vars"

definition expvarLoop_netscaler :: "export_env \<Rightarrow> time \<Rightarrow> (bytes \<times> var) list \<Rightarrow> export" where
  "expvarLoop_netscaler E now vars = Self E ''tsp.collect-netscaler.'' now vars"

section \<open>The tags of a key\<close>

definition key_tags :: "bytes \<Rightarrow> (bytes \<times> bytes) list" where
  "key_tags key = map word_tag (split_byte (CHR '' '') key)"

definition plain_key :: "bytes \<Rightarrow> bool" where
  "plain_key key \<longleftrightarrow> plain_tags (key_tags key) \<and> distinct (map fst (key_tags key)) \<and> length (key_tags key) \<le> 8"

lemma plain_key_words: "plain_key key \<Longrightarrow> series_words L key = concat (map (\<lambda>(k, v). [k, v]) (key_tags key))"
proof -
  assume pk: "plain_key key"
  have m: "plain ''m''" by (simp add: plain_def text_byte_literals)
  have "split_byte (CHR '' '') key = hd (split_byte (CHR '' '') key) # tl (split_byte (CHR '' '') key)" by simp
  with split_byte_join [of key "CHR '' ''"] words_render [of "split_byte (CHR '' '') key"] pk
  have "CHR '' '' # key = render (key_tags key)"
    unfolding plain_key_def key_tags_def by (metis append_Cons concat.simps(2) list.simps(9))
  with series_words_plain [OF m, of "key_tags key" L] pk
  have "series_words L (''m'' @ CHR '' '' # key) = ''m'' # concat (map (\<lambda>(k, v). [k, v]) (key_tags key))"
    by (simp add: plain_key_def)
  moreover have "series_words L (''m'' @ CHR '' '' # key) = ''m'' # series_words L key"
    using Fields_word_blank [of "''m''" L "unequal key"] by (simp add: series_words_def word_byte_def ord_def)
  ultimately show ?thesis by simp
qed

section \<open>Every variable is exported\<close>

text \<open>The value the text of a number has.\<close>

definition text_value :: "golib \<Rightarrow> bytes \<Rightarrow> val result" where
  "text_value L s = rbind (parseValue L s) (\<lambda>v. validateValue L (goval_of_val v))"

lemma SetValue_text: "text_value L s = Inr v \<Longrightarrow> SetValue L (GString s) p = Inr (setValueValid v p)"
  by (auto simp: text_value_def SetValue_def setValueBytes_def setValue_def rbind_eq_Inr)

text \<open>The points a variable stands for: metric, tags and value.\<close>

fun readings :: "golib \<Rightarrow> bytes \<times> var \<Rightarrow> (bytes \<times> (bytes \<times> bytes) list \<times> val result) list" where
  "readings L (m, VarMap kvs) =
     concat (map (\<lambda>(key, v). case var_text v of None \<Rightarrow> [] | Some s \<Rightarrow> [(m, key_tags key, text_value L s)]) kvs)"
| "readings L (m, VarInt n) = [(m, [], text_value L (FormatInt n))]"
| "readings L (m, VarFloat s) = [(m, [], text_value L s)]"
| "readings L (m, _) = []"

fun exportable :: "golib \<Rightarrow> bytes \<times> var \<Rightarrow> bool" where
  "exportable L (m, VarMap kvs) = list_all (\<lambda>(key, v). var_text v = None \<or> plain_key key) kvs"
| "exportable L (m, VarFunc s) = (m \<noteq> ''memstats'')"
| "exportable L _ = True"

definition good_reading :: "bytes \<times> (bytes \<times> bytes) list \<times> val result \<Rightarrow> bool" where
  "good_reading = (\<lambda>(m, kvs, v). plain m \<and> isOk v)"

definition shows_reading :: "time \<Rightarrow> bytes \<times> (bytes \<times> bytes) list \<times> val result \<Rightarrow> point \<Rightarrow> bool" where
  "shows_reading t = (\<lambda>(m, kvs, v) p. \<exists>w. v = Inr w \<and> point_of t m kvs w p)"

lemma in_turn_all:
  assumes "list_all2 (\<lambda>rs e. \<exists>ps. e = (ps, True) \<and> list_all2 R rs ps) rss es"
  shows "\<exists>ps. in_turn es = (ps, True) \<and> list_all2 R (concat rss) ps"
  using assms
proof (induction rule: list_all2_induct)
  case (Cons rs rss e es)
  then obtain ps qs where "e = (ps, True)" "list_all2 R rs ps" "in_turn es = (qs, True)" "list_all2 R (concat rss) qs" by blast
  then show ?case by (auto intro: list_all2_appendI)
qed simp

lemma export_number_good:
  assumes "plain m" "text_value L s = Inr v" "t \<noteq> zeroTime"
  shows "\<exists>p. export_number L pooled t m s = ([p], True) \<and> point_of t m [] v p"
  using NewPoint_set [of t L m "[]" "GString s" v pooled] SetValue_text [OF assms(2)] assms(1,3)
  by (auto simp: export_number_def point_of_def plain_text_ok)

lemma export_entry_good:
  assumes "plain m" "plain_key key" "var_text x = Some s" "text_value L s = Inr v" "t \<noteq> zeroTime"
  shows "\<exists>p. export_entry L pooled t m (key, x) = ([p], True) \<and> point_of t m (key_tags key) v p"
proof -
  have k: "plain_tags (key_tags key)" "distinct (map fst (key_tags key))" "length (key_tags key) \<le> 8"
    using assms(2) by (simp_all add: plain_key_def)
  obtain p where p: "NewPoint L pooled t (GInt 0) m (series_words L key) = Inr p" "point_of t m (key_tags key) (VInt 0) p"
    using NewPoint_plain [OF assms(5,1) k, of L "GInt 0" "VInt 0" pooled] plain_key_words [OF assms(2), of L]
    by (auto simp: wrap64_def)
  have "point_of t m (key_tags key) v (setValueValid v p)"
    using p(2) by (cases v) (simp_all add: point_of_def Value_def)
  then show ?thesis using p(1) assms(3) SetValue_text [OF assms(4)] by (simp add: export_entry_def)
qed

lemma export_var_good:
  assumes "exportable (ee_lib E) mv" "list_all good_reading (readings (ee_lib E) mv)" "t \<noteq> zeroTime"
  shows "\<exists>ps. export_var E t mv = (ps, True) \<and> list_all2 (shows_reading t) (readings (ee_lib E) mv) ps"
proof -
  obtain m v where mv: "mv = (m, v)" by (cases mv)
  show ?thesis
  proof (cases v)
    case (VarMap kvs)
    let ?r = "\<lambda>(key, x). case var_text x of None \<Rightarrow> [] | Some s \<Rightarrow> [(m, key_tags key, text_value (ee_lib E) s)]"
    have "\<exists>ps. export_entry (ee_lib E) (ee_pooled E) t m kx = (ps, True) \<and> list_all2 (shows_reading t) (?r kx) ps"
      if "kx \<in> set kvs" for kx
    proof -
      obtain key x where kx: "kx = (key, x)" by (cases kx)
      show ?thesis
      proof (cases "var_text x")
        case None
        then show ?thesis by (simp add: kx export_entry_def)
      next
        case (Some s)
        have "plain_key key" using assms(1) that Some by (auto simp: mv VarMap kx list_all_iff)
        moreover from assms(2) that Some have "plain m \<and> isOk (text_value (ee_lib E) s)"
          by (force simp: mv VarMap kx list_all_iff good_reading_def)
        then obtain w where "plain m" "text_value (ee_lib E) s = Inr w" by (auto simp: isOk_def split: sum.splits)
        ultimately show ?thesis
          using export_entry_good [of m key x s "ee_lib E" w t "ee_pooled E"] Some assms(3) by (auto simp: kx shows_reading_def)
      qed
    qed
    then have "list_all2 (\<lambda>rs e. \<exists>ps. e = (ps, True) \<and> list_all2 (shows_reading t) rs ps)
        (map ?r kvs) (map (export_entry (ee_lib E) (ee_pooled E) t m) kvs)"
      by (auto simp: list_all2_map1 list_all2_map2 intro!: list.rel_refl_strong)
    from in_turn_all [OF this] show ?thesis by (simp add: mv VarMap export_var_def)
  qed (use assms export_number_good [of m "ee_lib E"] in
      \<open>fastforce simp: mv export_var_def good_reading_def shows_reading_def isOk_def split: sum.splits\<close>)+
qed

text \<open>
  If the names of the variables and the tags in the keys of the maps are plain and the
  values are numbers that fit, the export of a program's own variables does not panic, and it
  yields one point per variable or entry, in order, with its name, its tags and its value.
\<close>

theorem export_exact:
  assumes "list_all (exportable (ee_lib E)) vars" "t \<noteq> zeroTime"
    and "list_all good_reading (concat (map (readings (ee_lib E)) vars))"
  shows "\<exists>ps. ExportVars E t vars = (ps, True) \<and>
    list_all2 (shows_reading t) (concat (map (readings (ee_lib E)) vars)) ps"
proof -
  have "\<exists>ps. export_var E t mv = (ps, True) \<and> list_all2 (shows_reading t) (readings (ee_lib E) mv) ps" if "mv \<in> set vars" for mv
    using assms that by (intro export_var_good) (auto simp: list_all_iff)
  then have "list_all2 (\<lambda>rs e. \<exists>ps. e = (ps, True) \<and> list_all2 (shows_reading t) rs ps)
      (map (readings (ee_lib E)) vars) (map (export_var E t) vars)"
    by (auto simp: list_all2_map1 list_all2_map2 intro!: list.rel_refl_strong)
  from in_turn_all [OF this] show ?thesis by (simp add: ExportVars_def)
qed

text \<open>The counters, as the export reads them: all but the least number.\<close>

lemma text_value_int: "in64 n \<Longrightarrow> n \<noteq> minInt64 \<Longrightarrow> text_value L (FormatInt n) = Inr (VInt n)"
proof -
  assume n: "in64 n" "n \<noteq> minInt64"
  then have "in64 \<bar>n\<bar>" by (auto simp: in64_iff minInt64_def)
  moreover have "CHR ''.'' \<notin> set (dec \<bar>n\<bar>)" using dec_digits [of "\<bar>n\<bar>"] is_digit_no_sep by (fastforce simp: list_all_iff)
  ultimately show ?thesis
    using n parseInt_dec [of n] parseInt_neg [of "- n"]
    by (auto simp: text_value_def parseValue_def FormatInt_def)
qed

section \<open>Keys made from names nobody checks\<close>

lemma in_turn_snd: "snd (in_turn es) \<longleftrightarrow> (\<forall>e \<in> set es. snd e)"
proof (induction es rule: in_turn.induct)
  case (2 ps ok es)
  then show ?case by (cases "in_turn es") (auto simp: Ball_def)
qed simp

lemma Self_panics: "\<not> snd (ExportVars E t vars) \<Longrightarrow> \<not> snd (Self E prefix t vars)"
  by (auto simp: Self_def split: prod.splits)

lemma append_nameval_acc: "append_nameval b ss buf = buf @ append_nameval b ss []"
proof (induction ss arbitrary: b buf)
  case (Cons s ss)
  show ?case
    using Cons.IH [of "\<not> b" "buf @ (if b then '' '' else ''='') @ s"] Cons.IH [of "\<not> b" "(if b then '' '' else ''='') @ s"] by simp
qed simp

lemma append_nameval_blank: "append_nameval True ss [] = [] \<or> (\<exists>r. append_nameval True ss [] = CHR '' '' # r)"
  by (cases ss) (simp_all add: append_nameval_acc [of False _ "CHR '' '' # _"])

text \<open>A tag value that is refused.\<close>

lemma NewPoint_bad_tag:
  assumes "plain k" "v \<noteq> []" "list_all word_byte v" "\<not> text_ok L v"
  shows "\<exists>e. NewPoint L pooled t g m (k # v # rest) = Inl e"
proof -
  let ?r = "append_nameval True rest []"
  have buf: "append_nameval True (k # v # rest) [] = tag_text k v @ ?r"
    using append_nameval_acc [of True rest "CHR '' '' # k @ CHR ''='' # v"] by (simp add: tag_text_def)
  have "skipSpace (tag_text k v @ ?r) = (k @ ''='' @ v) @ ?r"
    using skipSpace_tag [OF plain_text_ok [OF assms(1)], of v ?r] by simp
  moreover have "skipNSP True ((k @ ''='' @ v) @ ?r) = (k @ ''='' @ v, ?r)"
    using append_nameval_blank [of rest] plain_word [OF assms(1)] assms(3)
    by (intro skipNSP_word) (auto simp: list_all_iff word_byte_def isSpace_def ord_def)
  moreover have "index_byte (k @ ''='' @ v) (CHR ''='') = Some (length k)"
    using plain_no_sep [OF assms(1)] by (simp add: index_byte_append)
  moreover have "validTag L k v \<noteq> Inr ()" using assms(4) by simp
  then obtain e where "validTag L k v = Inl e" by (cases "validTag L k v") auto
  ultimately have "setTags_loop L True (tag_text k v @ ?r) [] [] = Inl e"
    by (subst setTags_loop.simps) simp
  then have "setTags L True (tag_text k v @ ?r) p = Inl e" for p by (simp add: setTags_def)
  then show ?thesis unfolding NewPoint_def Let_def buf by (auto simp: rbind_def rmap_err_def split: sum.splits)
qed

lemma series_words_tag:
  assumes "plain k" "v \<noteq> []" "list_all word_byte v" "CHR ''='' \<notin> set v" "s = [] \<or> (\<exists>r. s = CHR '' '' # r)"
  shows "\<exists>rest. series_words L (k @ ''='' @ v @ s) = k # v # rest"
proof -
  have "unequal v = v" using assms(4) by (intro map_idI) auto
  then have "series_words L (k @ ''='' @ v @ s) = k # Fields L (v @ unequal s)"
    using plain_word [OF assms(1)] by (simp add: series_words_def assms(1) Fields_word_blank)
  moreover have "\<exists>rest. Fields L (v @ unequal s) = v # rest"
    using assms(2,3,5) by (auto simp: Fields_word Fields_word_blank)
  ultimately show ?thesis by auto
qed

lemma colon_refused: "\<not> text_ok L (a @ CHR '':'' # b)"
  using text_ok_bytes [of L "a @ CHR '':'' # b" "CHR '':''"] by (auto simp: text_byte_def ord_def)

lemma colon_panics:
  assumes "plain k" "plain a" "plain b" "s = [] \<or> (\<exists>r. s = CHR '' '' # r)" "var_text x \<noteq> None"
    and "(k @ ''='' @ (a @ CHR '':'' # b) @ s, x) \<in> set kvs" "(m, VarMap kvs) \<in> set vars"
  shows "\<not> snd (ExportVars E t vars)"
proof -
  have v: "list_all word_byte (a @ CHR '':'' # b)" "CHR ''='' \<notin> set (a @ CHR '':'' # b)"
    using plain_word [OF assms(2)] plain_word [OF assms(3)] plain_no_sep [OF assms(2)] plain_no_sep [OF assms(3)]
    by (simp_all add: word_byte_def ord_def)
  obtain rest where "series_words (ee_lib E) (k @ ''='' @ (a @ CHR '':'' # b) @ s) = k # (a @ CHR '':'' # b) # rest"
    using series_words_tag [OF assms(1) _ v assms(4)] by blast
  moreover obtain e where "NewPoint (ee_lib E) (ee_pooled E) t (GInt 0) m (k # (a @ CHR '':'' # b) # rest) = Inl e"
    using NewPoint_bad_tag [OF assms(1) _ v(1) colon_refused] by blast
  ultimately have "\<not> snd (export_entry (ee_lib E) (ee_pooled E) t m (k @ ''='' @ (a @ CHR '':'' # b) @ s, x))"
    using assms(5) by (auto simp: export_entry_def split: option.splits)
  then have "\<not> snd (export_var E t (m, VarMap kvs))"
    using assms(6) by (auto simp: export_var_def in_turn_snd)
  then show ?thesis using assms(7) by (auto simp: ExportVars_def in_turn_snd)
qed

text \<open>
  The entry \<^verbatim>\<open>NewRelay\<close> registers for the queue of a relay, and the key the client of the
  NetScaler collector counts its calls under; \<open>dir\<close> is \<^verbatim>\<open>path.Dir\<close>.
\<close>

definition queue_var :: "relay \<Rightarrow> bytes \<times> var" where
  "queue_var r = (''relay='' @ rl_name r, VarFunc (FormatInt (int (length (cl_cmd (rl_client r))))))"

definition cleanPath :: "(bytes \<Rightarrow> bytes) \<Rightarrow> bytes \<Rightarrow> bytes" where
  "cleanPath dir p = (if has_prefix p ''config/'' then dir p else p)"

definition statKey :: "(bytes \<Rightarrow> bytes) \<Rightarrow> bytes \<Rightarrow> bytes \<Rightarrow> bool \<Rightarrow> bytes" where
  "statKey dir addr path failed =
     ''addr='' @ addr @ '' path='' @ cleanPath dir path @ '' error='' @ (if failed then ''true'' else ''false'')"

text \<open>
  A configuration in which a relay has a colon in its name is valid and the relay is made,
  but the export of the program's own variables panics: the name is part of the key of the
  relay's queue. So the program starts and crashes when its variables are first exported.
\<close>

theorem relay_name_crashes:
  assumes "relay_Validate config = Inr config'" "plain a" "plain b"
  shows "\<exists>r. NewRelay (a @ '':'' @ b) config = Inr r \<and>
    (\<forall>vars kvs. (''relay.Queue'', VarMap kvs) \<in> set vars \<and> queue_var r \<in> set kvs \<longrightarrow> \<not> snd (Self E prefix t vars))"
proof -
  obtain r where r: "NewRelay (a @ '':'' @ b) config = Inr r" "rl_name r = a @ '':'' @ b"
    using assms(1) by (simp add: NewRelay_def)
  have pl: "plain ''relay''" by (simp add: plain_def text_byte_literals)
  have "\<not> snd (Self E prefix t vars)" if "(''relay.Queue'', VarMap kvs) \<in> set vars" "queue_var r \<in> set kvs" for vars kvs
    using colon_panics [OF pl assms(2,3), of "[]" "snd (queue_var r)" kvs "''relay.Queue''" vars E t] that r(2)
    by (simp add: queue_var_def Self_panics)
  with r show ?thesis by blast
qed

text \<open>
  The NetScaler collector is started with an address that may have a port. Then the client
  counts its calls under a key with a colon, and the next export of the variables panics.
\<close>

lemma device_port_crashes:
  assumes "plain host" "plain port" "(''nitro.client.Responses'', VarMap kvs) \<in> set vars"
    and "(statKey dir (host @ '':'' @ port) path failed, VarInt n) \<in> set kvs"
  shows "\<not> snd (expvarLoop_netscaler E t vars)"
proof -
  have pl: "plain ''addr''" by (simp add: plain_def text_byte_literals)
  from colon_panics [OF pl assms(1,2) _ _ _ assms(3), of "'' path='' @ cleanPath dir path @ '' error='' @ (if failed then ''true'' else ''false'')" "VarInt n" E t]
    assms(4)
  show ?thesis by (simp add: statKey_def expvarLoop_netscaler_def Self_panics)
qed

end
