(* ===== verification/NitroTypes.thy ===== *)
theory NitroTypes
  imports Json
begin

text \<open>
  The response types of \<^verbatim>\<open>contrib/collect-netscaler/nitro/type.go\<close>, as descriptions of
  structs for the decoder of \<^verbatim>\<open>Json\<close>, and what follows from the field tags alone: every
  field of every struct can be set by a document, except two fields of the SSL statistics that
  carry the same tag and so are never set.
\<close>

section \<open>The types\<close>

text \<open>The kinds of field that are pointers to numbers; \<^verbatim>\<open>json:",string"\<close> is a quoted number.\<close>

definition uint_string :: "bytes \<Rightarrow> bytes option \<Rightarrow> gofield" where
  "uint_string name tag = Field name tag True (TPtr TUint64)"

definition float_field :: "bytes \<Rightarrow> bytes option \<Rightarrow> gofield" where
  "float_field name tag = Field name tag False (TPtr TFloat64)"

definition float_string :: "bytes \<Rightarrow> bytes option \<Rightarrow> gofield" where
  "float_string name tag = Field name tag True (TPtr TFloat64)"

lemmas field_kinds = uint_string_def float_field_def float_string_def

definition SessionID_fields :: "gofield list" where
  "SessionID_fields =
     [Field ''ErrorCode'' None False TInt,
      Field ''Message'' None False TString,
      Field ''SessionID'' None False TString]"

definition LBVServer_fields :: "gofield list" where
  "LBVServer_fields =
     [Field ''Name'' None False TString,
      Field ''Type'' None False TString,
      Field ''State'' None False TString,
      uint_string ''Health'' (Some ''vslbhealth''),
      uint_string ''TotalPktsSent'' None,
      float_field ''RequestsRate'' None,
      float_field ''ResponsesRate'' None,
      float_field ''RequestBytesRate'' None,
      float_field ''ResponseBytesRate'' None,
      uint_string ''CurClntConnections'' None,
      uint_string ''CurSrvrConnections'' None,
      uint_string ''SpilloverThreshold'' (Some ''sothreshold''),
      uint_string ''Spillovers'' (Some ''totspillovers'')]"

definition Service_fields :: "gofield list" where
  "Service_fields =
     [Field ''Name'' None False TString,
      Field ''ServiceType'' None False TString,
      Field ''State'' None False TString,
      uint_string ''MaxClients'' None,
      uint_string ''ActiveTransactions'' None,
      float_string ''AvgSvrTTFB'' None,
      uint_string ''CurClntConnections'' None,
      uint_string ''CurReusePool'' None,
      uint_string ''CurSrvrConnections'' None,
      float_field ''RequestsRate'' None,
      float_field ''ResponsesRate'' None,
      uint_string ''SurgeCount'' None,
      uint_string ''SvrEstablishedConn'' None,
      float_field ''RequestBytesRate'' None,
      float_field ''ResponseBytesRate'' None]"

definition ResponderPolicy_fields :: "gofield list" where
  "ResponderPolicy_fields =
     [Field ''Name'' None False (TPtr TString),
      float_field ''HitsRate'' (Some ''pipolicyhitsrate''),
      float_field ''UndefHitsRate'' (Some ''pipolicyundefhitsrate'')]"

definition ProtocolHTTP_fields :: "gofield list" where
  "ProtocolHTTP_fields =
     [uint_string ''HTTPErrIncompleteRequests'' None,
      uint_string ''HTTPErrIncompleteResponses'' None,
      uint_string ''HTTPErrServerBusy'' None,
      uint_string ''HTTPTotGets'' None,
      uint_string ''HTTPTotOthers'' None,
      uint_string ''HTTPTotPosts'' None,
      uint_string ''HTTPTotResponses'' None,
      uint_string ''HTTPTotRxRequestBytes'' None,
      uint_string ''HTTPTotTxResponseBytes'' None,
      uint_string ''SPDYTotStreams'' None,
      uint_string ''SPDYv2TotStreams'' None,
      uint_string ''SPDYv3TotStreams'' None]"

definition TCP_conn :: "gofield list" where
  "TCP_conn =
     [uint_string ''ActiveServerConn'' (Some ''tcpactiveserverconn''),
      float_field ''ClientConnOpenedRate'' (Some ''tcpclientconnopenedrate''),
      float_field ''CltFinRate'' (Some ''tcpcltfinrate''),
      uint_string ''CurClientConn'' (Some ''tcpcurclientconn''),
      uint_string ''CurClientConnClosing'' (Some ''tcpcurclientconnclosing''),
      uint_string ''CurClientConnEstablished'' (Some ''tcpcurclientconnestablished''),
      uint_string ''CurClientConnOpening'' (Some ''tcpcurclientconnopening''),
      uint_string ''CurServerConn'' (Some ''tcpcurserverconn''),
      uint_string ''CurServerConnClosing'' (Some ''tcpcurserverconnclosing''),
      uint_string ''CurServerConnEstablished'' (Some ''tcpcurserverconnestablished''),
      uint_string ''CurServerConnOpening'' (Some ''tcpcurserverconnopening''),
      float_field ''FinWaitClosedRate'' (Some ''tcpfinwaitclosedrate''),
      float_field ''PcbZombieCallRate'' None,
      float_field ''RxBytesRate'' (Some ''tcprxbytesrate''),
      float_field ''RxPktsRate'' (Some ''tcprxpktsrate''),
      float_field ''ServerConnOpenedRate'' (Some ''tcpserverconnopenedrate''),
      uint_string ''SpareConn'' (Some ''tcpspareconn''),
      uint_string ''SurgeQueueLen'' (Some ''tcpsurgequeuelen''),
      float_field ''SvrFinRate'' (Some ''tcpsvrfinrate''),
      float_field ''SynFlushRate'' (Some ''tcpsynflushrate''),
      float_field ''SynHeldRate'' (Some ''tcpsynheldrate''),
      float_field ''SynProbeRate'' (Some ''tcpsynproberate''),
      float_field ''SynRate'' (Some ''tcpsynrate''),
      uint_string ''TotServerConnOpened'' (Some ''tcptotserverconnopened''),
      float_field ''TxBytesRate'' (Some ''tcptxbytesrate''),
      float_field ''TxPktsRate'' (Some ''tcptxpktsrate''),
      float_field ''WaitToSynRate'' (Some ''tcpwaittosynrate''),
      float_field ''WaitToDataRate'' (Some ''tcpwaittodatarate''),
      float_field ''ZombieActiveHalfCloseCltConnFlushedRate'' (Some ''tcpzombieactivehalfclosecltconnflushedrate''),
      float_field ''ZombieActivehalfCloseSvrConnFlushedRate'' (Some ''tcpzombieactivehalfclosesvrconnflushedrate''),
      float_field ''ZombieCltConnFlushedRate'' (Some ''tcpzombiecltconnflushedrate''),
      float_field ''ZombieHalfOpenCltConnFlushedRate'' (Some ''tcpzombiehalfopencltconnflushedrate''),
      float_field ''ZombieHalfOpenSvrConnFlushedRate'' (Some ''tcpzombiehalfopensvrconnflushedrate''),
      float_field ''ZombiePassiveHalfClosecltConnFlushedRate'' (Some ''tcpzombiepassivehalfclosecltconnflushedrate''),
      float_field ''ZombiePassivehalfCloseSrvConnFlushedRate'' (Some ''tcpzombiepassivehalfclosesrvconnflushedrate''),
      float_field ''ZombieSvrConnFlushedRate'' (Some ''tcpzombiesvrconnflushedrate'')]"

definition TCP_err :: "gofield list" where
  "TCP_err =
     [float_field ''ErrAnyPortFailRate'' (Some ''tcperranyportfailrate''),
      float_field ''ErrBadChecksumRate'' (Some ''tcperrbadchecksumrate''),
      float_field ''ErrBadstateConnRate'' (Some ''tcperrbadstateconnrate''),
      float_field ''ErrCipAllocRate'' (Some ''tcperrcipallocrate''),
      float_field ''ErrCltHoleRate'' (Some ''tcperrcltholerate''),
      float_field ''ErrCltOutOfOrderRate'' (Some ''tcperrcltoutoforderrate''),
      float_field ''ErrCltRetrasmitRate'' (Some ''tcperrcltretrasmitrate''),
      float_field ''ErrCookiePktMssRejectRate'' (Some ''tcperrcookiepktmssrejectrate''),
      float_field ''ErrCookiePktSeqDropRate'' (Some ''tcperrcookiepktseqdroprate''),
      float_field ''ErrCookiePktSeqRejectRate'' (Some ''tcperrcookiepktseqrejectrate''),
      float_field ''ErrCookiePktSigRejectRate'' (Some ''tcperrcookiepktsigrejectrate''),
      float_field ''ErrDataAfterFinRate'' (Some ''tcperrdataafterfinrate''),
      float_field ''ErrFastRetransmissionsRate'' (Some ''tcperrfastretransmissionsrate''),
      float_field ''ErrFifthRetransmissionsRate'' (Some ''tcperrfifthretransmissionsrate''),
      float_field ''ErrFinGiveUpRate'' (Some ''tcperrfingiveuprate''),
      float_field ''ErrFinRetryRate'' (Some ''tcperrfinretryrate''),
      float_field ''ErrFirstRetransmissionsRate'' (Some ''tcperrfirstretransmissionsrate''),
      float_field ''ErrFourthRetransmissionsRate'' (Some ''tcperrforthretransmissionsrate''),
      float_field ''ErrFullRetrasmitRate'' (Some ''tcperrfullretrasmitrate''),
      float_field ''ErrIpPortFailRate'' (Some ''tcperripportfailrate''),
      float_field ''ErrOutOfWindowPktsRate'' (Some ''tcperroutofwindowpktsrate''),
      float_field ''ErrPartialRetrasmitRate'' (Some ''tcperrpartialretrasmitrate''),
      float_field ''ErrRetransmitGiveUpRate'' (Some ''tcperrretransmitgiveuprate''),
      float_field ''ErrRetransmitRate'' (Some ''tcperrretransmitrate''),
      float_field ''ErrRstInTimeWaitRate'' (Some ''tcperrrstintimewaitrate''),
      float_field ''ErrRstNonEstRate'' (Some ''tcperrrstnonestrate''),
      float_field ''ErrRstOutOfWindowRate'' (Some ''tcperrrstoutofwindowrate''),
      float_field ''ErrRstRate'' (Some ''tcperrrstrate''),
      float_field ''ErrRstThresholdRate'' (Some ''tcperrrstthresholdrate''),
      float_field ''ErrSecondRetransmissionsRate'' (Some ''tcperrsecondretransmissionsrate''),
      float_field ''ErrSentRstRate'' (Some ''tcperrsentrstrate''),
      float_field ''ErrSeventhRetransmissionsRate'' (Some ''tcperrseventhretransmissionsrate''),
      float_field ''ErrSixthRetransmissionsRate'' (Some ''tcperrsixthretransmissionsrate''),
      float_field ''ErrStrayPktRate'' (Some ''tcperrstraypktrate''),
      float_field ''ErrSvrHoleRate'' (Some ''tcperrsvrholerate''),
      float_field ''ErrSvrOutOfOrderRate'' (Some ''tcperrsvroutoforderrate''),
      float_field ''ErrSvrRetrasmitRate'' (Some ''tcperrsvrretrasmitrate''),
      float_field ''ErrSynDroppedCongestionRate'' (Some ''tcperrsyndroppedcongestionrate''),
      float_field ''ErrSynGiveupRate'' (Some ''tcperrsyngiveuprate''),
      float_field ''ErrSynInSynrcvdRate'' (Some ''tcperrsyninsynrcvdrate''),
      float_field ''ErrSynRetryRate'' (Some ''tcperrsynretryrate''),
      float_field ''ErrSynSentBadackRate'' (Some ''tcperrsynsentbadackrate''),
      float_field ''ErrSyninestRate'' (Some ''tcperrsyninestrate''),
      float_field ''ErrThirdRetransmissionsRate'' (Some ''tcperrthirdretransmissionsrate'')]"

definition ProtocolTCP_fields :: "gofield list" where
  "ProtocolTCP_fields = TCP_conn @ TCP_err"

definition ProtocolUDP_fields :: "gofield list" where
  "ProtocolUDP_fields =
     [float_field ''RxPktsRate'' (Some ''udprxpktsrate''),
      float_field ''RxBytesRate'' (Some ''udprxbytesrate''),
      float_field ''TxPktsRate'' (Some ''udptxpktsrate''),
      float_field ''TxBytesRate'' (Some ''udptxbytesrate''),
      float_string ''CurRateThreshold'' (Some ''udpcurratethreshold''),
      uint_string ''TotUnknownSvcPkts'' (Some ''udptotunknownsvcpkts''),
      uint_string ''BadChecksum'' (Some ''udpbadchecksum''),
      float_string ''CurRateThresholdExceeds'' (Some ''udpcurratethresholdexceeds'')]"

definition SSL_global :: "gofield list" where
  "SSL_global =
     [float_field ''NewSessionsRate'' (Some ''sslnewsessionsrate''),
      float_field ''SessionHitsRate'' (Some ''sslsessionhitsrate''),
      float_field ''SessionMissRate'' (Some ''sslsessionmissrate''),
      float_field ''SSLv3RenegSessionsRate'' (Some ''sslsslv3renegsessionsrate''),
      float_field ''TLSv1RenegSessionsRate'' (Some ''ssltlsv1renegsessionsrate''),
      float_field ''TLSv11RenegSessionsRate'' (Some ''ssltlsv11renegsessionsrate''),
      float_field ''TLSv12RenegSessionsRate'' (Some ''ssltlsv12renegsessionsrate''),
      float_field ''OffloadRSAKeyExchangesRate'' (Some ''ssloffloadrsakeyexchangesrate''),
      float_field ''OffloadDHKeyExchangesRate'' (Some ''ssloffloaddhkeyexchangesrate''),
      float_field ''OffloadSignRSARate'' (Some ''ssloffloadsignrsarate''),
      float_field ''OffloadBulkRC4Rate'' (Some ''ssloffloadbulkrc4rate''),
      float_field ''OffloadBulkDESRate'' (Some ''ssloffloadbulkdesrate''),
      float_field ''OffloadBulkAESRate'' (Some ''ssloffloadbulkaesrate'')]"

definition SSL_client1 :: "gofield list" where
  "SSL_client1 =
     [float_field ''ClientSSLv2SessionsRate'' (Some ''sslsslv2sessionsrate''),
      float_field ''ClientSSLv3SessionsRate'' (Some ''sslsslv3sessionsrate''),
      float_field ''ClientTLSv1SessionsRate'' (Some ''ssltlsv1sessionsrate''),
      float_field ''ClientTLSv11SessionsRate'' (Some ''ssltlsv11sessionsrate''),
      float_field ''ClientTLSv12SessionsRate'' (Some ''ssltlsv12sessionsrate''),
      float_field ''ClientSSLv2TransactionsRate'' (Some ''sslsslv2transactionsrate''),
      float_field ''ClientSSLv3TransactionsRate'' (Some ''sslsslv3transactionsrate''),
      float_field ''ClientTLSv1TransactionsRate'' (Some ''ssltlsv1transactionsrate''),
      float_field ''ClientTLSv11TransactionsRate'' (Some ''ssltlsv11transactionsrate''),
      float_field ''ClientTLSv12TransactionsRate'' (Some ''ssltlsv12transactionsrate''),
      float_field ''ClientHWEncFERate'' (Some ''sslhwencferate''),
      float_field ''ClientSWEncFERate'' (Some ''sslswencferate''),
      float_field ''ClientHWDecFERate'' (Some ''sslhwdecferate''),
      float_field ''ClientSWDecFERate'' (Some ''sslswdecferate''),
      float_field ''ClientRSA512KeyExchangesRate'' (Some ''sslrsa512keyexchangesrate''),
      float_field ''ClientRSA1024KeyExchangesRate'' (Some ''sslrsa1024keyexchangesrate''),
      float_field ''ClientRSA2048KeyExchangesRate'' (Some ''sslrsa2048keyexchangesrate'')]"

definition SSL_client2 :: "gofield list" where
  "SSL_client2 =
     [float_field ''ClientRSA4096KeyExchangesRate'' (Some ''sslrsa4096keyexchangesrate''),
      float_field ''ClientDH512KeyExchangesRate'' (Some ''ssldh512keyexchangesrate''),
      float_field ''ClientDH1024KeyExchangesRate'' (Some ''ssldh1024keyexchangesrate''),
      float_field ''ClientDH2048KeyExchangesRate'' (Some ''ssldh2048keyexchangesrate''),
      float_field ''Client40BitRC4CiphersRate'' (Some ''ssl40bitrc4ciphersrate''),
      float_field ''Client56BitRC4CiphersRate'' (Some ''ssl56bitrc4ciphersrate''),
      float_field ''Client64BitRC4CiphersRate'' (Some ''ssl64bitrc4ciphersrate''),
      float_field ''Client128BitRC4CiphersRate'' (Some ''ssl128bitrc4ciphersrate''),
      float_field ''Client40BitDESCiphersRate'' (Some ''ssl40bitdesciphersrate''),
      float_field ''Client56BitDESCiphersRate'' (Some ''ssl56bitdesciphersrate''),
      float_field ''Client168Bit3DESCiphersRate'' (Some ''ssl168bit3desciphersrate''),
      float_field ''ClientCipherAES128Rate'' (Some ''sslcipheraes128rate''),
      float_field ''ClientCipherAES256Rate'' (Some ''sslcipheraes256rate''),
      float_field ''Client40BitRC2CiphersRate'' (Some ''ssl40bitrc2ciphersrate''),
      float_field ''Client56BitRC2CiphersRate'' (Some ''ssl56bitrc2ciphersrate''),
      float_field ''Client128BitRC2CiphersRate'' (Some ''ssl128bitrc2ciphersrate''),
      float_field ''ClientNULLCiphersRate'' (Some ''sslnullciphersrate'')]"

definition SSL_client3 :: "gofield list" where
  "SSL_client3 =
     [float_field ''Client128BitIDEACiphersRate'' (Some ''ssl128bitideaciphersrate''),
      float_field ''ClientMD5MacRate'' (Some ''sslmd5macrate''),
      float_field ''ClientSHAMacRate'' (Some ''sslshamacrate''),
      float_field ''ClientSSLv2HandshakesRate'' (Some ''sslsslv2handshakesrate''),
      float_field ''ClientSSLv3HandshakesRate'' (Some ''sslsslv3handshakesrate''),
      float_field ''ClientTLSv1HandshakesRate'' (Some ''ssltlsv1handshakesrate''),
      float_field ''ClientTLSv11HandshakesRate'' (Some ''ssltlsv11handshakesrate''),
      float_field ''ClientTLSv12HandshakesRate'' (Some ''ssltlsv12handshakesrate''),
      float_field ''ClientSSLv2ClientAuthenticationsRate'' (Some ''sslsslv2clientauthenticationsrate''),
      float_field ''ClientSSLv3ClientAuthenticationsRate'' (Some ''sslsslv3clientauthenticationsrate''),
      float_field ''ClientTLSv1ClientAuthenticationsRate'' (Some ''ssltlsv1clientauthenticationsrate''),
      float_field ''ClientTLSv11ClientAuthenticationsRate'' (Some ''ssltlsv11clientauthenticationsrate''),
      float_field ''ClientTLSv12ClientAuthenticationsRate'' (Some ''ssltlsv12clientauthenticationsrate''),
      float_field ''ClientRSAAuthorizationsRate'' (Some ''sslrsaauthorizationsrate''),
      float_field ''ClientDHAuthorizationsRate'' (Some ''ssldhauthorizationsrate''),
      float_field ''ClientDSSAuthorizationsRate'' (Some ''ssldssauthorizationsrate''),
      float_field ''ClientNULLAuthorizationsRate'' (Some ''sslnullauthorizationsrate'')]"

definition SSL_server1 :: "gofield list" where
  "SSL_server1 =
     [float_field ''ServerSSLv3SessionsRate'' (Some ''sslbesslv3sessionsrate''),
      float_field ''ServerTLSv1SessionsRate'' (Some ''sslbetlsv1sessionsrate''),
      float_field ''ServerTLSv11SessionsRate'' (Some ''sslbetlsv11sessionsrate''),
      float_field ''ServerTLSv12SessionsRate'' (Some ''sslbetlsv11sessionsrate''),
      float_field ''ServerSessionMultiplexAttemptSuccessRate'' (Some ''sslbesessionmultiplexattemptsuccessrate''),
      float_field ''ServerSessionMultiplexAttemptFailsRate'' (Some ''sslbesessionmultiplexattemptfailsrate''),
      float_field ''ServerRSA512KeyExchangesRate'' (Some ''sslbersa512keyexchangesrate''),
      float_field ''ServerRSA1024KeyExchangesRate'' (Some ''sslbersa1024keyexchangesrate''),
      float_field ''ServerRSA2048KeyExchangesRate'' (Some ''sslbersa2048keyexchangesrate''),
      float_field ''ServerRSA4096KeyExchangesRate'' (Some ''sslbersa4096keyexchangesrate''),
      float_field ''ServerDH512KeyExchangesRate'' (Some ''sslbedh512keyexchangesrate''),
      float_field ''ServerDH1024KeyExchangesRate'' (Some ''sslbedh1024keyexchangesrate''),
      float_field ''ServerDH2048KeyExchangesRate'' (Some ''sslbedh2048keyexchangesrate''),
      float_field ''Server40BitRC4CiphersRate'' (Some ''sslbe40bitrc4ciphersrate''),
      float_field ''Server56BitRC4CiphersRate'' (Some ''sslbe56bitrc4ciphersrate'')]"

definition SSL_server2 :: "gofield list" where
  "SSL_server2 =
     [float_field ''Server64BitRC4CiphersRate'' (Some ''sslbe64bitrc4ciphersrate''),
      float_field ''Server128BitRC4CiphersRate'' (Some ''sslbe128bitrc4ciphersrate''),
      float_field ''Server40BitDESCiphersRate'' (Some ''sslbe40bitdesciphersrate''),
      float_field ''Server56BitDESCiphersRate'' (Some ''sslbe56bitdesciphersrate''),
      float_field ''Server168Bit3DESCiphersRate'' (Some ''sslbe168bit3desciphersrate''),
      float_field ''ServerCipherAES128Rate'' (Some ''sslbecipheraes128rate''),
      float_field ''ServerCipherAES256Rate'' (Some ''sslbecipheraes256rate''),
      float_field ''Server40BitRC2CiphersRate'' (Some ''sslbe40bitrc2ciphersrate''),
      float_field ''Server56BitRC2CiphersRate'' (Some ''sslbe56bitrc2ciphersrate''),
      float_field ''Server128BitRC2CiphersRate'' (Some ''sslbe128bitrc2ciphersrate''),
      float_field ''ServerNULLCiphersRate'' (Some ''sslbenullciphersrate''),
      float_field ''Server128BitIDEACiphersRate'' (Some ''sslbe128bitideaciphersrate''),
      float_field ''ServerMD5MacRate'' (Some ''sslbemd5macrate''),
      float_field ''ServerSHAMacRate'' (Some ''sslbeshamacrate''),
      float_field ''ServerSSLv3HandshakesRate'' (Some ''sslbesslv3handshakesrate'')]"

definition SSL_server3 :: "gofield list" where
  "SSL_server3 =
     [float_field ''ServerTLSv1HandshakesRate'' (Some ''sslbetlsv1handshakesrate''),
      float_field ''ServerTLSv11HandshakesRate'' (Some ''sslbetlsv11handshakesrate''),
      float_field ''ServerTLSv12HandshakesRate'' (Some ''sslbetlsv12handshakesrate''),
      float_field ''ServerSSLv3ClientAuthenticationsRate'' (Some ''sslbesslv3clientauthenticationsrate''),
      float_field ''ServerTLSv1ClientAuthenticationsRate'' (Some ''sslbetlsv1clientauthenticationsrate''),
      float_field ''ServerTLSv11ClientAuthenticationsRate'' (Some ''sslbetlsv11clientauthenticationsrate''),
      float_field ''ServerTLSv12ClientAuthenticationsRate'' (Some ''sslbetlsv12clientauthenticationsrate''),
      float_field ''ServerRSAAuthorizationsRate'' (Some ''sslbersaauthorizationsrate''),
      float_field ''ServerDHAuthorizationsRate'' (Some ''sslbedhauthorizationsrate''),
      float_field ''ServerDSSAuthorizationsRate'' (Some ''sslbedssauthorizationsrate''),
      float_field ''ServerNULLAuthorizationsRate'' (Some ''sslbenullauthorizationsrate''),
      float_field ''ServerMultiplexedSessionsRate'' (Some ''sslbemultiplexedsessionsrate''),
      float_field ''ServerHWEncBERate'' (Some ''sslhwencberate''),
      float_field ''ServerSWEncBERate'' (Some ''sslswencberate''),
      float_field ''ServerHWDecBERate'' (Some ''sslhwdecberate''),
      float_field ''ServerSWDecBERate'' (Some ''sslswdecberate'')]"

definition SSL_fields :: "gofield list" where
  "SSL_fields = SSL_global @ SSL_client1 @ SSL_client2 @ SSL_client3 @ SSL_server1 @ SSL_server2 @ SSL_server3"

definition NS_fields :: "gofield list" where
  "NS_fields =
     [Field ''HTTPToTRequests'' None True TUint64,
      float_field ''MgmtCPUUsagePcnt'' None,
      float_field ''PktCPUUsagePcnt'' None,
      uint_string ''ResMemUsage'' None,
      float_field ''MemUsagePcnt'' None]"

definition Interface_fields :: "gofield list" where
  "Interface_fields =
     [Field ''ID'' None False TString,
      uint_string ''TotRxBytes'' None,
      uint_string ''TotTxBytes'' None,
      uint_string ''TotRxPkts'' None,
      uint_string ''TotTxPkts'' None,
      uint_string ''ErrIfInDiscards'' None,
      uint_string ''NicErrIfOutDiscards'' None,
      uint_string ''ErrPktRx'' None,
      uint_string ''ErrPktTx'' None]"

definition responseSessionID :: gotype where "responseSessionID = TStruct SessionID_fields"

definition ResponseStat :: gotype where
  "ResponseStat = TStruct
     [Field ''ErrorCode'' None False TInt,
      Field ''Message'' None False TString,
      Field ''LBVServer'' None False (TSlice (TStruct LBVServer_fields)),
      Field ''Service'' None False (TSlice (TStruct Service_fields)),
      Field ''ResponderPolicy'' None False (TSlice (TStruct ResponderPolicy_fields)),
      Field ''ProtocolHTTP'' None False (TPtr (TStruct ProtocolHTTP_fields)),
      Field ''ProtocolTCP'' None False (TPtr (TStruct ProtocolTCP_fields)),
      Field ''ProtocolUDP'' None False (TPtr (TStruct ProtocolUDP_fields)),
      Field ''SSL'' None False (TPtr (TStruct SSL_fields)),
      Field ''NS'' None False (TPtr (TStruct NS_fields)),
      Field ''Interface'' None False (TSlice (TStruct Interface_fields))]"

definition ResponseConfig :: gotype where
  "ResponseConfig = TStruct
     [Field ''ErrorCode'' None False TInt,
      Field ''Message'' None False TString,
      Field ''LBVServerServiceBinding'' (Some ''lbvserver_service_binding'') False
        (TSlice (TStruct [Field ''ServiceName'' None False TString])),
      Field ''FilterPolicy'' None False
        (TSlice (TStruct [Field ''Name'' None False TString, uint_string ''Hits'' None]))]"

section \<open>Which fields a document can set\<close>

text \<open>The two fields of the SSL statistics with the tag \<^verbatim>\<open>sslbetlsv11sessionsrate\<close>.\<close>

definition doubled :: "gofield \<Rightarrow> bool" where
  "doubled f \<longleftrightarrow> f_name f = ''ServerTLSv11SessionsRate'' \<or> f_name f = ''ServerTLSv12SessionsRate''"

lemmas table_simps = field_kinds json_name_def doubled_def

text \<open>The blocks of the SSL statistics, and what a block does not share with another.\<close>

lemmas block_defs = SSL_global_def SSL_client1_def SSL_client2_def SSL_client3_def SSL_server1_def SSL_server2_def SSL_server3_def

definition tag_names :: "gofield list \<Rightarrow> bytes list" where
  "tag_names fs = map json_name (filter (\<lambda>f. \<not> doubled f) fs)"

definition apart :: "bytes list \<Rightarrow> bytes list \<Rightarrow> bool" where
  "apart xs ys \<longleftrightarrow> list_all (\<lambda>y. list_all (\<lambda>x. y \<noteq> x) xs) ys"

lemma apart_append: "apart xs (ys @ zs) \<longleftrightarrow> apart xs ys \<and> apart xs zs"
  by (simp add: apart_def)

lemma distinct_apart: "distinct (xs @ ys) \<longleftrightarrow> distinct xs \<and> distinct ys \<and> apart xs ys"
  by (auto simp: apart_def list_all_iff)

lemma names_append [simp]: "tag_names (fs @ gs) = tag_names fs @ tag_names gs"
  by (simp add: tag_names_def)

lemma SSL_global_names: "tag_names SSL_global =
    [''sslnewsessionsrate'',
     ''sslsessionhitsrate'',
     ''sslsessionmissrate'',
     ''sslsslv3renegsessionsrate'',
     ''ssltlsv1renegsessionsrate'',
     ''ssltlsv11renegsessionsrate'',
     ''ssltlsv12renegsessionsrate'',
     ''ssloffloadrsakeyexchangesrate'',
     ''ssloffloaddhkeyexchangesrate'',
     ''ssloffloadsignrsarate'',
     ''ssloffloadbulkrc4rate'',
     ''ssloffloadbulkdesrate'',
     ''ssloffloadbulkaesrate'']"
  by (simp add: tag_names_def SSL_global_def table_simps)

lemma SSL_client1_names: "tag_names SSL_client1 =
    [''sslsslv2sessionsrate'',
     ''sslsslv3sessionsrate'',
     ''ssltlsv1sessionsrate'',
     ''ssltlsv11sessionsrate'',
     ''ssltlsv12sessionsrate'',
     ''sslsslv2transactionsrate'',
     ''sslsslv3transactionsrate'',
     ''ssltlsv1transactionsrate'',
     ''ssltlsv11transactionsrate'',
     ''ssltlsv12transactionsrate'',
     ''sslhwencferate'',
     ''sslswencferate'',
     ''sslhwdecferate'',
     ''sslswdecferate'',
     ''sslrsa512keyexchangesrate'',
     ''sslrsa1024keyexchangesrate'',
     ''sslrsa2048keyexchangesrate'']"
  by (simp add: tag_names_def SSL_client1_def table_simps)

lemma SSL_client2_names: "tag_names SSL_client2 =
    [''sslrsa4096keyexchangesrate'',
     ''ssldh512keyexchangesrate'',
     ''ssldh1024keyexchangesrate'',
     ''ssldh2048keyexchangesrate'',
     ''ssl40bitrc4ciphersrate'',
     ''ssl56bitrc4ciphersrate'',
     ''ssl64bitrc4ciphersrate'',
     ''ssl128bitrc4ciphersrate'',
     ''ssl40bitdesciphersrate'',
     ''ssl56bitdesciphersrate'',
     ''ssl168bit3desciphersrate'',
     ''sslcipheraes128rate'',
     ''sslcipheraes256rate'',
     ''ssl40bitrc2ciphersrate'',
     ''ssl56bitrc2ciphersrate'',
     ''ssl128bitrc2ciphersrate'',
     ''sslnullciphersrate'']"
  by (simp add: tag_names_def SSL_client2_def table_simps)

lemma SSL_client3_names: "tag_names SSL_client3 =
    [''ssl128bitideaciphersrate'',
     ''sslmd5macrate'',
     ''sslshamacrate'',
     ''sslsslv2handshakesrate'',
     ''sslsslv3handshakesrate'',
     ''ssltlsv1handshakesrate'',
     ''ssltlsv11handshakesrate'',
     ''ssltlsv12handshakesrate'',
     ''sslsslv2clientauthenticationsrate'',
     ''sslsslv3clientauthenticationsrate'',
     ''ssltlsv1clientauthenticationsrate'',
     ''ssltlsv11clientauthenticationsrate'',
     ''ssltlsv12clientauthenticationsrate'',
     ''sslrsaauthorizationsrate'',
     ''ssldhauthorizationsrate'',
     ''ssldssauthorizationsrate'',
     ''sslnullauthorizationsrate'']"
  by (simp add: tag_names_def SSL_client3_def table_simps)

lemma SSL_server1_names: "tag_names SSL_server1 =
    [''sslbesslv3sessionsrate'',
     ''sslbetlsv1sessionsrate'',
     ''sslbesessionmultiplexattemptsuccessrate'',
     ''sslbesessionmultiplexattemptfailsrate'',
     ''sslbersa512keyexchangesrate'',
     ''sslbersa1024keyexchangesrate'',
     ''sslbersa2048keyexchangesrate'',
     ''sslbersa4096keyexchangesrate'',
     ''sslbedh512keyexchangesrate'',
     ''sslbedh1024keyexchangesrate'',
     ''sslbedh2048keyexchangesrate'',
     ''sslbe40bitrc4ciphersrate'',
     ''sslbe56bitrc4ciphersrate'']"
  by (simp add: tag_names_def SSL_server1_def table_simps)

lemma SSL_server2_names: "tag_names SSL_server2 =
    [''sslbe64bitrc4ciphersrate'',
     ''sslbe128bitrc4ciphersrate'',
     ''sslbe40bitdesciphersrate'',
     ''sslbe56bitdesciphersrate'',
     ''sslbe168bit3desciphersrate'',
     ''sslbecipheraes128rate'',
     ''sslbecipheraes256rate'',
     ''sslbe40bitrc2ciphersrate'',
     ''sslbe56bitrc2ciphersrate'',
     ''sslbe128bitrc2ciphersrate'',
     ''sslbenullciphersrate'',
     ''sslbe128bitideaciphersrate'',
     ''sslbemd5macrate'',
     ''sslbeshamacrate'',
     ''sslbesslv3handshakesrate'']"
  by (simp add: tag_names_def SSL_server2_def table_simps)

lemma SSL_server3_names: "tag_names SSL_server3 =
    [''sslbetlsv1handshakesrate'',
     ''sslbetlsv11handshakesrate'',
     ''sslbetlsv12handshakesrate'',
     ''sslbesslv3clientauthenticationsrate'',
     ''sslbetlsv1clientauthenticationsrate'',
     ''sslbetlsv11clientauthenticationsrate'',
     ''sslbetlsv12clientauthenticationsrate'',
     ''sslbersaauthorizationsrate'',
     ''sslbedhauthorizationsrate'',
     ''sslbedssauthorizationsrate'',
     ''sslbenullauthorizationsrate'',
     ''sslbemultiplexedsessionsrate'',
     ''sslhwencberate'',
     ''sslswencberate'',
     ''sslhwdecberate'',
     ''sslswdecberate'']"
  by (simp add: tag_names_def SSL_server3_def table_simps)

lemma SSL_global_distinct: "distinct (tag_names SSL_global)"
  by (simp add: SSL_global_names)

lemma SSL_client1_distinct: "distinct (tag_names SSL_client1)"
  by (simp add: SSL_client1_names)

lemma SSL_client2_distinct: "distinct (tag_names SSL_client2)"
  by (simp add: SSL_client2_names)

lemma SSL_client3_distinct: "distinct (tag_names SSL_client3)"
  by (simp add: SSL_client3_names)

lemma SSL_server1_distinct: "distinct (tag_names SSL_server1)"
  by (simp add: SSL_server1_names)

lemma SSL_server2_distinct: "distinct (tag_names SSL_server2)"
  by (simp add: SSL_server2_names)

lemma SSL_server3_distinct: "distinct (tag_names SSL_server3)"
  by (simp add: SSL_server3_names)

lemma SSL_global_client1: "apart (tag_names SSL_global) (tag_names SSL_client1)"
  by (simp add: apart_def SSL_global_names SSL_client1_names)

lemma SSL_global_client2: "apart (tag_names SSL_global) (tag_names SSL_client2)"
  by (simp add: apart_def SSL_global_names SSL_client2_names)

lemma SSL_global_client3: "apart (tag_names SSL_global) (tag_names SSL_client3)"
  by (simp add: apart_def SSL_global_names SSL_client3_names)

lemma SSL_client1_client2: "apart (tag_names SSL_client1) (tag_names SSL_client2)"
  by (simp add: apart_def SSL_client1_names SSL_client2_names)

lemma SSL_client1_client3: "apart (tag_names SSL_client1) (tag_names SSL_client3)"
  by (simp add: apart_def SSL_client1_names SSL_client3_names)

lemma SSL_client2_client3: "apart (tag_names SSL_client2) (tag_names SSL_client3)"
  by (simp add: apart_def SSL_client2_names SSL_client3_names)

lemma SSL_server1_server2: "apart (tag_names SSL_server1) (tag_names SSL_server2)"
  by (simp add: apart_def SSL_server1_names SSL_server2_names)

lemma SSL_server1_server3: "apart (tag_names SSL_server1) (tag_names SSL_server3)"
  by (simp add: apart_def SSL_server1_names SSL_server3_names)

lemma SSL_server2_server3: "apart (tag_names SSL_server2) (tag_names SSL_server3)"
  by (simp add: apart_def SSL_server2_names SSL_server3_names)

text \<open>The tags of the server side start or end with a mark of the back end.\<close>

definition back_end :: "bytes \<Rightarrow> bool" where
  "back_end s \<longleftrightarrow> has_prefix s ''sslbe'' \<or> has_prefix (rev s) (rev ''cberate'')"

lemma names_front:
  "list_all (\<lambda>s. \<not> back_end s) (tag_names SSL_global)"
  "list_all (\<lambda>s. \<not> back_end s) (tag_names SSL_client1)"
  "list_all (\<lambda>s. \<not> back_end s) (tag_names SSL_client2)"
  "list_all (\<lambda>s. \<not> back_end s) (tag_names SSL_client3)"
  by (simp_all add: SSL_global_names SSL_client1_names SSL_client2_names SSL_client3_names back_end_def)

lemma names_back:
  "list_all back_end (tag_names SSL_server1)"
  "list_all back_end (tag_names SSL_server2)"
  "list_all back_end (tag_names SSL_server3)"
  by (simp_all add: SSL_server1_names SSL_server2_names SSL_server3_names back_end_def)

lemma SSL_distinct: "distinct (tag_names SSL_fields)"
proof -
  let ?client = "tag_names SSL_global @ tag_names SSL_client1 @ tag_names SSL_client2 @ tag_names SSL_client3"
  let ?server = "tag_names SSL_server1 @ tag_names SSL_server2 @ tag_names SSL_server3"
  have "distinct ?client" "distinct ?server"
    unfolding distinct_apart apart_append
    by (intro conjI SSL_global_distinct SSL_client1_distinct SSL_client2_distinct SSL_client3_distinct
      SSL_global_client1 SSL_global_client2 SSL_global_client3 SSL_client1_client2 SSL_client1_client3
      SSL_client2_client3 SSL_server1_distinct SSL_server2_distinct SSL_server3_distinct
      SSL_server1_server2 SSL_server1_server3 SSL_server2_server3)+
  moreover have "list_all (\<lambda>s. \<not> back_end s) ?client" by (simp add: names_front)
  moreover have "list_all back_end ?server" by (simp add: names_back)
  ultimately have "distinct (?client @ ?server)" by (auto simp: list_all_iff simp del: append_assoc)
  then show ?thesis unfolding SSL_fields_def names_append append_assoc .
qed

definition ssl_field :: "gofield \<Rightarrow> bool" where
  "ssl_field f \<longleftrightarrow> f_type f = TPtr TFloat64 \<and> \<not> f_quoted f \<and> f_tag f \<noteq> None \<and>
     (doubled f \<longleftrightarrow> json_name f = ''sslbetlsv11sessionsrate'')"

lemma SSL_field_blocks:
  "list_all ssl_field SSL_global"
  "list_all ssl_field SSL_client1"
  "list_all ssl_field SSL_client2"
  "list_all ssl_field SSL_client3"
  "list_all ssl_field SSL_server1"
  "list_all ssl_field SSL_server2"
  "list_all ssl_field SSL_server3"
  by (simp_all add: ssl_field_def block_defs table_simps)

lemma SSL_field: "f \<in> set SSL_fields \<Longrightarrow> ssl_field f"
  using SSL_field_blocks by (auto simp: SSL_fields_def list_all_iff)

lemma SSL_doubled_blocks:
  "length (filter doubled SSL_global) = 0"
  "length (filter doubled SSL_client1) = 0"
  "length (filter doubled SSL_client2) = 0"
  "length (filter doubled SSL_client3) = 0"
  "length (filter doubled SSL_server1) = 2"
  "length (filter doubled SSL_server2) = 0"
  "length (filter doubled SSL_server3) = 0"
  by (simp_all add: block_defs table_simps)

lemma SSL_doubled: "length (filter doubled SSL_fields) = 2"
  by (simp add: SSL_fields_def SSL_doubled_blocks)

lemma SSL_visible: "visible SSL_fields = filter (\<lambda>f. \<not> doubled f) SSL_fields"
  using SSL_distinct SSL_field SSL_doubled
  by (intro visible_but [where k = "''sslbetlsv11sessionsrate''"]) (auto simp: tag_names_def ssl_field_def)

lemma TCP_visible: "visible ProtocolTCP_fields = ProtocolTCP_fields"
proof (rule visible_all)
  have "list_all (\<lambda>f. \<not> has_prefix (json_name f) ''tcperr'') TCP_conn"
    by (simp add: TCP_conn_def table_simps)
  moreover have "list_all (\<lambda>f. has_prefix (json_name f) ''tcperr'') TCP_err"
    by (simp add: TCP_err_def table_simps)
  moreover have "distinct (map json_name TCP_conn)" by (simp add: TCP_conn_def table_simps)
  moreover have "distinct (map json_name TCP_err)" by (simp add: TCP_err_def table_simps)
  ultimately show "distinct (map json_name ProtocolTCP_fields)"
    by (force simp: ProtocolTCP_fields_def list_all_iff)
qed

lemma tables_visible:
  "visible SessionID_fields = SessionID_fields"
  "visible LBVServer_fields = LBVServer_fields"
  "visible Service_fields = Service_fields"
  "visible ResponderPolicy_fields = ResponderPolicy_fields"
  "visible ProtocolHTTP_fields = ProtocolHTTP_fields"
  "visible ProtocolUDP_fields = ProtocolUDP_fields"
  "visible NS_fields = NS_fields"
  "visible Interface_fields = Interface_fields"
  by (rule visible_all, simp add: SessionID_fields_def LBVServer_fields_def Service_fields_def
    ResponderPolicy_fields_def ProtocolHTTP_fields_def ProtocolUDP_fields_def NS_fields_def
    Interface_fields_def table_simps)+

end
