(* ===== verification/Netscaler.thy ===== *)
theory Netscaler
  imports NitroTypes Series
begin

text \<open>
  The collectors of \<^verbatim>\<open>contrib/collect-netscaler/collect\<close> that read one response and emit
  points (\<^verbatim>\<open>ssl.go\<close>, \<^verbatim>\<open>protocoltcp.go\<close>, \<^verbatim>\<open>protocoludp.go\<close>, \<^verbatim>\<open>protocolhttp.go\<close>,
  \<^verbatim>\<open>ns.go\<close>, \<^verbatim>\<open>nic.go\<close>, \<^verbatim>\<open>filterpolicy.go\<close>, \<^verbatim>\<open>responderpolicy.go\<close>), with the
  emitter and \<^verbatim>\<open>logPanics\<close> of \<^verbatim>\<open>collect.go\<close> and the output of \<^verbatim>\<open>tsdb.go\<close>.

  A collector is the list of its actions in order: the calls of \<^verbatim>\<open>emit\<close> and the evaluations
  that may panic. Running it yields the points sent before the end or the first panic, and
  whether it came to its end; \<^verbatim>\<open>logPanics\<close> keeps the points and drops the rest.

  What is proved: a collector without nil values, on names of plain text, emits one point per
  action, with the series and the value of the action; the SSL collector emits exactly the
  gauges the document holds, and never two of them, as no document can set them.
\<close>

section \<open>The emitter\<close>

text \<open>
  The argument of \<^verbatim>\<open>emit\<close>: the nil interface, a value, or a pointer to an unsigned integer
  or a float, which may be nil.
\<close>

datatype emit_arg = AnyNil | AnyVal goval | AnyPtr "goval option"

text \<open>The type switch: a panic, nothing to emit, or the value.\<close>

fun emit_value :: "emit_arg \<Rightarrow> goval option option" where
  "emit_value AnyNil = None"
| "emit_value (AnyVal v) =
     (case v of
        GUint64 _ \<Rightarrow> Some (Some v) | GInt64 _ \<Rightarrow> Some (Some v) | GInt _ \<Rightarrow> Some (Some v) | GFloat64 _ \<Rightarrow> Some (Some v)
      | _ \<Rightarrow> None)"
| "emit_value (AnyPtr u) = Some u"

definition newEmitter :: "golib \<Rightarrow> point \<Rightarrow> time \<Rightarrow> bytes \<Rightarrow> emit_arg \<Rightarrow> point list option" where
  "newEmitter L pooled timestamp series value =
     (case emit_value value of
        None \<Rightarrow> None
      | Some None \<Rightarrow> Some []
      | Some (Some v) \<Rightarrow>
          (case series_words L (''netscaler.'' @ series) of
             [] \<Rightarrow> None
           | metric # keyval \<Rightarrow>
               (case NewPoint L pooled timestamp v metric keyval of Inl e \<Rightarrow> None | Inr p \<Rightarrow> Some [p])))"

text \<open>An action: an evaluation that panics or not, or a call of \<^verbatim>\<open>emit\<close> whose argument may panic.\<close>

datatype action = Eval_ok bool | Emit bytes "emit_arg option"

fun run_actions :: "golib \<Rightarrow> point \<Rightarrow> time \<Rightarrow> action list \<Rightarrow> point list \<times> bool" where
  "run_actions L pooled t [] = ([], True)"
| "run_actions L pooled t (Eval_ok b # as) = (if b then run_actions L pooled t as else ([], False))"
| "run_actions L pooled t (Emit series arg # as) =
     (case Option.bind arg (newEmitter L pooled t series) of
        None \<Rightarrow> ([], False)
      | Some ps \<Rightarrow> (case run_actions L pooled t as of (qs, ok) \<Rightarrow> (ps @ qs, ok)))"

text \<open>\<^verbatim>\<open>*x.F\<close> and \<^verbatim>\<open>x.F\<close> as an argument.\<close>

definition star :: "gvalue option \<Rightarrow> emit_arg option" where
  "star v = (case v of Some (VUint64 n) \<Rightarrow> Some (AnyVal (GUint64 (uint n))) | Some (VFloat64 f) \<Rightarrow> Some (AnyVal (GFloat64 f)) | _ \<Rightarrow> None)"

definition pass :: "gvalue option \<Rightarrow> emit_arg option" where
  "pass v =
     (case v of
        Some (VUint64 n) \<Rightarrow> Some (AnyPtr (Some (GUint64 (uint n))))
      | Some (VFloat64 f) \<Rightarrow> Some (AnyPtr (Some (GFloat64 f)))
      | Some _ \<Rightarrow> Some (AnyPtr None)
      | None \<Rightarrow> None)"

text \<open>The field of a response, which is never nil itself.\<close>

definition fld :: "gvalue \<Rightarrow> bytes \<Rightarrow> gvalue" where
  "fld r name = (case sel r name of Some v \<Rightarrow> v | None \<Rightarrow> VNil)"

section \<open>The collectors\<close>

definition ssl_global :: "(bytes \<times> bytes) list" where
  "ssl_global =
     [(''ssl.NewSessionsRate'', ''NewSessionsRate''),
      (''ssl.SessionCacheRate type=Hits'', ''SessionHitsRate''),
      (''ssl.SessionCacheRate type=Miss'', ''SessionMissRate''),
      (''ssl.RenegSessionsRate protocol=SSLv3'', ''SSLv3RenegSessionsRate''),
      (''ssl.RenegSessionsRate protocol=TLSv1'', ''TLSv1RenegSessionsRate''),
      (''ssl.RenegSessionsRate protocol=TLSv11'', ''TLSv11RenegSessionsRate''),
      (''ssl.RenegSessionsRate protocol=TLSv12'', ''TLSv12RenegSessionsRate''),
      (''ssl.OffloadKeyExchangesRate algorithm=RSA'', ''OffloadRSAKeyExchangesRate''),
      (''ssl.OffloadKeyExchangesRate algorithm=DH'', ''OffloadDHKeyExchangesRate''),
      (''ssl.OffloadSignRate algorithm=RSA'', ''OffloadSignRSARate''),
      (''ssl.OffloadBulkRate algorithm=RC4'', ''OffloadBulkRC4Rate''),
      (''ssl.OffloadBulkRate algorithm=DES'', ''OffloadBulkDESRate''),
      (''ssl.OffloadBulkRate algorithm=AES'', ''OffloadBulkAESRate'')]"

definition ssl_client1 :: "(bytes \<times> bytes) list" where
  "ssl_client1 =
     [(''ssl.SessionsRate side=Client protocol=SSLv2'', ''ClientSSLv2SessionsRate''),
      (''ssl.SessionsRate side=Client protocol=SSLv3'', ''ClientSSLv3SessionsRate''),
      (''ssl.SessionsRate side=Client protocol=TLSv1'', ''ClientTLSv1SessionsRate''),
      (''ssl.SessionsRate side=Client protocol=TLSv11'', ''ClientTLSv11SessionsRate''),
      (''ssl.SessionsRate side=Client protocol=TLSv12'', ''ClientTLSv12SessionsRate''),
      (''ssl.TransactionsRate side=Client protocol=SSLv2'', ''ClientSSLv2TransactionsRate''),
      (''ssl.TransactionsRate side=Client protocol=SSLv3'', ''ClientSSLv3TransactionsRate''),
      (''ssl.TransactionsRate side=Client protocol=TLSv1'', ''ClientTLSv1TransactionsRate''),
      (''ssl.TransactionsRate side=Client protocol=TLSv11'', ''ClientTLSv11TransactionsRate''),
      (''ssl.TransactionsRate side=Client protocol=TLSv12'', ''ClientTLSv12TransactionsRate''),
      (''ssl.EncRate side=Client type=Hardware'', ''ClientHWEncFERate''),
      (''ssl.EncRate side=Client type=Software'', ''ClientSWEncFERate''),
      (''ssl.DecRate side=Client type=Hardware'', ''ClientHWDecFERate''),
      (''ssl.DecRate side=Client type=Software'', ''ClientSWDecFERate''),
      (''ssl.KeyExchangesRate side=Client algorithm=RSA512'', ''ClientRSA512KeyExchangesRate''),
      (''ssl.KeyExchangesRate side=Client algorithm=RSA1024'', ''ClientRSA1024KeyExchangesRate''),
      (''ssl.KeyExchangesRate side=Client algorithm=RSA2048'', ''ClientRSA2048KeyExchangesRate'')]"

definition ssl_client2 :: "(bytes \<times> bytes) list" where
  "ssl_client2 =
     [(''ssl.KeyExchangesRate side=Client algorithm=RSA4096'', ''ClientRSA4096KeyExchangesRate''),
      (''ssl.KeyExchangesRate side=Client algorithm=DH512'', ''ClientDH512KeyExchangesRate''),
      (''ssl.KeyExchangesRate side=Client algorithm=DH1024'', ''ClientDH1024KeyExchangesRate''),
      (''ssl.KeyExchangesRate side=Client algorithm=DH2048'', ''ClientDH2048KeyExchangesRate''),
      (''ssl.CiphersRate side=Client algorithm=40BitRC4'', ''Client40BitRC4CiphersRate''),
      (''ssl.CiphersRate side=Client algorithm=56BitRC4'', ''Client56BitRC4CiphersRate''),
      (''ssl.CiphersRate side=Client algorithm=64BitRC4'', ''Client64BitRC4CiphersRate''),
      (''ssl.CiphersRate side=Client algorithm=128BitRC4'', ''Client128BitRC4CiphersRate''),
      (''ssl.CiphersRate side=Client algorithm=40BitDES'', ''Client40BitDESCiphersRate''),
      (''ssl.CiphersRate side=Client algorithm=56BitDES'', ''Client56BitDESCiphersRate''),
      (''ssl.CiphersRate side=Client algorithm=168Bit3DES'', ''Client168Bit3DESCiphersRate''),
      (''ssl.CiphersRate side=Client algorithm=AES128'', ''ClientCipherAES128Rate''),
      (''ssl.CiphersRate side=Client algorithm=AES256'', ''ClientCipherAES256Rate''),
      (''ssl.CiphersRate side=Client algorithm=40BitRC2'', ''Client40BitRC2CiphersRate''),
      (''ssl.CiphersRate side=Client algorithm=56BitRC2'', ''Client56BitRC2CiphersRate''),
      (''ssl.CiphersRate side=Client algorithm=128BitRC2'', ''Client128BitRC2CiphersRate''),
      (''ssl.CiphersRate side=Client algorithm=NULL'', ''ClientNULLCiphersRate'')]"

definition ssl_client3 :: "(bytes \<times> bytes) list" where
  "ssl_client3 =
     [(''ssl.CiphersRate side=Client algorithm=128BitIDEA'', ''Client128BitIDEACiphersRate''),
      (''ssl.MacRate side=Client algorithm=MD5'', ''ClientMD5MacRate''),
      (''ssl.MacRate side=Client algorithm=SHA'', ''ClientSHAMacRate''),
      (''ssl.HandshakesRate side=Client protocol=SSLv2'', ''ClientSSLv2HandshakesRate''),
      (''ssl.HandshakesRate side=Client protocol=SSLv3'', ''ClientSSLv3HandshakesRate''),
      (''ssl.HandshakesRate side=Client protocol=TLSv1'', ''ClientTLSv1HandshakesRate''),
      (''ssl.HandshakesRate side=Client protocol=TLSv11'', ''ClientTLSv11HandshakesRate''),
      (''ssl.HandshakesRate side=Client protocol=TLSv12'', ''ClientTLSv12HandshakesRate''),
      (''ssl.AuthenticationsRate side=Client protocol=SSLv2Client'', ''ClientSSLv2ClientAuthenticationsRate''),
      (''ssl.AuthenticationsRate side=Client protocol=SSLv3Client'', ''ClientSSLv3ClientAuthenticationsRate''),
      (''ssl.AuthenticationsRate side=Client protocol=TLSv1Client'', ''ClientTLSv1ClientAuthenticationsRate''),
      (''ssl.AuthenticationsRate side=Client protocol=TLSv11Client'', ''ClientTLSv11ClientAuthenticationsRate''),
      (''ssl.AuthenticationsRate side=Client protocol=TLSv12Client'', ''ClientTLSv12ClientAuthenticationsRate''),
      (''ssl.AuthorizationsRate side=Client algorithm=RSA'', ''ClientRSAAuthorizationsRate''),
      (''ssl.AuthorizationsRate side=Client algorithm=DH'', ''ClientDHAuthorizationsRate''),
      (''ssl.AuthorizationsRate side=Client algorithm=DSS'', ''ClientDSSAuthorizationsRate''),
      (''ssl.AuthorizationsRate side=Client algorithm=NULL'', ''ClientNULLAuthorizationsRate'')]"

definition ssl_server1 :: "(bytes \<times> bytes) list" where
  "ssl_server1 =
     [(''ssl.SessionsRate side=Server protocol=SSLv3'', ''ServerSSLv3SessionsRate''),
      (''ssl.SessionsRate side=Server protocol=TLSv1'', ''ServerTLSv1SessionsRate''),
      (''ssl.SessionsRate side=Server protocol=TLSv11'', ''ServerTLSv11SessionsRate''),
      (''ssl.SessionsRate side=Server protocol=TLSv12'', ''ServerTLSv12SessionsRate''),
      (''ssl.SessionMultiplexAttemptRate side=Server result=Success'', ''ServerSessionMultiplexAttemptSuccessRate''),
      (''ssl.SessionMultiplexAttemptRate side=Server result=Fails'', ''ServerSessionMultiplexAttemptFailsRate''),
      (''ssl.KeyExchangesRate side=Server algorithm=RSA512'', ''ServerRSA512KeyExchangesRate''),
      (''ssl.KeyExchangesRate side=Server algorithm=RSA1024'', ''ServerRSA1024KeyExchangesRate''),
      (''ssl.KeyExchangesRate side=Server algorithm=RSA2048'', ''ServerRSA2048KeyExchangesRate''),
      (''ssl.KeyExchangesRate side=Server algorithm=RSA4096'', ''ServerRSA4096KeyExchangesRate''),
      (''ssl.KeyExchangesRate side=Server algorithm=DH512'', ''ServerDH512KeyExchangesRate''),
      (''ssl.KeyExchangesRate side=Server algorithm=DH1024'', ''ServerDH1024KeyExchangesRate''),
      (''ssl.KeyExchangesRate side=Server algorithm=DH2048'', ''ServerDH2048KeyExchangesRate''),
      (''ssl.CiphersRate side=Server algorithm=40BitRC4'', ''Server40BitRC4CiphersRate''),
      (''ssl.CiphersRate side=Server algorithm=56BitRC4'', ''Server56BitRC4CiphersRate'')]"

definition ssl_server2 :: "(bytes \<times> bytes) list" where
  "ssl_server2 =
     [(''ssl.CiphersRate side=Server algorithm=64BitRC4'', ''Server64BitRC4CiphersRate''),
      (''ssl.CiphersRate side=Server algorithm=128BitRC4'', ''Server128BitRC4CiphersRate''),
      (''ssl.CiphersRate side=Server algorithm=40BitDES'', ''Server40BitDESCiphersRate''),
      (''ssl.CiphersRate side=Server algorithm=56BitDES'', ''Server56BitDESCiphersRate''),
      (''ssl.CiphersRate side=Server algorithm=168Bit3DES'', ''Server168Bit3DESCiphersRate''),
      (''ssl.CiphersRate side=Server algorithm=AES128'', ''ServerCipherAES128Rate''),
      (''ssl.CiphersRate side=Server algorithm=AES256'', ''ServerCipherAES256Rate''),
      (''ssl.CiphersRate side=Server algorithm=40BitRC2'', ''Server40BitRC2CiphersRate''),
      (''ssl.CiphersRate side=Server algorithm=56BitRC2'', ''Server56BitRC2CiphersRate''),
      (''ssl.CiphersRate side=Server algorithm=128BitRC2'', ''Server128BitRC2CiphersRate''),
      (''ssl.CiphersRate side=Server algorithm=NULL'', ''ServerNULLCiphersRate''),
      (''ssl.CiphersRate side=Server algorithm=128BitIDEA'', ''Server128BitIDEACiphersRate''),
      (''ssl.MacRate side=Server algorithm=MD5'', ''ServerMD5MacRate''),
      (''ssl.MacRate side=Server algorithm=SHA'', ''ServerSHAMacRate''),
      (''ssl.HandshakesRate side=Server protocol=SSLv3'', ''ServerSSLv3HandshakesRate'')]"

definition ssl_server3 :: "(bytes \<times> bytes) list" where
  "ssl_server3 =
     [(''ssl.HandshakesRate side=Server protocol=TLSv1'', ''ServerTLSv1HandshakesRate''),
      (''ssl.HandshakesRate side=Server protocol=TLSv11'', ''ServerTLSv11HandshakesRate''),
      (''ssl.HandshakesRate side=Server protocol=TLSv12'', ''ServerTLSv12HandshakesRate''),
      (''ssl.AuthenticationsRate side=Server protocol=SSLv3'', ''ServerSSLv3ClientAuthenticationsRate''),
      (''ssl.AuthenticationsRate side=Server protocol=TLSv1'', ''ServerTLSv1ClientAuthenticationsRate''),
      (''ssl.AuthenticationsRate side=Server protocol=TLSv11'', ''ServerTLSv11ClientAuthenticationsRate''),
      (''ssl.AuthenticationsRate side=Server protocol=TLSv12'', ''ServerTLSv12ClientAuthenticationsRate''),
      (''ssl.AuthorizationsRate side=Server algorithm=RSA'', ''ServerRSAAuthorizationsRate''),
      (''ssl.AuthorizationsRate side=Server algorithm=DH'', ''ServerDHAuthorizationsRate''),
      (''ssl.AuthorizationsRate side=Server algorithm=DSS'', ''ServerDSSAuthorizationsRate''),
      (''ssl.AuthorizationsRate side=Server algorithm=NULL'', ''ServerNULLAuthorizationsRate''),
      (''ssl.MultiplexedSessionsRate side=Server'', ''ServerMultiplexedSessionsRate''),
      (''ssl.EncRate side=Server type=Hardware'', ''ServerHWEncBERate''),
      (''ssl.EncRate side=Server type=Software'', ''ServerSWEncBERate''),
      (''ssl.DecRate side=Server type=Hardware'', ''ServerHWDecBERate''),
      (''ssl.DecRate side=Server type=Software'', ''ServerSWDecBERate'')]"

definition ssl_gauges :: "(bytes \<times> bytes) list" where
  "ssl_gauges = ssl_global @ ssl_client1 @ ssl_client2 @ ssl_client3 @ ssl_server1 @ ssl_server2 @ ssl_server3"

definition ssl :: "gvalue \<Rightarrow> action list" where
  "ssl r = map (\<lambda>(series, f). Emit series (pass (sel (fld r ''SSL'') f))) ssl_gauges"

definition tcp_conn1 :: "(bytes \<times> bytes) list" where
  "tcp_conn1 =
     [(''protocol.tcp.ActiveServerConn'', ''ActiveServerConn''),
      (''protocol.tcp.ClientConnOpenedRate'', ''ClientConnOpenedRate''),
      (''protocol.tcp.CltFinRate'', ''CltFinRate''),
      (''protocol.tcp.CurClientConn'', ''CurClientConn''),
      (''protocol.tcp.CurClientConnClosing'', ''CurClientConnClosing''),
      (''protocol.tcp.CurClientConnEstablished'', ''CurClientConnEstablished''),
      (''protocol.tcp.CurClientConnOpening'', ''CurClientConnOpening''),
      (''protocol.tcp.CurServerConn'', ''CurServerConn''),
      (''protocol.tcp.CurServerConnClosing'', ''CurServerConnClosing''),
      (''protocol.tcp.CurServerConnEstablished'', ''CurServerConnEstablished''),
      (''protocol.tcp.CurServerConnOpening'', ''CurServerConnOpening''),
      (''protocol.tcp.FinWaitClosedRate'', ''FinWaitClosedRate''),
      (''protocol.tcp.PcbZombieCallRate'', ''PcbZombieCallRate''),
      (''protocol.tcp.RxBytesRate'', ''RxBytesRate''),
      (''protocol.tcp.RxPktsRate'', ''RxPktsRate''),
      (''protocol.tcp.ServerConnOpenedRate'', ''ServerConnOpenedRate''),
      (''protocol.tcp.SpareConn'', ''SpareConn''),
      (''protocol.tcp.SurgeQueueLen'', ''SurgeQueueLen'')]"

definition tcp_conn2 :: "(bytes \<times> bytes) list" where
  "tcp_conn2 =
     [(''protocol.tcp.SvrFinRate'', ''SvrFinRate''),
      (''protocol.tcp.SynFlushRate'', ''SynFlushRate''),
      (''protocol.tcp.SynHeldRate'', ''SynHeldRate''),
      (''protocol.tcp.SynProbeRate'', ''SynProbeRate''),
      (''protocol.tcp.SynRate'', ''SynRate''),
      (''protocol.tcp.TotServerConnOpened'', ''TotServerConnOpened''),
      (''protocol.tcp.TxBytesRate'', ''TxBytesRate''),
      (''protocol.tcp.TxPktsRate'', ''TxPktsRate''),
      (''protocol.tcp.WaitToDataRate'', ''WaitToDataRate''),
      (''protocol.tcp.WaitToSynRate'', ''WaitToSynRate''),
      (''protocol.tcp.ZombieActiveHalfCloseCltConnFlushedRate'', ''ZombieActiveHalfCloseCltConnFlushedRate''),
      (''protocol.tcp.ZombieActivehalfCloseSvrConnFlushedRate'', ''ZombieActivehalfCloseSvrConnFlushedRate''),
      (''protocol.tcp.ZombieCltConnFlushedRate'', ''ZombieCltConnFlushedRate''),
      (''protocol.tcp.ZombieHalfOpenCltConnFlushedRate'', ''ZombieHalfOpenCltConnFlushedRate''),
      (''protocol.tcp.ZombieHalfOpenSvrConnFlushedRate'', ''ZombieHalfOpenSvrConnFlushedRate''),
      (''protocol.tcp.ZombiePassiveHalfClosecltConnFlushedRate'', ''ZombiePassiveHalfClosecltConnFlushedRate''),
      (''protocol.tcp.ZombiePassivehalfCloseSrvConnFlushedRate'', ''ZombiePassivehalfCloseSrvConnFlushedRate''),
      (''protocol.tcp.ZombieSvrConnFlushedRate'', ''ZombieSvrConnFlushedRate'')]"

definition tcp_err1 :: "(bytes \<times> bytes) list" where
  "tcp_err1 =
     [(''protocol.tcp.errors type=AnyPortFailRate'', ''ErrAnyPortFailRate''),
      (''protocol.tcp.errors type=BadChecksumRate'', ''ErrBadChecksumRate''),
      (''protocol.tcp.errors type=BadstateConnRate'', ''ErrBadstateConnRate''),
      (''protocol.tcp.errors type=CipAllocRate'', ''ErrCipAllocRate''),
      (''protocol.tcp.errors type=CltHoleRate'', ''ErrCltHoleRate''),
      (''protocol.tcp.errors type=CltOutOfOrderRate'', ''ErrCltOutOfOrderRate''),
      (''protocol.tcp.errors type=CltRetrasmitRate'', ''ErrCltRetrasmitRate''),
      (''protocol.tcp.errors type=CookiePktMssRejectRate'', ''ErrCookiePktMssRejectRate''),
      (''protocol.tcp.errors type=CookiePktSeqDropRate'', ''ErrCookiePktSeqDropRate''),
      (''protocol.tcp.errors type=CookiePktSeqRejectRate'', ''ErrCookiePktSeqRejectRate''),
      (''protocol.tcp.errors type=CookiePktSigRejectRate'', ''ErrCookiePktSigRejectRate''),
      (''protocol.tcp.errors type=DataAfterFinRate'', ''ErrDataAfterFinRate''),
      (''protocol.tcp.errors type=FastRetransmissionsRate'', ''ErrFastRetransmissionsRate''),
      (''protocol.tcp.errors type=FifthRetransmissionsRate'', ''ErrFifthRetransmissionsRate''),
      (''protocol.tcp.errors type=FinGiveUpRate'', ''ErrFinGiveUpRate'')]"

definition tcp_err2 :: "(bytes \<times> bytes) list" where
  "tcp_err2 =
     [(''protocol.tcp.errors type=FinRetryRate'', ''ErrFinRetryRate''),
      (''protocol.tcp.errors type=FirstRetransmissionsRate'', ''ErrFirstRetransmissionsRate''),
      (''protocol.tcp.errors type=FourthRetransmissionsRate'', ''ErrFourthRetransmissionsRate''),
      (''protocol.tcp.errors type=FullRetrasmitRate'', ''ErrFullRetrasmitRate''),
      (''protocol.tcp.errors type=IpPortFailRate'', ''ErrIpPortFailRate''),
      (''protocol.tcp.errors type=OutOfWindowPktsRate'', ''ErrOutOfWindowPktsRate''),
      (''protocol.tcp.errors type=PartialRetrasmitRate'', ''ErrPartialRetrasmitRate''),
      (''protocol.tcp.errors type=RetransmitGiveUpRate'', ''ErrRetransmitGiveUpRate''),
      (''protocol.tcp.errors type=RetransmitRate'', ''ErrRetransmitRate''),
      (''protocol.tcp.errors type=RstInTimeWaitRate'', ''ErrRstInTimeWaitRate''),
      (''protocol.tcp.errors type=RstNonEstRate'', ''ErrRstNonEstRate''),
      (''protocol.tcp.errors type=RstOutOfWindowRate'', ''ErrRstOutOfWindowRate''),
      (''protocol.tcp.errors type=RstRate'', ''ErrRstRate''),
      (''protocol.tcp.errors type=RstThresholdRate'', ''ErrRstThresholdRate''),
      (''protocol.tcp.errors type=SecondRetransmissionsRate'', ''ErrSecondRetransmissionsRate'')]"

definition tcp_err3 :: "(bytes \<times> bytes) list" where
  "tcp_err3 =
     [(''protocol.tcp.errors type=SentRstRate'', ''ErrSentRstRate''),
      (''protocol.tcp.errors type=SeventhRetransmissionsRate'', ''ErrSeventhRetransmissionsRate''),
      (''protocol.tcp.errors type=SixthRetransmissionsRate'', ''ErrSixthRetransmissionsRate''),
      (''protocol.tcp.errors type=StrayPktRate'', ''ErrStrayPktRate''),
      (''protocol.tcp.errors type=SvrHoleRate'', ''ErrSvrHoleRate''),
      (''protocol.tcp.errors type=SvrOutOfOrderRate'', ''ErrSvrOutOfOrderRate''),
      (''protocol.tcp.errors type=SvrRetrasmitRate'', ''ErrSvrRetrasmitRate''),
      (''protocol.tcp.errors type=SynDroppedCongestionRate'', ''ErrSynDroppedCongestionRate''),
      (''protocol.tcp.errors type=SynGiveupRate'', ''ErrSynGiveupRate''),
      (''protocol.tcp.errors type=SynInSynrcvdRate'', ''ErrSynInSynrcvdRate''),
      (''protocol.tcp.errors type=SynRetryRate'', ''ErrSynRetryRate''),
      (''protocol.tcp.errors type=SynSentBadackRate'', ''ErrSynSentBadackRate''),
      (''protocol.tcp.errors type=SyninestRate'', ''ErrSyninestRate''),
      (''protocol.tcp.errors type=ThirdRetransmissionsRate'', ''ErrThirdRetransmissionsRate'')]"

definition tcp_gauges :: "(bytes \<times> bytes) list" where
  "tcp_gauges = tcp_conn1 @ tcp_conn2 @ tcp_err1 @ tcp_err2 @ tcp_err3"

definition protocolTCP :: "gvalue \<Rightarrow> action list" where
  "protocolTCP r = map (\<lambda>(series, f). Emit series (star (sel (fld r ''ProtocolTCP'') f))) tcp_gauges"

definition udp_gauges :: "(bytes \<times> bytes) list" where
  "udp_gauges =
     [(''protocol.udp.BadChecksum'', ''BadChecksum''),
      (''protocol.udp.CurRateThreshold'', ''CurRateThreshold''),
      (''protocol.udp.CurRateThresholdExceeds'', ''CurRateThresholdExceeds''),
      (''protocol.udp.RxBytesRate'', ''RxBytesRate''),
      (''protocol.udp.RxPktsRate'', ''RxPktsRate''),
      (''protocol.udp.TotUnknownSvcPkts'', ''TotUnknownSvcPkts''),
      (''protocol.udp.TxBytesRate'', ''TxBytesRate''),
      (''protocol.udp.TxPktsRate'', ''TxPktsRate'')]"

definition protocolUDP :: "gvalue \<Rightarrow> action list" where
  "protocolUDP r = map (\<lambda>(series, f). Emit series (star (sel (fld r ''ProtocolUDP'') f))) udp_gauges"

definition protocolHTTP :: "gvalue \<Rightarrow> action list" where
  "protocolHTTP r =
     (let x = fld r ''ProtocolHTTP'' in
      [Emit ''protocol.http.request.bytes'' (star (sel x ''HTTPTotRxRequestBytes'')),
       Emit ''protocol.http.request.errors type=HeaderTooLong'' (star (sel x ''HTTPErrIncompleteRequests'')),
       Emit ''protocol.http.request.received type=GET'' (star (sel x ''HTTPTotGets'')),
       Emit ''protocol.http.request.received type=Other'' (star (sel x ''HTTPTotOthers'')),
       Emit ''protocol.http.request.received type=POST'' (star (sel x ''HTTPTotPosts'')),
       Emit ''protocol.http.response.bytes'' (star (sel x ''HTTPTotTxResponseBytes'')),
       Emit ''protocol.http.response.errors type=5yz'' (star (sel x ''HTTPErrServerBusy'')),
       Emit ''protocol.http.response.errors type=HeaderTooLong'' (star (sel x ''HTTPErrIncompleteResponses'')),
       Emit ''protocol.http.response.sent'' (star (sel x ''HTTPTotResponses'')),
       Emit ''protocol.spdy.streams.total'' (pass (sel x ''SPDYTotStreams'')),
       Emit ''protocol.spdy.streams.byversion v=2'' (pass (sel x ''SPDYv2TotStreams'')),
       Emit ''protocol.spdy.streams.byversion v=3'' (pass (sel x ''SPDYv3TotStreams''))])"

text \<open>Arithmetic on \<^verbatim>\<open>float64\<close> and its conversion to \<^verbatim>\<open>int\<close>.\<close>

record f64_lib =
  f64_add :: "float64 \<Rightarrow> float64 \<Rightarrow> float64"
  f64_int :: "float64 \<Rightarrow> int"

definition int_of :: "f64_lib \<Rightarrow> gvalue option \<Rightarrow> emit_arg option" where
  "int_of F v = (case v of Some (VFloat64 f) \<Rightarrow> Some (AnyVal (GInt (f64_int F f))) | _ \<Rightarrow> None)"

definition ns :: "f64_lib \<Rightarrow> gvalue \<Rightarrow> action list" where
  "ns F r =
     (let x = fld r ''NS'' in
      [Emit ''cpu.percent type=Mgmt'' (int_of F (sel x ''MgmtCPUUsagePcnt'')),
       Emit ''cpu.percent type=Packet'' (int_of F (sel x ''PktCPUUsagePcnt'')),
       Emit ''memory.percent'' (star (sel x ''MemUsagePcnt''))])"

definition nic_gauges :: "(bytes \<times> bytes) list" where
  "nic_gauges =
     [(''nic.bytes direction=In'', ''TotRxBytes''),
      (''nic.bytes direction=Out'', ''TotTxBytes''),
      (''nic.errors direction=In type=Discard'', ''ErrIfInDiscards''),
      (''nic.errors direction=In type=Other'', ''ErrPktRx''),
      (''nic.errors direction=Out type=Discard'', ''NicErrIfOutDiscards''),
      (''nic.errors direction=Out type=Other'', ''ErrPktTx''),
      (''nic.packets direction=In'', ''TotRxPkts''),
      (''nic.packets direction=Out'', ''TotTxPkts'')]"

definition nic :: "gvalue \<Rightarrow> action list" where
  "nic r = concat (map (\<lambda>x.
     let post = '' interface='' @ Clean (text_of (sel x ''ID'')) in
     map (\<lambda>(series, f). Emit (series @ post) (star (sel x f))) nic_gauges) (elements (fld r ''Interface'')))"

definition filterPolicy :: "gvalue \<Rightarrow> action list" where
  "filterPolicy r = map (\<lambda>p.
     Emit (''filterpolicy.Hits'' @ '' name='' @ Clean (text_of (sel p ''Name''))) (star (sel p ''Hits'')))
     (elements (fld r ''FilterPolicy''))"

definition responderPolicy :: "gvalue \<Rightarrow> action list" where
  "responderPolicy r = concat (map (\<lambda>p.
     let post = '' name='' @ Clean (text_of (sel p ''Name'')) in
     [Eval_ok (sel p ''Name'' \<noteq> Some VNil),
      Emit (''responderpolicy.HitsRate'' @ post) (star (sel p ''HitsRate'')),
      Emit (''responderpolicy.UndefHitsRate'' @ post) (star (sel p ''UndefHitsRate''))])
     (elements (fld r ''ResponderPolicy'')))"

section \<open>One collection\<close>

text \<open>
  \<^verbatim>\<open>collect\<close> with the answer of the client, \<^const>\<open>None\<close> for an error: the points it sends.
  A panic of the collector is logged and ends it.
\<close>

definition collect :: "golib \<Rightarrow> point \<Rightarrow> time \<Rightarrow> gvalue option \<Rightarrow> (gvalue \<Rightarrow> action list) \<Rightarrow> point list" where
  "collect L pooled t resp c = (case resp of None \<Rightarrow> [] | Some r \<Rightarrow> fst (run_actions L pooled t (c r)))"

text \<open>\<^verbatim>\<open>encode\<close>: what is done to a point before it is written.\<close>

definition encode_point :: "bytes \<Rightarrow> point \<Rightarrow> point" where
  "encode_point host p = XAppendTags [''host'', Clean host] p"

section \<open>Running a collector\<close>

lemma run_actions_append:
  "run_actions L pooled t (as @ bs) =
     (case run_actions L pooled t as of
        (ps, True) \<Rightarrow> (case run_actions L pooled t bs of (qs, ok) \<Rightarrow> (ps @ qs, ok))
      | (ps, False) \<Rightarrow> (ps, False))"
  by (induction as rule: run_actions.induct) (auto split: option.splits prod.splits bool.splits)

text \<open>The value an argument of \<^verbatim>\<open>emit\<close> is reported with, if it is not refused.\<close>

definition emitted :: "golib \<Rightarrow> emit_arg \<Rightarrow> val option" where
  "emitted L a =
     (case emit_value a of
        Some (Some g) \<Rightarrow> (case validateValue L g of Inr v \<Rightarrow> Some v | Inl _ \<Rightarrow> None)
      | _ \<Rightarrow> None)"

definition accepted :: "golib \<Rightarrow> emit_arg \<Rightarrow> bool" where
  "accepted L a \<longleftrightarrow> emit_value a = Some None \<or> emitted L a \<noteq> None"

definition reports :: "time \<Rightarrow> bytes \<times> val \<Rightarrow> point \<Rightarrow> bool" where
  "reports t = (\<lambda>(s, v) p. point_of t (''netscaler.'' @ series_metric s) (series_tags s) v p)"

definition reported :: "golib \<Rightarrow> (bytes \<times> emit_arg) list \<Rightarrow> (bytes \<times> val) list" where
  "reported L xs = List.map_filter (\<lambda>(s, a). map_option (Pair s) (emitted L a)) xs"

lemma reported_simps [simp]:
  "reported L [] = []"
  "reported L ((s, a) # xs) = (case emitted L a of Some v \<Rightarrow> (s, v) # reported L xs | None \<Rightarrow> reported L xs)"
  by (simp_all add: reported_def map_filter_simps split: option.splits)

lemma plain_netscaler: "plain m \<Longrightarrow> plain (''netscaler.'' @ m)"
  by (simp add: plain_def text_byte_literals)

lemma newEmitter_plain:
  assumes "plain_series s" "t \<noteq> zeroTime" "emitted L a = Some v"
  shows "\<exists>p. newEmitter L pooled t s a = Some [p] \<and> reports t (s, v) p"
proof -
  obtain g where g: "emit_value a = Some (Some g)" "validateValue L g = Inr v"
    using assms(3) by (auto simp: emitted_def split: option.splits sum.splits)
  let ?m = "''netscaler.'' @ series_metric s"
  have s: "''netscaler.'' @ s = ?m @ render (series_tags s)"
    using plain_series_render [OF assms(1)] by simp
  have pl: "plain ?m" "plain_tags (series_tags s)"
    using assms(1) plain_netscaler by (auto simp: plain_series_def)
  obtain p where "NewPoint L pooled t g ?m (concat (map (\<lambda>(k, v). [k, v]) (series_tags s))) = Inr p"
      "point_of t ?m (series_tags s) v p"
    using NewPoint_plain [OF assms(2) pl _ _ g(2)] assms(1) by (auto simp: plain_series_def)
  then show ?thesis
    unfolding newEmitter_def g option.case s series_words_plain [OF pl] by (simp add: reports_def)
qed

text \<open>The actions that do not panic, and the emissions among them.\<close>

fun action_ok :: "golib \<Rightarrow> action \<Rightarrow> bool" where
  "action_ok L (Eval_ok b) = b"
| "action_ok L (Emit s arg) = (plain_series s \<and> (case arg of None \<Rightarrow> False | Some a \<Rightarrow> accepted L a))"

fun emissions :: "action list \<Rightarrow> (bytes \<times> emit_arg) list" where
  "emissions [] = []"
| "emissions (Emit s (Some a) # as) = (s, a) # emissions as"
| "emissions (_ # as) = emissions as"

lemma run_ok:
  "list_all (action_ok L) as \<Longrightarrow> t \<noteq> zeroTime \<Longrightarrow>
     \<exists>ps. run_actions L pooled t as = (ps, True) \<and> list_all2 (reports t) (reported L (emissions as)) ps"
proof (induction as rule: emissions.induct)
  case (2 s a as)
  then obtain ps where ps: "run_actions L pooled t as = (ps, True)" "list_all2 (reports t) (reported L (emissions as)) ps"
    by auto
  show ?case
  proof (cases "emitted L a")
    case None
    with 2 have "emit_value a = Some None" by (simp add: accepted_def)
    then have "newEmitter L pooled t s a = Some []" by (simp add: newEmitter_def)
    with None ps show ?thesis by simp
  next
    case (Some v)
    with newEmitter_plain [of s t L a v pooled] 2 ps show ?thesis by auto
  qed
qed simp_all

lemma run_accepted:
  assumes "list_all (\<lambda>(s, a). plain_series s \<and> accepted L a) xs" "t \<noteq> zeroTime"
  shows "\<exists>ps. run_actions L pooled t (map (\<lambda>(s, a). Emit s (Some a)) xs) = (ps, True) \<and>
    list_all2 (reports t) (reported L xs) ps"
proof -
  have "emissions (map (\<lambda>(s, a). Emit s (Some a)) xs) = xs" by (induction xs) auto
  moreover have "list_all (action_ok L) (map (\<lambda>(s, a). Emit s (Some a)) xs)"
    using assms(1) by (auto simp: list_all_iff)
  ultimately show ?thesis using run_ok [OF _ assms(2)] by metis
qed

section \<open>The SSL statistics\<close>

lemma ssl_global_plain: "list_all (\<lambda>(s, f). plain_parts (split_byte (CHR '' '') s)) ssl_global"
  by (simp add: ssl_global_def text_byte_literals)

lemma ssl_client1_plain: "list_all (\<lambda>(s, f). plain_parts (split_byte (CHR '' '') s)) ssl_client1"
  by (simp add: ssl_client1_def text_byte_literals)

lemma ssl_client2_plain: "list_all (\<lambda>(s, f). plain_parts (split_byte (CHR '' '') s)) ssl_client2"
  by (simp add: ssl_client2_def text_byte_literals)

lemma ssl_client3_plain: "list_all (\<lambda>(s, f). plain_parts (split_byte (CHR '' '') s)) ssl_client3"
  by (simp add: ssl_client3_def text_byte_literals)

lemma ssl_server1_plain: "list_all (\<lambda>(s, f). plain_parts (split_byte (CHR '' '') s)) ssl_server1"
  by (simp add: ssl_server1_def text_byte_literals)

lemma ssl_server2_plain: "list_all (\<lambda>(s, f). plain_parts (split_byte (CHR '' '') s)) ssl_server2"
  by (simp add: ssl_server2_def text_byte_literals)

lemma ssl_server3_plain: "list_all (\<lambda>(s, f). plain_parts (split_byte (CHR '' '') s)) ssl_server3"
  by (simp add: ssl_server3_def text_byte_literals)

lemma ssl_fields_order:
  "map snd ssl_global = map f_name SSL_global"
  "map snd ssl_client1 = map f_name SSL_client1"
  "map snd ssl_client2 = map f_name SSL_client2"
  "map snd ssl_client3 = map f_name SSL_client3"
  "map snd ssl_server1 = map f_name SSL_server1"
  "map snd ssl_server2 = map f_name SSL_server2"
  "map snd ssl_server3 = map f_name SSL_server3"
  by (simp_all add: ssl_global_def SSL_global_def ssl_client1_def SSL_client1_def ssl_client2_def SSL_client2_def ssl_client3_def SSL_client3_def ssl_server1_def SSL_server1_def ssl_server2_def SSL_server2_def ssl_server3_def SSL_server3_def field_kinds)

lemma ssl_gauges_plain: "(s, f) \<in> set ssl_gauges \<Longrightarrow> plain_series s"
proof -
  have "list_all (\<lambda>(s, f). plain_parts (split_byte (CHR '' '') s)) ssl_gauges"
    by (simp add: ssl_gauges_def ssl_global_plain ssl_client1_plain ssl_client2_plain ssl_client3_plain ssl_server1_plain ssl_server2_plain ssl_server3_plain)
  moreover assume "(s, f) \<in> set ssl_gauges"
  ultimately show ?thesis by (auto simp: list_all_iff intro: plain_parts_series)
qed

lemma ssl_gauges_fields: "map snd ssl_gauges = map f_name SSL_fields"
  by (simp add: ssl_gauges_def SSL_fields_def ssl_fields_order)

text \<open>What decoding leaves in the SSL struct: gauges that are nil or a number, two of them nil.\<close>

definition ssl_slot :: "bytes \<Rightarrow> gvalue \<Rightarrow> bool" where
  "ssl_slot n v \<longleftrightarrow> v = VNil \<or> n \<noteq> ''ServerTLSv11SessionsRate'' \<and> n \<noteq> ''ServerTLSv12SessionsRate'' \<and> (\<exists>x. v = VFloat64 x)"

definition ssl_struct :: "gvalue \<Rightarrow> bool" where
  "ssl_struct v \<longleftrightarrow> (\<exists>vs. v = VStruct vs \<and> (\<forall>n \<in> f_name ` set SSL_fields. \<exists>w. map_of vs n = Some w \<and> ssl_slot n w))"

lemma ssl_struct_zero: "ssl_struct (zero_value (TStruct SSL_fields))"
proof -
  have "map_of (map (\<lambda>f. (f_name f, zero_value (f_type f))) fs) (f_name f) = Some VNil"
    if "\<forall>f \<in> set fs. f_type f = TPtr TFloat64" "f \<in> set fs" for f fs
    using that by (induction fs) auto
  then show ?thesis using SSL_field by (fastforce simp: ssl_struct_def ssl_slot_def ssl_field_def)
qed

lemma unmarshal_float:
  "unmarshal L (TPtr TFloat64) False j old = Inr v \<Longrightarrow> old = VNil \<or> (\<exists>x. old = VFloat64 x) \<Longrightarrow> v = VNil \<or> (\<exists>x. v = VFloat64 x)"
  by (auto simp: unmarshal.simps unmarshal_number_def number_def split: if_splits jval.splits option.splits)

lemma ssl_struct_fields:
  assumes "unmarshal_fields L SSL_fields kvs vs = Inr vs'" "ssl_struct (VStruct vs)"
  shows "ssl_struct (VStruct vs')"
proof -
  have "\<exists>w. map_of vs' (f_name f) = Some w \<and> ssl_slot (f_name f) w" if f: "f \<in> set SSL_fields" for f
  proof -
    obtain w where w: "map_of vs (f_name f) = Some w" "ssl_slot (f_name f) w"
      using assms(2) f by (auto simp: ssl_struct_def)
    show ?thesis
    proof (rule unmarshal_fields_inv [where Q = "ssl_slot (f_name f)", OF assms(1) _ w])
      fix g j old v
      assume g: "g \<in> set (visible SSL_fields)" "f_name g = f_name f" "ssl_slot (f_name f) old"
        "unmarshal L (f_type g) (f_quoted g) j old = Inr v"
      then have "ssl_field g" "\<not> doubled g" using SSL_visible SSL_field by auto
      with g unmarshal_float [of L j old v] show "ssl_slot (f_name f) v"
        by (auto simp: ssl_slot_def ssl_field_def doubled_def)
    qed
  qed
  then show ?thesis by (auto simp: ssl_struct_def)
qed

lemma ssl_struct_unmarshal:
  assumes "unmarshal L (TPtr (TStruct SSL_fields)) False j old = Inr v" "old = VNil \<or> ssl_struct old"
  shows "v = VNil \<or> ssl_struct v"
proof (cases "j = JNull")
  case False
  let ?old = "if old = VNil then zero_value (TStruct SSL_fields) else old"
  have "ssl_struct ?old" using assms(2) ssl_struct_zero by auto
  then obtain us where us: "?old = VStruct us" "ssl_struct (VStruct us)" by (auto simp: ssl_struct_def)
  from assms(1) False obtain kvs vs where "unmarshal_fields L SSL_fields kvs us = Inr vs" "v = VStruct vs"
    using us(1) by (auto simp: unmarshal.simps rbind_eq_Inr split: jval.splits)
  with ssl_struct_fields us(2) show ?thesis by blast
qed (use assms in \<open>simp add: unmarshal.simps\<close>)

lemma response_ssl:
  assumes "unmarshal L ResponseStat False doc (zero_value ResponseStat) = Inr r" "sel r ''SSL'' = Some x"
  shows "x = VNil \<or> ssl_struct x"
proof -
  have zero: "zero_value ResponseStat = VStruct zs \<Longrightarrow> map_of zs ''SSL'' = Some VNil" for zs
    by (auto simp: ResponseStat_def)
  obtain fs where fs: "ResponseStat = TStruct fs" "\<forall>f \<in> set fs. f_name f = ''SSL'' \<longrightarrow> f = Field ''SSL'' None False (TPtr (TStruct SSL_fields))"
    by (simp add: ResponseStat_def)
  obtain zs where zs: "zero_value ResponseStat = VStruct zs" by (simp add: ResponseStat_def)
  from assms(1) consider "r = VStruct zs" | kvs vs where "unmarshal_fields L fs kvs zs = Inr vs" "r = VStruct vs"
    unfolding zs unfolding fs(1) by (auto simp: unmarshal.simps rbind_eq_Inr split: jval.splits)
  then show ?thesis
  proof cases
    case 1
    with assms(2) zero [OF zs] show ?thesis by simp
  next
    case (2 kvs vs)
    have "\<exists>w. map_of vs ''SSL'' = Some w \<and> (w = VNil \<or> ssl_struct w)"
    proof (rule unmarshal_fields_inv [where Q = "\<lambda>w. w = VNil \<or> ssl_struct w", OF 2(1) _ zero [OF zs]])
      fix f j old v
      assume f: "f \<in> set (visible fs)" "f_name f = ''SSL''" "old = VNil \<or> ssl_struct old"
        "unmarshal L (f_type f) (f_quoted f) j old = Inr v"
      then have "f = Field ''SSL'' None False (TPtr (TStruct SSL_fields))" using fs(2) visible_subset by blast
      with f ssl_struct_unmarshal show "v = VNil \<or> ssl_struct v" by auto
    qed simp
    with assms(2) 2(2) show ?thesis by auto
  qed
qed

text \<open>
  When a response has SSL statistics whose numbers fit the data points, the SSL collector
  ends without a panic and sends one point for each gauge the response holds a number for, in
  the order of the source, with the metric, the tags and the value of the gauge. It never sends
  the session rates of the server side for TLS 1.1 and 1.2, whatever the response holds: their
  two fields have the same tag, so the decoder sets neither.
\<close>

theorem ssl_collected:
  assumes "unmarshal L ResponseStat False doc (zero_value ResponseStat) = Inr r" "sel r ''SSL'' = Some (VStruct vs)"
    and "\<forall>(n, v) \<in> set vs. \<forall>x. v = VFloat64 x \<longrightarrow> isOk (validateValue L (GFloat64 x))" "t \<noteq> zeroTime"
  shows "\<exists>ps. run_actions L pooled t (ssl r) = (ps, True) \<and>
    list_all2 (reports t) (reported L (map (\<lambda>(s, f). (s, the (pass (map_of vs f)))) ssl_gauges)) ps \<and>
    (\<forall>(s, f) \<in> set ssl_gauges. f \<in> {''ServerTLSv11SessionsRate'', ''ServerTLSv12SessionsRate''} \<longrightarrow>
       emitted L (the (pass (map_of vs f))) = None)"
proof -
  have slot: "\<exists>w. map_of vs f = Some w \<and> ssl_slot f w" if "(s, f) \<in> set ssl_gauges" for s f
  proof -
    have "f \<in> f_name ` set SSL_fields"
      using that ssl_gauges_fields by (metis list.set_map snd_conv rev_image_eqI)
    with response_ssl [OF assms(1,2)] show ?thesis by (auto simp: ssl_struct_def)
  qed
  let ?arg = "\<lambda>f. the (pass (map_of vs f))"
  have some: "pass (map_of vs f) = Some (?arg f)" "accepted L (?arg f)" if "(s, f) \<in> set ssl_gauges" for s f
  proof -
    from slot [OF that] obtain w where w: "map_of vs f = Some w" "ssl_slot f w" by blast
    then show "pass (map_of vs f) = Some (?arg f)" by (auto simp: pass_def ssl_slot_def)
    from w(1) have "(f, w) \<in> set vs" by (rule map_of_SomeD)
    with w assms(3) show "accepted L (?arg f)"
      by (fastforce simp: pass_def ssl_slot_def accepted_def emitted_def isOk_def split: sum.splits)
  qed
  have "fld r ''SSL'' = VStruct vs" using assms(2) by (simp add: fld_def)
  then have "ssl r = map (\<lambda>(s, a). Emit s (Some a)) (map (\<lambda>(s, f). (s, ?arg f)) ssl_gauges)"
    using some(1) by (auto simp: ssl_def)
  moreover have "list_all (\<lambda>(s, a). plain_series s \<and> accepted L a) (map (\<lambda>(s, f). (s, ?arg f)) ssl_gauges)"
    using some(2) ssl_gauges_plain by (auto simp: list_all_iff)
  ultimately obtain ps where "run_actions L pooled t (ssl r) = (ps, True)"
      "list_all2 (reports t) (reported L (map (\<lambda>(s, f). (s, ?arg f)) ssl_gauges)) ps"
    using run_accepted [OF _ assms(4)] by metis
  moreover have "\<forall>(s, f) \<in> set ssl_gauges. f \<in> {''ServerTLSv11SessionsRate'', ''ServerTLSv12SessionsRate''} \<longrightarrow> emitted L (?arg f) = None"
    using slot by (fastforce simp: ssl_slot_def pass_def emitted_def)
  ultimately show ?thesis by blast
qed

text \<open>A field that is set by the key of its tag.\<close>

lemma ssl_decoded:
  assumes "f \<in> set SSL_fields" "\<not> doubled f" "f_name f \<in> fst ` set vs"
    and "unmarshal_fields L SSL_fields (pre @ (json_name f, JNum s) # post) vs = Inr vs'"
    and "\<forall>k \<in> fst ` set post. \<forall>g. find_field SSL_fields k = Some g \<longrightarrow> f_name g \<noteq> f_name f"
  shows "\<exists>x. lib_ParseFloat L s = Some x \<and> map_of vs' (f_name f) = Some (VFloat64 x)"
proof -
  have "find_field SSL_fields (json_name f) = Some f"
    using assms(1,2) by (intro find_field_exact) (simp add: SSL_visible)
  from unmarshal_fields_last [OF assms(4) this assms(5,3)] SSL_field [OF assms(1)] show ?thesis
    by (auto simp: ssl_field_def unmarshal.simps unmarshal_number_def number_def split: option.splits)
qed

definition zero_lib :: golib where
  "zero_lib = latin1_lib\<lparr>lib_ParseFloat := \<lambda>_. Some 0\<rparr>"

end
