(* ===== verification/Vservers.thy ===== *)
theory Vservers
  imports Netscaler "HOL-Library.Multiset"
begin

text \<open>
  The collectors of virtual servers and of the services bound to them:
  \<^verbatim>\<open>contrib/collect-netscaler/collect/lbvserver.go\<close> with the log of active servers, and
  \<^verbatim>\<open>service.go\<close> up to the poller of the bindings, which is in \<^verbatim>\<open>Bindings\<close>.

  The clock is read once per collection. The maps of Go that a collector walks are visited in
  any order, given by a function \<open>visit\<close>.

  What is proved: the log calls a server active exactly if its packet counter changed within
  the last day; the lookup of services finds those the response holds once; the totals of a
  virtual server are the sums over its services; and a binding to a service the response does
  not hold once makes the collector panic.
\<close>

section \<open>The log of active servers\<close>

record lbvserverStatus =
  ls_seen :: time
  ls_totalPktsSent :: "64 word"

type_synonym lbvserverLog = "bytes \<rightharpoonup> lbvserverStatus"

definition newLBVServerLog :: lbvserverLog where "newLBVServerLog = Map.empty"

definition name_of :: "gvalue \<Rightarrow> bytes" where "name_of v = text_of (sel v ''Name'')"

text \<open>\<^const>\<open>None\<close> is the panic on a server without a packet counter.\<close>

definition merge_vs :: "time \<Rightarrow> gvalue \<Rightarrow> lbvserverLog \<Rightarrow> lbvserverLog option" where
  "merge_vs now vs l =
     (case sel vs ''TotalPktsSent'' of
        Some (VUint64 tps) \<Rightarrow>
          (case l (name_of vs) of
             None \<Rightarrow> Some (l(name_of vs \<mapsto> \<lparr>ls_seen = zeroTime, ls_totalPktsSent = tps\<rparr>))
           | Some status \<Rightarrow>
               Some (if tps \<noteq> ls_totalPktsSent status
                     then l(name_of vs \<mapsto> \<lparr>ls_seen = now, ls_totalPktsSent = tps\<rparr>) else l))
      | _ \<Rightarrow> None)"

fun Snapshot :: "time \<Rightarrow> gvalue list \<Rightarrow> lbvserverLog \<Rightarrow> lbvserverLog \<times> bool" where
  "Snapshot now [] l = (l, True)"
| "Snapshot now (vs # all) l =
     (case merge_vs now vs l of None \<Rightarrow> (l, False) | Some l \<Rightarrow> Snapshot now all l)"

definition RecentlyActive :: "time \<Rightarrow> lbvserverLog \<Rightarrow> bytes \<Rightarrow> bool" where
  "RecentlyActive now l name =
     (case l name of None \<Rightarrow> False | Some status \<Rightarrow> Sub now (ls_seen status) < 24 * hour)"

section \<open>The collector of virtual servers\<close>

definition dashed :: "bytes \<Rightarrow> bytes" where
  "dashed s = map (\<lambda>c. if c = CHR ''.'' then CHR ''-'' else c) s"

definition state_up :: "gvalue \<Rightarrow> emit_arg" where
  "state_up v = AnyVal (GInt (if text_of (sel v ''State'') = ''UP'' then 1 else 0))"

definition lbvserver_emits :: "gvalue \<Rightarrow> action list" where
  "lbvserver_emits vs =
     (let pre = ''vserver.''; post = '' vserver='' @ Clean (dashed (name_of vs)) in
      [Emit (pre @ ''CurClntConnections'' @ post) (star (sel vs ''CurClntConnections'')),
       Emit (pre @ ''CurSrvrConnections'' @ post) (star (sel vs ''CurSrvrConnections'')),
       Emit (pre @ ''Health'' @ post) (star (sel vs ''Health'')),
       Emit (pre @ ''RequestBytesRate'' @ post) (star (sel vs ''RequestBytesRate'')),
       Emit (pre @ ''ResponseBytesRate'' @ post) (star (sel vs ''ResponseBytesRate'')),
       Emit (pre @ ''SpilloverThreshold'' @ post) (star (sel vs ''SpilloverThreshold'')),
       Emit (pre @ ''Spillovers'' @ post) (star (sel vs ''Spillovers'')),
       Emit (pre @ ''StateUp'' @ post) (Some (state_up vs))] @
      (if text_of (sel vs ''Type'') = ''HTTP'' then
         [Emit (pre @ ''RequestsRate'' @ post) (star (sel vs ''RequestsRate'')),
          Emit (pre @ ''ResponsesRate'' @ post) (star (sel vs ''ResponsesRate''))]
       else []))"

definition lbvserver :: "time \<Rightarrow> gvalue \<Rightarrow> lbvserverLog \<Rightarrow> lbvserverLog \<times> action list" where
  "lbvserver now r l =
     (let all = elements (fld r ''LBVServer''); (l, ok) = Snapshot now all l in
      (l, Eval_ok ok # concat (map lbvserver_emits (filter (\<lambda>vs. RecentlyActive now l (name_of vs)) all))))"

section \<open>The services of a virtual server\<close>

fun serviceMap_loop :: "gvalue list \<Rightarrow> bytes set \<Rightarrow> (bytes \<rightharpoonup> gvalue) \<Rightarrow> (bytes \<rightharpoonup> gvalue)" where
  "serviceMap_loop [] clash m = m"
| "serviceMap_loop (s # services) clash m =
     (if name_of s \<in> clash then serviceMap_loop services clash m
      else if m (name_of s) \<noteq> None then
        serviceMap_loop services (insert (name_of s) clash) (m(name_of s := None))
      else serviceMap_loop services clash (m(name_of s \<mapsto> s)))"

definition serviceMap :: "gvalue list \<Rightarrow> (bytes \<rightharpoonup> gvalue)" where
  "serviceMap services = serviceMap_loop services {} Map.empty"

text \<open>A name the lookup does not hold yields a service without any statistics.\<close>

definition byVServer :: "(bytes \<Rightarrow> bool) \<Rightarrow> (bytes \<times> bytes list) list \<Rightarrow> gvalue list \<Rightarrow> (bytes \<times> gvalue list) list" where
  "byVServer active bindings all =
     (let lookup = (\<lambda>name. case serviceMap all name of Some s \<Rightarrow> s | None \<Rightarrow> zero_value (TStruct Service_fields)) in
      map (\<lambda>(vserver, services). (vserver, map lookup services))
        (filter (\<lambda>(vserver, services). active vserver \<and> services \<noteq> []) bindings))"

section \<open>The collector of services\<close>

record service_total =
  tt_ActiveConn :: "64 word"
  tt_ActiveTransactions :: "64 word"
  tt_CurClntConnections :: "64 word"
  tt_CurReusePool :: "64 word"
  tt_CurSrvrConnections :: "64 word"
  tt_RequestBytesRate :: float64
  tt_RequestsRate :: float64
  tt_ResponseBytesRate :: float64
  tt_ResponsesRate :: float64
  tt_StateUp :: int
  tt_SurgeCount :: "64 word"
  tt_SvrEstablishedConn :: "64 word"
  tt_SvrNotEstablishedConn :: "64 word"

definition zero_total :: service_total where
  "zero_total = \<lparr>tt_ActiveConn = 0, tt_ActiveTransactions = 0, tt_CurClntConnections = 0, tt_CurReusePool = 0,
     tt_CurSrvrConnections = 0, tt_RequestBytesRate = 0, tt_RequestsRate = 0, tt_ResponseBytesRate = 0,
     tt_ResponsesRate = 0, tt_StateUp = 0, tt_SurgeCount = 0, tt_SvrEstablishedConn = 0, tt_SvrNotEstablishedConn = 0\<rparr>"

text \<open>\<^verbatim>\<open>*svc.F\<close> once it is known not to be nil, and whether it is.\<close>

definition u64 :: "gvalue \<Rightarrow> bytes \<Rightarrow> 64 word" where
  "u64 v f = (case sel v f of Some (VUint64 n) \<Rightarrow> n | _ \<Rightarrow> 0)"

definition f64 :: "gvalue \<Rightarrow> bytes \<Rightarrow> float64" where
  "f64 v f = (case sel v f of Some (VFloat64 x) \<Rightarrow> x | _ \<Rightarrow> 0)"

definition not_nil :: "gvalue \<Rightarrow> bytes \<Rightarrow> bool" where
  "not_nil v f = (case sel v f of None \<Rightarrow> False | Some w \<Rightarrow> w \<noteq> VNil)"

definition is_http :: "gvalue \<Rightarrow> bool" where
  "is_http svc \<longleftrightarrow> text_of (sel svc ''ServiceType'') = ''HTTP''"

definition svrNotEstablishedConn :: "gvalue \<Rightarrow> 64 word" where
  "svrNotEstablishedConn svc = u64 svc ''CurSrvrConnections'' - u64 svc ''SvrEstablishedConn''"

definition activeConn :: "gvalue \<Rightarrow> 64 word" where
  "activeConn svc = u64 svc ''SvrEstablishedConn'' - u64 svc ''CurReusePool''"

text \<open>\<^verbatim>\<open>pre + f + post\<close>\<close>

definition svc_series :: "bytes \<Rightarrow> gvalue \<Rightarrow> bytes \<Rightarrow> bytes" where
  "svc_series vserver svc f = ''service.'' @ Clean vserver @ ''.'' @ f @ '' service='' @ Clean (name_of svc)"

definition service_emits :: "bytes \<Rightarrow> gvalue \<Rightarrow> action list" where
  "service_emits vserver svc =
     (let num = (\<lambda>f. Emit (svc_series vserver svc f) (star (sel svc f)));
          uint64 = (\<lambda>f n. Emit (svc_series vserver svc f) (Some (AnyVal (GUint64 (uint n))))) in
      [Eval_ok (not_nil svc ''CurSrvrConnections'' \<and> not_nil svc ''SvrEstablishedConn''),
       num ''CurClntConnections'', num ''CurSrvrConnections'', num ''MaxClients'',
       num ''RequestBytesRate'', num ''ResponseBytesRate'',
       Emit (svc_series vserver svc ''StateUp'') (Some (state_up svc)),
       num ''SurgeCount'', num ''SvrEstablishedConn'',
       uint64 ''SvrNotEstablishedConn'' (svrNotEstablishedConn svc)] @
      (if is_http svc then
         [Eval_ok (not_nil svc ''CurReusePool''),
          uint64 ''ActiveConn'' (activeConn svc),
          num ''ActiveTransactions'', num ''AvgSvrTTFB'', num ''CurReusePool'', num ''RequestsRate'', num ''ResponsesRate'']
       else []))"

definition add_total :: "f64_lib \<Rightarrow> gvalue \<Rightarrow> service_total \<Rightarrow> service_total" where
  "add_total F svc t =
     (let t = t\<lparr>tt_CurClntConnections := tt_CurClntConnections t + u64 svc ''CurClntConnections'',
                tt_CurSrvrConnections := tt_CurSrvrConnections t + u64 svc ''CurSrvrConnections'',
                tt_RequestBytesRate := f64_add F (tt_RequestBytesRate t) (f64 svc ''RequestBytesRate''),
                tt_ResponseBytesRate := f64_add F (tt_ResponseBytesRate t) (f64 svc ''ResponseBytesRate''),
                tt_StateUp := tt_StateUp t + (if text_of (sel svc ''State'') = ''UP'' then 1 else 0),
                tt_SurgeCount := tt_SurgeCount t + u64 svc ''SurgeCount'',
                tt_SvrEstablishedConn := tt_SvrEstablishedConn t + u64 svc ''SvrEstablishedConn'',
                tt_SvrNotEstablishedConn := tt_SvrNotEstablishedConn t + svrNotEstablishedConn svc\<rparr> in
      if is_http svc then
        t\<lparr>tt_ActiveConn := tt_ActiveConn t + activeConn svc,
          tt_ActiveTransactions := tt_ActiveTransactions t + u64 svc ''ActiveTransactions'',
          tt_CurReusePool := tt_CurReusePool t + u64 svc ''CurReusePool'',
          tt_RequestsRate := f64_add F (tt_RequestsRate t) (f64 svc ''RequestsRate''),
          tt_ResponsesRate := f64_add F (tt_ResponsesRate t) (f64 svc ''ResponsesRate'')\<rparr>
      else t)"

definition total_series :: "bytes \<Rightarrow> bytes \<Rightarrow> bytes" where
  "total_series vserver f = ''total.service.'' @ f @ '' vserver='' @ Clean vserver"

definition total_gauges :: "bytes \<Rightarrow> bool \<Rightarrow> service_total \<Rightarrow> (bytes \<times> emit_arg) list" where
  "total_gauges vserver http t =
     (let n = (\<lambda>f v. (total_series vserver f, AnyVal (GUint64 (uint v))));
          x = (\<lambda>f v. (total_series vserver f, AnyVal (GFloat64 v))) in
      [n ''CurClntConnections'' (tt_CurClntConnections t),
       n ''CurSrvrConnections'' (tt_CurSrvrConnections t),
       x ''RequestBytesRate'' (tt_RequestBytesRate t),
       x ''ResponseBytesRate'' (tt_ResponseBytesRate t),
       (total_series vserver ''StateUp'', AnyVal (GInt (tt_StateUp t))),
       n ''SurgeCount'' (tt_SurgeCount t),
       n ''SvrEstablishedConn'' (tt_SvrEstablishedConn t),
       n ''SvrNotEstablishedConn'' (tt_SvrNotEstablishedConn t)] @
      (if http then
         [n ''ActiveConn'' (tt_ActiveConn t),
          n ''ActiveTransactions'' (tt_ActiveTransactions t),
          n ''CurReusePool'' (tt_CurReusePool t),
          x ''RequestsRate'' (tt_RequestsRate t),
          x ''ResponsesRate'' (tt_ResponsesRate t)]
       else []))"

definition vserver_actions :: "f64_lib \<Rightarrow> bytes \<times> gvalue list \<Rightarrow> action list" where
  "vserver_actions F = (\<lambda>(vserver, services).
     let vserver = dashed vserver; total = fold (add_total F) services zero_total in
     concat (map (service_emits vserver) services) @
     map (\<lambda>(series, v). Emit series (Some v))
       (total_gauges vserver (services \<noteq> [] \<and> is_http (hd services)) total))"

definition service ::
  "f64_lib \<Rightarrow> (bytes \<Rightarrow> bool) \<Rightarrow> (bytes \<times> bytes list) list \<Rightarrow>
   ((bytes \<times> gvalue list) list \<Rightarrow> (bytes \<times> gvalue list) list) \<Rightarrow> gvalue \<Rightarrow> action list" where
  "service F active bindings visit r =
     concat (map (vserver_actions F) (visit (byVServer active bindings (elements (fld r ''Service'')))))"

section \<open>When a server is active\<close>

text \<open>The packet counters of a server in the responses, with the time of each, and when they changed.\<close>

definition observed :: "bytes \<Rightarrow> (time \<times> gvalue list) list \<Rightarrow> (time \<times> 64 word) list" where
  "observed name rs = concat (map (\<lambda>(now, all).
     map (\<lambda>vs. (now, u64 vs ''TotalPktsSent'')) (filter (\<lambda>vs. name_of vs = name) all)) rs)"

fun changes :: "(time \<times> 64 word) list \<Rightarrow> time list" where
  "changes ((t, a) # (u, b) # xs) = (if a \<noteq> b then [u] else []) @ changes ((u, b) # xs)"
| "changes _ = []"

definition counted :: "gvalue \<Rightarrow> bool" where
  "counted vs = (case sel vs ''TotalPktsSent'' of Some (VUint64 _) \<Rightarrow> True | _ \<Rightarrow> False)"

definition snapshots :: "(time \<times> gvalue list) list \<Rightarrow> lbvserverLog \<Rightarrow> lbvserverLog" where
  "snapshots rs l = fold (\<lambda>(now, all) l. fst (Snapshot now all l)) rs l"

definition logged :: "lbvserverLog \<Rightarrow> bytes \<Rightarrow> (time \<times> 64 word) list \<Rightarrow> bool" where
  "logged l name xs \<longleftrightarrow>
     l name = (if xs = [] then None
       else Some \<lparr>ls_seen = (if changes xs = [] then zeroTime else last (changes xs)), ls_totalPktsSent = snd (last xs)\<rparr>)"

lemma changes_snoc:
  "xs \<noteq> [] \<Longrightarrow> changes (xs @ [(t, a)]) = changes xs @ (if snd (last xs) \<noteq> a then [t] else [])"
  by (induction xs rule: changes.induct) auto

lemma merge_logged:
  assumes "counted vs" "logged l name xs"
  shows "\<exists>l'. merge_vs now vs l = Some l' \<and>
    logged l' name (if name_of vs = name then xs @ [(now, u64 vs ''TotalPktsSent'')] else xs)"
  using assms
  by (cases "xs = []")
    (auto simp: merge_vs_def counted_def logged_def u64_def changes_snoc split: option.splits gvalue.splits)

lemma Snapshot_logged:
  "list_all counted all \<Longrightarrow> logged l name xs \<Longrightarrow> \<exists>l'. Snapshot now all l = (l', True) \<and>
     logged l' name (xs @ map (\<lambda>vs. (now, u64 vs ''TotalPktsSent'')) (filter (\<lambda>vs. name_of vs = name) all))"
proof (induction all arbitrary: l xs)
  case (Cons vs all)
  then obtain l' where "merge_vs now vs l = Some l'"
      "logged l' name (if name_of vs = name then xs @ [(now, u64 vs ''TotalPktsSent'')] else xs)"
    using merge_logged [of vs l name xs now] by auto
  with Cons.IH [OF _ this(2)] Cons.prems(1) show ?case by (cases "name_of vs = name") auto
qed simp

lemma snapshots_logged:
  "\<forall>(now, all) \<in> set rs. list_all counted all \<Longrightarrow> logged l name xs \<Longrightarrow> logged (snapshots rs l) name (xs @ observed name rs)"
proof (induction rs arbitrary: l xs)
  case (Cons r rs)
  obtain now all where r: "r = (now, all)" by (cases r)
  with Cons.prems obtain l' where "Snapshot now all l = (l', True)"
      "logged l' name (xs @ map (\<lambda>vs. (now, u64 vs ''TotalPktsSent'')) (filter (\<lambda>vs. name_of vs = name) all))"
    using Snapshot_logged by fastforce
  with Cons.IH [OF _ this(2)] Cons.prems(1) r show ?case by (simp add: snapshots_def observed_def)
qed (simp add: snapshots_def observed_def)

text \<open>
  A virtual server is collected exactly if its packet counter differed from the one in the
  response before it at a time less than a day ago. This holds after any sequence of responses
  that all hold the counters, since the start; a server that was seen once is not active.
\<close>

theorem active_iff_changed:
  assumes "\<forall>(now, all) \<in> set rs. list_all counted all" "0 \<le> now"
  shows "RecentlyActive now (snapshots rs newLBVServerLog) name \<longleftrightarrow>
    changes (observed name rs) \<noteq> [] \<and> Sub now (last (changes (observed name rs))) < 24 * hour"
proof -
  have "logged newLBVServerLog name []" by (simp add: logged_def newLBVServerLog_def)
  from snapshots_logged [OF assms(1) this] have "logged (snapshots rs newLBVServerLog) name (observed name rs)" by simp
  moreover have "\<not> Sub now zeroTime < 24 * hour"
    using assms(2) by (simp add: Sub_def zeroTime_def hour_def minute_def second_def minInt64_def maxInt64_def)
  ultimately show ?thesis by (auto simp: RecentlyActive_def logged_def)
qed

definition example_vs :: "64 word \<Rightarrow> gvalue" where
  "example_vs n = VStruct [(''Name'', VString ''a''), (''TotalPktsSent'', VUint64 n)]"

section \<open>Looking up services\<close>

definition once :: "gvalue list \<Rightarrow> bytes \<Rightarrow> gvalue option" where
  "once services n = (case filter (\<lambda>s. name_of s = n) services of [s] \<Rightarrow> Some s | _ \<Rightarrow> None)"

lemma serviceMap_loop_once:
  "(\<forall>n. m n = once seen n) \<Longrightarrow> clash = {n. 2 \<le> length (filter (\<lambda>s. name_of s = n) seen)} \<Longrightarrow>
     serviceMap_loop services clash m n = once (seen @ services) n"
proof (induction services arbitrary: clash m seen)
  case (Cons s services)
  let ?c = "length (filter (\<lambda>x. name_of x = name_of s) seen)"
  have one: "m (name_of s) \<noteq> None \<longleftrightarrow> ?c = 1"
    using Cons.prems(1) by (auto simp: once_def length_Suc_conv split: list.splits)
  consider "2 \<le> ?c" | "?c = 1" | "?c = 0" by linarith
  then show ?case
  proof cases
    case 1
    then obtain a b bs where "filter (\<lambda>x. name_of x = name_of s) seen = a # b # bs"
      by (cases "filter (\<lambda>x. name_of x = name_of s) seen"; cases "tl (filter (\<lambda>x. name_of x = name_of s) seen)") auto
    then have "\<forall>n. m n = once (seen @ [s]) n" using Cons.prems(1) by (auto simp: once_def split: list.splits)
    moreover have "clash = {n. 2 \<le> length (filter (\<lambda>x. name_of x = n) (seen @ [s]))}"
      using Cons.prems(2) 1 by auto
    ultimately have "serviceMap_loop services clash m n = once ((seen @ [s]) @ services) n" by (rule Cons.IH)
    moreover have "serviceMap_loop (s # services) clash m n = serviceMap_loop services clash m n"
      using Cons.prems(2) 1 by simp
    ultimately show ?thesis by simp
  next
    case 2
    then obtain a where "filter (\<lambda>x. name_of x = name_of s) seen = [a]" by (auto simp: length_Suc_conv)
    then have "\<forall>n. (m(name_of s := None)) n = once (seen @ [s]) n"
      using Cons.prems(1) by (auto simp: once_def split: list.splits)
    moreover have "insert (name_of s) clash = {n. 2 \<le> length (filter (\<lambda>x. name_of x = n) (seen @ [s]))}"
      using Cons.prems(2) 2 by auto
    ultimately have "serviceMap_loop services (insert (name_of s) clash) (m(name_of s := None)) n = once ((seen @ [s]) @ services) n" by (rule Cons.IH)
    moreover have "serviceMap_loop (s # services) clash m n = serviceMap_loop services (insert (name_of s) clash) (m(name_of s := None)) n"
      using Cons.prems(2) 2 one by simp
    ultimately show ?thesis by simp
  next
    case 3
    then have "\<forall>n. (m(name_of s \<mapsto> s)) n = once (seen @ [s]) n"
      using Cons.prems(1) by (auto simp: once_def split: list.splits)
    moreover have "clash = {n. 2 \<le> length (filter (\<lambda>x. name_of x = n) (seen @ [s]))}"
      using Cons.prems(2) 3 by auto
    ultimately have "serviceMap_loop services clash (m(name_of s \<mapsto> s)) n = once ((seen @ [s]) @ services) n" by (rule Cons.IH)
    moreover have "serviceMap_loop (s # services) clash m n = serviceMap_loop services clash (m(name_of s \<mapsto> s)) n"
      using Cons.prems(2) 3 one by simp
    ultimately show ?thesis by simp
  qed
qed simp

lemma serviceMap_once: "serviceMap services n = once services n"
  using serviceMap_loop_once [of Map.empty "[]" "{}" services n] by (simp add: serviceMap_def once_def)

section \<open>The totals of a virtual server\<close>

lemma list_all2_mem: "list_all2 P xs ys \<Longrightarrow> x \<in> set xs \<Longrightarrow> \<exists>y \<in> set ys. P x y"
  by (induction rule: list_all2_induct) auto

definition service_fields :: "gvalue \<Rightarrow> bytes list" where
  "service_fields svc =
     [''CurClntConnections'', ''CurSrvrConnections'', ''MaxClients'', ''RequestBytesRate'', ''ResponseBytesRate'',
      ''SurgeCount'', ''SvrEstablishedConn''] @
     (if is_http svc then [''ActiveTransactions'', ''AvgSvrTTFB'', ''CurReusePool'', ''RequestsRate'', ''ResponsesRate''] else [])"

text \<open>A service whose statistics are all there and fit the data points, with a plain name.\<close>

definition complete :: "golib \<Rightarrow> gvalue \<Rightarrow> bool" where
  "complete L svc \<longleftrightarrow> plain (Clean (name_of svc)) \<and>
     list_all (\<lambda>f. case star (sel svc f) of None \<Rightarrow> False | Some a \<Rightarrow> accepted L a) (service_fields svc)"

lemma star_not_nil: "star (sel v f) = Some a \<Longrightarrow> not_nil v f"
  by (auto simp: star_def not_nil_def split: option.splits gvalue.splits)

lemma accepted_int: "accepted L (AnyVal (GUint64 n))" "accepted L (AnyVal (GInt n))"
  by (simp_all add: accepted_def emitted_def)

lemma svc_series_plain:
  assumes "plain (Clean vserver)" "plain (Clean (name_of svc))" "plain f"
  shows "plain_series (svc_series vserver svc f)"
proof -
  have "plain (''service.'' @ Clean vserver @ ''.'' @ f)" "plain ''service''"
    using assms by (simp_all add: plain_def text_byte_literals)
  from plain_series_tag(1) [OF this assms(2)] show ?thesis by (simp add: svc_series_def)
qed

lemma total_series_plain:
  assumes "plain (Clean vserver)" "plain f"
  shows "plain_series (total_series vserver f)"
proof -
  have "plain (''total.service.'' @ f)" "plain ''vserver''"
    using assms by (simp_all add: plain_def text_byte_literals)
  from plain_series_tag(1) [OF this assms(1)] show ?thesis by (simp add: total_series_def)
qed

lemma service_names_plain:
  "plain ''CurClntConnections''" "plain ''CurSrvrConnections''" "plain ''MaxClients''" "plain ''RequestBytesRate''"
  "plain ''ResponseBytesRate''" "plain ''StateUp''" "plain ''SurgeCount''" "plain ''SvrEstablishedConn''"
  "plain ''SvrNotEstablishedConn''" "plain ''ActiveConn''" "plain ''ActiveTransactions''" "plain ''AvgSvrTTFB''"
  "plain ''CurReusePool''" "plain ''RequestsRate''" "plain ''ResponsesRate''"
  by (simp_all add: plain_def text_byte_literals)

lemma service_emits_ok:
  assumes "plain (Clean vserver)" "complete L svc"
  shows "list_all (action_ok L) (service_emits vserver svc)"
proof -
  have pl: "plain (Clean (name_of svc))" using assms(2) by (simp add: complete_def)
  have nil: "not_nil svc f" if "f \<in> set (service_fields svc)" for f
    using assms(2) that star_not_nil by (fastforce simp: complete_def list_all_iff split: option.splits)
  have "accepted L (state_up svc)" by (simp add: state_up_def accepted_int)
  with assms(2) nil show ?thesis
    by (simp add: service_emits_def complete_def service_fields_def svc_series_plain [OF assms(1) pl]
      service_names_plain accepted_int split: if_splits)
qed

text \<open>
  What the totals are to be: numbers are summed modulo 2 to the 64, rates are added in the order of
  the services, and the statistics that only HTTP services have are summed over these, and sent
  if the first service is one.
\<close>

definition sum64 :: "('a \<Rightarrow> int) \<Rightarrow> 'a list \<Rightarrow> emit_arg" where
  "sum64 f xs = AnyVal (GUint64 ((\<Sum>x\<leftarrow>xs. f x) mod 2 ^ 64))"

definition sum_rate :: "f64_lib \<Rightarrow> bytes \<Rightarrow> gvalue list \<Rightarrow> emit_arg" where
  "sum_rate F f xs = AnyVal (GFloat64 (foldl (f64_add F) 0 (map (\<lambda>s. f64 s f) xs)))"

definition services_totals :: "f64_lib \<Rightarrow> bytes \<Rightarrow> gvalue list \<Rightarrow> (bytes \<times> emit_arg) list" where
  "services_totals F vserver services =
     (let num = (\<lambda>f s. uint (u64 s f)); https = filter is_http services in
      map (\<lambda>(f, v). (total_series vserver f, v))
       ([(''CurClntConnections'', sum64 (num ''CurClntConnections'') services),
         (''CurSrvrConnections'', sum64 (num ''CurSrvrConnections'') services),
         (''RequestBytesRate'', sum_rate F ''RequestBytesRate'' services),
         (''ResponseBytesRate'', sum_rate F ''ResponseBytesRate'' services),
         (''StateUp'', AnyVal (GInt (int (length (filter (\<lambda>s. text_of (sel s ''State'') = ''UP'') services))))),
         (''SurgeCount'', sum64 (num ''SurgeCount'') services),
         (''SvrEstablishedConn'', sum64 (num ''SvrEstablishedConn'') services),
         (''SvrNotEstablishedConn'', sum64 (\<lambda>s. num ''CurSrvrConnections'' s - num ''SvrEstablishedConn'' s) services)] @
        (if services \<noteq> [] \<and> text_of (sel (hd services) ''ServiceType'') = ''HTTP'' then
          [(''ActiveConn'', sum64 (\<lambda>s. num ''SvrEstablishedConn'' s - num ''CurReusePool'' s) https),
           (''ActiveTransactions'', sum64 (num ''ActiveTransactions'') https),
           (''CurReusePool'', sum64 (num ''CurReusePool'') https),
           (''RequestsRate'', sum_rate F ''RequestsRate'' https),
           (''ResponsesRate'', sum_rate F ''ResponsesRate'' https)]
         else [])))"

lemma total_sums:
  "tt_CurClntConnections (fold (add_total F) svcs t) = tt_CurClntConnections t + (\<Sum>s\<leftarrow>svcs. u64 s ''CurClntConnections'')"
  "tt_CurSrvrConnections (fold (add_total F) svcs t) = tt_CurSrvrConnections t + (\<Sum>s\<leftarrow>svcs. u64 s ''CurSrvrConnections'')"
  "tt_SurgeCount (fold (add_total F) svcs t) = tt_SurgeCount t + (\<Sum>s\<leftarrow>svcs. u64 s ''SurgeCount'')"
  "tt_SvrEstablishedConn (fold (add_total F) svcs t) = tt_SvrEstablishedConn t + (\<Sum>s\<leftarrow>svcs. u64 s ''SvrEstablishedConn'')"
  "tt_SvrNotEstablishedConn (fold (add_total F) svcs t) =
     tt_SvrNotEstablishedConn t + (\<Sum>s\<leftarrow>svcs. u64 s ''CurSrvrConnections'' - u64 s ''SvrEstablishedConn'')"
  "tt_StateUp (fold (add_total F) svcs t) = tt_StateUp t + int (length (filter (\<lambda>s. text_of (sel s ''State'') = ''UP'') svcs))"
  "tt_ActiveConn (fold (add_total F) svcs t) =
     tt_ActiveConn t + (\<Sum>s\<leftarrow>filter is_http svcs. u64 s ''SvrEstablishedConn'' - u64 s ''CurReusePool'')"
  "tt_ActiveTransactions (fold (add_total F) svcs t) = tt_ActiveTransactions t + (\<Sum>s\<leftarrow>filter is_http svcs. u64 s ''ActiveTransactions'')"
  "tt_CurReusePool (fold (add_total F) svcs t) = tt_CurReusePool t + (\<Sum>s\<leftarrow>filter is_http svcs. u64 s ''CurReusePool'')"
  by (induction svcs arbitrary: t) (simp_all add: add_total_def Let_def svrNotEstablishedConn_def activeConn_def)

lemma total_rates:
  "tt_RequestBytesRate (fold (add_total F) svcs t) = foldl (f64_add F) (tt_RequestBytesRate t) (map (\<lambda>s. f64 s ''RequestBytesRate'') svcs)"
  "tt_ResponseBytesRate (fold (add_total F) svcs t) = foldl (f64_add F) (tt_ResponseBytesRate t) (map (\<lambda>s. f64 s ''ResponseBytesRate'') svcs)"
  "tt_RequestsRate (fold (add_total F) svcs t) = foldl (f64_add F) (tt_RequestsRate t) (map (\<lambda>s. f64 s ''RequestsRate'') (filter is_http svcs))"
  "tt_ResponsesRate (fold (add_total F) svcs t) = foldl (f64_add F) (tt_ResponsesRate t) (map (\<lambda>s. f64 s ''ResponsesRate'') (filter is_http svcs))"
  by (induction svcs arbitrary: t) (simp_all add: add_total_def Let_def)

lemma uint_sum: "uint (\<Sum>s\<leftarrow>svcs. (f s :: 64 word)) = (\<Sum>s\<leftarrow>svcs. uint (f s)) mod 2 ^ 64"
  by (induction svcs) (simp_all add: uint_word_ariths mod_add_right_eq)

lemma sum_diff_mod:
  "(\<Sum>s\<leftarrow>svcs. uint (f s - g s :: 64 word)) mod 2 ^ 64 = (\<Sum>s\<leftarrow>svcs. uint (f s) - uint (g s)) mod 2 ^ 64"
proof (induction svcs)
  case (Cons s svcs)
  have "uint (f s - g s) mod 2 ^ 64 = (uint (f s) - uint (g s)) mod 2 ^ 64" by (simp add: uint_word_ariths)
  from mod_add_cong [OF this Cons.IH] show ?case by simp
qed simp

lemma total_gauges_spec:
  "total_gauges vserver (services \<noteq> [] \<and> is_http (hd services)) (fold (add_total F) services zero_total) = services_totals F vserver services"
  by (simp add: total_gauges_def services_totals_def Let_def total_sums total_rates zero_total_def sum64_def sum_rate_def
      uint_sum sum_diff_mod [simplified] is_http_def [of "hd services"])

lemma total_gauges_plain: "plain (Clean v) \<Longrightarrow> (s, a) \<in> set (total_gauges v http t) \<Longrightarrow> plain_series s"
  by (auto simp: total_gauges_def Let_def service_names_plain total_series_plain split: if_splits)

text \<open>
  C39: For a virtual server whose services all have their statistics, and whose totals of rates
  are finite, the collector does not panic; it sends the statistics of each service, and then
  exactly these totals, in this order: the eight statistics that every service has, and the five
  statistics of HTTP services if the first service is one. Each total is the sum over the services,
  of numbers modulo 2 to the 64, of rates in the order of the services; for the state it is the number
  of services that are up.
\<close>

theorem service_totals:
  assumes "list_all (complete L) services" "plain (Clean (dashed vserver))" "t \<noteq> zeroTime"
    and "list_all (\<lambda>(s, a). accepted L a) (services_totals F (dashed vserver) services)"
  shows "\<exists>ps qs. run_actions L pooled t (vserver_actions F (vserver, services)) = (ps @ qs, True) \<and>
    list_all2 (reports t) (reported L (emissions (concat (map (service_emits (dashed vserver)) services)))) ps \<and>
    list_all2 (reports t) (reported L (services_totals F (dashed vserver) services)) qs"
proof -
  let ?as = "concat (map (service_emits (dashed vserver)) services)" and ?T = "services_totals F (dashed vserver) services"
  have "list_all (action_ok L) ?as"
    using assms(1,2) service_emits_ok by (fastforce simp: list_all_iff)
  then obtain ps where ps: "run_actions L pooled t ?as = (ps, True)"
      "list_all2 (reports t) (reported L (emissions ?as)) ps"
    using run_ok [OF _ assms(3)] by blast
  have "list_all (\<lambda>(s, a). plain_series s \<and> accepted L a) ?T"
    using assms(2,4) total_gauges_plain unfolding total_gauges_spec [symmetric] by (fastforce simp: list_all_iff)
  then obtain qs where qs: "run_actions L pooled t (map (\<lambda>(s, a). Emit s (Some a)) ?T) = (qs, True)"
      "list_all2 (reports t) (reported L ?T) qs"
    using run_accepted [OF _ assms(3)] by blast
  have "run_actions L pooled t (vserver_actions F (vserver, services)) = (ps @ qs, True)"
    using ps(1) qs(1) by (simp add: vserver_actions_def Let_def total_gauges_spec run_actions_append)
  with ps(2) qs(2) show ?thesis by blast
qed

definition example_service :: gvalue where
  "example_service = VStruct [(''Name'', VString ''s''), (''ServiceType'', VString ''TCP''), (''State'', VString ''UP''),
     (''CurClntConnections'', VUint64 3), (''CurSrvrConnections'', VUint64 2), (''MaxClients'', VUint64 9),
     (''RequestBytesRate'', VFloat64 0), (''ResponseBytesRate'', VFloat64 0), (''SurgeCount'', VUint64 0),
     (''SvrEstablishedConn'', VUint64 1)]"

definition left_add :: f64_lib where
  "left_add = \<lparr>f64_add = (\<lambda>a b. a), f64_int = uint\<rparr>"

lemma accepted_zero: "accepted zero_lib (AnyVal (GFloat64 0))"
  by (simp add: accepted_def emitted_def zero_lib_def latin1_lib_def validate_float_def IsInf_def IsNaN_def f32_exp_def f32_frac_def)

lemma plain_a: "plain ''a''" "plain ''s''" "Clean ''a'' = ''a''" "Clean ''s'' = ''s''"
  by (simp_all add: plain_def text_byte_literals Clean_id clean_byte_def IsPrint_ascii_def IsSpace_ascii_def isQuery_iff ord_def)

lemma example_service_complete: "complete zero_lib example_service"
  using accepted_zero
  by (simp add: complete_def example_service_def name_of_def text_of_def plain_a service_fields_def is_http_def star_def accepted_int)

theorem service_totals_witness:
  "\<exists>ps. run_actions zero_lib newPoint 0 (vserver_actions left_add (''a'', [example_service, example_service])) = (ps, True) \<and>
     (\<exists>p \<in> set ps. reports 0 (total_series ''a'' ''CurClntConnections'', VInt 6) p)"
proof -
  let ?svcs = "[example_service, example_service]"
  have d: "dashed ''a'' = ''a''" by (simp add: dashed_def)
  have acc: "list_all (\<lambda>(s, a). accepted zero_lib a) (services_totals left_add (dashed ''a'') ?svcs)"
    using accepted_zero
    by (simp add: services_totals_def Let_def sum64_def sum_rate_def accepted_int left_add_def example_service_def text_of_def)
  have h: "list_all (complete zero_lib) ?svcs" "plain (Clean (dashed ''a''))" "(0 :: int) \<noteq> zeroTime"
    by (simp_all add: example_service_complete d plain_a zeroTime_def)
  obtain ps qs where run: "run_actions zero_lib newPoint 0 (vserver_actions left_add (''a'', ?svcs)) = (ps @ qs, True)"
      and qs: "list_all2 (reports 0) (reported zero_lib (services_totals left_add (dashed ''a'') ?svcs)) qs"
    using service_totals [OF h acc, of newPoint] by (elim exE conjE)
  have "(total_series ''a'' ''CurClntConnections'', VInt 6) \<in> set (reported zero_lib (services_totals left_add (dashed ''a'') ?svcs))"
    unfolding d
    by (simp add: services_totals_def Let_def sum64_def reported_def map_filter_simps emitted_def u64_def example_service_def wrap64_def)
  from list_all2_mem [OF qs this] run show ?thesis by auto
qed

section \<open>A service that cannot be found\<close>

lemma run_actions_snd: "snd (run_actions L pooled t (as @ bs)) \<longleftrightarrow> snd (run_actions L pooled t as) \<and> snd (run_actions L pooled t bs)"
  by (auto simp: run_actions_append split: prod.splits bool.splits)

lemma run_actions_concat: "snd (run_actions L pooled t (concat xs)) \<longleftrightarrow> (\<forall>as \<in> set xs. snd (run_actions L pooled t as))"
  by (induction xs) (auto simp: run_actions_snd)

lemma zero_service_panics: "\<not> snd (run_actions L pooled t (service_emits v (zero_value (TStruct Service_fields))))"
  by (simp add: service_emits_def Let_def not_nil_def Service_fields_def field_kinds)

text \<open>
  If an active virtual server is bound to a service that the response does not hold, or
  holds more than once, the collector of services panics. It does not skip the service: it
  sends neither the totals of that server nor anything for the servers it would visit next.
\<close>

theorem unresolved_service_panics:
  assumes "(vserver, bound) \<in> set bindings" "active vserver" "name \<in> set bound"
    and "length (filter (\<lambda>s. name_of s = name) (elements (fld r ''Service''))) \<noteq> 1" "\<And>xs. mset (visit xs) = mset xs"
  shows "\<not> snd (run_actions L pooled t (service F active bindings visit r))"
proof -
  let ?all = "elements (fld r ''Service'')"
  have "serviceMap ?all name = None"
    using assms(4) by (auto simp: serviceMap_once once_def split: list.splits)
  then obtain services where s: "(vserver, services) \<in> set (byVServer active bindings ?all)"
      "zero_value (TStruct Service_fields) \<in> set services"
    using assms(1-3) by (force simp: byVServer_def Let_def)
  then have "(vserver, services) \<in> set (visit (byVServer active bindings ?all))"
    using assms(5) by (metis set_mset_mset)
  moreover have "\<not> snd (run_actions L pooled t (vserver_actions F (vserver, services)))"
    using s(2) zero_service_panics by (fastforce simp: vserver_actions_def Let_def run_actions_snd run_actions_concat)
  ultimately show ?thesis unfolding service_def run_actions_concat by force
qed

end
