(* ===== verification/NitroClient.thy ===== *)
theory NitroClient
  imports NitroTypes
begin

text \<open>
  The client of \<^verbatim>\<open>contrib/collect-netscaler/nitro/client.go\<close>: a round trip, the session
  cookie, a call with its retry after an authentication error, the limit on connections; and the
  loop of \<^verbatim>\<open>collect.go\<close> that starts the collectors and waits for them. The answers of the
  server are a parameter.

  What is proved: a call makes at most two data requests and two logins, and what it returns was
  answered with the status for success; a collector never sends a request without a cookie if it
  is alone, and may if there are two, which crashes the program; at most sixteen requests are
  under way; the loop waits for all collectors, unless one is done before it is counted.
\<close>

section \<open>A round trip\<close>

definition maxTrips :: nat where "maxTrips = 2"
definition MaxConnsPerHost :: nat where "MaxConnsPerHost = 16"

definition statusOK :: int where "statusOK = 0"
definition authStatus :: "int list" where "authStatus = [354, 444, 2138]"

text \<open>
  The body of an answer: its document, \<^const>\<open>None\<close> if it is not JSON, and whether reading it
  met an error, which includes its end.
\<close>

record http_body =
  bd_json :: "jval option"
  bd_err :: bool

datatype http_answer = TimedOut | TransportFailed | Answered nat http_body

datatype error_type = E_httpTimeout | E_httpTransport | E_httpStatus | E_JSON | E_Server | E_ServerAuth

record trip_error =
  te_type :: error_type
  te_auth :: bool

definition errorCode :: "gvalue \<Rightarrow> int" where
  "errorCode r = (case sel r ''ErrorCode'' of Some (VGoInt n) \<Rightarrow> n | _ \<Rightarrow> 0)"

text \<open>The answer is decoded into the response the caller passes, which is returned.\<close>

definition roundtrip :: "golib \<Rightarrow> gotype \<Rightarrow> http_answer \<Rightarrow> gvalue \<Rightarrow> trip_error option \<times> gvalue" where
  "roundtrip L t answer r =
     (let fail = (\<lambda>e auth. Some \<lparr>te_type = e, te_auth = auth\<rparr>) in
      case answer of
        TimedOut \<Rightarrow> (fail E_httpTimeout False, r)
      | TransportFailed \<Rightarrow> (fail E_httpTransport False, r)
      | Answered code body \<Rightarrow>
          if code = 401 then (fail E_httpStatus True, r)
          else if code \<noteq> 200 \<and> code \<noteq> 201 then (fail E_httpStatus False, r)
          else let badJSON = (fail (if bd_err body then E_httpTransport else E_JSON) False, r) in
            case bd_json body of
              None \<Rightarrow> badJSON
            | Some doc \<Rightarrow>
                (case unmarshal L t False doc r of
                   Inl _ \<Rightarrow> badJSON
                 | Inr r \<Rightarrow>
                     if errorCode r = statusOK then (None, r)
                     else if errorCode r \<in> set authStatus then (fail E_ServerAuth True, r)
                     else (fail E_Server False, r)))"

section \<open>A call\<close>

datatype request = Login | Data

text \<open>\<^verbatim>\<open>newCookie\<close>: the value of the session cookie.\<close>

definition newCookie :: "golib \<Rightarrow> http_answer \<Rightarrow> trip_error + bytes" where
  "newCookie L answer =
     (case roundtrip L responseSessionID answer (zero_value responseSessionID) of
        (Some e, _) \<Rightarrow> Inl e
      | (None, r) \<Rightarrow> Inr (text_of (sel r ''SessionID'')))"

text \<open>\<^verbatim>\<open>cookie.Refresh\<close>; the requests made so far tell which answer comes next.\<close>

definition Refresh ::
  "golib \<Rightarrow> (nat \<Rightarrow> http_answer) \<Rightarrow> bytes option \<Rightarrow> request list \<Rightarrow> (trip_error + bytes) \<times> request list" where
  "Refresh L answers cookie made =
     (case cookie of
        Some c \<Rightarrow> (Inr c, made)
      | None \<Rightarrow> (newCookie L (answers (length made)), made @ [Login]))"

record call =
  ca_errors :: "trip_error list"
  ca_response :: gvalue
  ca_cookie :: "bytes option"
  ca_made :: "request list"

fun do_loop :: "golib \<Rightarrow> gotype \<Rightarrow> (nat \<Rightarrow> http_answer) \<Rightarrow> nat \<Rightarrow> call \<Rightarrow> call" where
  "do_loop L t answers 0 c = c"
| "do_loop L t answers (Suc n) c =
     (case Refresh L answers (ca_cookie c) (ca_made c) of
        (Inl e, made) \<Rightarrow> c\<lparr>ca_errors := ca_errors c @ [e], ca_made := made\<rparr>
      | (Inr cookie, made) \<Rightarrow>
          (case roundtrip L t (answers (length made)) (ca_response c) of
             (None, r) \<Rightarrow> c\<lparr>ca_errors := [], ca_response := r, ca_cookie := Some cookie, ca_made := made @ [Data]\<rparr>
           | (Some e, r) \<Rightarrow>
               let c = c\<lparr>ca_errors := ca_errors c @ [e], ca_response := r, ca_made := made @ [Data]\<rparr> in
               if te_auth e then do_loop L t answers n (c\<lparr>ca_cookie := None\<rparr>)
               else c\<lparr>ca_cookie := Some cookie\<rparr>))"

definition do_call :: "golib \<Rightarrow> gotype \<Rightarrow> (nat \<Rightarrow> http_answer) \<Rightarrow> bytes option \<Rightarrow> call" where
  "do_call L t answers cookie =
     do_loop L t answers maxTrips \<lparr>ca_errors = [], ca_response = zero_value t, ca_cookie = cookie, ca_made = []\<rparr>"

text \<open>\<^verbatim>\<open>Get\<close> of the two services: the response, or the errors.\<close>

definition Get :: "golib \<Rightarrow> gotype \<Rightarrow> (nat \<Rightarrow> http_answer) \<Rightarrow> bytes option \<Rightarrow> trip_error list + gvalue" where
  "Get L t answers cookie =
     (let c = do_call L t answers cookie in if ca_errors c \<noteq> [] then Inl (ca_errors c) else Inr (ca_response c))"

definition has_trips :: "nat \<Rightarrow> request list \<Rightarrow> bool" where
  "has_trips n made \<longleftrightarrow> count_list made Data \<le> n \<and> count_list made Login \<le> n"

lemma has_trips_snoc:
  "has_trips n (made @ [Login]) \<longleftrightarrow> count_list made Data \<le> n \<and> count_list made Login < n"
  "has_trips n (made @ [Data]) \<longleftrightarrow> count_list made Data < n \<and> count_list made Login \<le> n"
  by (auto simp: has_trips_def)

lemma do_loop_trips: "has_trips k (ca_made c) \<Longrightarrow> has_trips (k + n) (ca_made (do_loop L t answers n c))"
proof (induction n arbitrary: k c)
  case (Suc n)
  obtain res made where R: "Refresh L answers (ca_cookie c) (ca_made c) = (res, made)" by force
  then have m: "made = ca_made c \<or> made = ca_made c @ [Login]" by (auto simp: Refresh_def split: option.splits)
  have made: "has_trips (Suc k) (made @ [Data])" "has_trips (Suc k + n) made" "has_trips (Suc k + n) (made @ [Data])"
    using Suc.prems m by (auto simp: has_trips_def)
  from Suc.IH [of "Suc k"] made show ?case by (auto simp: R Let_def split: sum.splits prod.splits option.splits)
qed (simp add: has_trips_def)

lemma roundtrip_ok: "roundtrip L t a r = (None, r') \<Longrightarrow> errorCode r' = statusOK"
  by (auto simp: roundtrip_def Let_def split: http_answer.splits if_splits option.splits sum.splits)

lemma do_loop_ok:
  "ca_errors (do_loop L t answers (Suc n) c) = [] \<Longrightarrow>
     errorCode (ca_response (do_loop L t answers (Suc n) c)) = statusOK \<and> ca_cookie (do_loop L t answers (Suc n) c) \<noteq> None"
proof (induction n arbitrary: c)
  case 0
  then show ?case using roundtrip_ok by (auto simp: Let_def split: sum.splits prod.splits option.splits if_splits)
next
  case (Suc n)
  obtain res made where R: "Refresh L answers (ca_cookie c) (ca_made c) = (res, made)" by force
  show ?case
  proof (cases res)
    case (Inl e)
    with Suc.prems R show ?thesis by simp
  next
    case (Inr cookie)
    obtain e r where T: "roundtrip L t (answers (length made)) (ca_response c) = (e, r)" by force
    show ?thesis
    proof (cases e)
      case None
      with T roundtrip_ok R Inr show ?thesis by simp
    next
      case (Some err)
      with Suc.prems R Inr T have "te_auth err" by (auto simp: Let_def split: if_splits)
      with Suc.IH Suc.prems R Inr T Some show ?thesis by (simp add: Let_def del: do_loop.simps(2) add: do_loop.simps(2) [of L t answers "Suc n"])
    qed
  qed
qed

lemma do_loop_errors: "length (ca_errors (do_loop L t answers n c)) \<le> length (ca_errors c) + n"
proof (induction n arbitrary: c)
  case (Suc n)
  have "length (ca_errors (do_loop L t answers n c')) \<le> Suc (length (ca_errors c) + n)"
    if "length (ca_errors c') = Suc (length (ca_errors c))" for c'
    using Suc.IH [of c'] that by simp
  then show ?case by (auto simp: Let_def split: sum.splits prod.splits option.splits)
qed simp

text \<open>
  A call of the API makes at most two data requests and two logins, whatever the server
  answers; if it reports no error, the last answer had the status for success and the client
  holds a session cookie. It reports at most two errors.
\<close>

theorem call_bounded:
  "count_list (ca_made (do_call L t answers cookie)) Data \<le> 2 \<and>
   count_list (ca_made (do_call L t answers cookie)) Login \<le> 2 \<and>
   length (ca_errors (do_call L t answers cookie)) \<le> 2 \<and>
   (\<forall>r. Get L t answers cookie = Inr r \<longrightarrow> errorCode r = 0 \<and> ca_cookie (do_call L t answers cookie) \<noteq> None)"
proof -
  have "has_trips 2 (ca_made (do_call L t answers cookie))"
    using do_loop_trips [of 0] by (simp add: do_call_def maxTrips_def has_trips_def)
  moreover have "errorCode r = 0 \<and> ca_cookie (do_call L t answers cookie) \<noteq> None" if "Get L t answers cookie = Inr r" for r
    using that do_loop_ok [of L t answers 1] 
    by (auto simp: Get_def do_call_def maxTrips_def numeral_2_eq_2 statusOK_def Let_def simp del: do_loop.simps split: if_splits)
  moreover have "length (ca_errors (do_call L t answers cookie)) \<le> 2"
    using do_loop_errors [of L t answers 2 "\<lparr>ca_errors = [], ca_response = zero_value t, ca_cookie = cookie, ca_made = []\<rparr>"]
    by (simp add: do_call_def maxTrips_def)
  ultimately show ?thesis by (simp add: has_trips_def)
qed

section \<open>Several collectors share the cookie\<close>

text \<open>
  The collectors run at the same time and lock the cookie for each of its operations, not for a
  whole call. A call is between two operations; the number is that of the trip. Adding a cookie
  that is nil to a request is a nil pointer dereference outside \<^verbatim>\<open>logPanics\<close>.
\<close>

datatype call_state = AtRefresh nat | AtGet nat | InFlight nat | AtReset nat | Finished | Crashed

inductive cookie_step :: "bool \<times> call_state list \<Rightarrow> bool \<times> call_state list \<Rightarrow> bool" where
  kept: "i < length cs \<Longrightarrow> cs ! i = AtRefresh n \<Longrightarrow> cookie_step (True, cs) (True, cs[i := AtGet n])"
| login: "i < length cs \<Longrightarrow> cs ! i = AtRefresh n \<Longrightarrow> cookie_step (False, cs) (True, cs[i := AtGet n])"
| login_failed: "i < length cs \<Longrightarrow> cs ! i = AtRefresh n \<Longrightarrow> cookie_step (False, cs) (False, cs[i := Finished])"
| newRequest: "i < length cs \<Longrightarrow> cs ! i = AtGet n \<Longrightarrow>
    cookie_step (c, cs) (c, cs[i := if c then InFlight n else Crashed])"
| answered: "i < length cs \<Longrightarrow> cs ! i = InFlight n \<Longrightarrow> cookie_step (c, cs) (c, cs[i := Finished])"
| auth_error: "i < length cs \<Longrightarrow> cs ! i = InFlight n \<Longrightarrow> cookie_step (c, cs) (c, cs[i := AtReset n])"
| reset_cookie: "i < length cs \<Longrightarrow> cs ! i = AtReset n \<Longrightarrow>
    cookie_step (c, cs) (False, cs[i := if Suc n < maxTrips then AtRefresh (Suc n) else Finished])"

inductive_cases cookie_stepE: "cookie_step s s'"

text \<open>What a call that is alone keeps.\<close>

fun alone :: "bool \<times> call_state list \<Rightarrow> bool" where
  "alone (c, [AtGet n]) = c"
| "alone (c, [Crashed]) = False"
| "alone (c, [_]) = True"
| "alone (c, _) = False"

interpretation solo: stepping cookie_step alone
  by unfold_locales (auto elim!: cookie_stepE alone.elims simp: nth_Cons')

lemma two_calls_crash: "cookie_step\<^sup>*\<^sup>* (False, [AtRefresh 0, AtRefresh 0]) (False, [AtRefresh 1, Crashed])"
proof -
  have "cookie_step (False, [AtRefresh 0, AtRefresh 0]) (True, [AtGet 0, AtRefresh 0])"
    using login [of 0 "[AtRefresh 0, AtRefresh 0]" 0] by simp
  moreover have "cookie_step (True, [AtGet 0, AtRefresh 0]) (True, [InFlight 0, AtRefresh 0])"
    using newRequest [of 0 "[AtGet 0, AtRefresh 0]" 0 True] by simp
  moreover have "cookie_step (True, [InFlight 0, AtRefresh 0]) (True, [InFlight 0, AtGet 0])"
    using kept [of 1 "[InFlight 0, AtRefresh 0]" 0] by simp
  moreover have "cookie_step (True, [InFlight 0, AtGet 0]) (True, [AtReset 0, AtGet 0])"
    using auth_error [of 0 "[InFlight 0, AtGet 0]" 0 True] by simp
  moreover have "cookie_step (True, [AtReset 0, AtGet 0]) (False, [AtRefresh 1, AtGet 0])"
    using reset_cookie [of 0 "[AtReset 0, AtGet 0]" 0 True] by (simp add: maxTrips_def)
  moreover have "cookie_step (False, [AtRefresh 1, AtGet 0]) (False, [AtRefresh 1, Crashed])"
    using newRequest [of 1 "[AtRefresh 1, AtGet 0]" 0 False] by simp
  ultimately show ?thesis by (meson converse_rtranclp_into_rtranclp rtranclp.rtrancl_refl)
qed

text \<open>
  A call that runs alone never sends a request without a cookie. Two calls at the same time
  may: when one resets the cookie after an authentication error, between the moment the other
  refreshed it and the moment it reads it, the other dereferences a nil cookie and the program
  crashes.
\<close>

theorem cookie_race:
  "(\<forall>c cs. cookie_step\<^sup>*\<^sup>* (c0, [AtRefresh 0]) (c, cs) \<longrightarrow> Crashed \<notin> set cs) \<and>
   (\<exists>c cs. cookie_step\<^sup>*\<^sup>* (False, [AtRefresh 0, AtRefresh 0]) (c, cs) \<and> Crashed \<in> set cs)"
proof -
  have "alone (c, cs) \<Longrightarrow> Crashed \<notin> set cs" for c cs by (auto elim!: alone.elims)
  moreover have "alone (c0, [AtRefresh 0])" by simp
  ultimately show ?thesis using solo.run_inv two_calls_crash by (metis insertCI list.simps(15))
qed

section \<open>The limit on connections\<close>

text \<open>
  \<^verbatim>\<open>connLimit\<close>: a channel with as many slots as connections. The state is the number of
  slots taken and, for every goroutine, whether it is between \<^verbatim>\<open>Wait\<close> and \<^verbatim>\<open>Done\<close>.
\<close>

inductive conn_step :: "nat \<times> bool list \<Rightarrow> nat \<times> bool list \<Rightarrow> bool" where
  Wait: "i < length gs \<Longrightarrow> \<not> gs ! i \<Longrightarrow> n < MaxConnsPerHost \<Longrightarrow> conn_step (n, gs) (Suc n, gs[i := True])"
| Done: "i < length gs \<Longrightarrow> gs ! i \<Longrightarrow> n > 0 \<Longrightarrow> conn_step (n, gs) (n - 1, gs[i := False])"

definition conn_inv :: "nat \<times> bool list \<Rightarrow> bool" where
  "conn_inv = (\<lambda>(n, gs). n = count_list gs True \<and> n \<le> MaxConnsPerHost)"

lemma count_list_update:
  "i < length xs \<Longrightarrow> count_list (xs[i := x]) y + (if xs ! i = y then 1 else 0) = count_list xs y + (if x = y then 1 else 0)"
proof (induction xs arbitrary: i)
  case (Cons a xs)
  then show ?case by (cases i) (use Cons.IH in \<open>force+\<close>)
qed simp

lemma conn_step_inv: "conn_step s s' \<Longrightarrow> conn_inv s \<Longrightarrow> conn_inv s'"
proof (induction rule: conn_step.induct)
  case (Wait i gs n)
  then show ?case using count_list_update [of i gs True True] by (auto simp: conn_inv_def)
next
  case (Done i gs n)
  then show ?case using count_list_update [of i gs False True] by (auto simp: conn_inv_def)
qed

interpretation conn: stepping conn_step conn_inv
  by unfold_locales (rule conn_step_inv)

text \<open>At most sixteen requests are under way, logins included.\<close>

lemma connections_limited: "conn_step\<^sup>*\<^sup>* (0, replicate k False) (n, gs) \<Longrightarrow> count_list gs True \<le> 16"
  by (drule conn.run_inv) (auto simp: conn_inv_def MaxConnsPerHost_def count_list_0_iff)

section \<open>The loop that starts the collectors\<close>

text \<open>
  A cycle of \<^verbatim>\<open>Loop\<close>: collectors still to start, whether the last one started is not counted
  yet, collectors running, and the counter of the wait group. The counter is increased after the
  collector is started. When it becomes negative Go panics, so no step follows.
\<close>

record cycle =
  cy_left :: nat
  cy_uncounted :: bool
  cy_running :: nat
  cy_count :: int

inductive cycle_step :: "cycle \<Rightarrow> cycle \<Rightarrow> bool" where
  go: "0 \<le> cy_count c \<Longrightarrow> \<not> cy_uncounted c \<Longrightarrow> 0 < cy_left c \<Longrightarrow>
    cycle_step c (c\<lparr>cy_left := cy_left c - 1, cy_uncounted := True, cy_running := cy_running c + 1\<rparr>)"
| Add: "0 \<le> cy_count c \<Longrightarrow> cy_uncounted c \<Longrightarrow> cycle_step c (c\<lparr>cy_uncounted := False, cy_count := cy_count c + 1\<rparr>)"
| Done: "0 \<le> cy_count c \<Longrightarrow> 0 < cy_running c \<Longrightarrow>
    cycle_step c (c\<lparr>cy_running := cy_running c - 1, cy_count := cy_count c - 1\<rparr>)"

definition cycle_start :: "nat \<Rightarrow> cycle" where
  "cycle_start n = \<lparr>cy_left = n, cy_uncounted = False, cy_running = 0, cy_count = 0\<rparr>"

text \<open>The condition under which \<^verbatim>\<open>Wait\<close> returns.\<close>

definition cycle_over :: "cycle \<Rightarrow> bool" where
  "cycle_over c \<longleftrightarrow> cy_left c = 0 \<and> \<not> cy_uncounted c \<and> cy_count c = 0"

definition cycle_inv :: "cycle \<Rightarrow> bool" where
  "cycle_inv c \<longleftrightarrow> cy_count c = int (cy_running c) - (if cy_uncounted c then 1 else 0)"

interpretation cyc: stepping cycle_step cycle_inv
  by unfold_locales (auto elim!: cycle_step.cases simp: cycle_inv_def)

text \<open>
  When the loop goes on to the next cycle, all collectors of the cycle have finished. But a
  collector that is done before it is counted makes the counter of the wait group negative,
  which crashes the program; this takes one collector only.
\<close>

theorem cycle_waits:
  "(\<forall>c. cycle_step\<^sup>*\<^sup>* (cycle_start n) c \<and> cycle_over c \<longrightarrow> cy_running c = 0) \<and>
   (\<exists>c. cycle_step\<^sup>*\<^sup>* (cycle_start 1) c \<and> cy_count c < 0)"
proof (intro conjI allI impI)
  fix c assume "cycle_step\<^sup>*\<^sup>* (cycle_start n) c \<and> cycle_over c"
  then show "cy_running c = 0"
    using cyc.run_inv [of "cycle_start n" c] by (auto simp: cycle_inv_def cycle_start_def cycle_over_def)
next
  let ?c = "\<lparr>cy_left = 0, cy_uncounted = True, cy_running = 1, cy_count = 0\<rparr>"
  have "cycle_step (cycle_start 1) ?c" using go [of "cycle_start 1"] by (simp add: cycle_start_def)
  moreover have "cycle_step ?c (?c\<lparr>cy_running := 0, cy_count := - 1\<rparr>)" using cycle_step.Done [of ?c] by simp
  ultimately have "cycle_step\<^sup>*\<^sup>* (cycle_start 1) (?c\<lparr>cy_running := 0, cy_count := - 1\<rparr>)" by auto
  moreover have "cy_count (?c\<lparr>cy_running := 0, cy_count := - 1\<rparr>) < 0" by simp
  ultimately show "\<exists>c. cycle_step\<^sup>*\<^sup>* (cycle_start 1) c \<and> cy_count c < 0" by blast
qed

end
