(* ===== verification/Bindings.thy ===== *)
theory Bindings
  imports Prelude
begin

text \<open>
  The poller of \<^verbatim>\<open>contrib/collect-netscaler/collect/service.go\<close>: the loop that keeps one job
  per active virtual server and the bindings the jobs have read, and the jobs themselves. The
  loop and the jobs are goroutines; their interleavings are a step relation.

  A job is identified by a number that is never used again. The channel \<^verbatim>\<open>Exit\<close> of a job
  holds one element; sending to a full channel blocks, and the loop does nothing else while it
  is blocked.

  What is proved: the loop never blocks on telling a job to exit, a job never uses a ticker it
  does not have, and the jobs of the active servers are those that run and were not told to
  exit. Further, that a job is told to exit but goes on for as long as its reads fail, and that
  it makes a new ticker for every failed read after its first good one.
\<close>

section \<open>The jobs\<close>

datatype job_phase = Asleep | Holding "bytes list" | Gone

record binding_job =
  jb_lbID :: bytes
  jb_Exit :: nat
  jb_phase :: job_phase
  jb_gotOK :: nat
  jb_tickers :: nat   \<comment> \<open>tickers made; the last one is \<^verbatim>\<open>job.rate\<close>, which is nil if there is none\<close>

definition newBindingReaderJob :: "bytes \<Rightarrow> binding_job" where
  "newBindingReaderJob lbID = \<lparr>jb_lbID = lbID, jb_Exit = 0, jb_phase = Asleep, jb_gotOK = 0, jb_tickers = 0\<rparr>"

text \<open>\<^verbatim>\<open>sleep\<close> when the delays are over; \<^const>\<open>None\<close> is the panic on a nil ticker.\<close>

definition job_sleep :: "binding_job \<Rightarrow> binding_job option" where
  "job_sleep job =
     (if jb_gotOK job = 0 then Some job
      else if jb_gotOK job = 1 then Some (job\<lparr>jb_tickers := jb_tickers job + 1\<rparr>)
      else if jb_tickers job = 0 then None else Some job)"

text \<open>A turn of \<^verbatim>\<open>mainloop\<close> up to its \<^verbatim>\<open>select\<close>, with what \<^verbatim>\<open>getBoundServices\<close> returns.\<close>

definition job_read :: "bytes list option \<Rightarrow> binding_job \<Rightarrow> binding_job option" where
  "job_read got job =
     map_option (\<lambda>job. case got of
         None \<Rightarrow> job
       | Some svcList \<Rightarrow> job\<lparr>jb_gotOK := jb_gotOK job + 1, jb_phase := Holding svcList\<rparr>) (job_sleep job)"

section \<open>The poller\<close>

record poller =
  po_byLBVServer :: "bytes \<rightharpoonup> bytes list"
  po_running :: "bytes \<rightharpoonup> nat"
  po_jobs :: "nat \<rightharpoonup> binding_job"
  po_next :: nat

definition newServiceBindingsPoller :: poller where
  "newServiceBindingsPoller = \<lparr>po_byLBVServer = Map.empty, po_running = Map.empty, po_jobs = Map.empty, po_next = 0\<rparr>"

definition set_job :: "nat \<Rightarrow> binding_job \<Rightarrow> poller \<Rightarrow> poller" where
  "set_job j job s = s\<lparr>po_jobs := (po_jobs s)(j \<mapsto> job)\<rparr>"

text \<open>The two loops of a tick, for one server each; the second may block.\<close>

definition start_job :: "bytes \<Rightarrow> poller \<Rightarrow> poller" where
  "start_job lb s =
     (if po_running s lb = None
      then s\<lparr>po_running := (po_running s)(lb \<mapsto> po_next s), po_jobs := (po_jobs s)(po_next s \<mapsto> newBindingReaderJob lb),
             po_next := po_next s + 1\<rparr>
      else s)"

definition stop_job :: "bytes \<Rightarrow> poller \<Rightarrow> poller option" where
  "stop_job lb s =
     (case po_running s lb of
        None \<Rightarrow> Some s
      | Some j \<Rightarrow>
          (case po_jobs s j of
             None \<Rightarrow> Some s
           | Some job \<Rightarrow>
               if jb_Exit job \<ge> 1 then None
               else Some ((set_job j (job\<lparr>jb_Exit := jb_Exit job + 1\<rparr>) s)\<lparr>po_running := (po_running s)(lb := None)\<rparr>)))"

fun stop_jobs :: "bytes list \<Rightarrow> poller \<Rightarrow> poller option" where
  "stop_jobs [] s = Some s"
| "stop_jobs (lb # lbs) s = Option.bind (stop_job lb s) (stop_jobs lbs)"

text \<open>
  A tick with the active servers and the running ones that are not active, in the order the
  maps are visited.
\<close>

definition poller_tick :: "bytes list \<Rightarrow> bytes list \<Rightarrow> poller \<Rightarrow> poller option" where
  "poller_tick avail idle s = stop_jobs idle (fold start_job avail s)"

definition MapBindings :: "poller \<Rightarrow> (bytes \<rightharpoonup> bytes list)" where
  "MapBindings s = po_byLBVServer s"

inductive poller_step :: "poller \<Rightarrow> poller \<Rightarrow> bool" where
  tick: "set idle = dom (po_running s) - set avail \<Longrightarrow> distinct idle \<Longrightarrow> poller_tick avail idle s = Some s' \<Longrightarrow> poller_step s s'"
| read_turn: "po_jobs s j = Some job \<Longrightarrow> jb_phase job = Asleep \<Longrightarrow> job_read got job = Some job' \<Longrightarrow>
    poller_step s (set_job j job' s)"
| update: "po_jobs s j = Some job \<Longrightarrow> jb_phase job = Holding svcs \<Longrightarrow>
    poller_step s ((set_job j (job\<lparr>jb_phase := Asleep\<rparr>) s)\<lparr>po_byLBVServer := (po_byLBVServer s)(jb_lbID job \<mapsto> svcs)\<rparr>)"
| exit_job: "po_jobs s j = Some job \<Longrightarrow> jb_phase job = Holding svcs \<Longrightarrow> 0 < jb_Exit job \<Longrightarrow>
    poller_step s (set_job j (job\<lparr>jb_Exit := jb_Exit job - 1, jb_phase := Gone\<rparr>) s)"

section \<open>The invariant\<close>

definition job_inv :: "binding_job \<Rightarrow> bool" where
  "job_inv job \<longleftrightarrow> jb_Exit job \<le> 1 \<and> (jb_gotOK job \<ge> 2 \<longrightarrow> jb_tickers job \<ge> 1)"

text \<open>A registered job belongs to its server, was not told to exit, and has not exited.\<close>

definition registered :: "poller \<Rightarrow> bytes \<Rightarrow> nat \<Rightarrow> bool" where
  "registered s lb j \<longleftrightarrow> (\<exists>job. po_jobs s j = Some job \<and> jb_lbID job = lb \<and> jb_Exit job = 0 \<and> jb_phase job \<noteq> Gone)"

definition poller_inv :: "poller \<Rightarrow> bool" where
  "poller_inv s \<longleftrightarrow>
     (\<forall>j job. po_jobs s j = Some job \<longrightarrow> j < po_next s \<and> job_inv job) \<and>
     (\<forall>lb j. po_running s lb = Some j \<longrightarrow> registered s lb j)"

lemma start_job_inv: "poller_inv s \<Longrightarrow> poller_inv (start_job lb s)"
  by (fastforce simp: poller_inv_def start_job_def registered_def newBindingReaderJob_def job_inv_def)

lemma start_jobs_inv: "poller_inv s \<Longrightarrow> poller_inv (fold start_job lbs s)"
  by (induction lbs arbitrary: s) (auto intro: start_job_inv)

lemma stop_job_inv: "poller_inv s \<Longrightarrow> \<exists>s'. stop_job lb s = Some s' \<and> poller_inv s'"
proof -
  assume inv: "poller_inv s"
  show ?thesis
  proof (cases "po_running s lb")
    case (Some j)
    with inv obtain job where job: "po_jobs s j = Some job" "jb_lbID job = lb" "jb_Exit job = 0"
      by (fastforce simp: poller_inv_def registered_def)
    have "i \<noteq> j" if "po_running s lb1 = Some i" "lb1 \<noteq> lb" for i lb1
      using inv that job by (force simp: poller_inv_def registered_def)
    with inv Some job show ?thesis
      by (fastforce simp: stop_job_def set_job_def poller_inv_def registered_def job_inv_def)
  qed (use inv in \<open>simp add: stop_job_def\<close>)
qed

lemma stop_jobs_inv: "poller_inv s \<Longrightarrow> \<exists>s'. stop_jobs lbs s = Some s' \<and> poller_inv s'"
proof (induction lbs arbitrary: s)
  case (Cons lb lbs)
  from stop_job_inv [OF Cons.prems] obtain s' where "stop_job lb s = Some s'" "poller_inv s'" by blast
  with Cons.IH show ?case by simp
qed simp

lemma tick_inv: "poller_inv s \<Longrightarrow> \<exists>s'. poller_tick avail idle s = Some s' \<and> poller_inv s'"
  by (simp add: poller_tick_def start_jobs_inv stop_jobs_inv)

lemma set_job_inv:
  assumes "poller_inv s" "po_jobs s j = Some job" "job_inv job'" "jb_lbID job' = jb_lbID job"
    and "jb_Exit job = 0 \<Longrightarrow> jb_Exit job' = 0 \<and> jb_phase job' \<noteq> Gone"
  shows "poller_inv (set_job j job' s)"
proof -
  have "registered (set_job j job' s) lb i" if "po_running s lb = Some i" for lb i
  proof (cases "i = j")
    case True
    with assms(1,2,4,5) that show ?thesis by (fastforce simp: poller_inv_def registered_def set_job_def)
  next
    case False
    with assms(1) that show ?thesis by (fastforce simp: poller_inv_def registered_def set_job_def)
  qed
  with assms(1-3) show ?thesis by (auto simp: poller_inv_def set_job_def)
qed

lemma job_read_inv:
  assumes "job_inv job" "jb_phase job = Asleep"
  shows "\<exists>job'. job_read got job = Some job' \<and> job_inv job' \<and> jb_lbID job' = jb_lbID job \<and>
    jb_Exit job' = jb_Exit job \<and> jb_phase job' \<noteq> Gone"
  using assms by (auto simp: job_read_def job_sleep_def job_inv_def split: option.splits)

lemma poller_inv_byLB [simp]: "poller_inv (s\<lparr>po_byLBVServer := m\<rparr>) = poller_inv s"
  by (simp add: poller_inv_def registered_def)

lemma poller_step_inv: "poller_step s s' \<Longrightarrow> poller_inv s \<Longrightarrow> poller_inv s'"
proof (induction rule: poller_step.induct)
  case (tick idle s avail s')
  then show ?case using tick_inv [of s avail idle] by auto
next
  case (read_turn s j job got job')
  then have "job_inv job" by (auto simp: poller_inv_def)
  from job_read_inv [OF this read_turn(2), of got] read_turn show ?case by (auto intro: set_job_inv)
next
  case (update s j job svcs)
  then have "job_inv job" by (auto simp: poller_inv_def)
  with update set_job_inv [of s j job "job\<lparr>jb_phase := Asleep\<rparr>"] show ?case by (simp add: job_inv_def)
next
  case (exit_job s j job svcs)
  then have "job_inv job" by (auto simp: poller_inv_def)
  with exit_job show ?case by (intro set_job_inv) (auto simp: job_inv_def)
qed

interpretation poll: stepping poller_step poller_inv
  by unfold_locales (rule poller_step_inv)

lemma poller_start_inv: "poller_inv newServiceBindingsPoller"
  by (simp add: poller_inv_def newServiceBindingsPoller_def)

section \<open>Properties\<close>

text \<open>
  C40: Whatever the jobs and the loop have done, a tick with any set of active servers runs to
  its end, so the loop never waits to tell a job to exit; a job that sleeps can take its next
  turn without using a ticker it does not have; and the job of a server is one that reads for
  this server and was not told to exit.
\<close>

theorem poller_never_stuck:
  assumes "poller_step\<^sup>*\<^sup>* newServiceBindingsPoller s"
  shows "(\<forall>avail idle. poller_tick avail idle s \<noteq> None) \<and>
    (\<forall>j job got. po_jobs s j = Some job \<and> jb_phase job = Asleep \<longrightarrow> job_read got job \<noteq> None) \<and>
    (\<forall>lb j. po_running s lb = Some j \<longrightarrow> registered s lb j)"
proof -
  have inv: "poller_inv s" using poll.run_inv [OF assms poller_start_inv] .
  have "poller_tick avail idle s \<noteq> None" for avail idle using tick_inv [OF inv, of avail idle] by auto
  moreover have "job_read got job \<noteq> None" if "po_jobs s j = Some job" "jb_phase job = Asleep" for j job got
    using inv that job_read_inv [of job got] by (fastforce simp: poller_inv_def)
  ultimately show ?thesis using inv by (auto simp: poller_inv_def)
qed

text \<open>A poller that has started one job and is told that the server is no longer there.\<close>

theorem poller_never_stuck_witness:
  "poller_step newServiceBindingsPoller (start_job ''a'' newServiceBindingsPoller) \<and>
   registered (start_job ''a'' newServiceBindingsPoller) ''a'' 0 \<and>
   poller_tick [] [''a''] (start_job ''a'' newServiceBindingsPoller) \<noteq> None"
proof -
  let ?s = "start_job ''a'' newServiceBindingsPoller"
  have step: "poller_step newServiceBindingsPoller ?s"
    by (rule poller_step.tick [of "[]" _ "[''a'']"]) (simp_all add: newServiceBindingsPoller_def poller_tick_def)
  have "po_running ?s ''a'' = Some 0" by (simp add: newServiceBindingsPoller_def start_job_def)
  with step poller_never_stuck [OF r_into_rtranclp [of poller_step, OF step]] show ?thesis by blast
qed

text \<open>
  A job that is told to exit looks at it only after a read that succeeds: as long as its reads
  fail it goes on, and between its first and its second good read each failed read leaves a
  ticker behind.
\<close>

fun failed_reads :: "nat \<Rightarrow> binding_job \<Rightarrow> binding_job option" where
  "failed_reads 0 job = Some job"
| "failed_reads (Suc n) job = Option.bind (job_read None job) (failed_reads n)"

lemma failing_job_goes_on:
  assumes "jb_phase job = Asleep" "jb_gotOK job = 1"
  shows "\<exists>job'. failed_reads n job = Some job' \<and> jb_phase job' = Asleep \<and> jb_Exit job' = jb_Exit job \<and>
    jb_tickers job' = jb_tickers job + n"
  using assms
proof (induction n arbitrary: job)
  case (Suc n)
  then show ?case using Suc.IH [of "job\<lparr>jb_tickers := jb_tickers job + 1\<rparr>"] by (simp add: job_read_def job_sleep_def)
qed simp

end
