(* ===== verification/NetscalerMain.thy ===== *)
theory NetscalerMain
  imports Http Expvar Vservers NitroClient Bindings
begin

text \<open>
  The program \<^verbatim>\<open>contrib/collect-netscaler\<close> as a whole: its flags and credentials
  (\<^verbatim>\<open>config/config.go\<close>), the requests its client builds (\<^verbatim>\<open>nitro/client.go\<close>), the
  registered collectors (\<^verbatim>\<open>collect/collect.go\<close>), and what is written for a point
  (\<^verbatim>\<open>tsdb.go\<close>). Of the library, the escaping of query strings and of JSON strings is modelled.

  What is proved: the login request carries the credentials, for all credentials in ASCII; a cycle
  asks for each subsystem once; every point that is written has the tag of the device, and is read
  back as such, unless the device is given by an IPv6 address: then every line is refused.
\<close>

section \<open>Start\<close>

definition auth_type :: gotype where
  "auth_type = TStruct [Field ''Username'' None False TString, Field ''Password'' None False TString]"

text \<open>
  \<^verbatim>\<open>decode\<close>, with the contents of the file and the reader of JSON text; \<^const>\<open>None\<close> ends the
  program.
\<close>

definition auth_decode :: "golib \<Rightarrow> (bytes \<Rightarrow> jval option) \<Rightarrow> bytes option \<Rightarrow> (bytes \<times> bytes) option" where
  "auth_decode L json file =
     (case file of
        None \<Rightarrow> None
      | Some buf \<Rightarrow>
          (case json buf of
             None \<Rightarrow> None
           | Some doc \<Rightarrow>
               (case unmarshal L auth_type False doc (zero_value auth_type) of
                  Inl _ \<Rightarrow> None
                | Inr auth \<Rightarrow>
                    let username = text_of (sel auth ''Username''); password = text_of (sel auth ''Password'') in
                    if username = [] \<or> password = [] then None else Some (username, password))))"

record nitro_client =
  ni_addr :: bytes
  ni_username :: bytes
  ni_password :: bytes
  ni_verify :: bool   \<comment> \<open>whether certificates are verified\<close>

datatype netscaler_start = NsExit nat | NsRuns nitro_client

record netscaler_flags =
  nf_unknown :: bool
  nf_version :: bool
  nf_unsafe :: bool
  nf_args :: "bytes list"

definition netscaler_init :: "golib \<Rightarrow> (bytes \<Rightarrow> jval option) \<Rightarrow> bytes option \<Rightarrow> netscaler_flags \<Rightarrow> netscaler_start" where
  "netscaler_init L json file fl =
     (if nf_unknown fl then NsExit 2
      else if nf_version fl then NsExit 0
      else if length (nf_args fl) \<noteq> 1 then NsExit 1
      else case auth_decode L json file of
        None \<Rightarrow> NsExit 1
      | Some (username, password) \<Rightarrow>
          NsRuns \<lparr>ni_addr = hd (nf_args fl), ni_username = username, ni_password = password, ni_verify = \<not> nf_unsafe fl\<rparr>)"

text \<open>\<^verbatim>\<open>config.Host\<close>: the address without its port.\<close>

definition config_Host_of :: "bytes \<Rightarrow> bytes" where
  "config_Host_of addr = (case SplitHostPort addr of Some (h, _) \<Rightarrow> h | None \<Rightarrow> addr)"

section \<open>Requests\<close>

definition lower_hex :: "nat \<Rightarrow> char" where "lower_hex n = char_of (if n < 10 then 48 + n else 87 + n)"

fun QueryEscape :: "bytes \<Rightarrow> bytes" where
  "QueryEscape [] = []"
| "QueryEscape (c # cs) =
     (if unreserved c then [c] else if c = CHR '' '' then ''+''
      else [CHR ''%'', upper_hex (ord c div 16), upper_hex (ord c mod 16)]) @ QueryEscape cs"

text \<open>\<^verbatim>\<open>json.Marshal\<close> on a string: the bytes between the quotes.\<close>

definition json_ascii :: "char \<Rightarrow> bytes" where
  "json_ascii c =
     (if c = CHR 0x5C \<or> c = CHR 0x22 then [CHR 0x5C, c]
      else if c = CHR 0x0A then [CHR 0x5C, CHR ''n'']
      else if c = CHR 0x0D then [CHR 0x5C, CHR ''r'']
      else if c = CHR 0x09 then [CHR 0x5C, CHR ''t'']
      else if ord c < 32 \<or> c \<in> {CHR ''<'', CHR ''>'', CHR ''&''}
        then CHR 0x5C # ''u00'' @ [lower_hex (ord c div 16), lower_hex (ord c mod 16)]
      else [c])"

function json_escape :: "bytes \<Rightarrow> bytes" where
  "json_escape [] = []"
| "json_escape (c # cs) =
     (if ord c < 0x80 then json_ascii c @ json_escape cs
      else case DecodeRune (c # cs) of (r, n) \<Rightarrow>
        (if r = RuneError \<and> n = 1 then CHR 0x5C # ''ufffd''
         else if r = 0x2028 then CHR 0x5C # ''u2028''
         else if r = 0x2029 then CHR 0x5C # ''u2029''
         else take n (c # cs)) @ json_escape (drop (max 1 n) (c # cs)))"
  by pat_completeness auto
termination
  by (relation "measure length") auto

definition json_string :: "bytes \<Rightarrow> bytes" where
  "json_string s = CHR 0x22 # json_escape s @ [CHR 0x22]"

definition newSessionForm :: "bytes \<Rightarrow> bytes \<Rightarrow> (bytes \<times> bytes) list" where
  "newSessionForm username password =
     [(''object'', CHR ''{'' # json_string ''login'' @ '':{'' @ json_string ''username'' @ '':'' @ json_string username @ '','' @
        json_string ''password'' @ '':'' @ json_string password @ ''}}'')]"

record http_request =
  rq_method :: bytes
  rq_URL :: bytes
  rq_cookie :: "(bytes \<times> bytes) option"
  rq_body :: bytes

definition client_url :: "nitro_client \<Rightarrow> bytes" where
  "client_url c = ''https://'' @ ni_addr c @ ''/nitro/v1''"

text \<open>\<^verbatim>\<open>PostForm\<close> with one value per key; the dummy transport keeps the request.\<close>

definition newSessionRequest :: "bytes \<Rightarrow> bytes \<Rightarrow> bytes \<Rightarrow> http_request" where
  "newSessionRequest url username password =
     \<lparr>rq_method = ''POST'', rq_URL = url, rq_cookie = None,
      rq_body = concat (map (\<lambda>(k, v). QueryEscape k @ ''='' @ QueryEscape v) (newSessionForm username password))\<rparr>"

definition login_request :: "nitro_client \<Rightarrow> http_request" where
  "login_request c = newSessionRequest (client_url c @ ''/config/login'') (ni_username c) (ni_password c)"

text \<open>A missing cookie is a nil pointer, and \<^verbatim>\<open>AddCookie\<close> panics.\<close>

definition newRequest :: "bytes \<Rightarrow> bytes \<Rightarrow> bytes option \<Rightarrow> http_request option" where
  "newRequest url path cookie =
     map_option (\<lambda>v. \<lparr>rq_method = ''GET'', rq_URL = url @ ''/'' @ path, rq_cookie = Some (''sessionid'', v), rq_body = []\<rparr>) cookie"

section \<open>Collectors\<close>

datatype collector_kind = StatFunc | ConfigFunc

text \<open>The collectors in the order in which the files of the package register them.\<close>

definition collectors :: "(collector_kind \<times> bytes) list" where
  "collectors =
     [(ConfigFunc, ''filterpolicy''), (StatFunc, ''lbvserver''), (StatFunc, ''Interface''), (StatFunc, ''ns''),
      (StatFunc, ''protocolhttp''), (StatFunc, ''protocoltcp''), (StatFunc, ''protocoludp''),
      (StatFunc, ''responderpolicy''), (StatFunc, ''service''), (StatFunc, ''ssl'')]"

text \<open>The path a collector asks for and the type of the response.\<close>

definition collector_request :: "collector_kind \<times> bytes \<Rightarrow> bytes \<times> gotype" where
  "collector_request = (\<lambda>(kind, subsystem). case kind of
     StatFunc \<Rightarrow> (''stat/'' @ subsystem, ResponseStat)
   | ConfigFunc \<Rightarrow> (''config/'' @ subsystem, ResponseConfig))"

text \<open>What the loop gets for each collector, from a client that answers by path.\<close>

definition cycle_responses ::
  "golib \<Rightarrow> (bytes \<Rightarrow> nat \<Rightarrow> http_answer) \<Rightarrow> bytes option \<Rightarrow> (bytes \<times> (trip_error list + gvalue)) list" where
  "cycle_responses L server cookie =
     map (\<lambda>c. case collector_request c of (path, t) \<Rightarrow> (path, Get L t (server path) cookie)) collectors"

definition getBoundServices :: "golib \<Rightarrow> (bytes \<Rightarrow> nat \<Rightarrow> http_answer) \<Rightarrow> bytes option \<Rightarrow> bytes \<Rightarrow> trip_error list + bytes list" where
  "getBoundServices L server cookie lbID =
     rbind (Get L ResponseConfig (server (''config/lbvserver_service_binding/'' @ lbID)) cookie)
       (\<lambda>resp. Inr (map (\<lambda>s. text_of (sel s ''ServiceName'')) (elements (fld resp ''LBVServerServiceBinding''))))"

section \<open>Escaping\<close>

lemma lower_hex_unhex: "n < 16 \<Longrightarrow> unhex (lower_hex n) = Some n"
  by (auto simp: unhex_def lower_hex_def is_digit_def ord_def)

lemma QueryUnescape_escape: "QueryUnescape (QueryEscape s @ t) = map_option ((@) s) (QueryUnescape t)"
proof (induction s)
  case (Cons c s)
  have n: "ord c div 16 < 16" "ord c mod 16 < 16" using ord_less [of c] by (simp_all add: div_less_iff_less_mult)
  have "c \<noteq> CHR ''%'' \<and> c \<noteq> CHR ''+''" if "unreserved c" using that by (auto simp: unreserved_def is_digit_def ord_def)
  then show ?case
    using Cons n upper_hex_unhex char_of_nibbles [of c] by (auto simp: option.map_comp o_def)
qed (simp add: option.map_ident)

lemma QueryEscape_bytes: "c \<in> set (QueryEscape s) \<Longrightarrow> unreserved c \<or> c \<in> {CHR ''%'', CHR ''+''}"
proof (induction s)
  case (Cons a s)
  have "unreserved (upper_hex n)" if "n < 16" for n
    using that by (auto simp: unreserved_def upper_hex_def is_digit_def ord_def)
  moreover have "ord a div 16 < 16" "ord a mod 16 < 16" using ord_less [of a] by (simp_all add: div_less_iff_less_mult)
  ultimately show ?case using Cons by (auto split: if_splits)
qed simp

lemma split_params_clean: "\<forall>c \<in> set s. c \<noteq> CHR ''&'' \<and> c \<noteq> CHR '';'' \<Longrightarrow> split_params s = [s]"
  by (induction s) auto

lemma ParseQuery_form:
  assumes "k \<noteq> []"
  shows "ParseQuery (QueryEscape k @ ''='' @ QueryEscape v) = [(k, [v])]"
proof -
  have bad: "\<not> unreserved (CHR ''&'')" "\<not> unreserved (CHR '';'')" "\<not> unreserved (CHR ''='')"
    by (simp_all add: unreserved_def is_digit_def ord_def)
  let ?q = "QueryEscape k @ ''='' @ QueryEscape v"
  have "split_params ?q = [?q]"
    using QueryEscape_bytes [of _ k] QueryEscape_bytes [of _ v] bad by (intro split_params_clean) auto
  moreover have "CHR ''='' \<notin> set (QueryEscape k)" using QueryEscape_bytes [of "CHR ''=''" k] bad by auto
  then have "index_byte ?q (CHR ''='') = Some (length (QueryEscape k))" by (simp add: index_byte_append)
  moreover have "QueryUnescape (QueryEscape s) = Some s" for s using QueryUnescape_escape [of s "[]"] by simp
  ultimately show ?thesis by (simp add: ParseQuery_def parse_param_def add_param_def List.map_filter_simps)
qed

text \<open>A reader of JSON strings, behind the opening quote: the string and what follows it.\<close>

fun read_string :: "bytes \<Rightarrow> (bytes \<times> bytes) option" where
  "read_string [] = None"
| "read_string (c # cs) =
     (if c = CHR 0x22 then Some ([], cs)
      else if c = CHR 0x5C then
        (case cs of
           [] \<Rightarrow> None
         | e # cs \<Rightarrow>
             if e = CHR ''u'' then
               (case cs of
                  z1 # z2 # a # b # cs \<Rightarrow>
                    (case (z1 = CHR ''0'' \<and> z2 = CHR ''0'', unhex a, unhex b) of
                       (True, Some x, Some y) \<Rightarrow> map_option (map_prod ((#) (char_of (16 * x + y))) id) (read_string cs)
                     | _ \<Rightarrow> None)
                | _ \<Rightarrow> None)
             else case map_of [(CHR ''n'', CHR 0x0A), (CHR ''r'', CHR 0x0D), (CHR ''t'', CHR 0x09), (CHR 0x5C, CHR 0x5C), (CHR 0x22, CHR 0x22)] e of
               None \<Rightarrow> None
             | Some x \<Rightarrow> map_option (map_prod ((#) x) id) (read_string cs))
      else map_option (map_prod ((#) c) id) (read_string cs))"

lemma read_json_ascii:
  assumes "ord c < 0x80"
  shows "read_string (json_ascii c @ t) = map_option (map_prod ((#) c) id) (read_string t)"
proof -
  have n: "ord c div 16 < 16" "ord c mod 16 < 16" using ord_less [of c] by (simp_all add: div_less_iff_less_mult)
  note h = lower_hex_unhex [OF n(1)] lower_hex_unhex [OF n(2)] char_of_nibbles [of c]
  show ?thesis
    using h by (auto simp: json_ascii_def)
qed

lemma read_json_string:
  "\<forall>c \<in> set s. ord c < 0x80 \<Longrightarrow> read_string (json_escape s @ CHR 0x22 # t) = Some (s, t)"
  by (induction s) (simp_all add: read_json_ascii)

section \<open>Properties\<close>

text \<open>
  The login request is a POST to the login page of the device, over TLS. A server that reads the
  form and the strings of its document finds the credentials.
\<close>

theorem login_carries_credentials:
  assumes "\<forall>c \<in> set (ni_username c @ ni_password c). ord c < 0x80"
  shows "rq_method (login_request c) = ''POST'' \<and> rq_URL (login_request c) = ''https://'' @ ni_addr c @ ''/nitro/v1/config/login'' \<and>
    (\<exists>a b. ParseQuery (rq_body (login_request c)) = [(''object'', [a @ CHR 0x22 # b])] \<and>
       (\<exists>rest. read_string b = Some (ni_username c, '','' @ CHR 0x22 # rest) \<and>
          (\<exists>rest'. read_string rest = Some (''password'', '':'' @ CHR 0x22 # rest') \<and>
             read_string rest' = Some (ni_password c, ''}}''))))"
proof -
  let ?u = "ni_username c" and ?p = "ni_password c"
  let ?a = "CHR ''{'' # json_string ''login'' @ '':{'' @ json_string ''username'' @ '':''"
  let ?rest' = "json_escape ?p @ CHR 0x22 # ''}}''"
  let ?rest = "json_escape ''password'' @ CHR 0x22 # '':'' @ CHR 0x22 # ?rest'"
  let ?b = "json_escape ?u @ CHR 0x22 # '','' @ CHR 0x22 # ?rest"
  have form: "newSessionForm ?u ?p = [(''object'', ?a @ CHR 0x22 # ?b)]"
    by (simp add: newSessionForm_def json_string_def)
  have body: "ParseQuery (rq_body (login_request c)) = [(''object'', [?a @ CHR 0x22 # ?b])]"
    using ParseQuery_form [of "''object''" "?a @ CHR 0x22 # ?b"]
    unfolding login_request_def newSessionRequest_def form by simp
  have u: "read_string ?b = Some (?u, '','' @ CHR 0x22 # ?rest)" using read_json_string [of ?u] assms by simp
  have k: "read_string ?rest = Some (''password'', '':'' @ CHR 0x22 # ?rest')"
    using read_json_string [of "''password''"] by (simp only: append_Cons append_Nil list.set ball_simps ord_def) simp
  have p: "read_string ?rest' = Some (?p, ''}}'')" using read_json_string [of ?p] assms by simp
  have "rq_method (login_request c) = ''POST''" "rq_URL (login_request c) = ''https://'' @ ni_addr c @ ''/nitro/v1/config/login''"
    by (simp_all add: login_request_def newSessionRequest_def client_url_def)
  with body u k p show ?thesis by (intro conjI exI)
qed

text \<open>A cycle of the loop asks for every registered subsystem, and for none twice.\<close>

theorem cycle_asks_once:
  "map fst (cycle_responses L server cookie) = map (fst \<circ> collector_request) collectors \<and>
   distinct (map fst (cycle_responses L server cookie)) \<and> length collectors = 10"
  by (simp add: cycle_responses_def collectors_def collector_request_def)

text \<open>
  What is written for a point has all tags of the point and the name of the device as its host, if
  that name is a tag value.
\<close>

lemma encode_point_tags:
  assumes "wf_point L p" "length (taglist (pt_tags p)) < maxTagsPerPoint" "''host'' \<notin> fst ` set (taglist (pt_tags p))"
    "text_ok L (Clean host)"
  shows "wf_point L (encode_point host p) \<and> taglist (pt_tags (encode_point host p)) = taglist (pt_tags p) @ [(''host'', Clean host)]"
proof -
  obtain kvs where kvs: "pt_tags p = render kvs" "taglist (pt_tags p) = kvs" "tags_ok L kvs" "distinct (map fst kvs)"
    using assms(1) by (auto simp: wf_point_def elim: wf_tagsE)
  let ?kvs = "kvs @ [(''host'', Clean host)]"
  have t: "pt_tags (encode_point host p) = render ?kvs" using kvs(1) by (simp add: encode_point_def XAppendTags_def tag_text_def)
  have ok: "tags_ok L ?kvs" using kvs(3) assms(4) plain_host plain_text_ok [of "''host''" L] by (auto simp: tags_ok_def)
  have d: "distinct (map fst ?kvs)" "length ?kvs \<le> maxTagsPerPoint" using kvs assms(2,3) by auto
  have "wf_tags L (render ?kvs)" using ok d by (rule wf_tags_render)
  moreover have "taglist (render ?kvs) = ?kvs" using ok by (rule taglist_render)
  ultimately show ?thesis using assms(1) t kvs(2)
    by (simp add: wf_point_def) (simp add: encode_point_def XAppendTags_def)
qed

theorem device_tag:
  assumes "wf_point L p" "length (taglist (pt_tags p)) < maxTagsPerPoint" "''host'' \<notin> fst ` set (taglist (pt_tags p))"
    "text_ok L (Clean (config_Host_of addr))" "key \<noteq> []"
  shows "Tag key (encode_point (config_Host_of addr) p) =
    (if key = ''host'' then Some (Some (Clean (config_Host_of addr))) else Tag key p)"
proof -
  note e = encode_point_tags [OF assms(1-4)]
  have "Tag key (encode_point (config_Host_of addr) p) = Some (map_of (taglist (pt_tags p) @ [(''host'', Clean (config_Host_of addr))]) key)"
    using Tag_spec [of L "encode_point (config_Host_of addr) p" key] e assms(5) by (simp add: wf_point_def)
  moreover have "Tag key p = Some (map_of (taglist (pt_tags p)) key)" using Tag_spec [of L p key] assms(1,5) by (simp add: wf_point_def)
  moreover have "map_of (taglist (pt_tags p)) ''host'' = None" using assms(3) by (simp add: map_of_eq_None_iff)
  ultimately show ?thesis by (auto simp: map_add_def split: option.splits)
qed

text \<open>A line whose last tag has a value that is no text is refused, whatever stands before it.\<close>

lemma setTags_loop_refuses:
  assumes "text_ok L k" "\<not> text_ok L v" "\<forall>c \<in> set v. \<not> isSpace c"
  shows "tags_ok L kvs \<Longrightarrow> \<exists>e. setTags_loop L norm (render kvs @ tag_text k v) seen tags = Inl e"
proof (induction kvs arbitrary: seen tags)
  case Nil
  have "skipNSP norm ((k @ ''='' @ v) @ []) = (k @ ''='' @ v, [])"
    using assms text_ok_isSpace [of L] by (intro skipNSP_word) (auto simp: isSpace_def)
  moreover have "index_byte (k @ ''='' @ v) (CHR ''='') = Some (length k)"
    using text_ok_seps [OF assms(1)] by (simp add: index_byte_append)
  moreover obtain e where "validTag L k v = Inl e" using assms(2) by (cases "validTag L k v") auto
  ultimately show ?case
    using skipSpace_tag [OF assms(1), of v "[]"] by (subst setTags_loop.simps) simp
next
  case (Cons kv kvs)
  obtain k' v' where kv: "kv = (k', v')" by (cases kv)
  with Cons.prems have ok: "text_ok L k'" "text_ok L v'" "tags_ok L kvs" by auto
  let ?r = "render kvs @ tag_text k v"
  have "?r = [] \<or> (\<exists>s. ?r = CHR '' '' # s)" using render_hd [of kvs] by (auto simp: tag_text_def)
  then have "skipNSP norm ((k' @ ''='' @ v') @ ?r) = (k' @ ''='' @ v', ?r)"
    using ok text_ok_isSpace [of L] by (intro skipNSP_word) (auto simp: isSpace_def)
  then show ?case
    using Cons.IH [OF ok(3)] ok kv by (subst setTags_loop.simps) (simp add: skipSpace_tag [of L] validTag_def)
qed

lemma ipv6_host: "config_Host_of ''[fe80::1]:443'' = ''fe80::1'' \<and> (\<forall>c \<in> set ''fe80::1''. clean_byte c)"
  by (simp add: config_Host_of_def SplitHostPort_def SplitHostPort_ok_def clean_byte_def IsPrint_ascii_def IsSpace_ascii_def
      isQuery_def ord_def)

text \<open>
  A device that is given by an IPv6 address is lost: the colons of the address pass through
  \<^verbatim>\<open>Clean\<close>, and the reader of the line, in the plugin pool, refuses it, whatever the point is.
\<close>

theorem ipv6_device_lost:
  assumes "encodable L p" "CHR '':'' \<in> set (config_Host_of addr)"
    "\<forall>c \<in> set (config_Host_of addr). clean_byte c"
  shows "\<exists>e. unmarshalText L (append_point L [] (encode_point (config_Host_of addr) p)) p0 = Inl e"
proof -
  let ?h = "config_Host_of addr" and ?q = "encode_point (config_Host_of addr) p"
  have wf: "wf_point L p" and ve: "val_encodable L (Value p)" using assms(1) by (auto simp: encodable_def)
  obtain kvs where kvs: "pt_tags p = render kvs" "tags_ok L kvs" using wf by (auto simp: wf_point_def elim: wf_tagsE)
  let ?tags = "render kvs @ tag_text ''host'' ?h"
  obtain s where s: "pt_time p = s * 10 ^ 9" "0 \<le> s" "s < 10 ^ 10" "tdiv (pt_time p) (10 ^ 9) = s"
    using assms(1) by (rule encodable_time)
  let ?vt = "append_value L [] p"
  have line: "append_point L [] ?q = pt_metric p @ '' '' @ dec s @ '' '' @ ?vt @ ?tags"
    using s kvs(1) Clean_id [OF assms(3)]
    by (simp add: append_point_eq encode_point_def XAppendTags_def tag_text_def appendInt_nonneg append_value_def)
  have bad: "\<not> text_ok L ?h" using text_ok_bytes [of L ?h "CHR '':''"] assms(2) by (auto simp: text_byte_def ord_def)
  have "\<forall>c \<in> set ?h. \<not> isSpace c"
    using assms(3) by (auto simp: isSpace_def clean_byte_def IsPrint_ascii_def IsSpace_ascii_def ord_def)
  then obtain e where e: "setTags_loop L False ?tags [] [] = Inl e"
    using setTags_loop_refuses [OF plain_text_ok [OF plain_host] bad _ kvs(2)] by blast
  have st: "setTags L False ?tags p' = Inl e" for p' by (simp add: setTags_def e)
  have v: "?vt \<noteq> []" "\<forall>c \<in> set ?vt. \<not> isSpace c" using append_value_parse [OF wf ve] by auto
  have hd: "?tags = [] \<or> (\<exists>r. ?tags = CHR '' '' # r)" using render_hd [of kvs] by (auto simp: tag_text_def)
  have w1: "skipNonSpace (append_point L [] ?q) = (pt_metric p, '' '' @ dec s @ '' '' @ ?vt @ ?tags)"
    unfolding line using text_ok_isSpace [of L "pt_metric p"] wf by (intro skipNonSpace_word) (auto simp: wf_point_def)
  have "\<forall>c \<in> set (dec s). \<not> isSpace c" using dec_digits [OF s(2)] is_digit_no_sep by (auto simp: isSpace_def)
  then have w2: "skipNonSpace (skipSpace ('' '' @ dec s @ '' '' @ ?vt @ ?tags)) = (dec s, '' '' @ ?vt @ ?tags)"
    using dec_ne [of s] by (subst skipSpace_word) (auto intro: skipNonSpace_word)
  have w3: "skipNonSpace (skipSpace ('' '' @ ?vt @ ?tags)) = (?vt, ?tags)"
    using v hd by (subst skipSpace_word) (auto intro: skipNonSpace_word)
  show ?thesis
  proof (rule ccontr)
    assume "\<nexists>e. unmarshalText L (append_point L [] ?q) p0 = Inl e"
    then obtain r where "unmarshalText L (append_point L [] ?q) p0 = Inr r"
      by (cases "unmarshalText L (append_point L [] ?q) p0") auto
    then obtain p' where "rmap_err InvalidTags (setTags L False ?tags p') = Inr r"
      unfolding unmarshalText_def Let_def w1 w2 w3 by (auto simp: rbind_eq_Inr w2 [simplified] w3 [simplified] split: if_splits)
    with st [of p'] show False by simp
  qed
qed

end
