(* ===== verification/Service.thy ===== *)
theory Service
  imports Http
begin

text \<open>
  The controller as a service: what it takes from its environment when it starts
  (\<^verbatim>\<open>cmd/tsp-controller/main.go\<close>, \<^verbatim>\<open>Load\<close> and \<^verbatim>\<open>Filter\<close> of \<^verbatim>\<open>config/config.go\<close>, the
  elements of \<^verbatim>\<open>config/network/network.go\<close>) and what it then answers.

  What is proved: a controller that has accepted its configuration answers every request with a
  status, whatever the path, the method and the query are, so none of its handlers panics; and a
  missing filter program is a filter without rules.
\<close>

section \<open>The filter program\<close>

text \<open>What running the external program meets; its output is decoded as JSON.\<close>

datatype exec_result = ExecNotExist | ExecFailed string | Exited_ok bytes

definition Filter_run :: "(bytes \<Rightarrow> string + Rule list) \<Rightarrow> exec_result \<Rightarrow> string + Rule list" where
  "Filter_run json r =
     (case r of
        ExecNotExist \<Rightarrow> Inr []
      | ExecFailed e \<Rightarrow> Inl e
      | Exited_ok out \<Rightarrow> json out)"

text \<open>\<^verbatim>\<open>Filter.Run\<close> with the arguments the program is given.\<close>

definition Filter_Run :: "(bytes \<Rightarrow> string + Rule list) \<Rightarrow> (string list \<Rightarrow> exec_result) \<Rightarrow> string \<Rightarrow> filter_program" where
  "Filter_Run json exec fpath program h cluster =
     rmap_err (\<lambda>e. ''config: filter error: '' @ e) (Filter_run json (exec [fpath, program, h, cluster]))"

section \<open>The network file\<close>

text \<open>The attributes of the elements: the path of the file, and a restriction that must compile.\<close>

definition DefaultPath :: bytes where "DefaultPath = ''/etc/tsp-controller/network''"

definition unmarshalPath :: "bytes \<Rightarrow> bytes" where
  "unmarshalPath p = (if p = [] then DefaultPath else p)"

fun compile_restrictions :: "regexlib \<Rightarrow> string list \<Rightarrow> (string + string list)" where
  "compile_restrictions R [] = Inr []"
| "compile_restrictions R (re # res) =
     (case re_MaxCap R re of
        None \<Rightarrow> Inl re
      | Some _ \<Rightarrow> rbind (compile_restrictions R res) (\<lambda>res. Inr (re # res)))"

text \<open>\<^verbatim>\<open>Config.UnmarshalXML\<close>: a network element is read from the file it names.\<close>

definition network_UnmarshalXML :: "string \<Rightarrow> (bytes \<Rightarrow> network_file) \<Rightarrow> bytes \<Rightarrow> ctl_error + network_config" where
  "network_UnmarshalXML self files p = ReadFile self (files (unmarshalPath p))"

section \<open>Starting\<close>

datatype start = Fatal | ExitCode_of nat | Serving controller

record flags =
  fl_args :: nat
  fl_version :: bool
  fl_test :: bool

text \<open>
  \<^verbatim>\<open>Load\<close> and \<^verbatim>\<open>main\<close>, with the outcome of decoding the configuration file if it could be read,
  and the way the controller reaches its surroundings afterwards.
\<close>

definition controller_main ::
  "flags \<Rightarrow> (ctl_error + mod_value config) option \<Rightarrow> regexlib \<Rightarrow> (string \<Rightarrow> filter_program) \<Rightarrow> (bytes \<Rightarrow> bytes option) \<Rightarrow> start" where
  "controller_main fl decoded R run valid =
     (if fl_args fl \<noteq> 0 then ExitCode_of 1
      else if fl_version fl then ExitCode_of 0
      else case decoded of
        None \<Rightarrow> Fatal
      | Some (Inl e) \<Rightarrow> Fatal
      | Some (Inr c) \<Rightarrow>
          if fl_test fl then ExitCode_of 0
          else Serving \<lparr>ct_regex = R, ct_filter = run (cf_FilterPath c), ct_net = the (cf_Network c), ct_config = c, ct_validate = valid\<rparr>)"

section \<open>No handler panics\<close>

lemma config_Host_total: "nc_restrict n \<noteq> [] \<Longrightarrow> \<exists>r. config_Host R n hs ident = Some r"
  by (auto simp: config_Host_def InScope_def Let_def split: prod.splits option.splits bool.splits)

lemma newView_total: "nc_restrict n \<noteq> [] \<Longrightarrow> \<exists>r. newView R run n hs program ident = Some r"
  using config_Host_total [of n R hs ident] by (auto simp: newView_def)

lemma View_total:
  assumes "nc_restrict n \<noteq> []" "program \<in> {''tsp-forwarder'', ''tsp-poller'', ''tsp-aggregator''}"
  shows "\<exists>r. View R run n hs (program, ident) = Some r"
proof -
  note nv = newView_total [OF assms(1), of R run hs _ ident]
  obtain h where h: "config_Host R n hs ident = Some h" using config_Host_total [OF assms(1)] by blast
  consider "program = ''tsp-forwarder''" | "program = ''tsp-poller''" | "program = ''tsp-aggregator''" using assms(2) by blast
  then show ?thesis
  proof cases
    case 1
    obtain v where "newView R run n hs ''tsp-forwarder'' ident = Some v" using nv by blast
    with 1 h show ?thesis by (cases h) (simp_all add: View_def forwarderView_def)
  next
    case 2
    obtain v where "newView R run n hs ''tsp-poller'' ident = Some v" using nv by blast
    with 2 show ?thesis by (simp add: View_def pollerView_def)
  next
    case 3
    obtain v where "newView R run n hs ''tsp-aggregator'' ident = Some v" using nv by blast
    with 3 show ?thesis by (simp add: View_def aggregatorView_def)
  qed
qed

lemma statse_View_total: "nc_restrict n \<noteq> [] \<Longrightarrow> \<exists>r. statse_View R run n hs ident = Some r"
  using config_Host_total [of n R hs ident] by (auto simp: statse_View_def)

text \<open>The key of a request on a path of the programs names one of them.\<close>

lemma parseKey_program:
  assumes "map_of routes p = Some TspRoute" "parseKey p query = Inr (program, ident)"
  shows "program \<in> {''tsp-forwarder'', ''tsp-poller'', ''tsp-aggregator''}"
proof -
  have "(p, TspRoute) \<in> set routes" using assms(1) by (rule map_of_SomeD)
  then have "p \<in> {''/control/v1/tsp-forwarder'', ''/control/v1/tsp-aggregator'', ''/control/v1/tsp-poller'',
      ''/control/v1/tsdb-forwarder'', ''/control/v1/tsdb-aggregator'', ''/control/v1/tsdb-poller''}"
    by (auto simp: routes_def validate_init_def jmx_Handle_def statse_Handle_def tsp_Handle_def)
  with assms(2) show ?thesis by (auto simp: parseKey_def path_Base_def Let_def split: if_splits list.splits)
qed

definition answered :: "'v response \<Rightarrow> bool" where
  "answered r = (case r of Answer _ \<Rightarrow> True | HttpError n \<Rightarrow> n \<in> {400, 404, 500} | Aborted \<Rightarrow> False)"

lemma answered_ServeHTTP:
  assumes "\<And>k. key = Inr k \<Longrightarrow> \<exists>r. view k = Some r"
  shows "answered (map_response f (ServeHTTP key view))"
proof (cases key)
  case (Inr k)
  with assms obtain r where "view k = Some r" by blast
  with Inr show ?thesis by (cases r) (simp_all add: ServeHTTP_def answered_def)
qed (simp add: ServeHTTP_def answered_def)

lemma ReadFile_restrict: "ReadFile self f = Inr n \<Longrightarrow> nc_restrict n \<noteq> []"
  by (auto simp: ReadFile_def network_default_def DefaultRestrictions_def split: network_file.splits if_splits)

lemma UpdateHost_frame: "UpdateHost u c st = Inr (c', st') \<Longrightarrow> cf_Network c' = cf_Network c"
  by (auto simp: UpdateHost_def rbind_eq_Inr)

lemma update_Network:
  "jmx_Update X c = Inr c' \<Longrightarrow> cf_Network c' = cf_Network c"
  "statse_Update X c = Inr c' \<Longrightarrow> cf_Network c' = cf_Network c"
  by (auto simp: jmx_Update_def updateHost_def updateGlobal_def statse_Update_def rbind_eq_Inr Let_def
      dest!: UpdateHost_frame split: if_splits)

text \<open>The network of an accepted configuration: from its element, or from the default file.\<close>

lemma decoded_network:
  assumes "Decode_config (controller_modules X) self f groups net fpath extra = Inr c"
    "\<And>n. net = Some n \<Longrightarrow> nc_restrict n \<noteq> []"
  shows "\<exists>n. cf_Network c = Some n \<and> nc_restrict n \<noteq> []"
proof -
  from assms(1) obtain hs where hs: "addGroups groups emptyHosts = Inr hs"
    by (auto simp: Decode_config_def rbind_eq_Inr)
  let ?c0 = "validateFilter \<lparr>cf_Hosts = hs\<lparr>hs_tags := []\<rparr>, cf_Network = net, cf_FilterPath = fpath, cf_Extra = extra\<rparr>"
  from assms(1) hs obtain c2 where c2: "validateExtra (controller_modules X) ?c0 = Inr c2" "validateNetwork self f c2 = Inr c"
    by (auto simp: Decode_config_def rbind_eq_Inr)
  from c2(1) obtain c1 where c1: "jmx_Update X ?c0 = Inr c1" "statse_Update X c1 = Inr c2"
    by (auto simp: validateExtra_def controller_modules_def rbind_eq_Inr split: option.splits)
  have n: "cf_Network c2 = net" using update_Network(1) [OF c1(1)] update_Network(2) [OF c1(2)] by (simp add: validateFilter_def)
  show ?thesis
  proof (cases net)
    case None
    with n c2(2) obtain m where "ReadFile self f = Inr m" "cf_Network c = Some m"
      by (auto simp: validateNetwork_def rbind_eq_Inr)
    with ReadFile_restrict show ?thesis by blast
  next
    case (Some m)
    with n c2(2) assms(2) show ?thesis by (simp add: validateNetwork_def)
  qed
qed

section \<open>Properties\<close>

text \<open>
  C34: A controller that has accepted its configuration file and serves answers every request with
  a view, with an error of the client, of the path or of the filter program: none of its handlers
  panics, whatever the method, the path, the query and the body are.
\<close>

theorem controller_answers:
  assumes "Decode_config (controller_modules X) self f groups net fpath extra = Inr c"
    "\<forall>e \<in> set extra. el_Value e = None"
    "net = None \<or> (\<exists>files p n. net = Some n \<and> network_UnmarshalXML self files p = Inr n)"
    "controller_main fl (Some (Inr c)) R run valid = Serving ct"
  shows "answered (serve_path ct meth p q body)"
proof -
  have "nc_restrict n \<noteq> []" if "net = Some n" for n
    using assms(3) that ReadFile_restrict by (auto simp: network_UnmarshalXML_def)
  then obtain n where n: "cf_Network c = Some n" "nc_restrict n \<noteq> []" using decoded_network [OF assms(1)] by blast
  have ct: "ct_net ct = n" "ct_config ct = c"
    using assms(4) n(1) by (auto simp: controller_main_def split: if_splits)
  note jmx = decoded_jmx_total [OF assms(1,2) n, THEN conjunct2]
  show ?thesis
  proof (cases "map_of routes p")
    case None
    then show ?thesis by (simp add: serve_path_def answered_def)
  next
    case (Some r)
    show ?thesis
    proof (cases r)
      case TspRoute
      have "answered (map_response TspView (ServeHTTP (parseKey p (ParseQuery q)) (View (ct_regex ct) (ct_filter ct) n (cf_Hosts c))))"
      proof (rule answered_ServeHTTP)
        show "\<exists>r. View (ct_regex ct) (ct_filter ct) n (cf_Hosts c) k = Some r" if "parseKey p (ParseQuery q) = Inr k" for k
          using parseKey_program [of p "ParseQuery q" "fst k" "snd k"] View_total [OF n(2), of "fst k" _ _ _ "snd k"] Some TspRoute that
          by (metis prod.collapse)
      qed
      with Some TspRoute ct show ?thesis by (simp add: serve_path_def)
    next
      case JmxRoute
      have "answered (map_response JmxView (ServeHTTP (jmx_parseKey (ParseQuery q)) (jmx_View (ct_regex ct) n c)))"
        by (rule answered_ServeHTTP) (use jmx in \<open>metis surj_pair\<close>)
      with Some JmxRoute ct show ?thesis by (simp add: serve_path_def)
    next
      case StatseRoute
      have "answered (map_response StatseView (ServeHTTP (statse_parseKey (ParseQuery q)) (statse_View (ct_regex ct) (ct_filter ct) n (cf_Hosts c))))"
        by (rule answered_ServeHTTP) (rule statse_View_total [OF n(2)])
      with Some StatseRoute ct show ?thesis by (simp add: serve_path_def)
    next
      case ValidateRoute
      with Some show ?thesis by (simp add: serve_path_def Validate_request_def answered_def)
    qed
  qed
qed

text \<open>A controller with an empty configuration file, without filter program and network file.\<close>

definition empty_decoded :: "mod_value config" where
  "empty_decoded = \<lparr>cf_Hosts = emptyHosts, cf_Network = Some (network_default ''self''),
     cf_FilterPath = ''/etc/tsp-controller/filter'', cf_Extra = []\<rparr>"

theorem controller_answers_witness:
  "\<exists>ct. controller_main \<lparr>fl_args = 0, fl_version = False, fl_test = False\<rparr> (Some (Inr empty_decoded)) literal_lib
       (Filter_Run (\<lambda>out. Inr []) (\<lambda>args. ExecNotExist)) (\<lambda>body. None) = Serving ct \<and>
     answered (serve_path ct ''GET'' ''/control/v1/tsdb-poller'' ''host=web1'' [])"
proof -
  have d: "Decode_config (controller_modules example_xml) ''self'' NotExist [] None [] [] = Inr empty_decoded"
    by (simp add: Decode_config_def empty_decoded_def emptyHosts_def validateFilter_def validateExtra_def controller_modules_def
        jmx_Update_def updateHost_def UpdateHost_def updateGlobal_def statse_Update_def validateNetwork_def ReadFile_def)
  obtain ct where ct: "controller_main \<lparr>fl_args = 0, fl_version = False, fl_test = False\<rparr> (Some (Inr empty_decoded)) literal_lib
       (Filter_Run (\<lambda>out. Inr []) (\<lambda>args. ExecNotExist)) (\<lambda>body. None) = Serving ct"
    by (simp add: controller_main_def)
  from controller_answers [OF d _ _ ct] ct show ?thesis by auto
qed

text \<open>A controller without the filter program has no rules of its own.\<close>

lemma missing_filter: "exec [fpath, program, h, cluster] = ExecNotExist \<Longrightarrow> Filter_Run json exec fpath program h cluster = Inr []"
  by (simp add: Filter_Run_def Filter_run_def)

end
