(* ===== verification/Plugin.thy ===== *)
theory Plugin
  imports Pipeline
begin

text \<open>
  A plugin process from the inside: the goroutines around its standard output
  (\<^verbatim>\<open>internal/collect/decoder.go\<close> and \<^verbatim>\<open>process.decode\<close>), the one that waits for its end and
  kills it (\<^verbatim>\<open>process.handleKill\<close>, \<^verbatim>\<open>process.Kill\<close>), and the logger of its standard error,
  all of \<^verbatim>\<open>internal/collect/process.go\<close>.

  The goroutines hand over values on channels without a buffer, so a hand-over is one step of
  both. The timer of the decoder is armed by every call of \<^verbatim>\<open>Decode\<close>; when it fires, the tick
  stays in the timer's channel until a \<^verbatim>\<open>select\<close> takes it, also over a later \<^verbatim>\<open>Reset\<close>.

  What is proved: the points that reach the queue are those of the sequential reading of
  \<^const>\<open>process_decode\<close>, for every interleaving; no goroutine is left behind, whether reading ends
  with the plugin or by the timeout; the end of a process is reported once, after which its pipes
  are closed and it is no longer counted, and reporting it does not block. Further, that a tick
  left over from a time when the queue was full kills a plugin that is not idle, and that an
  overlong line ends the logging of standard error.
\<close>

section \<open>Reading the points\<close>

datatype mainloop_state = Reading | HasPoint point | HasErr decode_error | MainEnded

datatype caller_state = InDecode | Enqueuing point | Blocked_on point | Returned decode_end

record plugin =
  pg_dec :: decoder
  pg_main :: mainloop_state
  pg_open :: bool
  pg_timer :: bool
  pg_tick :: bool
  pg_drain :: bool
  pg_call :: caller_state
  pg_sent :: "point list"
  pg_killChan :: bool
  pg_statPoints :: nat
  pg_statEnqueue :: nat

text \<open>\<^verbatim>\<open>newDecoder\<close> and the first call of \<^verbatim>\<open>Decode\<close> by \<^verbatim>\<open>process.decode\<close>.\<close>

definition newDecoder :: "bytes \<Rightarrow> plugin" where
  "newDecoder r = \<lparr>pg_dec = NewDecoder r, pg_main = Reading, pg_open = True, pg_timer = True, pg_tick = False, pg_drain = False,
     pg_call = InDecode, pg_sent = [], pg_killChan = False, pg_statPoints = 0, pg_statEnqueue = 0\<rparr>"

text \<open>The type switch of \<^verbatim>\<open>decoder.mainloop\<close> and \<^verbatim>\<open>process.decode\<close> on an error.\<close>

definition isSyntaxError :: "decode_error \<Rightarrow> bool" where
  "isSyntaxError e = (case e of ReadError _ \<Rightarrow> False | SyntaxError _ \<Rightarrow> True | OrderError _ \<Rightarrow> True)"

lemma isSyntaxError_simps [simp]:
  "\<not> isSyntaxError (ReadError r)" "isSyntaxError (SyntaxError t)" "isSyntaxError (OrderError o')"
  by (simp_all add: isSyntaxError_def)

lemma isSyntaxError_iff: "isSyntaxError e \<longleftrightarrow> (\<nexists>r. e = ReadError r)"
  by (cases e) simp_all

definition after_err :: "decode_error \<Rightarrow> mainloop_state" where
  "after_err e = (if isSyntaxError e then Reading else MainEnded)"

text \<open>A turn of \<^verbatim>\<open>decoder.mainloop\<close> up to its send.\<close>

definition mainloop_read :: "golib \<Rightarrow> time \<Rightarrow> point \<Rightarrow> plugin \<Rightarrow> plugin" where
  "mainloop_read L now pooled s =
     (case Decode L now pooled (pg_dec s) of
        (Inl e, d) \<Rightarrow> s\<lparr>pg_dec := d, pg_main := HasErr e\<rparr>
      | (Inr p, d) \<Rightarrow> s\<lparr>pg_dec := d, pg_main := HasPoint p\<rparr>)"

text \<open>\<^verbatim>\<open>process.decode\<close> goes back to \<^verbatim>\<open>Decode\<close>, which resets the timer.\<close>

definition decode_again :: "plugin \<Rightarrow> plugin" where
  "decode_again s = s\<lparr>pg_call := InDecode, pg_timer := True\<rparr>"

definition got_err :: "decode_error \<Rightarrow> plugin \<Rightarrow> plugin" where
  "got_err e s = (if isSyntaxError e then decode_again s else s\<lparr>pg_call := Returned Stopped\<rparr>)"

definition got_timeout :: "plugin \<Rightarrow> plugin" where
  "got_timeout s = s\<lparr>pg_tick := False, pg_drain := True, pg_killChan := True, pg_call := Returned KilledIdle\<rparr>"

definition enqueued :: "point \<Rightarrow> plugin \<Rightarrow> plugin" where
  "enqueued p s = decode_again (s\<lparr>pg_sent := pg_sent s @ [p]\<rparr>)"

text \<open>
  Closing the pipes, when the process has ended or is killed: what the decoder has in its buffer
  can still be read, what is in the pipe cannot.
\<close>

definition closePipes :: "nat \<Rightarrow> plugin \<Rightarrow> plugin" where
  "closePipes n s = s\<lparr>pg_open := False, pg_dec := (pg_dec s)\<lparr>d_input := take n (d_input (pg_dec s))\<rparr>\<rparr>"

inductive plugin_step :: "golib \<Rightarrow> plugin \<Rightarrow> plugin \<Rightarrow> bool" for L where
  read: "pg_main s = Reading \<Longrightarrow> plugin_step L s (mainloop_read L now pooled s)"
| recv_point: "pg_main s = HasPoint p \<Longrightarrow> pg_call s = InDecode \<Longrightarrow>
    plugin_step L s (s\<lparr>pg_main := Reading, pg_call := Enqueuing p, pg_statPoints := pg_statPoints s + 1\<rparr>)"
| recv_err: "pg_main s = HasErr e \<Longrightarrow> pg_call s = InDecode \<Longrightarrow> plugin_step L s (got_err e (s\<lparr>pg_main := after_err e\<rparr>))"
| fire: "pg_timer s \<Longrightarrow> plugin_step L s (s\<lparr>pg_timer := False, pg_tick := True\<rparr>)"
| timeout: "pg_tick s \<Longrightarrow> pg_call s = InDecode \<Longrightarrow> plugin_step L s (got_timeout s)"
| enqueue: "pg_call s = Enqueuing p \<Longrightarrow> plugin_step L s (enqueued p s)"
| queue_full: "pg_call s = Enqueuing p \<Longrightarrow>
    plugin_step L s (s\<lparr>pg_call := Blocked_on p, pg_statEnqueue := pg_statEnqueue s + 1\<rparr>)"
| queue_room: "pg_call s = Blocked_on p \<Longrightarrow> plugin_step L s (enqueued p s)"
| drain_point: "pg_drain s \<Longrightarrow> pg_main s = HasPoint p \<Longrightarrow> plugin_step L s (s\<lparr>pg_main := Reading\<rparr>)"
| drain_err: "pg_drain s \<Longrightarrow> pg_main s = HasErr e \<Longrightarrow> plugin_step L s (s\<lparr>pg_main := after_err e\<rparr>)"
| drain_closed: "pg_drain s \<Longrightarrow> pg_main s = MainEnded \<Longrightarrow> plugin_step L s (s\<lparr>pg_drain := False\<rparr>)"
| close_pipes: "pg_open s \<Longrightarrow> plugin_step L s (closePipes n s)"

lemmas plugin_defs = mainloop_read_def decode_again_def got_err_def got_timeout_def enqueued_def after_err_def closePipes_def

section \<open>The process\<close>

text \<open>
  \<^verbatim>\<open>handleKill\<close> waits for the end of the process or for a request to kill it, then for its end.
  The goroutine that waits for the process hands over its status; \<^verbatim>\<open>Exit\<close> and
  \<^verbatim>\<open>killChan\<close> hold one element.
\<close>

datatype handler_state = Selecting | Reaping | Handled

record proc =
  pr_alive :: bool
  pr_wait :: "exit_status option"
  pr_killChan :: bool
  pr_handler :: handler_state
  pr_pipes :: bool
  pr_Exit :: "exit_status option"
  pr_reports :: nat
  pr_statCount :: int

definition proc_started :: proc where
  "proc_started = \<lparr>pr_alive = True, pr_wait = None, pr_killChan = False, pr_handler = Selecting, pr_pipes = True,
     pr_Exit = None, pr_reports = 0, pr_statCount = 1\<rparr>"

definition process_Kill :: "proc \<Rightarrow> proc" where
  "process_Kill p = (if pr_killChan p then p else p\<lparr>pr_killChan := True\<rparr>)"

text \<open>The end of \<^verbatim>\<open>handleKill\<close>; it is blocked if there is a status in \<^verbatim>\<open>Exit\<close> already.\<close>

definition report :: "exit_status \<Rightarrow> proc \<Rightarrow> proc option" where
  "report err p =
     (if pr_Exit p \<noteq> None then None
      else Some (p\<lparr>pr_wait := None, pr_pipes := False, pr_Exit := Some err, pr_reports := pr_reports p + 1,
                   pr_handler := Handled, pr_statCount := pr_statCount p - 1\<rparr>))"

inductive proc_step :: "proc \<Rightarrow> proc \<Rightarrow> bool" where
  die: "pr_alive p \<Longrightarrow> status \<noteq> StartError \<Longrightarrow> proc_step p (p\<lparr>pr_alive := False, pr_wait := Some status\<rparr>)"
| own: "pr_handler p = Selecting \<Longrightarrow> pr_wait p = Some err \<Longrightarrow> report err p = Some p' \<Longrightarrow> proc_step p p'"
| killed: "pr_handler p = Selecting \<Longrightarrow> pr_killChan p \<Longrightarrow>
    proc_step p (p\<lparr>pr_killChan := False, pr_pipes := False, pr_handler := Reaping\<rparr>)"
| reaped: "pr_handler p = Reaping \<Longrightarrow> pr_wait p = Some err \<Longrightarrow> report err p = Some p' \<Longrightarrow> proc_step p p'"

text \<open>The process with calls of \<^verbatim>\<open>Kill\<close> in between, and the entry that takes the status.\<close>

inductive proc_reachable :: "proc \<Rightarrow> bool" where
  start: "proc_reachable proc_started"
| step: "proc_reachable p \<Longrightarrow> proc_step p p' \<Longrightarrow> proc_reachable p'"
| Kill: "proc_reachable p \<Longrightarrow> proc_reachable (process_Kill p)"
| take_Exit: "proc_reachable p \<Longrightarrow> pr_Exit p \<noteq> None \<Longrightarrow> proc_reachable (p\<lparr>pr_Exit := None\<rparr>)"

text \<open>\<^verbatim>\<open>stderrLogger\<close>: the lines it logs, and whether it stopped before the end of the stream.\<close>

definition stderrLogger :: "bytes \<Rightarrow> bytes list \<times> bool" where
  "stderrLogger r = scan_lines r"

section \<open>Stopping the pool\<close>

text \<open>
  \<^verbatim>\<open>directoryEntry.Kill\<close> is a request to remove the entry and waits for its loop to return;
  \<^verbatim>\<open>Pool.Kill\<close> makes the loop of the pool do it for its entries one by one.
\<close>

definition directoryEntry_Kill :: "pool_entry \<Rightarrow> pool_entry" where
  "directoryEntry_Kill e = (kill_wait e)\<lparr>pe_done := True\<rparr>"

definition Pool_Kill :: "(bytes \<times> pool_entry) list \<Rightarrow> (bytes \<times> pool_entry) list" where
  "Pool_Kill byPath = map (\<lambda>(path, e). (path, directoryEntry_Kill e)) byPath"

lemma Pool_Kill_reaps:
  assumes "\<forall>(path, e) \<in> set byPath. entry_reachable e \<and> \<not> pe_done e" "(path, e) \<in> set (Pool_Kill byPath)"
  shows "pe_done e \<and> pe_live e = 0"
proof -
  from assms obtain e0 where "entry_reachable e0" "\<not> pe_done e0" "e = directoryEntry_Kill e0"
    by (auto simp: Pool_Kill_def)
  then have "entry_inv e"
    using entry_step_inv [OF entry_step.remove] entry_reachable_inv by (simp add: directoryEntry_Kill_def)
  with \<open>e = directoryEntry_Kill e0\<close> show ?thesis by (simp add: entry_inv_def directoryEntry_Kill_def)
qed

section \<open>Reading a prefix of the output\<close>

text \<open>A line that was read is read the same way whatever follows it.\<close>

lemma scan_shape:
  assumes "scan d = (Inr line, d')"
  obtains rest where "CHR 0x0A \<notin> set line" "length line < bufioSize" "d_input d = line @ CHR 0x0A # rest"
proof -
  obtain sl rest where r: "ReadSlice (d_input d) (CHR 0x0A) = (sl, rest)" by (cases "ReadSlice (d_input d) (CHR 0x0A)")
  with assms obtain buf where b: "sl = Inr buf" "line = (if length buf > 0 then butlast buf else buf)"
    by (cases sl) (simp_all add: scan_def Let_def)
  with r obtain i where i: "index_byte (take bufioSize (d_input d)) (CHR 0x0A) = Some i" "buf = take (i + 1) (d_input d)"
    by (cases "index_byte (take bufioSize (d_input d)) (CHR 0x0A)") (simp_all add: ReadSlice_def split: if_splits)
  obtain ys zs where y: "take bufioSize (d_input d) = ys @ CHR 0x0A # zs" "CHR 0x0A \<notin> set ys" "i = length ys"
    by (rule index_byte_SomeE [OF i(1)])
  have "length (ys @ CHR 0x0A # zs) \<le> bufioSize" unfolding y(1) [symmetric] by simp
  then have "length ys < bufioSize" by simp
  moreover obtain zs' where d: "d_input d = ys @ CHR 0x0A # zs'"
    using y(1) append_take_drop_id [of bufioSize "d_input d"] by (metis append.assoc append_Cons)
  have "buf = ys @ [CHR 0x0A]" using i(2) by (simp add: d y(3))
  then have "line = ys" using b(2) by simp
  ultimately show ?thesis using that [of zs'] y(2) d by blast
qed

lemma validOrder_input:
  "validOrder now p (d\<lparr>d_input := w, d_statBytes := n\<rparr>) =
     (let (r, d') = validOrder now p (d\<lparr>d_input := v, d_statBytes := n\<rparr>) in (r, d'\<lparr>d_input := w\<rparr>))"
  by (simp add: validOrder_def dec_cleanup_def Let_def split: option.split)

lemma Decode_cut:
  assumes "Decode L now pooled d = (r, d')" "\<nexists>e. r = Inl (ReadError e)"
  shows "\<exists>u. d_input d = u @ d_input d' \<and>
    (\<forall>w. Decode L now pooled (d\<lparr>d_input := u @ w\<rparr>) = (r, d'\<lparr>d_input := w\<rparr>))"
proof -
  obtain sc d1 where s: "scan d = (sc, d1)" by (cases "scan d")
  with assms obtain line where l: "sc = Inr line" by (cases sc) (auto simp: Decode_def)
  obtain rest where rest: "CHR 0x0A \<notin> set line" "length line < bufioSize" "d_input d = line @ CHR 0x0A # rest"
    using scan_shape s l by blast
  have "d_input d = (line @ [CHR 0x0A]) @ d_input d'"
    using Decode_line(1) [OF rest, of L now pooled] assms(1) rest(3) by simp
  moreover have "Decode L now pooled (d\<lparr>d_input := (line @ [CHR 0x0A]) @ w\<rparr>) = (r, d'\<lparr>d_input := w\<rparr>)" for w
  proof -
    let ?n = "d_statBytes d + length line + 1"
    have "scan (d\<lparr>d_input := (line @ [CHR 0x0A]) @ w\<rparr>) = (Inr line, d\<lparr>d_input := w, d_statBytes := ?n\<rparr>)"
      using scan_line [OF rest(1,2), of "d\<lparr>d_input := (line @ [CHR 0x0A]) @ w\<rparr>" w] by simp
    with assms(1) scan_line [OF rest] show ?thesis
      by (cases "unmarshalText L line (getPoint pooled)")
        (auto simp: Decode_def validOrder_input [where w = w and d = d and v = rest] Let_def split: option.splits prod.splits if_splits)
  qed
  ultimately show ?thesis by blast
qed

definition points_of :: "decode_error + point \<Rightarrow> point list" where
  "points_of r = (case r of Inl _ \<Rightarrow> [] | Inr p \<Rightarrow> [p])"

lemma process_decode_Ready:
  assumes "Decode L now pooled d = (r, d1)" "\<nexists>e. r = Inl (ReadError e)"
  shows "process_decode L (Ready now pooled # ts) d = (let (ps, e, d') = process_decode L ts d1 in (points_of r @ ps, e, d'))"
proof (cases r)
  case (Inl e)
  with assms show ?thesis by (cases e) (simp_all add: points_of_def)
qed (use assms in \<open>simp add: points_of_def\<close>)

lemma process_decode_Waiting:
  assumes "process_decode L (t # ts) d = (ps, Waiting, d')"
  obtains now pooled r d1 qs where "t = Ready now pooled" "Decode L now pooled d = (r, d1)" "\<nexists>e. r = Inl (ReadError e)"
    "process_decode L ts d1 = (qs, Waiting, d')" "ps = points_of r @ qs"
proof (cases t)
  case (Ready now pooled)
  obtain r d1 where r: "Decode L now pooled d = (r, d1)" by (cases "Decode L now pooled d")
  have n: "\<nexists>e. r = Inl (ReadError e)" using assms r Ready by auto
  obtain qs e d2 where "process_decode L ts d1 = (qs, e, d2)" by (cases "process_decode L ts d1")
  with assms Ready process_decode_Ready [OF r n, of ts] that [OF Ready r n] show ?thesis by auto
qed (use assms in simp)

lemma process_decode_append:
  "process_decode L ts d = (ps, Waiting, d') \<Longrightarrow>
     process_decode L (ts @ us) d = (let (qs, e, d'') = process_decode L us d' in (ps @ qs, e, d''))"
proof (induction ts arbitrary: d ps)
  case (Cons t ts)
  from Cons.prems show ?case
    by (rule process_decode_Waiting) (auto simp: process_decode_Ready Cons.IH simp del: process_decode.simps(3) split: prod.splits)
qed simp

lemma process_decode_cut:
  "process_decode L ts d = (ps, Waiting, d') \<Longrightarrow>
     \<exists>u. d_input d = u @ d_input d' \<and> (\<forall>w. process_decode L ts (d\<lparr>d_input := u @ w\<rparr>) = (ps, Waiting, d'\<lparr>d_input := w\<rparr>))"
proof (induction ts arbitrary: d ps)
  case (Cons t ts)
  from Cons.prems obtain now pooled r d1 qs where t: "t = Ready now pooled" and r: "Decode L now pooled d = (r, d1)"
      and n: "\<nexists>e. r = Inl (ReadError e)" and q: "process_decode L ts d1 = (qs, Waiting, d')" "ps = points_of r @ qs"
    by (rule process_decode_Waiting)
  from Decode_cut [OF r n] obtain u where u: "d_input d = u @ d_input d1"
      "\<And>w. Decode L now pooled (d\<lparr>d_input := u @ w\<rparr>) = (r, d1\<lparr>d_input := w\<rparr>)" by blast
  from Cons.IH [OF q(1)] obtain v where v: "d_input d1 = v @ d_input d'"
      "\<And>w. process_decode L ts (d1\<lparr>d_input := v @ w\<rparr>) = (qs, Waiting, d'\<lparr>d_input := w\<rparr>)" by blast
  have "process_decode L (t # ts) (d\<lparr>d_input := (u @ v) @ w\<rparr>) = (ps, Waiting, d'\<lparr>d_input := w\<rparr>)" for w
    using process_decode_Ready [OF u(2) n, of ts "v @ w"] v(2) [of w] q(2) t by simp
  with u(1) v(1) show ?case by (intro exI [of _ "u @ v"]) simp
qed auto

section \<open>Every interleaving reads as the sequential loop\<close>

definition in_hand :: "caller_state \<Rightarrow> point list" where
  "in_hand c = (case c of Enqueuing p \<Rightarrow> [p] | Blocked_on p \<Rightarrow> [p] | _ \<Rightarrow> [])"

text \<open>What \<^verbatim>\<open>mainloop\<close> has in its hands, after reading with a decoder in state \<open>d\<close>.\<close>

definition pending :: "golib \<Rightarrow> decoder \<Rightarrow> plugin \<Rightarrow> bool" where
  "pending L d s \<longleftrightarrow>
     (case pg_main s of
        Reading \<Rightarrow> pg_dec s = d
      | HasPoint p \<Rightarrow> \<exists>now pooled. Decode L now pooled d = (Inr p, pg_dec s)
      | HasErr e \<Rightarrow> \<exists>now pooled d'. Decode L now pooled d = (Inl e, d') \<and> (isSyntaxError e \<longrightarrow> d' = pg_dec s)
      | MainEnded \<Rightarrow> False)"

lemma pending_upd [simp]:
  "pending L d (s\<lparr>pg_timer := b\<rparr>) = pending L d s" "pending L d (s\<lparr>pg_tick := b\<rparr>) = pending L d s"
  "pending L d (s\<lparr>pg_call := c\<rparr>) = pending L d s" "pending L d (s\<lparr>pg_sent := ps\<rparr>) = pending L d s"
  "pending L d (s\<lparr>pg_statEnqueue := n\<rparr>) = pending L d s"
  by (simp_all add: pending_def split: mainloop_state.split)

definition reads :: "golib \<Rightarrow> bytes \<Rightarrow> point list \<Rightarrow> decode_end \<Rightarrow> decoder \<Rightarrow> bool" where
  "reads L r ps e d \<longleftrightarrow> (\<exists>k ts. process_decode L ts (NewDecoder (take k r)) = (ps, e, d))"

definition follows_reading :: "golib \<Rightarrow> bytes \<Rightarrow> plugin \<Rightarrow> bool" where
  "follows_reading L r s \<longleftrightarrow>
     (case pg_call s of
        Returned e \<Rightarrow> \<exists>d. reads L r (pg_sent s) e d
      | c \<Rightarrow> \<exists>d. reads L r (pg_sent s @ in_hand c) Waiting d \<and> pending L d s)"

lemma reads_more:
  assumes "reads L r ps Waiting d" "process_decode L ts d = (qs, e, d')"
  shows "reads L r (ps @ qs) e d'"
  using assms process_decode_append [of L _ _ ps d ts] by (fastforce simp: reads_def)

lemma reads_cut:
  assumes "reads L r ps Waiting d"
  shows "reads L r ps Waiting (d\<lparr>d_input := take n (d_input d)\<rparr>)"
proof -
  from assms obtain k ts where "process_decode L ts (NewDecoder (take k r)) = (ps, Waiting, d)" by (auto simp: reads_def)
  from process_decode_cut [OF this] obtain u where u: "take k r = u @ d_input d"
      "\<And>w. process_decode L ts (NewDecoder (u @ w)) = (ps, Waiting, d\<lparr>d_input := w\<rparr>)"
    by (auto simp: NewDecoder_def)
  have "u @ take n (d_input d) = take (length u + n) (take k r)" unfolding u(1) by simp
  also have "\<dots> = take (min (length u + n) k) r" by simp
  finally show ?thesis using u(2) unfolding reads_def by metis
qed

lemma pending_cut:
  assumes "reads L r ps Waiting d" "pending L d s"
  shows "\<exists>d. reads L r ps Waiting d \<and> pending L d (closePipes n s)"
proof -
  have "\<exists>d1. reads L r ps Waiting d1 \<and> Decode L now pooled d1 = (res, (pg_dec s)\<lparr>d_input := take n (d_input (pg_dec s))\<rparr>)"
    if "Decode L now pooled d = (res, pg_dec s)" "\<nexists>e. res = Inl (ReadError e)" for now pooled res
  proof -
    from Decode_cut [OF that] obtain u where u: "d_input d = u @ d_input (pg_dec s)"
        "\<And>w. Decode L now pooled (d\<lparr>d_input := u @ w\<rparr>) = (res, (pg_dec s)\<lparr>d_input := w\<rparr>)" by blast
    have "take (length u + n) (d_input d) = u @ take n (d_input (pg_dec s))" unfolding u(1) by simp
    with u(2) reads_cut [OF assms(1), of "length u + n"] show ?thesis by metis
  qed
  note cut = this
  show ?thesis
  proof (cases "pg_main s")
    case Reading
    with assms reads_cut show ?thesis by (auto simp: pending_def closePipes_def)
  next
    case (HasPoint p)
    with assms(2) obtain now pooled where "Decode L now pooled d = (Inr p, pg_dec s)" by (auto simp: pending_def)
    with cut [OF this] HasPoint show ?thesis by (auto simp: pending_def closePipes_def)
  next
    case (HasErr e)
    with assms(2) obtain now pooled d' where e: "Decode L now pooled d = (Inl e, d')" "isSyntaxError e \<longrightarrow> d' = pg_dec s"
      by (auto simp: pending_def)
    show ?thesis
    proof (cases "isSyntaxError e")
      case True
      with e cut [of now pooled "Inl e"] HasErr show ?thesis
        by (auto simp: pending_def closePipes_def isSyntaxError_iff)
    qed (use assms(1) e HasErr in \<open>auto simp: pending_def closePipes_def\<close>)
  qed (use assms in \<open>auto simp: pending_def\<close>)
qed

text \<open>The reading goes on with what \<^verbatim>\<open>mainloop\<close> hands over.\<close>

lemma pending_point:
  assumes "reads L r ps Waiting d" "pending L d s" "pg_main s = HasPoint p"
  shows "reads L r (ps @ [p]) Waiting (pg_dec s)"
proof -
  from assms(2,3) obtain now pooled where "Decode L now pooled d = (Inr p, pg_dec s)" by (auto simp: pending_def)
  then show ?thesis using reads_more [OF assms(1), of "[Ready now pooled]"] by simp
qed

lemma pending_err:
  assumes "reads L r ps Waiting d" "pending L d s" "pg_main s = HasErr e"
  shows "if isSyntaxError e then reads L r ps Waiting (pg_dec s) else \<exists>d. reads L r ps Stopped d"
proof -
  from assms(2,3) obtain now pooled d' where e: "Decode L now pooled d = (Inl e, d')" "isSyntaxError e \<longrightarrow> d' = pg_dec s"
    by (auto simp: pending_def)
  show ?thesis
    using e reads_more [OF assms(1), of "[Ready now pooled]"] by (cases e) auto
qed

text \<open>Who is still there: the reader, its caller and the goroutine that drains.\<close>

definition roles :: "plugin \<Rightarrow> bool" where
  "roles s \<longleftrightarrow>
     (case pg_call s of
        Returned Stopped \<Rightarrow> pg_main s = MainEnded \<and> \<not> pg_drain s \<and> \<not> pg_killChan s
      | Returned KilledIdle \<Rightarrow> (pg_drain s \<or> pg_main s = MainEnded) \<and> pg_killChan s
      | Returned Waiting \<Rightarrow> False
      | _ \<Rightarrow> pg_main s \<noteq> MainEnded \<and> \<not> pg_drain s \<and> \<not> pg_killChan s) \<and>
     pg_statPoints s = length (pg_sent s @ in_hand (pg_call s))"

lemma plugin_step_roles: "plugin_step L s t \<Longrightarrow> roles s \<Longrightarrow> roles t"
  by (induction rule: plugin_step.induct)
    (auto simp: roles_def plugin_defs in_hand_def split: caller_state.splits decode_end.splits prod.splits sum.splits)

lemma drained: "roles s \<Longrightarrow> pg_drain s \<Longrightarrow> pg_call s = Returned KilledIdle"
  by (auto simp: roles_def split: caller_state.splits decode_end.splits)

lemma plugin_step_follows: "plugin_step L s t \<Longrightarrow> roles s \<Longrightarrow> follows_reading L r s \<Longrightarrow> follows_reading L r t"
proof (induction rule: plugin_step.induct)
  case (read s now pooled)
  then show ?case
    by (cases "Decode L now pooled (pg_dec s)"; cases "fst (Decode L now pooled (pg_dec s))")
      (fastforce simp: follows_reading_def mainloop_read_def pending_def split: caller_state.splits)+
next
  case (recv_point s p)
  then obtain d where "reads L r (pg_sent s) Waiting d" "pending L d s" by (auto simp: follows_reading_def in_hand_def)
  from pending_point [OF this recv_point(1)] show ?case by (simp add: follows_reading_def in_hand_def pending_def)
next
  case (recv_err s e)
  then obtain d where "reads L r (pg_sent s) Waiting d" "pending L d s" by (auto simp: follows_reading_def in_hand_def)
  from pending_err [OF this recv_err(1)] show ?case
    by (auto simp: follows_reading_def plugin_defs in_hand_def pending_def split: if_splits)
next
  case (timeout s)
  then obtain d where "reads L r (pg_sent s) Waiting d" by (auto simp: follows_reading_def in_hand_def)
  from reads_more [OF this, of "[Idle]"] show ?case by (auto simp: follows_reading_def got_timeout_def)
next
  case (close_pipes s n)
  then show ?case
    using pending_cut [of L r _ _ s n] by (simp add: follows_reading_def closePipes_def split: caller_state.splits) blast+
next
  case (fire s)
  then show ?case by (simp add: follows_reading_def split: caller_state.splits)
next
  case (drain_point s p)
  then show ?case using drained [of s] by (simp add: follows_reading_def)
next
  case (drain_err s e)
  then show ?case using drained [of s] by (simp add: follows_reading_def)
next
  case (drain_closed s)
  then show ?case using drained [of s] by (simp add: follows_reading_def)
qed (simp_all add: follows_reading_def enqueued_def decode_again_def in_hand_def)

text \<open>The number of steps that are left.\<close>

definition plugin_rank :: "plugin \<Rightarrow> nat" where
  "plugin_rank s = 9 * length (d_input (pg_dec s)) +
     (case pg_main s of Reading \<Rightarrow> 2 | HasPoint _ \<Rightarrow> 7 | HasErr e \<Rightarrow> if isSyntaxError e then 5 else 1 | MainEnded \<Rightarrow> 0) +
     (case pg_call s of InDecode \<Rightarrow> 2 | Enqueuing _ \<Rightarrow> 6 | Blocked_on _ \<Rightarrow> 5 | Returned _ \<Rightarrow> 0) +
     (if pg_timer s then 2 else 0) + (if pg_tick s then 1 else 0) + (if pg_drain s then 1 else 0) + (if pg_open s then 1 else 0)"

lemma mainloop_read_rank:
  assumes "pg_main s = Reading"
  shows "plugin_rank (mainloop_read L now pooled s) < plugin_rank s"
proof -
  obtain r d where r: "Decode L now pooled (pg_dec s) = (r, d)" by (cases "Decode L now pooled (pg_dec s)")
  show ?thesis
  proof (cases "\<exists>e. r = Inl (ReadError e)")
    case True
    have "length (d_input d) \<le> length (d_input (pg_dec s))"
      using r True by (auto simp: Decode_def scan_def ReadSlice_def Let_def split: option.splits if_splits sum.splits prod.splits)
    with True r assms show ?thesis by (auto simp: plugin_rank_def mainloop_read_def)
  next
    case False
    then have "length (d_input d) < length (d_input (pg_dec s))" using Decode_shorter [OF r] by blast
    with r assms show ?thesis by (cases r) (simp_all add: plugin_rank_def mainloop_read_def)
  qed
qed

lemma plugin_step_rank: "plugin_step L s t \<Longrightarrow> plugin_rank t < plugin_rank s"
proof (induction rule: plugin_step.induct)
  case (read s now pooled)
  then show ?case by (rule mainloop_read_rank)
qed (auto simp: plugin_rank_def decode_again_def got_err_def got_timeout_def enqueued_def after_err_def closePipes_def)

definition plugin_final :: "plugin \<Rightarrow> bool" where
  "plugin_final s \<longleftrightarrow> pg_main s = MainEnded \<and> \<not> pg_drain s \<and> pg_call s \<in> {Returned Stopped, Returned KilledIdle}"

lemma plugin_not_stuck: "roles s \<Longrightarrow> \<not> plugin_final s \<Longrightarrow> \<exists>t. plugin_step L s t"
proof (cases "pg_main s")
  case (HasPoint p)
  assume "roles s"
  with HasPoint show ?thesis
    by (cases "pg_call s") (auto simp: roles_def split: decode_end.splits intro: plugin_step.intros)
next
  case (HasErr e)
  assume "roles s"
  with HasErr show ?thesis
    by (cases "pg_call s") (auto simp: roles_def split: decode_end.splits intro: plugin_step.intros)
next
  case MainEnded
  assume "roles s" "\<not> plugin_final s"
  with MainEnded show ?thesis
    by (cases "pg_call s") (auto simp: roles_def plugin_final_def split: decode_end.splits intro: plugin_step.intros)
qed (blast intro: plugin_step.read)


definition plugin_inv :: "golib \<Rightarrow> bytes \<Rightarrow> plugin \<Rightarrow> bool" where
  "plugin_inv L r s \<longleftrightarrow> roles s \<and> follows_reading L r s"

interpretation plug: ending "plugin_step L" "plugin_inv L r" plugin_rank plugin_final for L r
  by unfold_locales
    (auto simp: plugin_inv_def plugin_step_roles plugin_step_follows plugin_step_rank plugin_not_stuck)

lemma newDecoder_inv: "plugin_inv L r (newDecoder r)"
proof -
  have "process_decode L [] (NewDecoder (take (length r) r)) = ([], Waiting, NewDecoder r)" by simp
  then have "reads L r [] Waiting (NewDecoder r)" unfolding reads_def by blast
  then show ?thesis
    by (auto simp: plugin_inv_def roles_def follows_reading_def newDecoder_def in_hand_def pending_def)
qed

section \<open>The end of a process\<close>

definition proc_inv :: "proc \<Rightarrow> bool" where
  "proc_inv p \<longleftrightarrow>
     (pr_handler p = Handled \<longleftrightarrow> pr_reports p = 1) \<and> pr_reports p \<le> 1 \<and>
     pr_statCount p = 1 - int (pr_reports p) \<and>
     (pr_handler p = Handled \<longrightarrow> \<not> pr_alive p \<and> \<not> pr_pipes p \<and> pr_wait p = None) \<and>
     (pr_handler p \<noteq> Handled \<longrightarrow> pr_Exit p = None \<and> (pr_alive p \<longleftrightarrow> pr_wait p = None)) \<and>
     (pr_handler p = Selecting \<longrightarrow> pr_pipes p)"

lemma proc_step_inv: "proc_step p p' \<Longrightarrow> proc_inv p \<Longrightarrow> proc_inv p'"
  by (induction rule: proc_step.induct) (auto simp: proc_inv_def report_def split: if_splits)

lemma proc_reachable_inv: "proc_reachable p \<Longrightarrow> proc_inv p"
proof (induction rule: proc_reachable.induct)
  case start
  show ?case by (simp add: proc_inv_def proc_started_def)
next
  case (step p p')
  then show ?case by (blast intro: proc_step_inv)
qed (auto simp: proc_inv_def process_Kill_def split: if_splits)

definition proc_rank :: "proc \<Rightarrow> nat" where
  "proc_rank p = (if pr_alive p then 1 else 0) + (case pr_handler p of Selecting \<Rightarrow> 2 | Reaping \<Rightarrow> 1 | Handled \<Rightarrow> 0)"

interpretation prc: ending proc_step proc_inv proc_rank "\<lambda>p. pr_handler p = Handled"
proof unfold_locales
  show "proc_step p p' \<Longrightarrow> proc_inv p \<Longrightarrow> proc_inv p'" for p p' by (rule proc_step_inv)
  show "proc_step p p' \<Longrightarrow> proc_inv p \<Longrightarrow> proc_rank p' < proc_rank p" for p p'
    by (induction rule: proc_step.induct) (auto simp: proc_rank_def report_def split: if_splits)
  show "\<exists>p'. proc_step p p'" if "proc_inv p" "pr_handler p \<noteq> Handled" for p
  proof (cases "pr_wait p")
    case None
    with that have "pr_alive p" by (simp add: proc_inv_def)
    then show ?thesis using proc_step.die [of p CleanExit] by blast
  next
    case (Some err)
    with that have "report err p \<noteq> None" by (auto simp: proc_inv_def report_def)
    with Some that show ?thesis
      by (cases "pr_handler p") (auto intro: proc_step.own proc_step.reaped)
  qed
qed

section \<open>Properties\<close>

text \<open>
  C30: However the goroutines of a plugin interleave, and wherever its pipe is closed, the points
  that reach the queue, with the one that waits for room, are in order the points that the
  sequential loop reads from a prefix of what the plugin writes; the loop ends the same way; and
  the counter of points counts them.
\<close>

theorem plugin_reads:
  assumes "(plugin_step L)\<^sup>*\<^sup>* (newDecoder r) s"
  shows "(\<exists>k ts e d. process_decode L ts (NewDecoder (take k r)) = (pg_sent s @ in_hand (pg_call s), e, d) \<and>
      (\<forall>e'. pg_call s = Returned e' \<longrightarrow> e = e')) \<and>
    pg_statPoints s = length (pg_sent s @ in_hand (pg_call s))"
proof -
  have inv: "plugin_inv L r s" by (rule plug.run_inv [OF assms newDecoder_inv])
  have "\<exists>e d. reads L r (pg_sent s @ in_hand (pg_call s)) e d \<and> (\<forall>e'. pg_call s = Returned e' \<longrightarrow> e = e')"
    using inv by (cases "pg_call s") (auto simp: plugin_inv_def follows_reading_def in_hand_def)
  with inv show ?thesis by (simp add: plugin_inv_def roles_def reads_def) blast
qed

text \<open>The end of the stream, and a plugin that writes nothing and exits.\<close>

lemma eof_run:
  assumes "pg_main s = Reading" "pg_call s = InDecode" "\<not> pg_drain s" "d_input (pg_dec s) = []"
  shows "\<exists>t. (plugin_step L ^^ 2) s t \<and> plugin_final t \<and> pg_call t = Returned Stopped \<and> pg_sent t = pg_sent s"
proof -
  obtain d where "Decode L 0 newPoint (pg_dec s) = (Inl (ReadError EOF), d)"
    using assms(4) by (simp add: Decode_def scan_def ReadSlice_def bufioSize_def)
  then have m: "mainloop_read L 0 newPoint s = s\<lparr>pg_dec := d, pg_main := HasErr (ReadError EOF)\<rparr>" (is "_ = ?m")
    by (simp add: mainloop_read_def)
  let ?t = "got_err (ReadError EOF) (?m\<lparr>pg_main := after_err (ReadError EOF)\<rparr>)"
  have "plugin_step L s ?m" using plugin_step.read [OF assms(1), of L 0 newPoint] by (simp only: m)
  moreover have "plugin_step L ?m ?t" by (rule plugin_step.recv_err) (simp_all add: assms)
  ultimately have "(plugin_step L ^^ 2) s ?t" by (auto simp: numeral_2_eq_2)
  then show ?thesis
    by (intro exI [of _ ?t]) (simp add: assms got_err_def after_err_def plugin_final_def)
qed

lemma silent_run:
  "\<exists>s. (plugin_step L ^^ 2) (newDecoder []) s \<and> plugin_final s \<and> pg_call s = Returned Stopped \<and> pg_sent s = []"
  using eof_run [of "newDecoder []" L] by (simp add: newDecoder_def NewDecoder_def)

lemma one_point_run:
  assumes "encodable L p"
  shows "\<exists>q s. (plugin_step L)\<^sup>*\<^sup>* (newDecoder (append_point L [] p @ [CHR 0x0A])) s \<and> same_point q p \<and>
    pg_call s = Returned Stopped \<and> pg_sent s = [q]"
proof -
  let ?s = "newDecoder (append_point L [] p @ [CHR 0x0A])"
  obtain q d where d: "Decode L 0 newPoint (pg_dec ?s) = (Inr q, d)" "same_point q p" "d_input d = []"
    using Decode_fresh [OF assms, of "NewDecoder (append_point L [] p @ [CHR 0x0A])" "[]" 0 newPoint]
    by (auto simp: newDecoder_def NewDecoder_def decoderMaxSeries_def)
  let ?r = "?s\<lparr>pg_dec := d, pg_main := HasPoint q\<rparr>"
  let ?e = "?r\<lparr>pg_main := Reading, pg_call := Enqueuing q, pg_statPoints := pg_statPoints ?r + 1\<rparr>"
  have "plugin_step L ?s ?r" using plugin_step.read [of ?s L 0 newPoint] d(1) by (simp add: mainloop_read_def newDecoder_def)
  moreover have "plugin_step L ?r ?e" by (rule plugin_step.recv_point) (simp_all add: newDecoder_def)
  moreover have "plugin_step L ?e (enqueued q ?e)" by (rule plugin_step.enqueue) simp
  moreover obtain t where "(plugin_step L ^^ 2) (enqueued q ?e) t" "pg_call t = Returned Stopped" "pg_sent t = [q]"
    using eof_run [of "enqueued q ?e" L] d(3) by (auto simp: enqueued_def decode_again_def newDecoder_def)
  ultimately show ?thesis using d(2)
    by (meson converse_rtranclp_into_rtranclp relpowp_imp_rtranclp)
qed

theorem plugin_reads_witness:
  "\<exists>k ts q d. process_decode latin1_lib ts (NewDecoder (take k (append_point latin1_lib [] (example_point 5000000000 1) @ [CHR 0x0A]))) =
     ([q], Stopped, d) \<and> same_point q (example_point 5000000000 1)"
proof -
  have "encodable latin1_lib (example_point 5000000000 1)" using example_encodable [of 5 1] by simp
  from one_point_run [OF this] obtain q s where s: "same_point q (example_point 5000000000 1)" "pg_call s = Returned Stopped" "pg_sent s = [q]"
    "(plugin_step latin1_lib)\<^sup>*\<^sup>* (newDecoder (append_point latin1_lib [] (example_point 5000000000 1) @ [CHR 0x0A])) s"
    by blast
  from plugin_reads [OF s(4)] s(1-3) show ?thesis by (auto simp: in_hand_def)
qed

text \<open>
  C31: No goroutine of a plugin is left behind. A run takes no more steps than a bound given by
  what the plugin writes, and where no step is left, the reader has ended, its caller has returned,
  after a read error or after the timeout, and nothing drains.
\<close>

theorem plugin_ends:
  assumes "(plugin_step L ^^ n) (newDecoder r) s"
  shows "n \<le> 9 * length r + 7 \<and> ((\<nexists>t. plugin_step L s t) \<longrightarrow> plugin_final s)"
proof -
  have "n + plugin_rank s \<le> plugin_rank (newDecoder r)" "plugin_inv L r s"
    using plug.run_bounded [OF assms newDecoder_inv] by simp_all
  moreover have "plugin_rank (newDecoder r) = 9 * length r + 7"
    by (simp add: plugin_rank_def newDecoder_def NewDecoder_def)
  ultimately show ?thesis using plug.not_stuck by fastforce
qed

theorem plugin_ends_witness:
  "\<exists>s. (plugin_step latin1_lib ^^ 2) (newDecoder []) s \<and> (2 :: nat) \<le> 9 * length [] + 7 \<and> plugin_final s"
  using silent_run [of latin1_lib] plugin_ends [of 2 latin1_lib "[]"] by auto

text \<open>
  Whenever a process has been asked to die or not, and however often: after at most three
  more steps its end has been reported, exactly once and without blocking; it is then dead, its
  pipes are closed, and it is no longer counted as running.
\<close>

theorem process_reported:
  assumes "proc_reachable p" "(proc_step ^^ n) p q"
  shows "n \<le> 3 \<and> pr_reports q \<le> 1 \<and>
    ((\<nexists>t. proc_step q t) \<longrightarrow> pr_reports q = 1 \<and> \<not> pr_alive q \<and> \<not> pr_pipes q \<and> pr_statCount q = 0)"
proof -
  have b: "n + proc_rank q \<le> proc_rank p" and inv: "proc_inv q"
    using prc.run_bounded [OF assms(2) proc_reachable_inv [OF assms(1)]] by simp_all
  have "proc_rank p \<le> 3" by (simp add: proc_rank_def split: handler_state.split)
  moreover have "pr_handler q = Handled" if "\<nexists>t. proc_step q t" using prc.not_stuck [OF inv] that by blast
  ultimately show ?thesis using b inv by (auto simp: proc_inv_def)
qed

text \<open>
  While a plugin waits for room in the queue its timer runs on. The tick stays in the timer's
  channel, so the next call of \<^verbatim>\<open>Decode\<close> may take it although its own timer has not fired and
  the next point is there: the plugin is killed as idle.
\<close>

lemma stale_tick_kills:
  assumes "Decode L now1 pooled1 (NewDecoder r) = (Inr p, d1)" "Decode L now2 pooled2 d1 = (Inr q, d2)"
  shows "\<exists>s t. (plugin_step L)\<^sup>*\<^sup>* (newDecoder r) s \<and> pg_main s = HasPoint q \<and> pg_timer s \<and> pg_call s = InDecode \<and>
    plugin_step L s t \<and> pg_call t = Returned KilledIdle \<and> pg_killChan t"
proof -
  let ?s1 = "mainloop_read L now1 pooled1 (newDecoder r)"
  let ?s2 = "?s1\<lparr>pg_main := Reading, pg_call := Enqueuing p, pg_statPoints := pg_statPoints ?s1 + 1\<rparr>"
  let ?s3 = "mainloop_read L now2 pooled2 ?s2"
  let ?s4 = "?s3\<lparr>pg_call := Blocked_on p, pg_statEnqueue := pg_statEnqueue ?s3 + 1\<rparr>"
  let ?s5 = "?s4\<lparr>pg_timer := False, pg_tick := True\<rparr>"
  let ?s6 = "enqueued p ?s5"
  note defs = mainloop_read_def newDecoder_def enqueued_def decode_again_def got_timeout_def assms
  have "plugin_step L (newDecoder r) ?s1" by (rule plugin_step.read) (simp add: newDecoder_def)
  moreover have "plugin_step L ?s1 ?s2" by (rule plugin_step.recv_point) (simp_all add: defs)
  moreover have "plugin_step L ?s2 ?s3" by (rule plugin_step.read) simp
  moreover have "plugin_step L ?s3 ?s4" by (rule plugin_step.queue_full) (simp add: defs)
  moreover have "plugin_step L ?s4 ?s5" by (rule plugin_step.fire) (simp add: defs)
  moreover have "plugin_step L ?s5 ?s6" by (rule plugin_step.queue_room) simp
  ultimately have "(plugin_step L)\<^sup>*\<^sup>* (newDecoder r) ?s6" by (meson converse_rtranclp_into_rtranclp rtranclp.rtrancl_refl)
  moreover have "plugin_step L ?s6 (got_timeout ?s6)" by (rule plugin_step.timeout) (simp_all add: defs)
  ultimately show ?thesis by (intro exI [of _ ?s6] exI [of _ "got_timeout ?s6"]) (simp add: defs)
qed

text \<open>
  The pipe is closed when the process has ended, whether or not it has been read to its end: a
  plugin that writes its points and exits may lose all of them.
\<close>

lemma last_points_lost:
  "\<exists>s. (plugin_step L)\<^sup>*\<^sup>* (newDecoder r) s \<and> plugin_final s \<and> pg_call s = Returned Stopped \<and> pg_sent s = []"
proof -
  have "plugin_step L (newDecoder r) (closePipes 0 (newDecoder r))" by (rule plugin_step.close_pipes) (simp add: newDecoder_def)
  moreover obtain s where "(plugin_step L ^^ 2) (closePipes 0 (newDecoder r)) s" "plugin_final s" "pg_call s = Returned Stopped" "pg_sent s = []"
    using eof_run [of "closePipes 0 (newDecoder r)" L] by (auto simp: newDecoder_def closePipes_def)
  ultimately show ?thesis by (meson converse_rtranclp_into_rtranclp relpowp_imp_rtranclp)
qed

text \<open>The logger of standard error stops at a line of 65536 bytes.\<close>

lemma stderr_overlong:
  assumes "length line \<ge> 65536" "CHR 0x0A \<notin> set (take 65536 line)"
  shows "stderrLogger (line @ rest) = ([], True)"
proof -
  have "line \<noteq> []" using assms(1) by auto
  with assms show ?thesis by (simp add: stderrLogger_def scan_lines.simps [of "line @ rest"] MaxScanTokenSize_def)
qed

end
