(* ===== verification/Shutdown.thy ===== *)
theory Shutdown
  imports Collect
begin

text \<open>
  Restarting a forwarder or poller: \<^verbatim>\<open>Restart\<close> of \<^verbatim>\<open>cmd/tsp-forwarder/config.go\<close> waits for a
  new configuration, stops the plugin pool (\<^verbatim>\<open>Pool.Kill\<close> of \<^verbatim>\<open>internal/collect/pool.go\<close>) and
  executes the program again. Stopping the pool is a conversation of three goroutines: the caller
  of \<^verbatim>\<open>Kill\<close>, the loop of the pool, and the watcher of the directory
  (\<^verbatim>\<open>internal/config/directory.go\<close>), which are the parts of the step relation below. Their
  channels have no buffer, so a hand-over is one step.

  What is proved: if the directory is at rest, the pool stops after a fixed number of its own
  steps, and is never without a next one; and if the
  watcher is about to report a change when the pool takes the request, the watcher waits for the
  pool, the pool for the watcher, and the program neither runs plugins nor restarts.
\<close>

section \<open>The goroutines\<close>

text \<open>The watcher waits in its \<^verbatim>\<open>select\<close>, or has events to report, or has returned.\<close>

datatype watcher_state = Watching | Reporting dir_event "dir_event list" | WatcherEnded

text \<open>The loop of the pool: its \<^verbatim>\<open>select\<close>, the entries left to kill, \<^verbatim>\<open>Directory.Stop\<close>, the end.\<close>

datatype pool_state = Selecting_event | Killing "bytes list" | StoppingDirectory | PoolEnded

record shutdown =
  sh_last :: listing
  sh_watcher :: watcher_state
  sh_pool :: pool_state
  sh_byPath :: "bytes list"
  sh_Kill :: bool   \<comment> \<open>\<^verbatim>\<open>Kill\<close> was called\<close>

definition pool_started :: shutdown where
  "pool_started = \<lparr>sh_last = [], sh_watcher = Watching, sh_pool = Selecting_event, sh_byPath = [], sh_Kill = False\<rparr>"

definition report_next :: "dir_event list \<Rightarrow> watcher_state" where
  "report_next es = (case es of [] \<Rightarrow> Watching | e # es \<Rightarrow> Reporting e es)"

inductive shutdown_step :: "shutdown \<Rightarrow> shutdown \<Rightarrow> bool" where
  tick: "sh_watcher s = Watching \<Longrightarrow>
    shutdown_step s (s\<lparr>sh_last := now, sh_watcher := report_next (diff (sh_last s) now)\<rparr>)"
| event: "sh_watcher s = Reporting e es \<Longrightarrow> sh_pool s = Selecting_event \<Longrightarrow> pool_event e (sh_byPath s) = Some b \<Longrightarrow>
    shutdown_step s (s\<lparr>sh_watcher := report_next es, sh_byPath := b\<rparr>)"
| request: "\<not> sh_Kill s \<Longrightarrow> shutdown_step s (s\<lparr>sh_Kill := True\<rparr>)"
| quit: "sh_pool s = Selecting_event \<Longrightarrow> sh_Kill s \<Longrightarrow> shutdown_step s (s\<lparr>sh_pool := Killing (sh_byPath s)\<rparr>)"
| kill_entry: "sh_pool s = Killing (p # ps) \<Longrightarrow> shutdown_step s (s\<lparr>sh_pool := Killing ps\<rparr>)"
| killed: "sh_pool s = Killing [] \<Longrightarrow> shutdown_step s (s\<lparr>sh_pool := StoppingDirectory\<rparr>)"
| stop: "sh_pool s = StoppingDirectory \<Longrightarrow> sh_watcher s = Watching \<Longrightarrow>
    shutdown_step s (s\<lparr>sh_pool := PoolEnded, sh_watcher := WatcherEnded\<rparr>)"

inductive_simps shutdown_step_simps: "shutdown_step s t"

text \<open>\<^verbatim>\<open>Restart\<close>: the program is executed again when \<^verbatim>\<open>Kill\<close> has returned.\<close>

definition restarts :: "shutdown \<Rightarrow> bool" where
  "restarts s \<longleftrightarrow> sh_pool s = PoolEnded"

section \<open>A pool that stops\<close>

text \<open>
  The directory is at rest as long as no scan finds a change. A step of the pool is one that
  changes where its loop is; between them the watcher may scan the directory any number of times.
\<close>

definition quiet :: "shutdown \<Rightarrow> bool" where
  "quiet s \<longleftrightarrow> (case sh_watcher s of Reporting _ _ \<Rightarrow> False | _ \<Rightarrow> True)"

definition pool_moves :: "shutdown \<Rightarrow> shutdown \<Rightarrow> bool" where
  "pool_moves s t \<longleftrightarrow> shutdown_step s t \<and> quiet t \<and> sh_pool t \<noteq> sh_pool s"

inductive quiet_run :: "shutdown \<Rightarrow> nat \<Rightarrow> shutdown \<Rightarrow> bool" for s where
  start: "quiet_run s 0 s"
| move: "quiet_run s n t \<Longrightarrow> pool_moves t u \<Longrightarrow> quiet_run s (Suc n) u"
| other: "quiet_run s n t \<Longrightarrow> shutdown_step t u \<Longrightarrow> quiet u \<Longrightarrow> sh_pool u = sh_pool t \<Longrightarrow> quiet_run s n u"

text \<open>The steps the pool has before it, and what holds while it is asked to stop and the directory is at rest.\<close>

definition steps_left :: "shutdown \<Rightarrow> nat" where
  "steps_left s =
     (case sh_pool s of
        Selecting_event \<Rightarrow> length (sh_byPath s) + 3
      | Killing ps \<Rightarrow> length ps + 2
      | StoppingDirectory \<Rightarrow> 1
      | PoolEnded \<Rightarrow> 0)"

definition calm :: "shutdown \<Rightarrow> bool" where
  "calm s \<longleftrightarrow> sh_Kill s \<and> quiet s \<and> (sh_watcher s = WatcherEnded \<longleftrightarrow> sh_pool s = PoolEnded)"

lemma calm_step:
  "shutdown_step s t \<Longrightarrow> calm s \<Longrightarrow> quiet t \<Longrightarrow>
     calm t \<and> steps_left s = steps_left t + (if sh_pool t = sh_pool s then 0 else 1)"
  by (induction rule: shutdown_step.induct) (auto simp: calm_def quiet_def steps_left_def report_next_def split: pool_state.splits list.splits)

interpretation stopping: ending pool_moves calm steps_left restarts
proof unfold_locales
  show "calm t" if "pool_moves s t" "calm s" for s t using that calm_step by (auto simp: pool_moves_def)
  show "steps_left t < steps_left s" if "pool_moves s t" "calm s" for s t
    using that calm_step [of s t] by (auto simp: pool_moves_def)
  show "\<exists>t. pool_moves s t" if c: "calm s" "\<not> restarts s" for s
  proof (cases "sh_pool s")
    case Selecting_event
    then have "shutdown_step s (s\<lparr>sh_pool := Killing (sh_byPath s)\<rparr>)" using c by (intro shutdown_step.quit) (simp_all add: calm_def)
    with c Selecting_event show ?thesis by (force simp: pool_moves_def calm_def quiet_def)
  next
    case (Killing ps)
    show ?thesis
    proof (cases ps)
      case Nil
      with Killing have "shutdown_step s (s\<lparr>sh_pool := StoppingDirectory\<rparr>)" by (intro shutdown_step.killed) simp
      with c Killing show ?thesis by (force simp: pool_moves_def calm_def quiet_def)
    next
      case (Cons p qs)
      with Killing have "shutdown_step s (s\<lparr>sh_pool := Killing qs\<rparr>)" by (intro shutdown_step.kill_entry) simp
      with c Killing Cons show ?thesis by (force simp: pool_moves_def calm_def quiet_def)
    qed
  next
    case StoppingDirectory
    then have "sh_watcher s = Watching" using c(1) by (cases "sh_watcher s") (auto simp: calm_def quiet_def)
    with StoppingDirectory have "shutdown_step s (s\<lparr>sh_pool := PoolEnded, sh_watcher := WatcherEnded\<rparr>)" by (intro shutdown_step.stop)
    with StoppingDirectory show ?thesis by (force simp: pool_moves_def quiet_def)
  qed (use c in \<open>simp add: restarts_def\<close>)
qed

lemma quiet_run_left: "quiet_run s n t \<Longrightarrow> calm s \<Longrightarrow> calm t \<and> steps_left s = n + steps_left t"
proof (induction rule: quiet_run.induct)
  case (move n t u)
  then show ?case using calm_step [of t u] by (auto simp: pool_moves_def)
next
  case (other n t u)
  then show ?case using calm_step [of t u] by auto
qed simp

lemma steps_left_restarts: "steps_left s = 0 \<longleftrightarrow> restarts s"
  by (auto simp: steps_left_def restarts_def split: pool_state.split)

section \<open>A pool that does not\<close>

text \<open>The watcher has something to report, and the loop of the pool no longer listens to it.\<close>

definition crossed :: "shutdown \<Rightarrow> bool" where
  "crossed s \<longleftrightarrow> (\<exists>e es. sh_watcher s = Reporting e es) \<and> sh_pool s \<notin> {Selecting_event, PoolEnded}"

interpretation hang: stepping shutdown_step crossed
proof unfold_locales
  show "crossed t" if "shutdown_step s t" "crossed s" for s t
    using that by (induction rule: shutdown_step.induct) (auto simp: crossed_def)
qed

section \<open>Properties\<close>

text \<open>
  C32: The plugin pool has been asked to stop. If the watcher is waiting and the directory is at
  rest, then in every run the pool has stopped, and the program restarts, exactly after one step of
  the pool per entry and three more; until then such a step is possible at any time, however often
  the watcher scans the directory in between. If the watcher is about to report a change when the
  pool takes the request, the program never restarts, whatever happens later.
\<close>

theorem restart_hangs:
  assumes "sh_Kill s" "sh_pool s = Selecting_event"
  shows "(\<forall>n t. sh_watcher s = Watching \<and> quiet_run s n t \<longrightarrow>
      n \<le> length (sh_byPath s) + 3 \<and> (restarts t \<longleftrightarrow> n = length (sh_byPath s) + 3) \<and> (\<not> restarts t \<longrightarrow> (\<exists>u. pool_moves t u))) \<and>
    (\<forall>e es t. sh_watcher s = Reporting e es \<and> shutdown_step\<^sup>*\<^sup>* (s\<lparr>sh_pool := Killing (sh_byPath s)\<rparr>) t \<longrightarrow> \<not> restarts t)"
proof -
  have "\<not> restarts t" if "sh_watcher s = Reporting e es" "shutdown_step\<^sup>*\<^sup>* (s\<lparr>sh_pool := Killing (sh_byPath s)\<rparr>) t" for e es t
  proof -
    have "crossed (s\<lparr>sh_pool := Killing (sh_byPath s)\<rparr>)" using that(1) by (simp add: crossed_def)
    from hang.run_inv [OF that(2) this] show ?thesis by (auto simp: crossed_def restarts_def)
  qed
  moreover have "n \<le> length (sh_byPath s) + 3 \<and> (restarts t \<longleftrightarrow> n = length (sh_byPath s) + 3) \<and> (\<not> restarts t \<longrightarrow> (\<exists>u. pool_moves t u))"
    if "sh_watcher s = Watching" "quiet_run s n t" for n t
  proof -
    have "calm s" "steps_left s = length (sh_byPath s) + 3" using assms that(1) by (simp_all add: calm_def quiet_def steps_left_def)
    with quiet_run_left [OF that(2)] have "calm t" "length (sh_byPath s) + 3 = n + steps_left t" by simp_all
    then show ?thesis using steps_left_restarts [of t] stopping.not_stuck [of t] by auto
  qed
  ultimately show ?thesis by blast
qed

text \<open>A new file, and a new configuration at the same time.\<close>

lemma crossing_reached:
  "\<exists>s. shutdown_step\<^sup>*\<^sup>* pool_started s \<and> sh_Kill s \<and> sh_pool s = Selecting_event \<and> sh_watcher s = Reporting (Create path) []"
proof -
  let ?now = "[(path, \<lparr>fi_Mode = 0, fi_ModTime = 0\<rparr>)]"
  let ?s1 = "pool_started\<lparr>sh_last := ?now, sh_watcher := report_next (diff (sh_last pool_started) ?now)\<rparr>"
  have "shutdown_step pool_started ?s1" by (rule shutdown_step.tick) (simp add: pool_started_def)
  moreover have "shutdown_step ?s1 (?s1\<lparr>sh_Kill := True\<rparr>)" by (rule shutdown_step.request) (simp add: pool_started_def)
  ultimately have "shutdown_step\<^sup>*\<^sup>* pool_started (?s1\<lparr>sh_Kill := True\<rparr>)"
    by (meson converse_rtranclp_into_rtranclp rtranclp.rtrancl_refl)
  moreover have "sh_watcher (?s1\<lparr>sh_Kill := True\<rparr>) = Reporting (Create path) []"
    by (simp add: pool_started_def diff_def present_event_def List.map_filter_simps report_next_def)
  moreover have "sh_Kill (?s1\<lparr>sh_Kill := True\<rparr>)" "sh_pool (?s1\<lparr>sh_Kill := True\<rparr>) = Selecting_event"
    by (simp_all add: pool_started_def)
  ultimately show ?thesis by blast
qed

theorem restart_hangs_witness:
  "\<exists>s. shutdown_step\<^sup>*\<^sup>* pool_started s \<and> sh_Kill s \<and> shutdown_step s (s\<lparr>sh_pool := Killing (sh_byPath s)\<rparr>) \<and>
     (\<forall>t. shutdown_step\<^sup>*\<^sup>* (s\<lparr>sh_pool := Killing (sh_byPath s)\<rparr>) t \<longrightarrow> \<not> restarts t)"
proof -
  obtain s where s: "shutdown_step\<^sup>*\<^sup>* pool_started s" "sh_Kill s" "sh_pool s = Selecting_event"
      "sh_watcher s = Reporting (Create ''plugin'') []" using crossing_reached by blast
  have "shutdown_step s (s\<lparr>sh_pool := Killing (sh_byPath s)\<rparr>)" by (rule shutdown_step.quit [OF s(3,2)])
  with s restart_hangs [OF s(2,3)] show ?thesis by blast
qed

end
