(* ===== verification/Zmq.thy ===== *)
theory Zmq
  imports Numbers
begin

unbundle bit_operations_syntax

text \<open>
  The binding to ZeroMQ in \<^verbatim>\<open>internal/github.com/vaughan0/go-zmq\<close>, as far as the listener of
  \<^verbatim>\<open>collect-statse\<close> uses it: errors (\<^verbatim>\<open>zmq.go\<close>), messages of several parts and the loops that
  repeat an interrupted call (\<^verbatim>\<open>zmq.go\<close>, \<^verbatim>\<open>poll.go\<close>), event masks (\<^verbatim>\<open>poll.go\<close>), the options
  that are set (\<^verbatim>\<open>sockopts.go\<close>) and pairs of sockets (\<^verbatim>\<open>util.go\<close>).

  The C library itself is a parameter: what its calls return, one after the other, is a list. A
  call that has not returned when the list ends is \<open>Waits\<close>.

  What is proved: messages arrive as they were sent, whatever calls are interrupted; a duration that
  fits is read back to the millisecond, and a longer one is not; a wait with a time limit may become
  a wait without one when it is interrupted.
\<close>

section \<open>Errors\<close>

datatype errno = ETERM | EAGAIN | EINTR | Errno nat

datatype zmq_error = ErrTerminated | ErrTimeout | ErrInterrupted | ErrText nat

fun zmqerr :: "errno \<Rightarrow> zmq_error" where
  "zmqerr ETERM = ErrTerminated"
| "zmqerr EAGAIN = ErrTimeout"
| "zmqerr EINTR = ErrInterrupted"
| "zmqerr (Errno n) = ErrText n"

datatype 'a call_result = Panic | Waits | Returned 'a

section \<open>Messages\<close>

text \<open>A message is a list of parts; on the socket each part says whether more follow.\<close>

type_synonym message = "bytes list"

type_synonym frame = "bytes \<times> bool"

text \<open>
  \<^verbatim>\<open>SendPart\<close>, with the results of \<^verbatim>\<open>zmq_msg_send\<close>: the error, the frames sent so far and the
  results that are left.
\<close>

fun SendPart :: "bytes \<Rightarrow> bool \<Rightarrow> errno option list \<Rightarrow> frame list \<Rightarrow> (zmq_error option \<times> frame list \<times> errno option list) call_result" where
  "SendPart part mr [] wire = Waits"
| "SendPart part mr (None # rs) wire = Returned (None, wire @ [(part, mr)], rs)"
| "SendPart part mr (Some e # rs) wire =
     (if zmqerr e = ErrInterrupted then SendPart part mr rs wire else Returned (Some (zmqerr e), wire, rs))"

fun Send_loop :: "message \<Rightarrow> errno option list \<Rightarrow> frame list \<Rightarrow> (zmq_error option \<times> frame list \<times> errno option list) call_result" where
  "Send_loop [] rs wire = Returned (None, wire, rs)"
| "Send_loop (part # parts) rs wire =
     (case SendPart part True rs wire of
        Returned (None, wire, rs) \<Rightarrow> Send_loop parts rs wire
      | r \<Rightarrow> r)"

definition Send :: "message \<Rightarrow> errno option list \<Rightarrow> frame list \<Rightarrow> (zmq_error option \<times> frame list \<times> errno option list) call_result" where
  "Send parts rs wire =
     (if parts = [] then Panic
      else case Send_loop (butlast parts) rs wire of
        Returned (None, wire, rs) \<Rightarrow> SendPart (last parts) False rs wire
      | r \<Rightarrow> r)"

text \<open>\<^verbatim>\<open>RecvPart\<close>, with the results of \<^verbatim>\<open>zmq_msg_recv\<close>.\<close>

fun RecvPart :: "(errno + frame) list \<Rightarrow> ((zmq_error + frame) \<times> (errno + frame) list) call_result" where
  "RecvPart [] = Waits"
| "RecvPart (Inr f # rs) = Returned (Inr f, rs)"
| "RecvPart (Inl e # rs) = (if zmqerr e = ErrInterrupted then RecvPart rs else Returned (Inl (zmqerr e), rs))"

lemma RecvPart_shorter: "RecvPart rs = Returned (f, rs') \<Longrightarrow> length rs' < length rs"
  by (induction rs rule: RecvPart.induct) (auto split: if_splits)

function Recv_loop :: "message \<Rightarrow> (errno + frame) list \<Rightarrow> ((zmq_error + message) \<times> (errno + frame) list) call_result" where
  "Recv_loop parts rs =
     (case RecvPart rs of
        Returned (Inl e, rs') \<Rightarrow> Returned (Inl e, rs')
      | Returned (Inr (part, mr), rs') \<Rightarrow>
          if mr then Recv_loop (parts @ [part]) rs' else Returned (Inr (parts @ [part]), rs')
      | Panic \<Rightarrow> Panic
      | Waits \<Rightarrow> Waits)"
  by pat_completeness auto
termination
  by (relation "measure (\<lambda>(parts, rs). length rs)") (auto dest: RecvPart_shorter [OF sym] RecvPart_shorter)

declare Recv_loop.simps [simp del]

definition Recv :: "(errno + frame) list \<Rightarrow> ((zmq_error + message) \<times> (errno + frame) list) call_result" where
  "Recv rs = Recv_loop [] rs"

section \<open>Events\<close>

type_synonym EventSet = int

definition In :: EventSet where "In = 1"
definition Out :: EventSet where "Out = 2"
definition ErrorEvent :: EventSet where "ErrorEvent = 4"
definition NoEvents :: EventSet where "NoEvents = 0"

definition CanRecv :: "EventSet \<Rightarrow> bool" where "CanRecv e \<longleftrightarrow> e AND In \<noteq> 0"
definition CanSend :: "EventSet \<Rightarrow> bool" where "CanSend e \<longleftrightarrow> e AND Out \<noteq> 0"
definition HasError :: "EventSet \<Rightarrow> bool" where "HasError e \<longleftrightarrow> e AND ErrorEvent \<noteq> 0"

text \<open>The items of a \<^verbatim>\<open>PollSet\<close>; what is polled is named by a number.\<close>

record poll_item =
  pi_target :: nat
  pi_events :: EventSet
  pi_revents :: EventSet

type_synonym PollSet = "poll_item list"

definition PollSet_Socket :: "nat \<Rightarrow> EventSet \<Rightarrow> PollSet \<Rightarrow> nat \<times> PollSet" where
  "PollSet_Socket sock events p = (length p, p @ [\<lparr>pi_target = sock, pi_events = events, pi_revents = 0\<rparr>])"

text \<open>An index out of range is a panic.\<close>

definition Update :: "nat \<Rightarrow> EventSet \<Rightarrow> PollSet \<Rightarrow> PollSet option" where
  "Update i events p = (if i < length p then Some (p[i := (p ! i)\<lparr>pi_events := events\<rparr>]) else None)"

definition Monitored :: "nat \<Rightarrow> PollSet \<Rightarrow> EventSet option" where
  "Monitored i p = (if i < length p then Some (pi_events (p ! i)) else None)"

definition Events :: "nat \<Rightarrow> PollSet \<Rightarrow> EventSet option" where
  "Events i p = (if i < length p then Some (pi_revents (p ! i)) else None)"

text \<open>
  \<^verbatim>\<open>Poll\<close>: for each call of \<^verbatim>\<open>zmq_poll\<close>, the time at which it is made and what it returns, the
  error or the number of items with events. The result lists the time limits it is called with.
\<close>

definition poll_micros :: "duration \<Rightarrow> time \<Rightarrow> time \<Rightarrow> int" where
  "poll_micros timeout started now = (if timeout < 0 then - 1 else tdiv (Sub (started + timeout) now) 1000)"

fun Poll_loop :: "duration \<Rightarrow> time \<Rightarrow> (time \<times> (errno + nat)) list \<Rightarrow> int list \<Rightarrow> ((zmq_error + nat) \<times> int list) call_result" where
  "Poll_loop timeout started [] asked = Waits"
| "Poll_loop timeout started ((now, r) # rs) asked =
     (let asked = asked @ [poll_micros timeout started now] in
      case r of
        Inr n \<Rightarrow> Returned (Inr n, asked)
      | Inl e \<Rightarrow> if zmqerr e = ErrInterrupted then Poll_loop timeout started rs asked else Returned (Inl (zmqerr e), asked))"

definition Poll :: "PollSet \<Rightarrow> duration \<Rightarrow> time \<Rightarrow> (time \<times> (errno + nat)) list \<Rightarrow> ((zmq_error + nat) \<times> int list) call_result" where
  "Poll p timeout started rs = (if p = [] then Returned (Inr 0, []) else Poll_loop timeout started rs [])"

section \<open>Options\<close>

text \<open>Durations of the options are in milliseconds; a negative number stands for no limit.\<close>

definition toDuration :: "int \<Rightarrow> duration \<Rightarrow> duration" where
  "toDuration ival unit = (if ival < 0 then - 1 else wrap64 (ival * unit))"

definition fromDuration :: "duration \<Rightarrow> duration \<Rightarrow> int" where
  "fromDuration d unit = (if d = - 1 then - 1 else tdiv d unit)"

definition millisecond :: duration where "millisecond = 1000000"

text \<open>The conversion of an \<^verbatim>\<open>int\<close> to a \<^verbatim>\<open>C.int\<close> keeps 32 bits.\<close>

definition cint :: "int \<Rightarrow> int" where
  "cint n = sint (word_of_int n :: 32 word)"

datatype sockopt =
    ZMQ_TYPE | ZMQ_SNDHWM | ZMQ_RCVHWM | ZMQ_RCVTIMEO | ZMQ_SNDTIMEO | ZMQ_RATE | ZMQ_RECOVERY_IVL | ZMQ_SNDBUF | ZMQ_RCVBUF
  | ZMQ_LINGER | ZMQ_RECONNECT_IVL | ZMQ_RECONNECT_IVL_MAX | ZMQ_BACKLOG | ZMQ_MULTICAST_HOPS | ZMQ_IPV4ONLY
  | ZMQ_DELAY_ATTACH_ON_CONNECT | ZMQ_FD | ZMQ_EVENTS | ZMQ_ROUTER_MANDATORY | ZMQ_XPUB_VERBOSE | ZMQ_TCP_KEEPALIVE
  | ZMQ_TCP_KEEPALIVE_IDLE | ZMQ_TCP_KEEPALIVE_CNT | ZMQ_TCP_KEEPALIVE_INTVL

datatype longopt = ZMQ_AFFINITY | ZMQ_MAXMSGSIZE

datatype binopt = ZMQ_IDENTITY | ZMQ_LAST_ENDPOINT | ZMQ_SUBSCRIBE | ZMQ_UNSUBSCRIBE | ZMQ_TCP_ACCEPT_FILTER

text \<open>
  A socket as the library keeps it: the values of the options, the filters of a subscriber
  and of accepted addresses, and which values the library refuses for an option.
\<close>

record zmq_socket =
  zs_open :: bool
  zs_ints :: "sockopt \<Rightarrow> int"
  zs_longs :: "longopt \<Rightarrow> int"
  zs_bins :: "binopt \<Rightarrow> bytes"
  zs_filters :: "bytes list"
  zs_accepts :: "bytes list"
  zs_refuses :: "sockopt \<Rightarrow> int \<Rightarrow> bool"

text \<open>A call that the library refuses is a panic; it refuses every call on a socket that is not open.\<close>

definition getInt :: "sockopt \<Rightarrow> zmq_socket \<Rightarrow> int option" where
  "getInt opt s = (if zs_open s then Some (zs_ints s opt) else None)"

definition setInt :: "sockopt \<Rightarrow> int \<Rightarrow> zmq_socket \<Rightarrow> zmq_socket option" where
  "setInt opt val s =
     (if zs_open s \<and> \<not> zs_refuses s opt (cint val) then Some (s\<lparr>zs_ints := (zs_ints s)(opt := cint val)\<rparr>) else None)"

definition SetRecvTimeout :: "duration \<Rightarrow> zmq_socket \<Rightarrow> zmq_socket option" where
  "SetRecvTimeout timeo s = setInt ZMQ_RCVTIMEO (fromDuration timeo millisecond) s"

definition SetSendTimeout :: "duration \<Rightarrow> zmq_socket \<Rightarrow> zmq_socket option" where
  "SetSendTimeout timeo s = setInt ZMQ_SNDTIMEO (fromDuration timeo millisecond) s"

definition SetLinger :: "duration \<Rightarrow> zmq_socket \<Rightarrow> zmq_socket option" where
  "SetLinger linger s = setInt ZMQ_LINGER (fromDuration linger millisecond) s"

definition GetLinger :: "zmq_socket \<Rightarrow> duration option" where
  "GetLinger s = map_option (\<lambda>v. toDuration v millisecond) (getInt ZMQ_LINGER s)"

definition GetSendTimeout :: "zmq_socket \<Rightarrow> duration option" where
  "GetSendTimeout s = map_option (\<lambda>v. toDuration v millisecond) (getInt ZMQ_SNDTIMEO s)"

text \<open>
  Options that are bytes: the identity is a value of up to 255 bytes, the filters add to a list.
  \<^verbatim>\<open>setBinary\<close> gives the library no pointer where there are no bytes.
\<close>

definition setBinary :: "binopt \<Rightarrow> bytes \<Rightarrow> zmq_socket \<Rightarrow> zmq_socket option" where
  "setBinary opt data s =
     (if \<not> zs_open s then None
      else case opt of
        ZMQ_IDENTITY \<Rightarrow> if data = [] \<or> length data > 255 then None else Some (s\<lparr>zs_bins := (zs_bins s)(ZMQ_IDENTITY := data)\<rparr>)
      | ZMQ_SUBSCRIBE \<Rightarrow> Some (s\<lparr>zs_filters := zs_filters s @ [data]\<rparr>)
      | ZMQ_UNSUBSCRIBE \<Rightarrow> Some (s\<lparr>zs_filters := remove1 data (zs_filters s)\<rparr>)
      | ZMQ_TCP_ACCEPT_FILTER \<Rightarrow> Some (s\<lparr>zs_accepts := (if data = [] then [] else zs_accepts s @ [data])\<rparr>)
      | ZMQ_LAST_ENDPOINT \<Rightarrow> None)"

definition Subscribe :: "bytes \<Rightarrow> zmq_socket \<Rightarrow> zmq_socket option" where
  "Subscribe f s = setBinary ZMQ_SUBSCRIBE f s"

definition Unsubscribe :: "bytes \<Rightarrow> zmq_socket \<Rightarrow> zmq_socket option" where
  "Unsubscribe f s = setBinary ZMQ_UNSUBSCRIBE f s"

text \<open>
  \<^verbatim>\<open>Context.Socket\<close> on the socket that the library makes, or its error: a new socket does not
  linger.
\<close>

definition Context_Socket :: "errno + zmq_socket \<Rightarrow> (zmq_error + zmq_socket) option" where
  "Context_Socket made =
     (case made of
        Inl e \<Rightarrow> Some (Inl (zmqerr e))
      | Inr s \<Rightarrow> map_option Inr (SetLinger 0 s))"

section \<open>Pairs\<close>

definition PairPrefix :: bytes where "PairPrefix = ''socket-pair-''"

definition nextId :: "nat \<Rightarrow> nat \<times> nat" where
  "nextId counter = (counter + 1, counter + 1)"

text \<open>
  \<^verbatim>\<open>MakePair\<close>, with the errors of its four calls: the address both sockets are attached to, or
  the error it panics with and whether the two sockets were made and so have to be closed.
\<close>

definition MakePair ::
  "errno option \<Rightarrow> errno option \<Rightarrow> errno option \<Rightarrow> errno option \<Rightarrow> nat \<Rightarrow> (zmq_error \<times> bool \<times> bool + bytes) \<times> nat" where
  "MakePair socket1 bind socket2 connect counter =
     (case nextId counter of (n, counter) \<Rightarrow>
       (case socket1 of
          Some e \<Rightarrow> Inl (zmqerr e, False, False)
        | None \<Rightarrow>
            (case bind of
               Some e \<Rightarrow> Inl (zmqerr e, True, False)
             | None \<Rightarrow>
                 (case socket2 of
                    Some e \<Rightarrow> Inl (zmqerr e, True, False)
                  | None \<Rightarrow>
                      (case connect of
                         Some e \<Rightarrow> Inl (zmqerr e, True, True)
                       | None \<Rightarrow> Inr (''inproc://'' @ PairPrefix @ ''-'' @ dec (int n))))), counter))"

section \<open>Messages arrive as they were sent\<close>

text \<open>What is on the socket for a message, and calls of which some are interrupted before they succeed.\<close>

definition frames :: "message \<Rightarrow> frame list" where
  "frames m = map (\<lambda>p. (p, True)) (butlast m) @ [(last m, False)]"

definition interrupted :: "nat \<Rightarrow> 'a \<Rightarrow> (errno + 'a) list" where
  "interrupted n x = replicate n (Inl EINTR) @ [Inr x]"

definition with_interrupts :: "nat list \<Rightarrow> 'a list \<Rightarrow> (errno + 'a) list" where
  "with_interrupts ns xs = concat (map2 interrupted ns xs)"

definition send_results :: "nat list \<Rightarrow> errno option list" where
  "send_results ns = concat (map (\<lambda>n. replicate n (Some EINTR) @ [None]) ns)"

lemma with_interrupts_Cons [simp]:
  "with_interrupts (n # ns) (x # xs) = interrupted n x @ with_interrupts ns xs"
  by (simp add: with_interrupts_def)

lemma RecvPart_interrupted [simp]: "RecvPart (interrupted n x @ rs) = Returned (Inr x, rs)"
  by (induction n) (simp_all add: interrupted_def)

lemma SendPart_interrupted [simp]:
  "SendPart part mr (replicate n (Some EINTR) @ None # rs) wire = Returned (None, wire @ [(part, mr)], rs)"
  by (induction n) simp_all

lemma Send_loop_ok:
  "length ns = length parts \<Longrightarrow>
     Send_loop parts (send_results ns @ rs) wire = Returned (None, wire @ map (\<lambda>p. (p, True)) parts, rs)"
  by (induction ns parts arbitrary: wire rule: list_induct2) (simp_all add: send_results_def)

lemma Send_ok:
  assumes "m \<noteq> []" "length ns = length m"
  shows "Send m (send_results ns @ rs) wire = Returned (None, wire @ frames m, rs)"
proof -
  obtain ns' n where ns: "ns = ns' @ [n]" using assms by (cases ns rule: rev_cases) auto
  have "length ns' = length (butlast m)" using assms ns by simp
  then have "Send_loop (butlast m) (send_results ns' @ send_results [n] @ rs) wire =
      Returned (None, wire @ map (\<lambda>p. (p, True)) (butlast m), send_results [n] @ rs)"
    by (rule Send_loop_ok)
  then show ?thesis using assms(1) ns by (simp add: Send_def send_results_def frames_def)
qed

lemma Recv_loop_frames:
  assumes "length ns = Suc (length ps)"
  shows "Recv_loop parts (with_interrupts ns (map (\<lambda>p. (p, True)) ps @ [(q, False)]) @ rs) =
    Returned (Inr (parts @ ps @ [q]), rs)"
  using assms
proof (induction ps arbitrary: ns parts)
  case Nil
  then obtain n where "ns = [n]" by (auto simp: length_Suc_conv)
  then show ?case by (simp add: Recv_loop.simps with_interrupts_def)
next
  case (Cons p ps)
  then obtain n ns' where ns: "ns = n # ns'" "length ns' = Suc (length ps)" by (auto simp: length_Suc_conv)
  with Cons.IH [OF ns(2), of "parts @ [p]"] show ?case by (simp add: Recv_loop.simps [of parts])
qed

lemma Recv_frames:
  assumes "m \<noteq> []" "length ns = length m"
  shows "Recv (with_interrupts ns (frames m) @ rs) = Returned (Inr m, rs)"
  using Recv_loop_frames [of ns "butlast m" "[]" "last m" rs] assms by (simp add: Recv_def frames_def)

text \<open>Several messages, one after the other.\<close>

fun Send_all :: "message list \<Rightarrow> errno option list \<Rightarrow> frame list \<Rightarrow> (zmq_error option \<times> frame list \<times> errno option list) call_result" where
  "Send_all [] rs wire = Returned (None, wire, rs)"
| "Send_all (m # ms) rs wire = (case Send m rs wire of Returned (None, wire, rs) \<Rightarrow> Send_all ms rs wire | r \<Rightarrow> r)"

fun Recv_all :: "nat \<Rightarrow> (errno + frame) list \<Rightarrow> message list" where
  "Recv_all 0 rs = []"
| "Recv_all (Suc n) rs = (case Recv rs of Returned (Inr m, rs) \<Rightarrow> m # Recv_all n rs | _ \<Rightarrow> [])"

text \<open>
  Messages of any numbers of parts are received as they were sent and in their order, whatever calls
  are interrupted on either side. A message without parts cannot be sent: \<^verbatim>\<open>Send\<close> panics.
\<close>

theorem messages_received:
  assumes "list_all2 (\<lambda>ns m. length ns = length m \<and> m \<noteq> []) nss ms" "list_all2 (\<lambda>ns m. length ns = length m) nss' ms"
  shows "Send_all ms (concat (map send_results nss)) [] = Returned (None, concat (map frames ms), []) \<and>
    Recv_all (length ms) (concat (map2 (\<lambda>ns m. with_interrupts ns (frames m)) nss' ms)) = ms \<and> Send [] rs wire = Panic"
proof -
  have "Send_all ms (concat (map send_results nss) @ rs) wire = Returned (None, wire @ concat (map frames ms), rs)" for wire rs
    using assms(1) by (induction nss ms arbitrary: wire rule: list_all2_induct) (simp_all add: Send_ok)
  from this [of "[]" "[]"] have 1: "Send_all ms (concat (map send_results nss)) [] = Returned (None, concat (map frames ms), [])"
    by simp
  have ne: "list_all (\<lambda>m. m \<noteq> []) ms" using assms(1) by (auto simp: list_all2_conv_all_nth list_all_length)
  have 2: "Recv_all (length ms) (concat (map2 (\<lambda>ns m. with_interrupts ns (frames m)) nss' ms)) = ms"
    using assms(2) ne by (induction nss' ms rule: list_all2_induct) (simp_all add: Recv_frames)
  from 1 2 show ?thesis by (simp add: Send_def)
qed

section \<open>Durations and time limits\<close>

text \<open>
  A duration of whole milliseconds that is not negative is read back if it is less than
  \<open>2\<^sup>3\<^sup>1\<close> milliseconds, about 25 days; a longer one is read back as a different one, or as no limit.
\<close>

lemma cint_id: "- (2 ^ 31) \<le> n \<Longrightarrow> n < 2 ^ 31 \<Longrightarrow> cint n = n"
  by (simp add: cint_def sint_sbintrunc' signed_take_bit_int_eq_self_iff)

lemma cint_range: "- (2 ^ 31) \<le> cint n \<and> cint n < 2 ^ 31"
  unfolding cint_def using sint_ge [of "word_of_int n :: 32 word"] sint_lt [of "word_of_int n :: 32 word"] by simp

lemma millis_wrap: "0 \<le> k \<Longrightarrow> k < 2 ^ 31 \<Longrightarrow> wrap64 (k * millisecond) = k * millisecond"
  by (intro wrap64_id) (simp add: in64_iff millisecond_def)

lemma fromDuration_millis: "0 \<le> n \<Longrightarrow> fromDuration (n * millisecond) millisecond = n"
  by (simp add: fromDuration_def tdiv_def millisecond_def sgn_if)

lemma cint_zero_duration [simp]: "cint (fromDuration 0 millisecond) = 0"
  by (simp add: cint_def fromDuration_def tdiv_def)

theorem linger_roundtrip:
  assumes "0 \<le> n" "SetLinger (n * millisecond) s = Some s'"
  shows "(GetLinger s' = Some (n * millisecond) \<longleftrightarrow> n < 2 ^ 31) \<and>
    (\<forall>s''. SetLinger (- 1) s' = Some s'' \<longrightarrow> GetLinger s'' = Some (- 1))"
proof -
  have f: "fromDuration (n * millisecond) millisecond = n"
    using assms(1) by (rule fromDuration_millis)
  have s': "zs_open s'" "zs_ints s' ZMQ_LINGER = cint n"
    using assms(2) f by (auto simp: SetLinger_def setInt_def split: if_splits)
  have get: "GetLinger s' = Some (toDuration (cint n) millisecond)"
    using s' by (simp add: GetLinger_def getInt_def)
  note small = millis_wrap
  have "GetLinger s' = Some (n * millisecond) \<longleftrightarrow> n < 2 ^ 31"
  proof
    assume "n < 2 ^ 31"
    then show "GetLinger s' = Some (n * millisecond)" using get cint_id [of n] small [of n] assms(1) by (simp add: toDuration_def)
  next
    assume "GetLinger s' = Some (n * millisecond)"
    then have "toDuration (cint n) millisecond = n * millisecond" using get by simp
    then show "n < 2 ^ 31"
      using small [of "cint n"] cint_range [of n] assms(1) by (auto simp: toDuration_def millisecond_def split: if_splits)
  qed
  moreover have "GetLinger s'' = Some (- 1)" if "SetLinger (- 1) s' = Some s''" for s''
    using that cint_id [of "- 1"] by (auto simp: SetLinger_def setInt_def GetLinger_def getInt_def fromDuration_def toDuration_def split: if_splits)
  ultimately show ?thesis by blast
qed

text \<open>
  A wait with a time limit that is interrupted after the limit has passed asks the library for a
  negative time, which means no limit.
\<close>

theorem poll_limit_lost:
  assumes "p \<noteq> []" "0 \<le> timeout" "started + timeout + 1000 \<le> now2" "now2 - started - timeout \<le> maxInt64"
  shows "\<exists>m1 m2. Poll p timeout started [(now1, Inl EINTR), (now2, Inr n)] = Returned (Inr n, [m1, m2]) \<and> m2 < 0"
proof -
  let ?x = "now2 - started - timeout"
  have x: "Sub (started + timeout) now2 = - ?x" "1000 \<le> ?x"
    using assms(3,4) by (simp_all add: Sub_def minInt64_def maxInt64_def)
  have "1 \<le> ?x div 1000" using zdiv_mono1 [OF x(2), of 1000] by simp
  then have "poll_micros timeout started now2 < 0"
    using assms(2) x by (simp add: poll_micros_def tdiv_def sgn_if)
  then show ?thesis using assms(1) by (simp add: Poll_def)
qed

text \<open>The addresses of pairs are different.\<close>

lemma pair_addresses:
  assumes "MakePair None None None None counter = (Inr a, counter')" "MakePair None None None None counter2 = (Inr b, counter2')"
    "counter' \<le> counter2"
  shows "a \<noteq> b"
proof -
  have "dec (int (counter + 1)) \<noteq> dec (int (counter2 + 1))"
    using assms dec_digits [of "int (counter + 1)"] dec_digits [of "int (counter2 + 1)"] by (auto simp: MakePair_def nextId_def)
  with assms show ?thesis by (auto simp: MakePair_def nextId_def)
qed

end
