(* ===== verification/Transport.thy ===== *)
theory Transport
  imports Aggregate "HOL-Library.Sublist"
begin

text \<open>
  The transport of events between \<^verbatim>\<open>collect-statse\<close> programs:
  \<^verbatim>\<open>cmd/collect-statse/aggregator/client.go\<close> and \<^verbatim>\<open>server.go\<close>. Every forwarder sends its events
  to the aggregator over one TCP connection at a time; the aggregator reads every connection in a
  goroutine of its own and writes the events to the store, which the scheduler reads and cleans up
  meanwhile.

  Of the library it is assumed what its documentation says. TCP delivers in order; a connection may
  break at any time, what is in flight is then lost from some point on, and the client may notice
  it at a later write, or not at all. An encoder of \<^verbatim>\<open>encoding/gob\<close> that has failed keeps failing;
  it leaves out fields that are zero, and a decoder leaves alone the fields that are left out, so
  that what the variable held before shows through. The key of a statistic is any integer on the wire.

  What is proved: on every connection of every client, the events that are written to the store are
  those that were sent, field by field, in this order, and all of them if the connection does not
  break; the store is the result of these writes, snapshots and cleanups; every event is sent once or
  given up and counted; a connection that has failed is not used again; a key out of range, from any
  peer, makes the aggregator panic, and keys of the protocol do not.
\<close>

section \<open>The listener\<close>

text \<open>
  \<^verbatim>\<open>listener.ReadParts\<close> of \<^verbatim>\<open>statse/listener.go\<close> on the parts of a ZeroMQ message: it takes the
  first two, and panics if there are fewer. After it, \<^verbatim>\<open>parse\<close> finds two parts always.
\<close>

definition ReadParts :: "bytes list \<Rightarrow> (bytes \<times> bytes) option" where
  "ReadParts parts = (case parts of a # b # _ \<Rightarrow> Some (a, b) | _ \<Rightarrow> None)"

lemma short_message_panics: "ReadParts parts = None \<longleftrightarrow> length parts < 2"
  by (auto simp: ReadParts_def split: list.split)

section \<open>The client\<close>

datatype encode_result = Encoded | EncodeNet | EncodeOther

record statse_client =
  tc_conn :: "nat option"
  tc_next :: nat
  tc_statNetwork :: nat

definition NewAggClient :: statse_client where
  "NewAggClient = \<lparr>tc_conn = None, tc_next = 0, tc_statNetwork = 0\<rparr>"

text \<open>
  \<^verbatim>\<open>dial\<close> tries until it succeeds; the argument is the number of attempts that fail. The
  connections are numbered.
\<close>

definition agg_dial :: "nat \<Rightarrow> statse_client \<Rightarrow> statse_client" where
  "agg_dial fails c = c\<lparr>tc_conn := Some (tc_next c), tc_next := tc_next c + 1, tc_statNetwork := tc_statNetwork c + fails\<rparr>"

definition connect :: "nat \<Rightarrow> statse_client \<Rightarrow> statse_client" where
  "connect fails c = (if tc_conn c = None then agg_dial fails c else c)"

text \<open>\<^verbatim>\<open>handle\<close>: whether the error was handled.\<close>

definition client_handle :: "encode_result \<Rightarrow> statse_client \<Rightarrow> statse_client option" where
  "client_handle err c =
     (if err = EncodeNet then Some (c\<lparr>tc_statNetwork := tc_statNetwork c + 1, tc_conn := None\<rparr>) else None)"

text \<open>\<^verbatim>\<open>Send\<close>; \<^const>\<open>None\<close> is its panic.\<close>

definition Send :: "nat \<Rightarrow> encode_result \<Rightarrow> statse_client \<Rightarrow> statse_client option" where
  "Send fails r c =
     (let c = connect fails c in
      if r = Encoded then Some c else client_handle r c)"

text \<open>\<^verbatim>\<open>Close\<close>, which panics without a connection.\<close>

definition client_Close :: "statse_client \<Rightarrow> statse_client option" where
  "client_Close c = (if tc_conn c = None then None else Some c)"

section \<open>Events on the wire\<close>

record wire_event =
  we_event :: event   \<comment> \<open>without statistics\<close>
  we_Statistics :: "(int \<times> float32) list"

definition MaxKeys :: int where "MaxKeys = 3"

fun to_key :: "int \<Rightarrow> stat_key option" where
  "to_key k = (if k = 0 then Some Time_key else if k = 1 then Some TTFB_key else if k = 2 then Some Size_key else None)"

fun of_key :: "stat_key \<Rightarrow> int" where
  "of_key Time_key = 0"
| "of_key TTFB_key = 1"
| "of_key Size_key = 2"

fun wire_stats :: "(int \<times> float32) list \<Rightarrow> (stat_key \<times> float32) list option" where
  "wire_stats [] = Some []"
| "wire_stats ((k, v) # ss) =
     Option.bind (to_key k) (\<lambda>k. map_option ((#) (k, v)) (wire_stats ss))"

definition encode_event :: "event \<Rightarrow> wire_event" where
  "encode_event e = \<lparr>we_event = e\<lparr>ev_Statistics := []\<rparr>, we_Statistics = map (\<lambda>(k, v). (of_key k, v)) (ev_Statistics e)\<rparr>"

definition event_of :: "wire_event \<Rightarrow> event option" where
  "event_of w = map_option (\<lambda>ss. (we_event w)\<lparr>ev_Statistics := ss\<rparr>) (wire_stats (we_Statistics w))"

text \<open>
  An encoded event: the fields that are not zero. Both zeros of a float are left out. Decoding a list
  overwrites the elements that are there.
\<close>

record frame =
  fr_Time :: "time option"
  fr_Metric :: "bytes option"
  fr_Tags :: "bytes option"
  fr_Error :: "bool option"
  fr_Statistics :: "(int option \<times> float32 option) list option"

definition nonzero :: "'a \<Rightarrow> 'a \<Rightarrow> 'a option" where
  "nonzero z x = (if x = z then None else Some x)"

definition sent_or :: "'a \<Rightarrow> 'a option \<Rightarrow> 'a" where
  "sent_or old x = (case x of None \<Rightarrow> old | Some y \<Rightarrow> y)"

definition zero_float :: "float32 \<Rightarrow> bool" where
  "zero_float v \<longleftrightarrow> v = 0 \<or> v = 0x80000000"

definition gob_Encode :: "wire_event \<Rightarrow> frame" where
  "gob_Encode w =
     \<lparr>fr_Time = nonzero zeroTime (ev_Time (we_event w)), fr_Metric = nonzero [] (ev_Metric (we_event w)),
      fr_Tags = nonzero [] (ev_Tags (we_event w)), fr_Error = nonzero False (ev_Error (we_event w)),
      fr_Statistics = (if we_Statistics w = [] then None
        else Some (map (\<lambda>(k, v). (nonzero 0 k, if zero_float v then None else Some v)) (we_Statistics w)))\<rparr>"

fun merge_stats :: "(int option \<times> float32 option) list \<Rightarrow> (int \<times> float32) list \<Rightarrow> (int \<times> float32) list" where
  "merge_stats [] old = []"
| "merge_stats ((k, v) # ss) old =
     (case old of
        [] \<Rightarrow> (sent_or 0 k, sent_or 0 v) # merge_stats ss []
      | (k0, v0) # old \<Rightarrow> (sent_or k0 k, sent_or v0 v) # merge_stats ss old)"

definition gob_Decode :: "frame \<Rightarrow> wire_event \<Rightarrow> wire_event" where
  "gob_Decode fr w =
     \<lparr>we_event = (we_event w)\<lparr>ev_Time := sent_or (ev_Time (we_event w)) (fr_Time fr),
         ev_Metric := sent_or (ev_Metric (we_event w)) (fr_Metric fr),
         ev_Tags := sent_or (ev_Tags (we_event w)) (fr_Tags fr),
         ev_Error := sent_or (ev_Error (we_event w)) (fr_Error fr)\<rparr>,
      we_Statistics = (case fr_Statistics fr of None \<Rightarrow> we_Statistics w | Some ss \<Rightarrow> merge_stats ss (we_Statistics w))\<rparr>"

section \<open>The server\<close>

text \<open>
  \<^verbatim>\<open>store.Write\<close> of an event from the wire: an event without host tag is dropped and one with
  an error only counted, otherwise the keys index the buffers of the entry.
\<close>

definition wire_Write :: "time \<Rightarrow> wire_event \<Rightarrow> draws \<times> store \<Rightarrow> (draws \<times> store) option" where
  "wire_Write now w rm =
     (if event_key_of (we_event w) = None \<or> ev_Error (we_event w) then Some (store_Write now [we_event w] rm)
      else map_option (\<lambda>ss. store_Write now [(we_event w)\<lparr>ev_Statistics := ss\<rparr>] rm) (wire_stats (we_Statistics w)))"

datatype recv = Got frame | NetFailed | DecodeFailed

record agg_server =
  as_store :: "draws \<times> store"
  as_Network :: nat
  as_Decode :: nat
  as_Records :: nat

definition die :: "recv \<Rightarrow> agg_server \<Rightarrow> agg_server" where
  "die e s = (if e = NetFailed then s\<lparr>as_Network := as_Network s + 1\<rparr> else s\<lparr>as_Decode := as_Decode s + 1\<rparr>)"

definition zero_wire :: wire_event where
  "zero_wire = \<lparr>we_event = zeroEvent, we_Statistics = []\<rparr>"

text \<open>
  One turn of \<^verbatim>\<open>serverConn.loop\<close> that decodes an event, with the variable \<^verbatim>\<open>event\<close>, from which
  \<^verbatim>\<open>Write\<close> strips the host tag: what is decoded, the variable afterwards, and the server.
  \<^const>\<open>None\<close> is a panic.
\<close>

definition conn_turn :: "time \<Rightarrow> frame \<Rightarrow> wire_event \<Rightarrow> agg_server \<Rightarrow> (wire_event \<times> wire_event \<times> agg_server) option" where
  "conn_turn now fr event s =
     (let event = zero_wire; event = gob_Decode fr event in
      map_option (\<lambda>rm.
        (event,
         event\<lparr>we_event := (we_event event)\<lparr>ev_Tags :=
           (case parseHostTag (ev_Tags (we_event event)) of None \<Rightarrow> ev_Tags (we_event event) | Some (_, tags) \<Rightarrow> tags)\<rparr>\<rparr>,
         s\<lparr>as_store := rm, as_Records := as_Records s + 1\<rparr>))
       (wire_Write now event (as_store s)))"

text \<open>\<^verbatim>\<open>serverConn.loop\<close> over what it decodes and when.\<close>

fun statse_serverConn :: "(time \<times> recv) list \<Rightarrow> wire_event \<Rightarrow> agg_server \<Rightarrow> agg_server option" where
  "statse_serverConn [] event s = Some s"
| "statse_serverConn ((now, Got fr) # rs) event s =
     Option.bind (conn_turn now fr event s) (\<lambda>(_, event, s). statse_serverConn rs event s)"
| "statse_serverConn ((now, e) # rs) event s = Some (die e s)"

section \<open>Clients and server together\<close>

text \<open>
  A connection is a client and a number. Besides the state of the programs and the network there
  are histories: what clients were asked to send, what they gave up, what they encoded on which
  connection, their failed attempts to connect, and the operations on the store.
\<close>

type_synonym conn_id = "nat \<times> nat"

datatype store_op = OpWrite conn_id time event | OpSnapshot draws | OpCleanup time

record transport =
  tr_clients :: "nat \<Rightarrow> statse_client"
  tr_flight :: "conn_id \<Rightarrow> frame list"
  tr_broken :: "conn_id set"
  tr_failed :: "conn_id set"
  tr_event :: "conn_id \<Rightarrow> wire_event"
  tr_server :: agg_server
  tr_submitted :: "nat \<Rightarrow> event list"
  tr_dropped :: "nat \<Rightarrow> event list"
  tr_attempts :: "nat \<Rightarrow> nat"
  tr_sent :: "conn_id \<Rightarrow> event list"
  tr_ops :: "store_op list"

definition new_transport :: "agg_server \<Rightarrow> transport" where
  "new_transport s = \<lparr>tr_clients = (\<lambda>_. NewAggClient), tr_flight = (\<lambda>_. []), tr_broken = {}, tr_failed = {},
     tr_event = (\<lambda>_. zero_wire), tr_server = s, tr_submitted = (\<lambda>_. []), tr_dropped = (\<lambda>_. []), tr_attempts = (\<lambda>_. 0),
     tr_sent = (\<lambda>_. []), tr_ops = []\<rparr>"

text \<open>The attempts to connect that fail in a call of \<^verbatim>\<open>Send\<close>.\<close>

definition dial_fails :: "nat \<Rightarrow> statse_client \<Rightarrow> nat" where
  "dial_fails fails c = (if tc_conn c = None then fails else 0)"

inductive transport_step :: "f32_arith \<Rightarrow> golib \<Rightarrow> transport \<Rightarrow> transport \<Rightarrow> bool" for A L where
  send: "Send fails Encoded (tr_clients s c) = Some cl \<Longrightarrow> tc_conn cl = Some i \<Longrightarrow> (c, i) \<notin> tr_failed s \<Longrightarrow>
    transport_step A L s (s\<lparr>tr_clients := (tr_clients s)(c := cl), tr_submitted := (tr_submitted s)(c := tr_submitted s c @ [e]),
      tr_attempts := (tr_attempts s)(c := tr_attempts s c + dial_fails fails (tr_clients s c)),
      tr_sent := (tr_sent s)((c, i) := tr_sent s (c, i) @ [e]),
      tr_flight := (if (c, i) \<in> tr_broken s then tr_flight s
        else (tr_flight s)((c, i) := tr_flight s (c, i) @ [gob_Encode (encode_event e)]))\<rparr>)"
| send_error: "Send fails EncodeNet (tr_clients s c) = Some cl \<Longrightarrow> tc_conn (connect fails (tr_clients s c)) = Some i \<Longrightarrow>
    transport_step A L s (s\<lparr>tr_clients := (tr_clients s)(c := cl), tr_submitted := (tr_submitted s)(c := tr_submitted s c @ [e]),
      tr_attempts := (tr_attempts s)(c := tr_attempts s c + dial_fails fails (tr_clients s c)),
      tr_dropped := (tr_dropped s)(c := tr_dropped s c @ [e]),
      tr_failed := insert (c, i) (tr_failed s), tr_broken := insert (c, i) (tr_broken s)\<rparr>)"
| break_conn: "transport_step A L s (s\<lparr>tr_broken := insert i (tr_broken s), tr_flight := (tr_flight s)(i := take n (tr_flight s i))\<rparr>)"
| receive: "tr_flight s i = fr # rest \<Longrightarrow> conn_turn now fr (tr_event s i) (tr_server s) = Some (w, event, sv) \<Longrightarrow> event_of w = Some e \<Longrightarrow>
    transport_step A L s (s\<lparr>tr_flight := (tr_flight s)(i := rest), tr_event := (tr_event s)(i := event), tr_server := sv,
      tr_ops := tr_ops s @ [OpWrite i now e]\<rparr>)"
| conn_dies: "i \<in> tr_broken s \<Longrightarrow> tr_flight s i = [] \<Longrightarrow> transport_step A L s (s\<lparr>tr_server := die r (tr_server s)\<rparr>)"
| take_snapshot: "snapshot A L pooled visit t (as_store (tr_server s)) = Some (r, m, ps) \<Longrightarrow>
    transport_step A L s (s\<lparr>tr_server := (tr_server s)\<lparr>as_store := (r, m)\<rparr>, tr_ops := tr_ops s @ [OpSnapshot r]\<rparr>)"
| clean_up: "as_store (tr_server s) = (r, m) \<Longrightarrow>
    transport_step A L s (s\<lparr>tr_server := (tr_server s)\<lparr>as_store := (r, cleanup now m)\<rparr>, tr_ops := tr_ops s @ [OpCleanup now]\<rparr>)"

section \<open>Encoding and decoding\<close>

text \<open>The event that arrives: a negative zero arrives as zero.\<close>

definition plus_zero :: "event \<Rightarrow> event" where
  "plus_zero e = e\<lparr>ev_Statistics := map (\<lambda>(k, v). (k, if zero_float v then 0 else v)) (ev_Statistics e)\<rparr>"

lemma sent_or_nonzero [simp]: "sent_or z (nonzero z x) = x"
  by (simp add: sent_or_def nonzero_def)

lemma merge_stats_fresh:
  "merge_stats (map (\<lambda>(k, v). (nonzero 0 k, if zero_float v then None else Some v)) ss) [] = map (\<lambda>(k, v). (k, if zero_float v then 0 else v)) ss"
  by (induction ss) (auto simp: sent_or_def [of 0 "None"] sent_or_def [of _ "Some _"])

lemma gob_roundtrip: "gob_Decode (gob_Encode (encode_event e)) zero_wire = encode_event (plus_zero e)"
proof -
  have "merge_stats (map (\<lambda>(k, v). (nonzero 0 k, if zero_float v then None else Some v)) (map (\<lambda>(k, v). (of_key k, v)) ss)) [] =
      map (\<lambda>(k, v). (of_key k, v)) (map (\<lambda>(k, v). (k, if zero_float v then 0 else v)) ss)" for ss
    unfolding merge_stats_fresh by (simp add: case_prod_unfold)
  then show ?thesis
    by (cases e) (auto simp: gob_Decode_def gob_Encode_def encode_event_def zero_wire_def zeroEvent_def plus_zero_def case_prod_unfold comp_def)
qed

lemma wire_stats_encoded: "wire_stats (map (\<lambda>(k, v). (of_key k, v)) ss) = Some ss"
proof (induction ss)
  case (Cons s ss)
  obtain k v where "s = (k, v)" by (cases s)
  with Cons show ?case by (cases k) simp_all
qed simp

lemma event_of_encoded [simp]: "event_of (encode_event e) = Some e"
  by (simp add: event_of_def encode_event_def wire_stats_encoded)

lemma event_key_of_stats [simp]: "event_key_of (e\<lparr>ev_Statistics := ss\<rparr>) = event_key_of e"
  by (simp add: event_key_of_def)

lemma store_Write_unused:
  "event_key_of e = None \<or> ev_Error e \<Longrightarrow> store_Write now [e\<lparr>ev_Statistics := ss\<rparr>] rm = store_Write now [e] rm"
  by (auto simp: store_Write_def write_event_def write_entry_def split: prod.split option.split)

text \<open>The keys of the protocol survive the transport, and writing such an event does not panic.\<close>

lemma wire_Write_encoded: "wire_Write now (encode_event e) rm = Some (store_Write now [e] rm)"
  by (simp add: wire_Write_def encode_event_def wire_stats_encoded store_Write_unused)

lemma conn_turn_encoded:
  "\<exists>event'. conn_turn now (gob_Encode (encode_event e)) event s =
     Some (encode_event (plus_zero e), event', s\<lparr>as_store := store_Write now [plus_zero e] (as_store s), as_Records := as_Records s + 1\<rparr>)"
  by (simp add: conn_turn_def Let_def gob_roundtrip wire_Write_encoded)

section \<open>The store\<close>

fun run_op :: "store_op \<Rightarrow> draws \<times> store \<Rightarrow> draws \<times> store" where
  "run_op (OpWrite i now e) rm = store_Write now [e] rm"
| "run_op (OpSnapshot r) rm = (r, map (\<lambda>(k, e). (k, reset_host e)) (snd rm))"
| "run_op (OpCleanup now) rm = (fst rm, cleanup now (snd rm))"

fun written :: "store_op list \<Rightarrow> (conn_id \<times> event) list" where
  "written [] = []"
| "written (OpWrite i now e # ops) = (i, e) # written ops"
| "written (_ # ops) = written ops"

definition written_by :: "conn_id \<Rightarrow> store_op list \<Rightarrow> event list" where
  "written_by i ops = map snd (filter (\<lambda>(j, e). j = i) (written ops))"

lemma written_append [simp]: "written (ops @ ops') = written ops @ written ops'"
  by (induction ops rule: written.induct) simp_all

definition no_cleanup :: "store_op list \<Rightarrow> bool" where
  "no_cleanup ops = list_all (\<lambda>op. case op of OpCleanup _ \<Rightarrow> False | _ \<Rightarrow> True) ops"

lemma lookup_reset:
  "en_CountOkay (lookup_entry (map (\<lambda>(k, e). (k, reset_host e)) m) k) = en_CountOkay (lookup_entry m k)"
  "en_CountError (lookup_entry (map (\<lambda>(k, e). (k, reset_host e)) m) k) = en_CountError (lookup_entry m k)"
  by (simp_all add: lookup_entry_def map_of_map reset_host_def split: option.split)

lemma counts_Write:
  "en_CountOkay (lookup_entry (snd (store_Write now [e] rm)) k) =
     en_CountOkay (lookup_entry (snd rm) k) + (if event_key_of e = Some k \<and> \<not> ev_Error e then 1 else 0)"
  "en_CountError (lookup_entry (snd (store_Write now [e] rm)) k) =
     en_CountError (lookup_entry (snd rm) k) + (if event_key_of e = Some k \<and> ev_Error e then 1 else 0)"
  using store_counts [of now "[e]" "fst rm" "snd rm" k] by auto

text \<open>Until a cleanup the counters count the events written.\<close>

lemma ops_counts:
  assumes "no_cleanup ops"
  shows "en_CountOkay (lookup_entry (snd (fold run_op ops rm)) k) = en_CountOkay (lookup_entry (snd rm) k) +
      of_nat (length (filter (\<lambda>(i, e). event_key_of e = Some k \<and> \<not> ev_Error e) (written ops)))"
    and "en_CountError (lookup_entry (snd (fold run_op ops rm)) k) = en_CountError (lookup_entry (snd rm) k) +
      of_nat (length (filter (\<lambda>(i, e). event_key_of e = Some k \<and> ev_Error e) (written ops)))"
  using assms
proof (induction ops arbitrary: rm)
  case (Cons op ops)
  case 1
  then show ?case using Cons.IH(1) by (cases op) (auto simp: no_cleanup_def counts_Write lookup_reset)
next
  case (Cons op ops)
  case 2
  then show ?case using Cons.IH(2) by (cases op) (auto simp: no_cleanup_def counts_Write lookup_reset)
qed simp_all

section \<open>The invariant of the transport\<close>

definition conn_ok :: "transport \<Rightarrow> conn_id \<Rightarrow> bool" where
  "conn_ok s i \<longleftrightarrow> (\<exists>gs es. written_by i (tr_ops s) = map plus_zero gs \<and> tr_flight s i = map (\<lambda>e. gob_Encode (encode_event e)) es \<and>
     prefix (gs @ es) (tr_sent s i) \<and> (i \<notin> tr_broken s \<longrightarrow> gs @ es = tr_sent s i))"

definition client_ok :: "transport \<Rightarrow> nat \<Rightarrow> bool" where
  "client_ok s c \<longleftrightarrow>
     (\<forall>i. tc_conn (tr_clients s c) = Some i \<longrightarrow> i < tc_next (tr_clients s c) \<and> (c, i) \<notin> tr_failed s) \<and>
     (\<forall>i \<ge> tc_next (tr_clients s c). tr_sent s (c, i) = [] \<and> (c, i) \<notin> tr_failed s) \<and>
     tc_statNetwork (tr_clients s c) = length (tr_dropped s c) + tr_attempts s c \<and>
     mset (tr_submitted s c) = mset (tr_dropped s c) + (\<Sum>i < tc_next (tr_clients s c). mset (tr_sent s (c, i)))"

definition transport_inv :: "agg_server \<Rightarrow> transport \<Rightarrow> bool" where
  "transport_inv sv s \<longleftrightarrow> (\<forall>i. conn_ok s i) \<and> (\<forall>c. client_ok s c) \<and> as_store (tr_server s) = fold run_op (tr_ops s) (as_store sv) \<and>
     as_Records (tr_server s) = as_Records sv + length (written (tr_ops s))"

lemma written_by_append [simp]: "written_by i (ops @ ops') = written_by i ops @ written_by i ops'"
  by (simp add: written_by_def)

lemma written_by_simps [simp]:
  "written_by i [] = []"
  "written_by i [OpWrite j now e] = (if j = i then [e] else [])"
  "written_by i [OpSnapshot r] = []"
  "written_by i [OpCleanup now] = []"
  by (simp_all add: written_by_def)

lemma new_transport_inv: "transport_inv sv (new_transport sv)"
  by (simp add: transport_inv_def conn_ok_def client_ok_def new_transport_def NewAggClient_def)

text \<open>A client that has connected, and what a call of \<^verbatim>\<open>Send\<close> does then.\<close>

definition connected :: "nat \<Rightarrow> nat \<Rightarrow> transport \<Rightarrow> transport" where
  "connected fails c s = s\<lparr>tr_clients := (tr_clients s)(c := connect fails (tr_clients s c)),
     tr_attempts := (tr_attempts s)(c := tr_attempts s c + dial_fails fails (tr_clients s c))\<rparr>"

lemma connected_ok: "client_ok s c \<Longrightarrow> client_ok (connected fails c s) c"
  by (auto simp: client_ok_def connected_def connect_def agg_dial_def dial_fails_def)

lemma connected_sel [simp]:
  "tr_clients (connected fails c s) = (tr_clients s)(c := connect fails (tr_clients s c))"
  "tr_sent (connected fails c s) = tr_sent s"
  "tr_failed (connected fails c s) = tr_failed s"
  "tr_dropped (connected fails c s) = tr_dropped s"
  "tr_submitted (connected fails c s) = tr_submitted s"
  "tr_attempts (connected fails c s) = (tr_attempts s)(c := tr_attempts s c + dial_fails fails (tr_clients s c))"
  by (simp_all add: connected_def)

lemma sent_more:
  assumes "i < (n::nat)"
  shows "(\<Sum>j < n. mset ((f((c, i) := f (c, i) @ [e])) (c, j))) = add_mset e (\<Sum>j < n. mset (f (c, j)))"
proof -
  have "(\<Sum>j \<in> {..<n} - {i}. mset ((f((c, i) := f (c, i) @ [e])) (c, j))) = (\<Sum>j \<in> {..<n} - {i}. mset (f (c, j)))"
    by (rule sum.cong) auto
  with assms show ?thesis
    using sum.remove [of "{..<n}" i "\<lambda>j. mset ((f((c, i) := f (c, i) @ [e])) (c, j))"]
      sum.remove [of "{..<n}" i "\<lambda>j. mset (f (c, j))"] by simp
qed

text \<open>The steps keep the invariant of every client,\<close>

lemma send_client:
  assumes ok: "client_ok s c" and i: "tc_conn (connect fails (tr_clients s c)) = Some i"
    and f: "tr_clients t c = connect fails (tr_clients s c)" "tr_failed t = tr_failed s" "tr_dropped t c = tr_dropped s c"
      "tr_attempts t c = tr_attempts s c + dial_fails fails (tr_clients s c)"
      "tr_submitted t c = tr_submitted s c @ [e]" "tr_sent t = (tr_sent s)((c, i) := tr_sent s (c, i) @ [e])"
  shows "client_ok t c"
proof -
  have c: "client_ok (connected fails c s) c" by (rule connected_ok [OF ok])
  then have "i < tc_next (connect fails (tr_clients s c))" using i by (simp add: client_ok_def)
  then show ?thesis using c f sent_more [of i _ "tr_sent s" c e] i
    by (auto simp: client_ok_def simp del: fun_upd_apply) (auto simp: client_ok_def)
qed

lemma fail_client:
  assumes ok: "client_ok s c" and i: "tc_conn (connect fails (tr_clients s c)) = Some i"
    and f: "client_handle EncodeNet (connect fails (tr_clients s c)) = Some (tr_clients t c)"
      "tr_failed t = insert (c, i) (tr_failed s)" "tr_dropped t c = tr_dropped s c @ [e]"
      "tr_attempts t c = tr_attempts s c + dial_fails fails (tr_clients s c)"
      "tr_submitted t c = tr_submitted s c @ [e]" "tr_sent t = tr_sent s"
  shows "client_ok t c"
proof -
  have c: "client_ok (connected fails c s) c" by (rule connected_ok [OF ok])
  have "tr_clients t c = (connect fails (tr_clients s c))\<lparr>tc_statNetwork := tc_statNetwork (connect fails (tr_clients s c)) + 1, tc_conn := None\<rparr>"
    using f(1) by (simp add: client_handle_def)
  then show ?thesis using c f i by (auto simp: client_ok_def)
qed

lemma other_client:
  assumes "client_ok s c" "tr_clients t c = tr_clients s c" "\<And>i. (c, i) \<in> tr_failed t \<longleftrightarrow> (c, i) \<in> tr_failed s"
    "tr_dropped t c = tr_dropped s c" "tr_attempts t c = tr_attempts s c" "tr_submitted t c = tr_submitted s c"
    "\<And>i. tr_sent t (c, i) = tr_sent s (c, i)"
  shows "client_ok t c"
  using assms by (simp add: client_ok_def)

lemma step_client: "transport_step A L s t \<Longrightarrow> \<forall>c. client_ok s c \<Longrightarrow> client_ok t d"
proof (induction rule: transport_step.induct)
  case (send fails s c cl i e)
  then show ?case
    by (cases "d = c") (auto simp: Send_def Let_def intro: send_client [of s c fails i _ e] other_client [of s d])
next
  case (send_error fails s c cl i e)
  then show ?case
    by (cases "d = c") (auto simp: Send_def Let_def intro: fail_client [of s c fails i _ e] other_client [of s d])
qed (auto intro: other_client)

text \<open>and that of every connection.\<close>

lemma conn_okI:
  assumes "written_by i (tr_ops s) = map plus_zero gs" "tr_flight s i = map (\<lambda>e. gob_Encode (encode_event e)) es"
    "prefix (gs @ es) (tr_sent s i)" "i \<notin> tr_broken s \<Longrightarrow> gs @ es = tr_sent s i"
  shows "conn_ok s i"
  using assms by (auto simp: conn_ok_def)

lemma conn_okE:
  assumes "conn_ok s i"
  obtains gs es where "written_by i (tr_ops s) = map plus_zero gs" "tr_flight s i = map (\<lambda>e. gob_Encode (encode_event e)) es"
    "prefix (gs @ es) (tr_sent s i)" "i \<notin> tr_broken s \<Longrightarrow> gs @ es = tr_sent s i"
  using assms by (auto simp: conn_ok_def)

lemma other_conn:
  assumes "conn_ok s i" "written_by i (tr_ops t) = written_by i (tr_ops s)" "tr_flight t i = tr_flight s i"
    "tr_sent t i = tr_sent s i" "i \<in> tr_broken s \<Longrightarrow> i \<in> tr_broken t"
  shows "conn_ok t i"
  using assms by (auto simp: conn_ok_def)

lemma step_conn: "transport_step A L s t \<Longrightarrow> \<forall>i. conn_ok s i \<Longrightarrow> conn_ok t j"
proof (induction rule: transport_step.induct)
  case (send fails s c cl i e)
  obtain gs es where g: "written_by j (tr_ops s) = map plus_zero gs" "tr_flight s j = map (\<lambda>e. gob_Encode (encode_event e)) es"
      "prefix (gs @ es) (tr_sent s j)" "j \<notin> tr_broken s \<Longrightarrow> gs @ es = tr_sent s j"
    using send.prems by (blast elim: conn_okE)
  show ?case
  proof (cases "j = (c, i)")
    case True
    with g show ?thesis
      by (intro conn_okI [where gs = gs and es = "if j \<in> tr_broken s then es else es @ [e]"]) (auto simp: prefix_def)
  next
    case False
    then show ?thesis using send.prems by - (rule other_conn [of s j], erule spec, auto)
  qed
next
  case (break_conn s i n)
  obtain gs es where g: "written_by j (tr_ops s) = map plus_zero gs" "tr_flight s j = map (\<lambda>e. gob_Encode (encode_event e)) es"
      "prefix (gs @ es) (tr_sent s j)" "j \<notin> tr_broken s \<Longrightarrow> gs @ es = tr_sent s j"
    using break_conn.prems by (blast elim: conn_okE)
  have "prefix (gs @ take n es) (tr_sent s j)"
    by (rule prefix_order.order_trans [OF _ g(3)]) (simp add: take_is_prefix)
  with g show ?case
    by (intro conn_okI [where gs = gs and es = "if j = i then take n es else es"])
      (auto simp: take_map)
next
  case (receive s i fr rest now w event sv e)
  obtain gs es where g: "written_by i (tr_ops s) = map plus_zero gs" "tr_flight s i = map (\<lambda>e. gob_Encode (encode_event e)) es"
      "prefix (gs @ es) (tr_sent s i)" "i \<notin> tr_broken s \<Longrightarrow> gs @ es = tr_sent s i"
    using receive.prems by (blast elim: conn_okE)
  obtain x xs where x: "es = x # xs" "fr = gob_Encode (encode_event x)" "rest = map (\<lambda>e. gob_Encode (encode_event e)) xs"
    using g(2) receive.hyps(1) by (cases es) auto
  have e: "e = plus_zero x" using receive.hyps conn_turn_encoded [of now x "tr_event s i" "tr_server s"] x by auto
  show ?case
  proof (cases "j = i")
    case True
    with g x e show ?thesis by (intro conn_okI [where gs = "gs @ [x]" and es = xs]) auto
  next
    case False
    then show ?thesis using receive.prems by - (rule other_conn [of s j], erule spec, auto)
  qed
qed (rule other_conn, erule spec, simp, simp, simp, simp)+

text \<open>The store holds the result of the operations.\<close>

lemma step_store:
  assumes "transport_step A L s t" "\<forall>i. conn_ok s i"
    "as_store (tr_server s) = fold run_op (tr_ops s) (as_store sv)"
    "as_Records (tr_server s) = as_Records sv + length (written (tr_ops s))"
  shows "as_store (tr_server t) = fold run_op (tr_ops t) (as_store sv) \<and>
    as_Records (tr_server t) = as_Records sv + length (written (tr_ops t))"
  using assms
proof (induction rule: transport_step.induct)
  case (receive s i fr rest now w event sv' e)
  obtain gs es where "tr_flight s i = map (\<lambda>e. gob_Encode (encode_event e)) es"
    using spec [OF receive.prems(1), of i] by (rule conn_okE)
  then obtain x where "fr = gob_Encode (encode_event x)" using receive.hyps(1) by (cases es) auto
  then have "w = encode_event (plus_zero x)" "sv' = (tr_server s)\<lparr>as_store := store_Write now [plus_zero x] (as_store (tr_server s)),
      as_Records := as_Records (tr_server s) + 1\<rparr>"
    using receive.hyps(2) conn_turn_encoded [of now x "tr_event s i" "tr_server s"] by auto
  then show ?case using receive.hyps(3) receive.prems(2,3) by simp
next
  case (take_snapshot pooled visit t s r m ps)
  obtain r0 m0 where m0: "as_store (tr_server s) = (r0, m0)" by (cases "as_store (tr_server s)")
  with take_snapshot.hyps have "m = map (\<lambda>(k, e). (k, reset_host e)) m0" by (simp add: snapshot_store)
  with take_snapshot.prems m0 show ?case by (simp flip: take_snapshot.prems(2))
qed (simp_all add: die_def)

interpretation tr: stepping "transport_step A L" "transport_inv sv" for A L sv
proof
  fix s t
  assume "transport_step A L s t" "transport_inv sv s"
  then show "transport_inv sv t"
    using step_client [of A L s t] step_conn [of A L s t] step_store [of A L s t sv] by (auto simp: transport_inv_def)
qed

text \<open>What a reader of a connection finds next can be decoded and written.\<close>

lemma flight_decoded:
  assumes "conn_ok s i" "tr_flight s i = fr # rest"
  shows "\<exists>w event sv e. conn_turn now fr (tr_event s i) (tr_server s) = Some (w, event, sv) \<and> event_of w = Some e"
proof -
  obtain gs es where "tr_flight s i = map (\<lambda>e. gob_Encode (encode_event e)) es" using assms(1) by (rule conn_okE)
  then obtain x where "fr = gob_Encode (encode_event x)" using assms(2) by (cases es) auto
  then show ?thesis using conn_turn_encoded [of now x "tr_event s i" "tr_server s"] by auto
qed

text \<open>
  C25: However many clients send, connections break and the scheduler reads and cleans up the store:
  \<^item> the events of a connection that are written to the store are the first of those that were sent
    on it, in order and field by field but for the sign of a zero, and all of them if the connection
    has not broken and nothing is on its way. Nothing shows through of the event decoded before;
  \<^item> what is on its way can be decoded and written without a panic;
  \<^item> the store is the result of these writes and of the scheduler's snapshots and cleanups, and as
    many records are counted;
  \<^item> every event that a client was given was sent on exactly one of its connections or given up; the
    network errors it counts are the events given up and the failed attempts to connect; and a
    connection with an error is not used again, in particular not for the next event;
  \<^item> until a cleanup removes an entry, its counters are the number of the events written with its
    key, without and with error.
\<close>

theorem transport_delivers:
  assumes "(transport_step A L)\<^sup>*\<^sup>* (new_transport sv) s"
  shows "prefix (written_by (c, i) (tr_ops s)) (map plus_zero (tr_sent s (c, i))) \<and>
    ((c, i) \<notin> tr_broken s \<and> tr_flight s (c, i) = [] \<longrightarrow> written_by (c, i) (tr_ops s) = map plus_zero (tr_sent s (c, i))) \<and>
    (\<forall>fr rest now. tr_flight s (c, i) = fr # rest \<longrightarrow>
      (\<exists>w event sv e. conn_turn now fr (tr_event s (c, i)) (tr_server s) = Some (w, event, sv) \<and> event_of w = Some e)) \<and>
    as_store (tr_server s) = fold run_op (tr_ops s) (as_store sv) \<and>
    as_Records (tr_server s) = as_Records sv + length (written (tr_ops s)) \<and>
    mset (tr_submitted s c) = mset (tr_dropped s c) + (\<Sum>j < tc_next (tr_clients s c). mset (tr_sent s (c, j))) \<and>
    tc_statNetwork (tr_clients s c) = length (tr_dropped s c) + tr_attempts s c \<and>
    (tc_conn (tr_clients s c) = Some i \<longrightarrow> (c, i) \<notin> tr_failed s) \<and>
    (no_cleanup (tr_ops s) \<longrightarrow>
      en_CountOkay (lookup_entry (snd (as_store (tr_server s))) k) = en_CountOkay (lookup_entry (snd (as_store sv)) k) +
        of_nat (length (filter (\<lambda>(i, e). event_key_of e = Some k \<and> \<not> ev_Error e) (written (tr_ops s)))) \<and>
      en_CountError (lookup_entry (snd (as_store (tr_server s))) k) = en_CountError (lookup_entry (snd (as_store sv)) k) +
        of_nat (length (filter (\<lambda>(i, e). event_key_of e = Some k \<and> ev_Error e) (written (tr_ops s)))))"
proof -
  have inv: "conn_ok s (c, i)" "client_ok s c" "as_store (tr_server s) = fold run_op (tr_ops s) (as_store sv)"
      "as_Records (tr_server s) = as_Records sv + length (written (tr_ops s))"
    using tr.run_inv [OF assms new_transport_inv] by (auto simp: transport_inv_def)
  obtain gs es where g: "written_by (c, i) (tr_ops s) = map plus_zero gs" "tr_flight s (c, i) = map (\<lambda>e. gob_Encode (encode_event e)) es"
      "prefix (gs @ es) (tr_sent s (c, i))" "(c, i) \<notin> tr_broken s \<Longrightarrow> gs @ es = tr_sent s (c, i)"
    using inv(1) by (blast elim: conn_okE)
  have "prefix (map plus_zero gs) (map plus_zero (tr_sent s (c, i)))"
    using g(3) by (auto dest: append_prefixD intro: map_mono_prefix)
  moreover have "(c, i) \<notin> tr_broken s \<and> tr_flight s (c, i) = [] \<longrightarrow> map plus_zero gs = map plus_zero (tr_sent s (c, i))"
    using g by auto
  ultimately show ?thesis
    using inv g(1) flight_decoded [OF inv(1)] ops_counts [of "tr_ops s" "as_store sv" k] by (simp add: client_ok_def)
qed

text \<open>
  A run in which one client sends a failed event and then one that succeeded, with an attempt to
  connect that fails, and the aggregator receives both.
\<close>

definition failed_event :: event where
  "failed_event = \<lparr>ev_Time = 1, ev_Metric = ''m'', ev_Tags = ''host=a'', ev_Error = True, ev_Statistics = []\<rparr>"

definition good_event :: event where
  "good_event = \<lparr>ev_Time = 2, ev_Metric = ''m'', ev_Tags = ''host=a'', ev_Error = False, ev_Statistics = [(Time_key, 5), (Size_key, 0)]\<rparr>"

definition idle_server :: agg_server where
  "idle_server = \<lparr>as_store = (\<lambda>n. n, []), as_Network = 0, as_Decode = 0, as_Records = 0\<rparr>"

definition sample_arith :: f32_arith where
  "sample_arith = \<lparr>f32_add = (\<lambda>a b. a + b), f32_div = (\<lambda>a b. a), f32_of_nat = of_nat\<rparr>"

lemma sample_keys: "event_key_of failed_event = Some \<lparr>sk_Metric = ''m'', sk_Tags = [], sk_Host = ''a''\<rparr>"
  "event_key_of good_event = Some \<lparr>sk_Metric = ''m'', sk_Tags = [], sk_Host = ''a''\<rparr>"
  by code_simp+

lemma sample_start: "ev_Error failed_event" "\<not> ev_Error good_event" "as_Records idle_server = 0"
  "en_CountOkay (lookup_entry (snd (as_store idle_server)) k) = 0" "en_CountError (lookup_entry (snd (as_store idle_server)) k) = 0"
  by (simp_all add: failed_event_def good_event_def idle_server_def lookup_entry_def newEntry_def)

lemma sample_plus_zero: "plus_zero failed_event = failed_event" "plus_zero good_event = good_event"
  by code_simp+

lemma receive_next:
  assumes "tr_flight s i = gob_Encode (encode_event e) # rest"
  shows "\<exists>t. transport_step A L s t \<and> tr_clients t = tr_clients s \<and> tr_sent t = tr_sent s \<and> tr_flight t i = rest \<and>
    tr_broken t = tr_broken s \<and> tr_ops t = tr_ops s @ [OpWrite i now (plus_zero e)]"
proof -
  obtain v w where "conn_turn now (gob_Encode (encode_event e)) (tr_event s i) (tr_server s) = Some (encode_event (plus_zero e), v, w)"
    using conn_turn_encoded by blast
  from transport_step.receive [OF assms this event_of_encoded, of A L] show ?thesis
    by (intro exI conjI) (assumption, simp_all)
qed

lemma sample_run:
  "\<exists>s. (transport_step A L)\<^sup>*\<^sup>* (new_transport idle_server) s \<and> written (tr_ops s) = [((0, 0), failed_event), ((0, 0), good_event)] \<and>
     no_cleanup (tr_ops s) \<and> tr_sent s (0, 0) = [failed_event, good_event] \<and> tr_flight s (0, 0) = [] \<and> tr_broken s = {} \<and>
     tc_statNetwork (tr_clients s 0) = 1"
proof -
  let ?c = "\<lparr>tc_conn = Some 0, tc_next = 1, tc_statNetwork = 1\<rparr>"
  let ?f = "gob_Encode (encode_event failed_event)" and ?g = "gob_Encode (encode_event good_event)"
  have "\<exists>s. transport_step A L (new_transport idle_server) s \<and> tr_clients s 0 = ?c \<and> tr_sent s (0, 0) = [failed_event] \<and>
      tr_flight s (0, 0) = [?f] \<and> tr_failed s = {} \<and> tr_broken s = {} \<and> tr_ops s = []"
    by (rule exI, intro conjI, rule transport_step.send [where c = 0 and i = 0 and fails = 1 and e = failed_event])
      (simp_all add: new_transport_def NewAggClient_def Send_def connect_def agg_dial_def)
  then obtain s where s: "transport_step A L (new_transport idle_server) s" "tr_clients s 0 = ?c" "tr_sent s (0, 0) = [failed_event]"
      "tr_flight s (0, 0) = [?f]" "tr_failed s = {}" "tr_broken s = {}" "tr_ops s = []"
    by blast
  have "\<exists>t. transport_step A L s t \<and> tr_clients t 0 = ?c \<and> tr_sent t (0, 0) = [failed_event, good_event] \<and>
      tr_flight t (0, 0) = [?f, ?g] \<and> tr_broken t = {} \<and> tr_ops t = []"
    by (rule exI, intro conjI, rule transport_step.send [where c = 0 and i = 0 and fails = 0 and e = good_event])
      (simp_all add: s Send_def connect_def)
  then obtain t where t: "transport_step A L s t" "tr_clients t 0 = ?c" "tr_sent t (0, 0) = [failed_event, good_event]"
      "tr_flight t (0, 0) = [?f, ?g]" "tr_broken t = {}" "tr_ops t = []"
    by blast
  obtain u where u: "transport_step A L t u" "tr_clients u = tr_clients t" "tr_sent u = tr_sent t" "tr_flight u (0, 0) = [?g]"
      "tr_broken u = {}" "tr_ops u = [OpWrite (0, 0) 3 failed_event]"
    using receive_next [OF t(4), of A L 3] t by (auto simp: sample_plus_zero)
  obtain v where v: "transport_step A L u v" "tr_clients v = tr_clients u" "tr_sent v = tr_sent u" "tr_flight v (0, 0) = []"
      "tr_broken v = {}" "tr_ops v = [OpWrite (0, 0) 3 failed_event, OpWrite (0, 0) 3 good_event]"
    using receive_next [OF u(4), of A L 3] u by (auto simp: sample_plus_zero)
  have "(transport_step A L)\<^sup>*\<^sup>* (new_transport idle_server) v" using s(1) t(1) u(1) v(1) by (meson converse_rtranclp_into_rtranclp rtranclp.rtrancl_refl)
  with t u v show ?thesis by (intro exI [of _ v]) (simp add: no_cleanup_def)
qed

theorem transport_delivers_witness:
  "\<exists>s. (transport_step sample_arith latin1_lib)\<^sup>*\<^sup>* (new_transport idle_server) s \<and>
     written_by (0, 0) (tr_ops s) = [failed_event, good_event] \<and> as_Records (tr_server s) = 2 \<and> length (tr_dropped s 0) + tr_attempts s 0 = 1 \<and>
     en_CountOkay (lookup_entry (snd (as_store (tr_server s))) \<lparr>sk_Metric = ''m'', sk_Tags = [], sk_Host = ''a''\<rparr>) = 1 \<and>
     en_CountError (lookup_entry (snd (as_store (tr_server s))) \<lparr>sk_Metric = ''m'', sk_Tags = [], sk_Host = ''a''\<rparr>) = 1"
proof -
  let ?k = "\<lparr>sk_Metric = ''m'', sk_Tags = [], sk_Host = ''a''\<rparr>"
  obtain s where s: "(transport_step sample_arith latin1_lib)\<^sup>*\<^sup>* (new_transport idle_server) s"
      "written (tr_ops s) = [((0, 0), failed_event), ((0, 0), good_event)]" "no_cleanup (tr_ops s)"
      "tr_sent s (0, 0) = [failed_event, good_event]" "tr_flight s (0, 0) = []" "tr_broken s = {}" "tc_statNetwork (tr_clients s 0) = 1"
    using sample_run by blast
  note d = transport_delivers [OF s(1), of 0 0 ?k]
  have "en_CountOkay (lookup_entry (snd (as_store (tr_server s))) ?k) = 1 \<and> en_CountError (lookup_entry (snd (as_store (tr_server s))) ?k) = 1"
    using d [THEN conjunct2, THEN conjunct2, THEN conjunct2, THEN conjunct2, THEN conjunct2, THEN conjunct2, THEN conjunct2, THEN conjunct2] s(2,3)
    by (simp add: sample_keys sample_start)
  then show ?thesis using d s(1-7) by (intro exI [of _ s]) (simp add: sample_plus_zero sample_start)
qed

text \<open>
  Any peer of the aggregator can stop it with an event that has a host tag and a statistic with a
  key out of range: the index into the buffers of the entry panics, and with it the program.
\<close>

lemma bad_key_panics:
  assumes "event_key_of e \<noteq> None" "\<not> ev_Error e" "ev_Statistics e = []" "k < 0 \<or> MaxKeys \<le> k"
  shows "statse_serverConn ((now, Got (gob_Encode \<lparr>we_event = e, we_Statistics = [(k, v)]\<rparr>)) # rs) event s = None"
proof -
  have "gob_Decode (gob_Encode \<lparr>we_event = e, we_Statistics = [(k, v)]\<rparr>) zero_wire = \<lparr>we_event = e, we_Statistics = [(k, if zero_float v then 0 else v)]\<rparr>"
    using assms(3) by (cases e) (simp add: gob_Decode_def gob_Encode_def zero_wire_def zeroEvent_def sent_or_def [of 0 None] sent_or_def [of _ "Some _"])
  then show ?thesis using assms by (auto simp: conn_turn_def Let_def wire_Write_def MaxKeys_def)
qed

end
