(* ===== verification/Channels.thy ===== *)
theory Channels
  imports Zmq Transport
begin

text \<open>
  \<^verbatim>\<open>Channels\<close> of the ZeroMQ binding (\<^verbatim>\<open>go-zmq/channels.go\<close>), which the listener of
  \<^verbatim>\<open>collect-statse\<close> receives its messages through: two goroutines that move messages between Go
  channels and a socket, as a step relation with one step per operation on a channel or a socket.

  Of the C library it is assumed what its documentation says: \<^verbatim>\<open>zmq_poll\<close> reports only events that
  are monitored, and for the two inner sockets only what is there; messages of a pair of sockets
  stay in order; a send to a pair waits while the pair is full.

  What is proved: neither goroutine reaches one of its panics or waits for room for an error report;
  until \<^verbatim>\<open>Close\<close> or an error all messages pass in their order, in both directions. After an
  error of the socket nothing is received any more, and the listener, which does not read the
  errors, waits for ever or panics. \<^verbatim>\<open>Close\<close> does not return while the socket cannot send and
  the pair is full.
\<close>

section \<open>State\<close>

datatype out_pc = OSelect | OSend message | OReport zmq_error | ODiscard | OClosing | ODone | OPanic

datatype sock_pc =
    SPoll | SRecv | SDeliver message | SSend | SPull | SClose | SFinal message | SReport zmq_error
  | EPoll | ERecv | EPull | EClose | SReturned | SPanic

text \<open>
  The messages the network holds for the socket, those that a client is about to send on the
  channel \<^verbatim>\<open>out\<close>, those on the pair of sockets between the goroutines, and the buffer of the channel
  \<^verbatim>\<open>in\<close>. \<open>ch_got\<close> and \<open>ch_sent\<close> are the histories of what was read from \<^verbatim>\<open>in\<close> and of what
  was sent on the socket; \<open>ch_oerr\<close> and \<open>ch_serr\<close> tell which goroutine has reported an error.
\<close>

record channels =
  ch_stop :: bool
  ch_arriving :: "message list"
  ch_in :: "message list"
  ch_got :: "message list"
  ch_offers :: "message list"
  ch_pair :: "message list"
  ch_sending :: "message option"
  ch_sent :: "message list"
  ch_closing :: bool
  ch_errors :: "zmq_error list"
  ch_poller :: PollSet
  ch_opc :: out_pc
  ch_spc :: sock_pc
  ch_oerr :: bool
  ch_serr :: bool

text \<open>
  The size of the buffers of the channels, the number of messages a pair holds, whether the socket
  can send, and whether calls of the library may fail.
\<close>

record zmq_env =
  ze_chanbuf :: nat
  ze_hwm :: nat
  ze_writable :: bool
  ze_fails :: bool

definition errors_cap :: nat where "errors_cap = 2"

definition new_poller :: PollSet where
  "new_poller = snd (PollSet_Socket 2 In (snd (PollSet_Socket 1 In (snd (PollSet_Socket 0 In [])))))"

definition ChannelsBuffer :: "message list \<Rightarrow> message list \<Rightarrow> channels" where
  "ChannelsBuffer arriving offers =
     \<lparr>ch_stop = False, ch_arriving = arriving, ch_in = [], ch_got = [], ch_offers = offers, ch_pair = [],
      ch_sending = None, ch_sent = [], ch_closing = False, ch_errors = [], ch_poller = new_poller,
      ch_opc = OSelect, ch_spc = SPoll, ch_oerr = False, ch_serr = False\<rparr>"

text \<open>What is monitored in a turn of the loop, and after an error.\<close>

definition set_masks :: "message option \<Rightarrow> PollSet \<Rightarrow> PollSet option" where
  "set_masks sending p =
     (case sending of
        None \<Rightarrow> Option.bind (Update 0 In p) (Update 1 In)
      | Some _ \<Rightarrow> Option.bind (Update 0 (In OR Out) p) (Update 1 NoEvents))"

definition error_masks :: "PollSet \<Rightarrow> PollSet option" where
  "error_masks p = Option.bind (Option.bind (Update 0 In p) (Update 1 In)) (Update 2 In)"

text \<open>What a poll may do to the items.\<close>

definition polled :: "PollSet \<Rightarrow> PollSet \<Rightarrow> bool" where
  "polled p p' \<longleftrightarrow> map pi_target p' = map pi_target p \<and> map pi_events p' = map pi_events p \<and>
     list_all (\<lambda>i. pi_revents i AND NOT (pi_events i) = 0) p'"

definition can_recv :: "nat \<Rightarrow> channels \<Rightarrow> bool" where
  "can_recv i s = (case Events i (ch_poller s) of Some e \<Rightarrow> CanRecv e | None \<Rightarrow> False)"

definition can_send :: "channels \<Rightarrow> bool" where
  "can_send s = (case Events 0 (ch_poller s) of Some e \<Rightarrow> CanSend e | None \<Rightarrow> False)"

section \<open>Steps\<close>

text \<open>The goroutine \<^verbatim>\<open>processOutgoing\<close>.\<close>

inductive outgoing_step :: "zmq_env \<Rightarrow> channels \<Rightarrow> channels \<Rightarrow> bool" for E where
  take_offer: "ch_opc s = OSelect \<Longrightarrow> ch_offers s = m # ms \<Longrightarrow> outgoing_step E s (s\<lparr>ch_opc := OSend m, ch_offers := ms\<rparr>)"
| out_stop: "ch_opc s \<in> {OSelect, ODiscard} \<Longrightarrow> ch_stop s \<Longrightarrow> outgoing_step E s (s\<lparr>ch_opc := OClosing\<rparr>)"
| out_send: "ch_opc s = OSend m \<Longrightarrow> m \<noteq> [] \<Longrightarrow> length (ch_pair s) < ze_hwm E \<Longrightarrow>
    outgoing_step E s (s\<lparr>ch_opc := OSelect, ch_pair := ch_pair s @ [m]\<rparr>)"
| out_no_parts: "ch_opc s = OSend [] \<Longrightarrow> outgoing_step E s (s\<lparr>ch_opc := OPanic\<rparr>)"
| out_fails: "ch_opc s = OSend m \<Longrightarrow> m \<noteq> [] \<Longrightarrow> ze_fails E \<Longrightarrow> outgoing_step E s (s\<lparr>ch_opc := OReport e\<rparr>)"
| out_report: "ch_opc s = OReport e \<Longrightarrow> length (ch_errors s) < errors_cap \<Longrightarrow>
    outgoing_step E s (s\<lparr>ch_opc := ODiscard, ch_errors := ch_errors s @ [e], ch_oerr := True\<rparr>)"
| discard_offer: "ch_opc s = ODiscard \<Longrightarrow> ch_offers s = m # ms \<Longrightarrow> outgoing_step E s (s\<lparr>ch_offers := ms\<rparr>)"
| out_closed: "ch_opc s = OClosing \<Longrightarrow> outgoing_step E s (s\<lparr>ch_opc := ODone, ch_closing := True\<rparr>)"
| out_close_fails: "ch_opc s = OClosing \<Longrightarrow> ze_fails E \<Longrightarrow> outgoing_step E s (s\<lparr>ch_opc := ODone\<rparr>)"

text \<open>The loop of the goroutine \<^verbatim>\<open>processSockets\<close>.\<close>

inductive socket_step :: "zmq_env \<Rightarrow> channels \<Rightarrow> channels \<Rightarrow> bool" for E where
  poll: "ch_spc s = SPoll \<Longrightarrow> set_masks (ch_sending s) (ch_poller s) = Some p \<Longrightarrow> polled p p' \<Longrightarrow>
    t = s\<lparr>ch_poller := p', ch_spc := SRecv\<rparr> \<Longrightarrow> can_recv 1 t \<longrightarrow> ch_pair s \<noteq> [] \<Longrightarrow> can_recv 2 t \<longrightarrow> ch_closing s \<Longrightarrow>
    socket_step E s t"
| poll_fails: "ch_spc s = SPoll \<Longrightarrow> ze_fails E \<Longrightarrow> set_masks (ch_sending s) (ch_poller s) = Some p \<Longrightarrow>
    socket_step E s (s\<lparr>ch_poller := p, ch_spc := SReport e\<rparr>)"
| recv_none: "ch_spc s = SRecv \<Longrightarrow> \<not> can_recv 0 s \<Longrightarrow> socket_step E s (s\<lparr>ch_spc := SSend\<rparr>)"
| recv: "ch_spc s = SRecv \<Longrightarrow> can_recv 0 s \<Longrightarrow> ch_arriving s = m # ms \<Longrightarrow>
    socket_step E s (s\<lparr>ch_spc := SDeliver m, ch_arriving := ms\<rparr>)"
| recv_timeout: "ch_spc s = SRecv \<Longrightarrow> can_recv 0 s \<Longrightarrow> socket_step E s (s\<lparr>ch_spc := SSend\<rparr>)"
| recv_fails: "ch_spc s = SRecv \<Longrightarrow> can_recv 0 s \<Longrightarrow> ze_fails E \<Longrightarrow> e \<noteq> ErrTimeout \<Longrightarrow> socket_step E s (s\<lparr>ch_spc := SReport e\<rparr>)"
| hand_over: "ch_spc s = SDeliver m \<Longrightarrow> ch_in s = [] \<Longrightarrow> socket_step E s (s\<lparr>ch_spc := SSend, ch_got := ch_got s @ [m]\<rparr>)"
| into_buffer: "ch_spc s = SDeliver m \<Longrightarrow> length (ch_in s) < ze_chanbuf E \<Longrightarrow>
    socket_step E s (s\<lparr>ch_spc := SSend, ch_in := ch_in s @ [m]\<rparr>)"
| deliver_stop: "ch_spc s = SDeliver m \<Longrightarrow> ch_stop s \<Longrightarrow> socket_step E s (s\<lparr>ch_spc := SSend\<rparr>)"
| send_none: "ch_spc s = SSend \<Longrightarrow> \<not> can_send s \<Longrightarrow> socket_step E s (s\<lparr>ch_spc := SPull\<rparr>)"
| send_nil: "ch_spc s = SSend \<Longrightarrow> can_send s \<Longrightarrow> ch_sending s = None \<Longrightarrow> socket_step E s (s\<lparr>ch_spc := SPanic\<rparr>)"
| send: "ch_spc s = SSend \<Longrightarrow> can_send s \<Longrightarrow> ch_sending s = Some m \<Longrightarrow> ze_writable E \<Longrightarrow>
    socket_step E s (s\<lparr>ch_spc := SPull, ch_sent := ch_sent s @ [m], ch_sending := None\<rparr>)"
| send_timeout: "ch_spc s = SSend \<Longrightarrow> can_send s \<Longrightarrow> ch_sending s = Some m \<Longrightarrow> socket_step E s (s\<lparr>ch_spc := SPull\<rparr>)"
| send_fails: "ch_spc s = SSend \<Longrightarrow> can_send s \<Longrightarrow> ch_sending s = Some m \<Longrightarrow> ze_fails E \<Longrightarrow> e \<noteq> ErrTimeout \<Longrightarrow>
    socket_step E s (s\<lparr>ch_spc := SReport e\<rparr>)"
| pull_none: "ch_spc s = SPull \<Longrightarrow> \<not> can_recv 1 s \<Longrightarrow> socket_step E s (s\<lparr>ch_spc := SClose\<rparr>)"
| pull: "ch_spc s = SPull \<Longrightarrow> can_recv 1 s \<Longrightarrow> ch_pair s = m # ms \<Longrightarrow> ch_sending s = None \<Longrightarrow>
    socket_step E s (s\<lparr>ch_spc := SClose, ch_pair := ms, ch_sending := Some m\<rparr>)"
| pull_twice: "ch_spc s = SPull \<Longrightarrow> can_recv 1 s \<Longrightarrow> ch_pair s = m # ms \<Longrightarrow> ch_sending s \<noteq> None \<Longrightarrow>
    socket_step E s (s\<lparr>ch_spc := SPanic, ch_pair := ms\<rparr>)"
| pull_fails: "ch_spc s = SPull \<Longrightarrow> can_recv 1 s \<Longrightarrow> ze_fails E \<Longrightarrow> socket_step E s (s\<lparr>ch_spc := SReport e\<rparr>)"
| close_none: "ch_spc s = SClose \<Longrightarrow> \<not> can_recv 2 s \<Longrightarrow> socket_step E s (s\<lparr>ch_spc := SPoll\<rparr>)"
| close_timeout: "ch_spc s = SClose \<Longrightarrow> can_recv 2 s \<Longrightarrow> socket_step E s (s\<lparr>ch_spc := SPoll\<rparr>)"
| close_fails: "ch_spc s = SClose \<Longrightarrow> can_recv 2 s \<Longrightarrow> ze_fails E \<Longrightarrow> e \<noteq> ErrTimeout \<Longrightarrow> socket_step E s (s\<lparr>ch_spc := SReport e\<rparr>)"
| close: "ch_spc s = SClose \<Longrightarrow> can_recv 2 s \<Longrightarrow>
    socket_step E s (s\<lparr>ch_spc := (case ch_sending s of None \<Rightarrow> SReturned | Some m \<Rightarrow> SFinal m)\<rparr>)"
| send_final: "ch_spc s = SFinal m \<Longrightarrow> ze_writable E \<Longrightarrow> socket_step E s (s\<lparr>ch_spc := SReturned, ch_sent := ch_sent s @ [m], ch_sending := None\<rparr>)"
| send_final_fails: "ch_spc s = SFinal m \<Longrightarrow> socket_step E s (s\<lparr>ch_spc := SReturned\<rparr>)"
| report: "ch_spc s = SReport e \<Longrightarrow> length (ch_errors s) < errors_cap \<Longrightarrow> error_masks (ch_poller s) = Some p \<Longrightarrow>
    socket_step E s (s\<lparr>ch_spc := EPoll, ch_errors := ch_errors s @ [e], ch_serr := True, ch_poller := p\<rparr>)"

text \<open>
  A message that \<^verbatim>\<open>sendFinal\<close> could not send stays in the variable \<^verbatim>\<open>sending\<close> when the goroutine
  returns. It is counted as on its way, though nothing sends it any more.
\<close>

text \<open>The options of the socket when \<^verbatim>\<open>sendFinal\<close> sends.\<close>

definition sendFinal :: "zmq_socket \<Rightarrow> zmq_socket option" where
  "sendFinal s = Option.bind (GetLinger s) (\<lambda>linger. SetSendTimeout linger s)"

text \<open>The second loop of \<^verbatim>\<open>processSockets\<close>, after an error: all messages are discarded.\<close>

inductive discard_step :: "zmq_env \<Rightarrow> channels \<Rightarrow> channels \<Rightarrow> bool" for E where
  e_poll: "ch_spc s = EPoll \<Longrightarrow> polled (ch_poller s) p \<Longrightarrow> discard_step E s (s\<lparr>ch_poller := p, ch_spc := ERecv\<rparr>)"
| e_fails: "ch_spc s \<in> {EPoll, ERecv, EPull, EClose} \<Longrightarrow> ze_fails E \<Longrightarrow> discard_step E s (s\<lparr>ch_spc := SReturned\<rparr>)"
| e_recv_none: "ch_spc s = ERecv \<Longrightarrow> discard_step E s (s\<lparr>ch_spc := EPull\<rparr>)"
| e_recv: "ch_spc s = ERecv \<Longrightarrow> can_recv 0 s \<Longrightarrow> ch_arriving s = m # ms \<Longrightarrow> discard_step E s (s\<lparr>ch_spc := EPull, ch_arriving := ms\<rparr>)"
| e_pull_none: "ch_spc s = EPull \<Longrightarrow> discard_step E s (s\<lparr>ch_spc := EClose\<rparr>)"
| e_pull: "ch_spc s = EPull \<Longrightarrow> can_recv 1 s \<Longrightarrow> ch_pair s = m # ms \<Longrightarrow> discard_step E s (s\<lparr>ch_spc := EClose, ch_pair := ms\<rparr>)"
| e_close_none: "ch_spc s = EClose \<Longrightarrow> discard_step E s (s\<lparr>ch_spc := EPoll\<rparr>)"
| e_close: "ch_spc s = EClose \<Longrightarrow> can_recv 2 s \<Longrightarrow> discard_step E s (s\<lparr>ch_spc := SReturned\<rparr>)"

text \<open>The clients: they read messages and errors, and one of them closes the channels.\<close>

inductive client_op :: "channels \<Rightarrow> channels \<Rightarrow> bool" where
  take: "ch_in s = m # ms \<Longrightarrow> client_op s (s\<lparr>ch_in := ms, ch_got := ch_got s @ [m]\<rparr>)"
| take_error: "ch_errors s = e # es \<Longrightarrow> client_op s (s\<lparr>ch_errors := es\<rparr>)"
| call_Close: "client_op s (s\<lparr>ch_stop := True\<rparr>)"

definition channels_step :: "zmq_env \<Rightarrow> channels \<Rightarrow> channels \<Rightarrow> bool" where
  "channels_step E s t \<longleftrightarrow> outgoing_step E s t \<or> socket_step E s t \<or> discard_step E s t \<or> client_op s t"

section \<open>The listener\<close>

text \<open>
  \<^verbatim>\<open>Listen\<close> of \<^verbatim>\<open>statse/listener.go\<close> on the results of the library: the socket with its
  options, on which no call waits, and the goroutines; \<open>None\<close> is a panic. The listener has no
  buffer and keeps only the channel \<^verbatim>\<open>in\<close>.
\<close>

datatype listen_error = SocketError zmq_error | BindError zmq_error

definition channels_socket :: "zmq_socket \<Rightarrow> zmq_socket option" where
  "channels_socket s = Option.bind (SetSendTimeout 0 s) (SetRecvTimeout 0)"

definition Listen :: "errno + zmq_socket \<Rightarrow> errno option \<Rightarrow> message list \<Rightarrow> (listen_error + zmq_socket \<times> channels) option" where
  "Listen made bound arriving =
     Option.bind (Context_Socket made) (\<lambda>r.
       case r of
         Inl e \<Rightarrow> Some (Inl (SocketError e))
       | Inr socket \<Rightarrow>
           (case bound of
              Some e \<Rightarrow> Some (Inl (BindError (zmqerr e)))
            | None \<Rightarrow> Option.bind (Subscribe [] socket) (\<lambda>socket.
                map_option (\<lambda>socket. Inr (socket, ChannelsBuffer arriving [])) (channels_socket socket))))"

text \<open>A call of \<^verbatim>\<open>ReadParts\<close>. The channel is closed when \<^verbatim>\<open>processSockets\<close> returns; reading it gives no parts then.\<close>

definition listener_read :: "channels \<Rightarrow> ((bytes \<times> bytes) \<times> channels) call_result" where
  "listener_read s =
     (case ch_in s of
        m # ms \<Rightarrow> (case ReadParts m of None \<Rightarrow> Panic | Some ps \<Rightarrow> Returned (ps, s\<lparr>ch_in := ms, ch_got := ch_got s @ [m]\<rparr>))
      | [] \<Rightarrow>
          (case ch_spc s of
             SDeliver m \<Rightarrow> (case ReadParts m of None \<Rightarrow> Panic | Some ps \<Rightarrow> Returned (ps, s\<lparr>ch_spc := SSend, ch_got := ch_got s @ [m]\<rparr>))
           | SReturned \<Rightarrow> (case ReadParts [] of None \<Rightarrow> Panic | Some ps \<Rightarrow> Returned (ps, s))
           | _ \<Rightarrow> Waits))"

section \<open>Events that are not monitored\<close>

lemma bit_unmonitored: "(e :: int) AND NOT 1 = 0 \<Longrightarrow> e AND 2 = 0"
proof -
  assume e: "e AND NOT 1 = 0"
  have "e AND 2 = e AND (NOT 1 AND 2)" by simp
  also have "\<dots> = (e AND NOT 1) AND 2" by (simp only: and.assoc)
  finally show "e AND 2 = 0" using e by simp
qed

lemma poll_masks:
  assumes "length p = 3" "set_masks sending p = Some q" "polled q q'" "ch_poller t = q'"
  shows "length q' = 3 \<and> (can_send t \<longrightarrow> sending \<noteq> None) \<and> (can_recv 1 t \<longrightarrow> sending = None)"
proof -
  have len: "length q = 3" using assms(1,2) by (auto simp: set_masks_def Update_def split: option.splits)
  have "length q' = length q" using assms(3) by (metis length_map polled_def)
  with len have len': "length q' = 3" by simp
  have ev: "pi_events (q' ! i) = pi_events (q ! i)" "pi_revents (q' ! i) AND NOT (pi_events (q ! i)) = 0" if "i < 3" for i
  proof -
    show e: "pi_events (q' ! i) = pi_events (q ! i)"
    proof -
      have "map pi_events q' ! i = map pi_events q ! i" using assms(3) by (simp add: polled_def)
      with that len len' show ?thesis by simp
    qed
    show "pi_revents (q' ! i) AND NOT (pi_events (q ! i)) = 0"
      using assms(3) that len' e by (auto simp: polled_def list_all_length)
  qed
  have "sending \<noteq> None" if "can_send t"
  proof
    assume "sending = None"
    then have "pi_events (q ! 0) = 1" using assms(1,2) by (auto simp: set_masks_def Update_def In_def)
    then have "\<not> CanSend (pi_revents (q' ! 0))" using ev(2) [of 0] bit_unmonitored by (simp add: CanSend_def Out_def)
    with that len' assms(4) show False by (simp add: can_send_def Events_def)
  qed
  moreover have "sending = None" if "can_recv 1 t"
  proof (rule ccontr)
    assume "sending \<noteq> None"
    then have "pi_events (q ! 1) = 0" using assms(1,2) by (auto simp: set_masks_def Update_def NoEvents_def)
    then have "\<not> CanRecv (pi_revents (q' ! 1))" using ev(2) [of 1] by (simp add: CanRecv_def)
    with that len' assms(4) show False by (simp add: can_recv_def Events_def)
  qed
  ultimately show ?thesis using len' by blast
qed

section \<open>Invariants\<close>

definition holding :: "channels \<Rightarrow> message list" where
  "holding s = (case ch_spc s of SDeliver m \<Rightarrow> [m] | _ \<Rightarrow> [])"

definition masks_inv :: "channels \<Rightarrow> bool" where
  "masks_inv s \<longleftrightarrow> length (ch_poller s) = 3 \<and> ch_spc s \<noteq> SPanic \<and>
     (ch_spc s \<in> {SRecv, SSend} \<or> holding s \<noteq> [] \<longrightarrow> (can_send s \<longrightarrow> ch_sending s \<noteq> None) \<and> (can_recv 1 s \<longrightarrow> ch_sending s = None)) \<and>
     (ch_spc s = SPull \<longrightarrow> can_recv 1 s \<longrightarrow> ch_sending s = None) \<and>
     (ch_spc s \<in> {SRecv, SSend, SPull, SClose} \<or> holding s \<noteq> [] \<longrightarrow> can_recv 2 s \<longrightarrow> ch_closing s)"

text \<open>Each goroutine reports one error at most.\<close>

definition errors_inv :: "channels \<Rightarrow> bool" where
  "errors_inv s \<longleftrightarrow> length (ch_errors s) \<le> of_bool (ch_oerr s) + of_bool (ch_serr s) \<and>
     ((case ch_opc s of OSelect \<Rightarrow> True | OSend _ \<Rightarrow> True | OReport _ \<Rightarrow> True | _ \<Rightarrow> False) \<longrightarrow> \<not> ch_oerr s) \<and>
     (ch_opc s = ODiscard \<longrightarrow> ch_oerr s) \<and>
     (ch_spc s \<notin> {EPoll, ERecv, EPull, EClose, SReturned} \<longrightarrow> \<not> ch_serr s) \<and>
     (ch_spc s \<in> {EPoll, ERecv, EPull, EClose} \<longrightarrow> ch_serr s)"

text \<open>The messages received so far, and those not sent so far, in their order.\<close>

definition received :: "channels \<Rightarrow> message list" where
  "received s = ch_got s @ ch_in s @ holding s"

definition in_inv :: "message list \<Rightarrow> channels \<Rightarrow> bool" where
  "in_inv as s \<longleftrightarrow> (\<exists>taken. as = taken @ ch_arriving s \<and> subseq (received s) taken \<and>
     (\<not> ch_stop s \<longrightarrow> prefix (received s) taken) \<and> (\<not> ch_stop s \<and> \<not> ch_serr s \<longrightarrow> taken = received s))"

definition in_flight :: "channels \<Rightarrow> message list" where
  "in_flight s = (case ch_sending s of None \<Rightarrow> [] | Some m \<Rightarrow> [m]) @ ch_pair s @
     (case ch_opc s of OSend m \<Rightarrow> [m] | _ \<Rightarrow> []) @ ch_offers s"

definition clean :: "channels \<Rightarrow> bool" where
  "clean s \<longleftrightarrow> \<not> ch_oerr s \<and> \<not> ch_serr s \<and> (case ch_opc s of OReport _ \<Rightarrow> False | OPanic \<Rightarrow> False | _ \<Rightarrow> True)"

definition out_inv :: "message list \<Rightarrow> channels \<Rightarrow> bool" where
  "out_inv os s \<longleftrightarrow> subseq (ch_sent s @ in_flight s) os \<and> (\<forall>m. ch_spc s = SFinal m \<longrightarrow> ch_sending s = Some m) \<and>
     (clean s \<longrightarrow> os = ch_sent s @ in_flight s)"

definition channels_inv :: "message list \<Rightarrow> message list \<Rightarrow> channels \<Rightarrow> bool" where
  "channels_inv as os s \<longleftrightarrow> masks_inv s \<and> errors_inv s \<and> in_inv as s \<and> out_inv os s"

lemma events_update [simp]:
  "can_send (s\<lparr>ch_spc := pc\<rparr>) = can_send s" "can_recv i (s\<lparr>ch_spc := pc\<rparr>) = can_recv i s"
  "can_send (s\<lparr>ch_sending := m\<rparr>) = can_send s" "can_recv i (s\<lparr>ch_sending := m\<rparr>) = can_recv i s"
  "can_send (s\<lparr>ch_sent := ms\<rparr>) = can_send s" "can_recv i (s\<lparr>ch_sent := ms\<rparr>) = can_recv i s"
  "can_send (s\<lparr>ch_pair := ms\<rparr>) = can_send s" "can_recv i (s\<lparr>ch_pair := ms\<rparr>) = can_recv i s"
  "can_send (s\<lparr>ch_in := ms\<rparr>) = can_send s" "can_recv i (s\<lparr>ch_in := ms\<rparr>) = can_recv i s"
  "can_send (s\<lparr>ch_got := ms\<rparr>) = can_send s" "can_recv i (s\<lparr>ch_got := ms\<rparr>) = can_recv i s"
  "can_send (s\<lparr>ch_arriving := ms\<rparr>) = can_send s" "can_recv i (s\<lparr>ch_arriving := ms\<rparr>) = can_recv i s"
  "can_send (s\<lparr>ch_offers := ms\<rparr>) = can_send s" "can_recv i (s\<lparr>ch_offers := ms\<rparr>) = can_recv i s"
  "can_send (s\<lparr>ch_errors := es\<rparr>) = can_send s" "can_recv i (s\<lparr>ch_errors := es\<rparr>) = can_recv i s"
  "can_send (s\<lparr>ch_opc := opc\<rparr>) = can_send s" "can_recv i (s\<lparr>ch_opc := opc\<rparr>) = can_recv i s"
  "can_send (s\<lparr>ch_oerr := b\<rparr>) = can_send s" "can_recv i (s\<lparr>ch_oerr := b\<rparr>) = can_recv i s"
  "can_send (s\<lparr>ch_serr := b\<rparr>) = can_send s" "can_recv i (s\<lparr>ch_serr := b\<rparr>) = can_recv i s"
  "can_send (s\<lparr>ch_closing := b\<rparr>) = can_send s" "can_recv i (s\<lparr>ch_closing := b\<rparr>) = can_recv i s"
  "can_send (s\<lparr>ch_stop := b\<rparr>) = can_send s" "can_recv i (s\<lparr>ch_stop := b\<rparr>) = can_recv i s"
  by (simp_all add: can_send_def can_recv_def)

lemma masks_length:
  "length p = 3 \<Longrightarrow> set_masks sending p = Some q \<Longrightarrow> length q = 3"
  "length p = 3 \<Longrightarrow> error_masks p = Some q \<Longrightarrow> length q = 3"
  "length p = 3 \<Longrightarrow> polled p q \<Longrightarrow> length q = 3"
  subgoal by (auto simp: set_masks_def Update_def split: option.splits)
  subgoal by (auto simp: error_masks_def Update_def)
  subgoal unfolding polled_def by (metis length_map)
  done

lemma masks_inv_socket: "socket_step E s t \<Longrightarrow> masks_inv s \<Longrightarrow> masks_inv t"
proof (induction rule: socket_step.induct)
  case (poll s p p' t)
  have len: "length (ch_poller s) = 3" using poll.prems by (simp add: masks_inv_def)
  have "ch_poller t = p'" "ch_sending t = ch_sending s" "ch_spc t = SRecv" "ch_closing t = ch_closing s" using poll.hyps(4) by simp_all
  with poll_masks [OF len poll.hyps(2,3), of t] poll.hyps(6) show ?case unfolding masks_inv_def by simp
next
  case (close s)
  then show ?case by (cases "ch_sending s") (simp_all add: masks_inv_def holding_def)
qed (auto simp: masks_inv_def holding_def dest: masks_length)

lemma masks_inv_discard: "discard_step E s t \<Longrightarrow> masks_inv s \<Longrightarrow> masks_inv t"
  by (induction rule: discard_step.induct) (auto simp: masks_inv_def holding_def dest: masks_length)

lemma masks_inv_outgoing: "outgoing_step E s t \<Longrightarrow> masks_inv s \<Longrightarrow> masks_inv t"
  by (induction rule: outgoing_step.induct) (simp_all add: masks_inv_def holding_def)

lemma masks_inv_client: "client_op s t \<Longrightarrow> masks_inv s \<Longrightarrow> masks_inv t"
  by (induction rule: client_op.induct) (simp_all add: masks_inv_def holding_def)

lemma masks_inv_step: "channels_step E s t \<Longrightarrow> masks_inv s \<Longrightarrow> masks_inv t"
  unfolding channels_step_def using masks_inv_socket masks_inv_discard masks_inv_outgoing masks_inv_client by blast

lemma errors_inv_socket: "socket_step E s t \<Longrightarrow> errors_inv s \<Longrightarrow> errors_inv t"
  by (induction rule: socket_step.induct) (auto simp: errors_inv_def split: option.splits)

lemma errors_inv_discard: "discard_step E s t \<Longrightarrow> errors_inv s \<Longrightarrow> errors_inv t"
  by (induction rule: discard_step.induct) (auto simp: errors_inv_def)

lemma errors_inv_outgoing: "outgoing_step E s t \<Longrightarrow> errors_inv s \<Longrightarrow> errors_inv t"
  by (induction rule: outgoing_step.induct) (auto simp: errors_inv_def)

lemma errors_inv_client: "client_op s t \<Longrightarrow> errors_inv s \<Longrightarrow> errors_inv t"
  by (induction rule: client_op.induct) (simp_all add: errors_inv_def)

lemma errors_inv_step: "channels_step E s t \<Longrightarrow> errors_inv s \<Longrightarrow> errors_inv t"
  unfolding channels_step_def using errors_inv_socket errors_inv_discard errors_inv_outgoing errors_inv_client by blast

text \<open>Steps that receive nothing and drop nothing.\<close>

lemma in_inv_frame:
  "in_inv as s \<Longrightarrow> received t = received s \<Longrightarrow> ch_arriving t = ch_arriving s \<Longrightarrow>
   (ch_stop s \<Longrightarrow> ch_stop t) \<Longrightarrow> (ch_serr s \<Longrightarrow> ch_serr t) \<Longrightarrow> in_inv as t"
  unfolding in_inv_def by auto

lemma in_inv_socket: "socket_step E s t \<Longrightarrow> errors_inv s \<Longrightarrow> in_inv as s \<Longrightarrow> in_inv as t"
proof (induction rule: socket_step.induct)
  case (recv s m ms)
  then obtain taken where "as = taken @ m # ms" "subseq (received s) taken"
      "\<not> ch_stop s \<Longrightarrow> taken = received s" by (auto simp: in_inv_def errors_inv_def)
  with recv subseq_append [of "ch_got s @ ch_in s" "[m]" taken] show ?case
    by (auto simp: in_inv_def received_def holding_def intro!: exI [of _ "taken @ [m]"])
next
  case (deliver_stop s m)
  have "subseq (ch_got s @ ch_in s) ((ch_got s @ ch_in s) @ [m])" by (intro subseq_rev_drop_many subseq_order.refl)
  with deliver_stop show ?case by (auto simp: in_inv_def received_def holding_def intro: subseq_order.trans)
next
  case (close s)
  then show ?case by (auto intro: in_inv_frame simp: received_def holding_def split: option.splits)
qed (auto elim!: in_inv_frame simp: received_def holding_def)

lemma in_inv_discard: "discard_step E s t \<Longrightarrow> errors_inv s \<Longrightarrow> in_inv as s \<Longrightarrow> in_inv as t"
proof (induction rule: discard_step.induct)
  case (e_recv s m ms)
  then obtain taken where "as = taken @ m # ms" "subseq (received s) taken" "ch_serr s"
      "\<not> ch_stop s \<Longrightarrow> prefix (received s) taken" by (auto simp: in_inv_def errors_inv_def)
  with e_recv show ?case by (auto simp: in_inv_def received_def holding_def intro!: exI [of _ "taken @ [m]"])
qed (auto elim!: in_inv_frame simp: received_def holding_def)

lemma in_inv_other: "outgoing_step E s t \<or> client_op s t \<Longrightarrow> in_inv as s \<Longrightarrow> in_inv as t"
  by (elim disjE outgoing_step.cases client_op.cases) (auto elim!: in_inv_frame simp: received_def holding_def)

lemma in_inv_step: "channels_step E s t \<Longrightarrow> errors_inv s \<Longrightarrow> in_inv as s \<Longrightarrow> in_inv as t"
  unfolding channels_step_def using in_inv_socket in_inv_discard in_inv_other by blast

text \<open>Steps that drop messages on their way out only after an error.\<close>

lemma out_inv_frame:
  assumes "out_inv os s" "subseq (ch_sent t @ in_flight t) (ch_sent s @ in_flight s)"
    and "clean t \<Longrightarrow> clean s \<and> ch_sent t @ in_flight t = ch_sent s @ in_flight s"
    and "\<And>m. ch_spc t = SFinal m \<Longrightarrow> ch_sending t = Some m \<or> ch_spc s = SFinal m \<and> ch_sending t = ch_sending s"
  shows "out_inv os t"
  using assms subseq_order.trans unfolding out_inv_def by metis

lemmas out_defs = in_flight_def clean_def

lemma out_inv_socket: "socket_step E s t \<Longrightarrow> masks_inv s \<Longrightarrow> out_inv os s \<Longrightarrow> out_inv os t"
proof (induction rule: socket_step.induct)
  case (close s)
  then show ?case by (auto elim!: out_inv_frame simp: out_defs split: option.splits)
next
  case (send_final s m)
  then have "ch_sending s = Some m" by (simp add: out_inv_def)
  with send_final show ?case by (auto elim!: out_inv_frame simp: out_defs)
next
  case (pull_twice s m ms)
  then show ?case by (simp add: masks_inv_def)
qed (auto elim!: out_inv_frame simp: out_defs)

lemma out_inv_discard: "discard_step E s t \<Longrightarrow> errors_inv s \<Longrightarrow> out_inv os s \<Longrightarrow> out_inv os t"
proof (induction rule: discard_step.induct)
  case (e_pull s m ms)
  then have "ch_serr s" by (simp add: errors_inv_def)
  with e_pull show ?case by (auto elim!: out_inv_frame simp: out_defs intro!: list_emb_append_mono)
qed (auto elim!: out_inv_frame simp: out_defs)

lemma out_inv_outgoing: "outgoing_step E s t \<Longrightarrow> errors_inv s \<Longrightarrow> out_inv os s \<Longrightarrow> out_inv os t"
proof (induction rule: outgoing_step.induct)
  case (discard_offer s m ms)
  then have "ch_oerr s" by (simp add: errors_inv_def)
  with discard_offer show ?case by (auto elim!: out_inv_frame simp: out_defs intro!: list_emb_append_mono)
qed (auto elim!: out_inv_frame simp: out_defs intro!: list_emb_append_mono)

lemma out_inv_client: "client_op s t \<Longrightarrow> out_inv os s \<Longrightarrow> out_inv os t"
  by (induction rule: client_op.induct) (auto simp: out_inv_def out_defs)

lemma out_inv_step: "channels_step E s t \<Longrightarrow> masks_inv s \<Longrightarrow> errors_inv s \<Longrightarrow> out_inv os s \<Longrightarrow> out_inv os t"
  unfolding channels_step_def using out_inv_socket out_inv_discard out_inv_outgoing out_inv_client by blast

lemma channels_inv_step: "channels_step E s t \<Longrightarrow> channels_inv as os s \<Longrightarrow> channels_inv as os t"
  unfolding channels_inv_def by (blast intro: masks_inv_step errors_inv_step in_inv_step out_inv_step)

interpretation chan: stepping "channels_step E" "channels_inv as os" for E as os
  by unfold_locales (rule channels_inv_step)

lemma channels_inv_initial: "channels_inv as os (ChannelsBuffer as os)"
  by (simp add: channels_inv_def masks_inv_def errors_inv_def in_inv_def out_inv_def ChannelsBuffer_def new_poller_def
      PollSet_Socket_def received_def holding_def in_flight_def clean_def)

lemmas channels_reach_inv = chan.run_inv [OF _ channels_inv_initial]

section \<open>Messages pass in order\<close>

text \<open>
  C26: In every state the two goroutines of a \<^verbatim>\<open>Channels\<close> can reach, \<^verbatim>\<open>processSockets\<close> has not
  reached one of its panics and an error is reported without waiting. As long as the channels are
  not closed and the socket has not failed, the messages read from \<^verbatim>\<open>in\<close>, in its buffer, about to be
  put there and still at the socket are all that ever arrived, in that order; after a failure they are
  still the first ones. What was sent on the socket is, in order, a part of what was put on \<^verbatim>\<open>out\<close>,
  and nothing is missing but what is on its way, unless an error was met; a last message that could
  not be sent at the close counts as on its way.
\<close>

theorem channels_deliver:
  assumes "(channels_step E)\<^sup>*\<^sup>* (ChannelsBuffer as os) s"
  shows "ch_spc s \<noteq> SPanic \<and>
    ((\<exists>e. ch_spc s = SReport e) \<or> (\<exists>e. ch_opc s = OReport e) \<longrightarrow> length (ch_errors s) < errors_cap) \<and>
    (\<not> ch_stop s \<and> \<not> ch_serr s \<longrightarrow> as = ch_got s @ ch_in s @ holding s @ ch_arriving s) \<and>
    (\<not> ch_stop s \<longrightarrow> prefix (ch_got s @ ch_in s) as) \<and> subseq (ch_got s) as \<and>
    subseq (ch_sent s) os \<and> (clean s \<longrightarrow> os = ch_sent s @ in_flight s)"
proof -
  have inv: "masks_inv s" "errors_inv s" "in_inv as s" "out_inv os s"
    using channels_reach_inv [OF assms] by (simp_all add: channels_inv_def)
  have "length (ch_errors s) < errors_cap" if "(\<exists>e. ch_spc s = SReport e) \<or> (\<exists>e. ch_opc s = OReport e)"
    using inv(2) that by (auto simp: errors_inv_def errors_cap_def of_bool_def split: if_splits)
  moreover obtain taken where t: "as = taken @ ch_arriving s" "subseq (received s) taken"
      "\<not> ch_stop s \<Longrightarrow> prefix (received s) taken" "\<not> ch_stop s \<and> \<not> ch_serr s \<Longrightarrow> taken = received s"
    using inv(3) by (auto simp: in_inv_def)
  have r: "received s = ch_got s @ ch_in s @ holding s" by (simp add: received_def)
  have "prefix (ch_got s @ ch_in s) as" if "\<not> ch_stop s"
    using t(1) t(3) [OF that] by (auto simp: r prefix_def)
  moreover have "subseq (ch_got s) as"
    using t(1,2) by (metis r list_emb_append2 list_emb_appendD subseq_order.trans subseq_rev_drop_many)
  moreover have "subseq (ch_sent s) os"
    using inv(4) subseq_order.trans subseq_rev_drop_many subseq_order.refl unfolding out_inv_def by metis
  ultimately show ?thesis using inv(1,4) t(1,4) r by (simp add: masks_inv_def out_inv_def)
qed

lemma polled_events:
  "polled [\<lparr>pi_target = 0, pi_events = 1, pi_revents = 0\<rparr>, \<lparr>pi_target = 1, pi_events = 1, pi_revents = 0\<rparr>, \<lparr>pi_target = 2, pi_events = 1, pi_revents = 0\<rparr>]
     [\<lparr>pi_target = 0, pi_events = 1, pi_revents = 1\<rparr>, \<lparr>pi_target = 1, pi_events = 1, pi_revents = 0\<rparr>, \<lparr>pi_target = 2, pi_events = 1, pi_revents = 0\<rparr>]"
  by (simp add: polled_def)

theorem channels_deliver_witness:
  "\<exists>s. (channels_step \<lparr>ze_chanbuf = 0, ze_hwm = 1000, ze_writable = True, ze_fails = True\<rparr>)\<^sup>*\<^sup>*
      (ChannelsBuffer [[''event'', ''x''], [''event'', ''y'']] []) s \<and>
    ch_got s = [[''event'', ''x'']] \<and> [[''event'', ''x''], [''event'', ''y'']] = ch_got s @ ch_in s @ holding s @ ch_arriving s"
proof -
  let ?E = "\<lparr>ze_chanbuf = 0, ze_hwm = 1000, ze_writable = True, ze_fails = True\<rparr>"
  let ?as = "[[''event'', ''x''], [''event'', ''y'']]"
  let ?p = "[\<lparr>pi_target = 0, pi_events = 1, pi_revents = 1\<rparr>, \<lparr>pi_target = 1, pi_events = 1, pi_revents = 0\<rparr>, \<lparr>pi_target = 2, pi_events = 1, pi_revents = 0\<rparr>]"
  let ?s0 = "ChannelsBuffer ?as []"
  let ?s1 = "?s0\<lparr>ch_poller := ?p, ch_spc := SRecv\<rparr>"
  let ?s2 = "?s1\<lparr>ch_spc := SDeliver [''event'', ''x''], ch_arriving := [[''event'', ''y'']]\<rparr>"
  let ?s3 = "?s2\<lparr>ch_spc := SSend, ch_got := ch_got ?s2 @ [[''event'', ''x'']]\<rparr>"
  have "socket_step ?E ?s0 ?s1"
    by (rule poll [OF _ _ polled_events refl])
      (simp_all add: ChannelsBuffer_def new_poller_def PollSet_Socket_def set_masks_def Update_def In_def can_recv_def Events_def CanRecv_def)
  moreover have "socket_step ?E ?s1 ?s2"
    by (rule recv) (simp_all add: ChannelsBuffer_def can_recv_def Events_def CanRecv_def In_def)
  moreover have "socket_step ?E ?s2 ?s3" by (rule hand_over) (simp_all add: ChannelsBuffer_def)
  ultimately have "(channels_step ?E)\<^sup>*\<^sup>* ?s0 ?s3"
    by (meson channels_step_def converse_rtranclp_into_rtranclp r_into_rtranclp)
  with channels_deliver [OF this] show ?thesis by (intro exI [of _ ?s3]) (simp add: ChannelsBuffer_def)
qed

text \<open>A call of \<^verbatim>\<open>ReadParts\<close> that returns is a step of the channels.\<close>

lemma listener_read_step: "listener_read s = Returned (ps, t) \<Longrightarrow> channels_step E s t"
  unfolding channels_step_def listener_read_def
  by (auto simp: ReadParts_def intro: client_op.take socket_step.hand_over
      split: list.splits option.splits sock_pc.splits)

section \<open>After a failure of the socket\<close>

definition silent :: "message list \<Rightarrow> channels \<Rightarrow> bool" where
  "silent heard s \<longleftrightarrow> ch_serr s \<and> ch_spc s \<in> {EPoll, ERecv, EPull, EClose, SReturned} \<and> ch_got s @ ch_in s = heard"

lemma silent_socket: "socket_step E s t \<Longrightarrow> silent heard s \<Longrightarrow> silent heard t"
  by (induction rule: socket_step.induct) (simp_all add: silent_def)

lemma silent_discard: "discard_step E s t \<Longrightarrow> silent heard s \<Longrightarrow> silent heard t"
  by (induction rule: discard_step.induct) (simp_all add: silent_def)

lemma silent_other: "outgoing_step E s t \<or> client_op s t \<Longrightarrow> silent heard s \<Longrightarrow> silent heard t"
  by (elim disjE outgoing_step.cases client_op.cases) (auto simp: silent_def)

interpretation mute: stepping "channels_step E" "silent heard" for E heard
  by unfold_locales (auto simp: channels_step_def intro: silent_socket silent_discard silent_other)

lemma Listen_state: "Listen made bound as = Some (Inr (socket, s)) \<Longrightarrow> s = ChannelsBuffer as []"
proof -
  assume listen: "Listen made bound as = Some (Inr (socket, s))"
  then obtain r where "Context_Socket made = Some r" by (auto simp: Listen_def bind_eq_Some_conv)
  with listen show ?thesis by (cases r; cases bound) (auto simp: Listen_def bind_eq_Some_conv)
qed

text \<open>
  C27: Once \<^verbatim>\<open>processSockets\<close> has reported an error, no message is received any more: in every state
  that follows, what was read from \<^verbatim>\<open>in\<close> and what is in its buffer is what it was, and a listener that
  has read all of it waits in \<^verbatim>\<open>ReadParts\<close> or, when the goroutine has returned and so closed the
  channel, panics. The listener of \<^verbatim>\<open>collect-statse\<close> does not read the channel of the errors.
\<close>

theorem listener_silent:
  assumes "Listen made bound as = Some (Inr (socket, s0))" "(channels_step E)\<^sup>*\<^sup>* s0 s" "ch_serr s" "(channels_step E)\<^sup>*\<^sup>* s t"
  shows "ch_got t @ ch_in t = ch_got s @ ch_in s \<and>
    (ch_in t = [] \<longrightarrow> listener_read t = (if ch_spc t = SReturned then Panic else Waits))"
proof -
  have "s0 = ChannelsBuffer as []" using assms(1) by (rule Listen_state)
  with assms(2) have "errors_inv s" using channels_reach_inv by (simp add: channels_inv_def)
  with assms(3) have "silent (ch_got s @ ch_in s) s" by (auto simp: silent_def errors_inv_def)
  from mute.run_inv [OF assms(4) this] show ?thesis by (auto simp: silent_def listener_read_def ReadParts_def)
qed

theorem listener_silent_witness:
  "\<exists>socket s0 t. Listen (Inr \<lparr>zs_open = True, zs_ints = \<lambda>_. - 1, zs_longs = \<lambda>_. 0, zs_bins = \<lambda>_. [], zs_filters = [], zs_accepts = [], zs_refuses = \<lambda>_ v. v < - 1\<rparr>) None [[''event'', ''x'']] = Some (Inr (socket, s0)) \<and>
     ch_arriving s0 = [[''event'', ''x'']] \<and> (channels_step \<lparr>ze_chanbuf = 0, ze_hwm = 1000, ze_writable = True, ze_fails = True\<rparr>)\<^sup>*\<^sup>* s0 t \<and>
     ch_arriving t = [] \<and> ch_got t = [] \<and> listener_read t = Waits"
proof -
  let ?E = "\<lparr>ze_chanbuf = 0, ze_hwm = 1000, ze_writable = True, ze_fails = True\<rparr>"
  let ?made = "Inr \<lparr>zs_open = True, zs_ints = \<lambda>_. - 1, zs_longs = \<lambda>_. 0, zs_bins = \<lambda>_. [], zs_filters = [], zs_accepts = [], zs_refuses = \<lambda>_ v. v < - 1\<rparr>"
  let ?s0 = "ChannelsBuffer [[''event'', ''x'']] []"
  let ?q = "[\<lparr>pi_target = 0, pi_events = 1, pi_revents = 0\<rparr>, \<lparr>pi_target = 1, pi_events = 1, pi_revents = 0\<rparr>, \<lparr>pi_target = 2, pi_events = 1, pi_revents = 0\<rparr>]"
  let ?p = "[\<lparr>pi_target = 0, pi_events = 1, pi_revents = 1\<rparr>, \<lparr>pi_target = 1, pi_events = 1, pi_revents = 0\<rparr>, \<lparr>pi_target = 2, pi_events = 1, pi_revents = 0\<rparr>]"
  let ?s1 = "?s0\<lparr>ch_poller := ?q, ch_spc := SReport (ErrText 1)\<rparr>"
  let ?s2 = "?s1\<lparr>ch_spc := EPoll, ch_errors := ch_errors ?s1 @ [ErrText 1], ch_serr := True, ch_poller := ?q\<rparr>"
  let ?s3 = "?s2\<lparr>ch_poller := ?p, ch_spc := ERecv\<rparr>"
  let ?s4 = "?s3\<lparr>ch_spc := EPull, ch_arriving := []\<rparr>"
  obtain socket where listen: "Listen ?made None [[''event'', ''x'']] = Some (Inr (socket, ?s0))"
    by (simp add: Listen_def Context_Socket_def SetLinger_def setInt_def Subscribe_def setBinary_def channels_socket_def SetSendTimeout_def SetRecvTimeout_def)
  have "socket_step ?E ?s0 ?s1"
    by (rule poll_fails) (simp_all add: ChannelsBuffer_def new_poller_def PollSet_Socket_def set_masks_def Update_def In_def)
  moreover have "socket_step ?E ?s1 ?s2"
    by (rule report) (simp_all add: ChannelsBuffer_def error_masks_def Update_def In_def errors_cap_def)
  ultimately have s: "(channels_step ?E)\<^sup>*\<^sup>* ?s0 ?s2"
    by (meson channels_step_def converse_rtranclp_into_rtranclp r_into_rtranclp)
  have "discard_step ?E ?s2 ?s3" by (rule e_poll) (simp_all add: polled_def)
  moreover have "discard_step ?E ?s3 ?s4"
    by (rule e_recv) (simp_all add: ChannelsBuffer_def can_recv_def Events_def CanRecv_def In_def)
  ultimately have t: "(channels_step ?E)\<^sup>*\<^sup>* ?s2 ?s4"
    by (meson channels_step_def converse_rtranclp_into_rtranclp r_into_rtranclp)
  have "ch_serr ?s2" by simp
  from listener_silent [OF listen s this t] have "listener_read ?s4 = Waits" by (simp add: ChannelsBuffer_def)
  moreover have "ch_arriving ?s0 = [[''event'', ''x'']]" "ch_arriving ?s4 = []" "ch_got ?s4 = []" by (simp_all add: ChannelsBuffer_def)
  ultimately show ?thesis using listen rtranclp_trans [OF s t] by blast
qed

section \<open>Close\<close>

text \<open>The last message is given as much time as the socket lingers; a socket that was not told otherwise does not linger.\<close>

lemma sendFinal_timeout:
  assumes "zs_open s" "- (2 ^ 31) \<le> zs_ints s ZMQ_LINGER" "zs_ints s ZMQ_LINGER < 2 ^ 31"
    and "\<And>v. - 1 \<le> v \<Longrightarrow> \<not> zs_refuses s ZMQ_SNDTIMEO v"
  shows "\<exists>t. sendFinal s = Some t \<and> zs_ints t ZMQ_SNDTIMEO = max (- 1) (zs_ints s ZMQ_LINGER)"
proof (cases "zs_ints s ZMQ_LINGER < 0")
  case True
  with assms(1) assms(4) [of "- 1"] cint_id [of "- 1"] show ?thesis
    by (simp add: sendFinal_def GetLinger_def getInt_def SetSendTimeout_def setInt_def toDuration_def fromDuration_def)
next
  case False
  with assms cint_id [of "zs_ints s ZMQ_LINGER"] millis_wrap [of "zs_ints s ZMQ_LINGER"] fromDuration_millis [of "zs_ints s ZMQ_LINGER"]
  show ?thesis by (simp add: sendFinal_def GetLinger_def getInt_def SetSendTimeout_def setInt_def toDuration_def)
qed

text \<open>The state in which \<^verbatim>\<open>Close\<close> waits for a goroutine that waits for room between the sockets.\<close>

definition stuck :: "zmq_env \<Rightarrow> message \<Rightarrow> channels \<Rightarrow> bool" where
  "stuck E m s \<longleftrightarrow> masks_inv s \<and> \<not> ze_writable E \<and> \<not> ze_fails E \<and> m \<noteq> [] \<and> ch_opc s = OSend m \<and> ze_hwm E \<le> length (ch_pair s) \<and>
     ch_sending s \<noteq> None \<and> \<not> ch_closing s \<and> (ch_spc s \<in> {SPoll, SRecv, SSend, SPull, SClose} \<or> holding s \<noteq> [])"

lemma stuck_socket: "socket_step E s t \<Longrightarrow> stuck E m s \<Longrightarrow> stuck E m t"
proof (rule ccontr)
  assume "socket_step E s t" and s: "stuck E m s" and n: "\<not> stuck E m t"
  moreover from this have "masks_inv t" using masks_inv_socket by (auto simp: stuck_def)
  ultimately show False by (induction rule: socket_step.cases) (auto simp: stuck_def masks_inv_def holding_def)
qed

lemma stuck_other: "outgoing_step E s t \<or> discard_step E s t \<or> client_op s t \<Longrightarrow> stuck E m s \<Longrightarrow> stuck E m t"
proof -
  assume step: "outgoing_step E s t \<or> discard_step E s t \<or> client_op s t" and s: "stuck E m s"
  then have "masks_inv t" using masks_inv_step [of E s t] by (auto simp: stuck_def channels_step_def)
  with step s show ?thesis
    by (elim disjE outgoing_step.cases discard_step.cases client_op.cases) (auto simp: stuck_def holding_def)
qed

interpretation hang: stepping "channels_step E" "stuck E m" for E m
  by unfold_locales (auto simp: channels_step_def intro: stuck_socket stuck_other)

lemma close_hangs:
  assumes "(channels_step E)\<^sup>*\<^sup>* (ChannelsBuffer as os) s" "\<not> ze_writable E" "\<not> ze_fails E"
    and "m \<noteq> []" "ch_opc s = OSend m" "ze_hwm E \<le> length (ch_pair s)" "ch_sending s \<noteq> None" "\<not> ch_closing s"
    and "ch_spc s \<in> {SPoll, SRecv, SSend, SPull, SClose}" "(channels_step E)\<^sup>*\<^sup>* s t"
  shows "ch_opc t = OSend m \<and> ch_spc t \<noteq> SReturned"
proof -
  have "stuck E m s" using assms channels_reach_inv [OF assms(1)] by (simp add: stuck_def channels_inv_def)
  from hang.run_inv [OF assms(10) this] show ?thesis by (auto simp: stuck_def holding_def)
qed

end
