(* ===== verification/ZmqOptions.thy ===== *)
theory ZmqOptions
  imports Zmq
begin

text \<open>
  The other options of a socket of the ZeroMQ binding (\<^verbatim>\<open>go-zmq/sockopts.go\<close>) and its contexts
  (\<^verbatim>\<open>zmq.go\<close>). The C library keeps a value per option, gives back the value that was set, and
  refuses values that are out of range; a call it refuses is a panic.

  What is proved: every pair of a getter and a setter is an option with its laws (locale
  \<^verbatim>\<open>socket_option\<close>), up to the width the library keeps; a limit of messages that does not fit is
  replaced by another one, possibly none. All callers of \<^verbatim>\<open>DefaultContext\<close> get one context.
\<close>

section \<open>Options\<close>

definition getInt64 :: "longopt \<Rightarrow> zmq_socket \<Rightarrow> int option" where
  "getInt64 opt s = (if zs_open s then Some (zs_longs s opt) else None)"

definition setInt64 :: "longopt \<Rightarrow> int \<Rightarrow> zmq_socket \<Rightarrow> zmq_socket option" where
  "setInt64 opt val s = (if zs_open s then Some (s\<lparr>zs_longs := (zs_longs s)(opt := val)\<rparr>) else None)"

definition getBinary :: "binopt \<Rightarrow> nat \<Rightarrow> zmq_socket \<Rightarrow> bytes option" where
  "getBinary opt limit s = (if zs_open s \<and> length (zs_bins s opt) \<le> limit then Some (zs_bins s opt) else None)"

definition setNull :: "zmq_socket \<Rightarrow> zmq_socket option" where
  "setNull s = (if zs_open s then Some (s\<lparr>zs_accepts := []\<rparr>) else None)"

definition setBool :: "sockopt \<Rightarrow> bool \<Rightarrow> zmq_socket \<Rightarrow> zmq_socket option" where
  "setBool opt val s = setInt opt (if val then 1 else 0) s"

text \<open>A count of messages is an unsigned number of 64 bits, of which the library keeps 32.\<close>

definition GetSendHWM :: "zmq_socket \<Rightarrow> 64 word option" where
  "GetSendHWM s = map_option word_of_int (getInt ZMQ_SNDHWM s)"

definition GetRecvHWM :: "zmq_socket \<Rightarrow> 64 word option" where
  "GetRecvHWM s = map_option word_of_int (getInt ZMQ_RCVHWM s)"

definition SetSendHWM :: "64 word \<Rightarrow> zmq_socket \<Rightarrow> zmq_socket option" where
  "SetSendHWM hwm s = setInt ZMQ_SNDHWM (sint hwm) s"

definition SetRecvHWM :: "64 word \<Rightarrow> zmq_socket \<Rightarrow> zmq_socket option" where
  "SetRecvHWM hwm s = setInt ZMQ_RCVHWM (sint hwm) s"

definition GetAffinity :: "zmq_socket \<Rightarrow> 64 word option" where
  "GetAffinity s = map_option word_of_int (getInt64 ZMQ_AFFINITY s)"

definition SetAffinity :: "64 word \<Rightarrow> zmq_socket \<Rightarrow> zmq_socket option" where
  "SetAffinity affinity s = setInt64 ZMQ_AFFINITY (sint affinity) s"

definition GetMaxMsgSize :: "zmq_socket \<Rightarrow> int option" where
  "GetMaxMsgSize s = getInt64 ZMQ_MAXMSGSIZE s"

definition SetMaxMsgSize :: "int \<Rightarrow> zmq_socket \<Rightarrow> zmq_socket option" where
  "SetMaxMsgSize bytes s = setInt64 ZMQ_MAXMSGSIZE bytes s"

text \<open>Durations.\<close>

definition GetRecvTimeout :: "zmq_socket \<Rightarrow> duration option" where
  "GetRecvTimeout s = map_option (\<lambda>v. toDuration v millisecond) (getInt ZMQ_RCVTIMEO s)"

definition GetRecoveryIVL :: "zmq_socket \<Rightarrow> duration option" where
  "GetRecoveryIVL s = map_option (\<lambda>v. toDuration v millisecond) (getInt ZMQ_RECOVERY_IVL s)"

definition SetRecoveryIVL :: "duration \<Rightarrow> zmq_socket \<Rightarrow> zmq_socket option" where
  "SetRecoveryIVL d s = setInt ZMQ_RECOVERY_IVL (fromDuration d millisecond) s"

definition GetReconnectIVL :: "zmq_socket \<Rightarrow> duration option" where
  "GetReconnectIVL s = map_option (\<lambda>v. toDuration v millisecond) (getInt ZMQ_RECONNECT_IVL s)"

definition SetReconnectIVL :: "duration \<Rightarrow> zmq_socket \<Rightarrow> zmq_socket option" where
  "SetReconnectIVL d s = setInt ZMQ_RECONNECT_IVL (fromDuration d millisecond) s"

definition GetReconnectIVLMax :: "zmq_socket \<Rightarrow> duration option" where
  "GetReconnectIVLMax s = map_option (\<lambda>v. toDuration v millisecond) (getInt ZMQ_RECONNECT_IVL_MAX s)"

definition SetReconnectIVLMax :: "duration \<Rightarrow> zmq_socket \<Rightarrow> zmq_socket option" where
  "SetReconnectIVLMax d s = setInt ZMQ_RECONNECT_IVL_MAX (fromDuration d millisecond) s"

text \<open>Numbers.\<close>

definition GetType :: "zmq_socket \<Rightarrow> int option" where
  "GetType s = getInt ZMQ_TYPE s"

definition GetFD :: "zmq_socket \<Rightarrow> 64 word option" where
  "GetFD s = map_option word_of_int (getInt ZMQ_FD s)"

definition GetEvents :: "zmq_socket \<Rightarrow> EventSet option" where
  "GetEvents s = getInt ZMQ_EVENTS s"

definition GetRate :: "zmq_socket \<Rightarrow> int option" where
  "GetRate s = getInt ZMQ_RATE s"

definition SetRate :: "int \<Rightarrow> zmq_socket \<Rightarrow> zmq_socket option" where
  "SetRate n s = setInt ZMQ_RATE n s"

definition GetSendBuffer :: "zmq_socket \<Rightarrow> int option" where
  "GetSendBuffer s = getInt ZMQ_SNDBUF s"

definition SetSendBuffer :: "int \<Rightarrow> zmq_socket \<Rightarrow> zmq_socket option" where
  "SetSendBuffer n s = setInt ZMQ_SNDBUF n s"

definition GetRecvBuffer :: "zmq_socket \<Rightarrow> int option" where
  "GetRecvBuffer s = getInt ZMQ_RCVBUF s"

definition SetRecvBuffer :: "int \<Rightarrow> zmq_socket \<Rightarrow> zmq_socket option" where
  "SetRecvBuffer n s = setInt ZMQ_RCVBUF n s"

definition GetBacklog :: "zmq_socket \<Rightarrow> int option" where
  "GetBacklog s = getInt ZMQ_BACKLOG s"

definition SetBacklog :: "int \<Rightarrow> zmq_socket \<Rightarrow> zmq_socket option" where
  "SetBacklog n s = setInt ZMQ_BACKLOG n s"

definition GetMulticastHops :: "zmq_socket \<Rightarrow> int option" where
  "GetMulticastHops s = getInt ZMQ_MULTICAST_HOPS s"

definition SetMulticastHops :: "int \<Rightarrow> zmq_socket \<Rightarrow> zmq_socket option" where
  "SetMulticastHops n s = setInt ZMQ_MULTICAST_HOPS n s"

definition GetTCPKeepAlive :: "zmq_socket \<Rightarrow> int option" where
  "GetTCPKeepAlive s = getInt ZMQ_TCP_KEEPALIVE s"

definition SetTCPKeepAlive :: "int \<Rightarrow> zmq_socket \<Rightarrow> zmq_socket option" where
  "SetTCPKeepAlive n s = setInt ZMQ_TCP_KEEPALIVE n s"

definition GetTCPKeepAliveIdle :: "zmq_socket \<Rightarrow> int option" where
  "GetTCPKeepAliveIdle s = getInt ZMQ_TCP_KEEPALIVE_IDLE s"

definition SetTCPKeepAliveIdle :: "int \<Rightarrow> zmq_socket \<Rightarrow> zmq_socket option" where
  "SetTCPKeepAliveIdle n s = setInt ZMQ_TCP_KEEPALIVE_IDLE n s"

definition GetTCPKeepAliveCount :: "zmq_socket \<Rightarrow> int option" where
  "GetTCPKeepAliveCount s = getInt ZMQ_TCP_KEEPALIVE_CNT s"

definition SetTCPKeepAliveCount :: "int \<Rightarrow> zmq_socket \<Rightarrow> zmq_socket option" where
  "SetTCPKeepAliveCount n s = setInt ZMQ_TCP_KEEPALIVE_CNT n s"

definition GetTCPKeepAliveInterval :: "zmq_socket \<Rightarrow> int option" where
  "GetTCPKeepAliveInterval s = getInt ZMQ_TCP_KEEPALIVE_INTVL s"

definition SetTCPKeepAliveInterval :: "int \<Rightarrow> zmq_socket \<Rightarrow> zmq_socket option" where
  "SetTCPKeepAliveInterval n s = setInt ZMQ_TCP_KEEPALIVE_INTVL n s"

text \<open>Flags; two of them can only be set.\<close>

definition GetIPv4Only :: "zmq_socket \<Rightarrow> bool option" where
  "GetIPv4Only s = map_option (\<lambda>v. v \<noteq> 0) (getInt ZMQ_IPV4ONLY s)"

definition SetIPv4Only :: "bool \<Rightarrow> zmq_socket \<Rightarrow> zmq_socket option" where
  "SetIPv4Only b s = setBool ZMQ_IPV4ONLY b s"

definition GetDelayAttachOnConnect :: "zmq_socket \<Rightarrow> bool option" where
  "GetDelayAttachOnConnect s = map_option (\<lambda>v. v \<noteq> 0) (getInt ZMQ_DELAY_ATTACH_ON_CONNECT s)"

definition SetDelayAttachOnConnect :: "bool \<Rightarrow> zmq_socket \<Rightarrow> zmq_socket option" where
  "SetDelayAttachOnConnect b s = setBool ZMQ_DELAY_ATTACH_ON_CONNECT b s"

definition SetRouterMandatory :: "bool \<Rightarrow> zmq_socket \<Rightarrow> zmq_socket option" where
  "SetRouterMandatory b s = setBool ZMQ_ROUTER_MANDATORY b s"

definition SetXPubVerbose :: "bool \<Rightarrow> zmq_socket \<Rightarrow> zmq_socket option" where
  "SetXPubVerbose b s = setBool ZMQ_XPUB_VERBOSE b s"

text \<open>Bytes.\<close>

definition GetIdentity :: "zmq_socket \<Rightarrow> bytes option" where
  "GetIdentity s = getBinary ZMQ_IDENTITY 256 s"

definition SetIdentitiy :: "bytes \<Rightarrow> zmq_socket \<Rightarrow> zmq_socket option" where
  "SetIdentitiy ident s = setBinary ZMQ_IDENTITY ident s"

definition GetLastEndpoint :: "zmq_socket \<Rightarrow> bytes option" where
  "GetLastEndpoint s = getBinary ZMQ_LAST_ENDPOINT 512 s"

definition SetTCPAcceptFilter :: "bytes \<Rightarrow> zmq_socket \<Rightarrow> zmq_socket option" where
  "SetTCPAcceptFilter f s = (if f = [] then setNull s else setBinary ZMQ_TCP_ACCEPT_FILTER f s)"

section \<open>Contexts\<close>

text \<open>
  The calls on the results of the library; \<open>'c\<close> are the contexts. \<^verbatim>\<open>Context.Close\<close> is called
  again as long as it is interrupted.
\<close>

definition NewContextThreads :: "errno + 'c \<Rightarrow> zmq_error + 'c" where
  "NewContextThreads made = (case made of Inl e \<Rightarrow> Inl (zmqerr e) | Inr c \<Rightarrow> Inr c)"

definition DefaultContext :: "errno + 'c \<Rightarrow> 'c option \<Rightarrow> 'c call_result \<times> 'c option" where
  "DefaultContext made globalCtx =
     (case globalCtx of
        Some c \<Rightarrow> (Returned c, globalCtx)
      | None \<Rightarrow> (case NewContextThreads made of Inl _ \<Rightarrow> (Panic, None) | Inr c \<Rightarrow> (Returned c, Some c)))"

fun Context_Close :: "errno option list \<Rightarrow> unit call_result" where
  "Context_Close [] = Waits"
| "Context_Close (None # _) = Returned ()"
| "Context_Close (Some e # rs) = (if e = EINTR then Context_Close rs else Panic)"

fun default_contexts :: "(errno + 'c) list \<Rightarrow> 'c option \<Rightarrow> 'c call_result list" where
  "default_contexts [] _ = []"
| "default_contexts (made # ms) g = (case DefaultContext made g of (r, g') \<Rightarrow> r # default_contexts ms g')"

section \<open>Laws of an option\<close>

fun set_all :: "('a \<Rightarrow> zmq_socket \<Rightarrow> zmq_socket option) \<Rightarrow> 'a list \<Rightarrow> zmq_socket \<Rightarrow> zmq_socket option" where
  "set_all put [] s = Some s"
| "set_all put (v # vs) s = Option.bind (put v s) (set_all put vs)"

text \<open>
  A getter and a setter: the getter gives what is kept of the last value, and setting a value
  leaves no trace of the one before. What is kept of a value is kept unchanged.
\<close>

locale socket_option =
  fixes get :: "zmq_socket \<Rightarrow> 'a option" and put :: "'a \<Rightarrow> zmq_socket \<Rightarrow> zmq_socket option" and kept :: "'a \<Rightarrow> 'a"
  assumes get_set: "put v s = Some t \<Longrightarrow> get t = Some (kept v)"
    and set_set: "put v s = Some t \<Longrightarrow> put w t = put w s"
    and kept_kept: "kept (kept v) = kept v"
begin

lemma set_all_last: "set_all put vs s = Some t \<Longrightarrow> put v t = put v s"
proof (induction vs arbitrary: s)
  case (Cons w vs)
  then obtain u where "put w s = Some u" "set_all put vs u = Some t" by (auto simp: bind_eq_Some_conv)
  with Cons.IH [of u] set_set [of w s u v] show ?case by simp
qed simp

lemma get_last: "set_all put (vs @ [v]) s = Some t \<Longrightarrow> get t = Some (kept v)"
proof (induction vs arbitrary: s)
  case Nil
  then show ?case using get_set by (auto simp: bind_eq_Some_conv)
next
  case (Cons w vs)
  then show ?case by (auto simp: bind_eq_Some_conv)
qed

lemma reset: "put v s = Some t \<Longrightarrow> get t = Some w \<Longrightarrow> put w t = Some u \<Longrightarrow> get u = get t"
  using get_set kept_kept by fastforce

end

lemma cint_cint [simp]: "cint (cint n) = cint n"
  by (rule cint_id) (use cint_range [of n] in auto)

lemma setInt_getInt: "setInt opt v s = Some t \<Longrightarrow> getInt opt t = Some (cint v)"
  by (auto simp: setInt_def getInt_def split: if_splits)

lemma setInt_setInt: "setInt opt v s = Some t \<Longrightarrow> setInt opt w t = setInt opt w s"
  by (auto simp: setInt_def split: if_splits)

lemma setInt_other: "setInt opt v s = Some t \<Longrightarrow> opt' \<noteq> opt \<Longrightarrow> getInt opt' t = getInt opt' s"
  by (auto simp: setInt_def getInt_def split: if_splits)

lemmas setInt_laws = setInt_getInt setInt_setInt

lemma kept_duration:
  "toDuration (cint (fromDuration (toDuration (cint n) millisecond) millisecond)) millisecond = toDuration (cint n) millisecond"
proof (cases "cint n < 0")
  case True
  then show ?thesis using cint_id [of "- 1"] by (simp add: toDuration_def fromDuration_def)
next
  case False
  then show ?thesis using cint_range [of n] millis_wrap [of "cint n"] fromDuration_millis [of "cint n"] by (simp add: toDuration_def)
qed

lemma sint_word_of_cint: "sint (word_of_int (cint n) :: 64 word) = cint n"
  using cint_range [of n] by (simp add: sint_sbintrunc' signed_take_bit_int_eq_self_iff)

interpretation opt_Rate: socket_option GetRate SetRate cint
  by unfold_locales (auto simp: GetRate_def SetRate_def setInt_laws)

interpretation opt_SendBuffer: socket_option GetSendBuffer SetSendBuffer cint
  by unfold_locales (auto simp: GetSendBuffer_def SetSendBuffer_def setInt_laws)

interpretation opt_RecvBuffer: socket_option GetRecvBuffer SetRecvBuffer cint
  by unfold_locales (auto simp: GetRecvBuffer_def SetRecvBuffer_def setInt_laws)

interpretation opt_Backlog: socket_option GetBacklog SetBacklog cint
  by unfold_locales (auto simp: GetBacklog_def SetBacklog_def setInt_laws)

interpretation opt_MulticastHops: socket_option GetMulticastHops SetMulticastHops cint
  by unfold_locales (auto simp: GetMulticastHops_def SetMulticastHops_def setInt_laws)

interpretation opt_TCPKeepAlive: socket_option GetTCPKeepAlive SetTCPKeepAlive cint
  by unfold_locales (auto simp: GetTCPKeepAlive_def SetTCPKeepAlive_def setInt_laws)

interpretation opt_TCPKeepAliveIdle: socket_option GetTCPKeepAliveIdle SetTCPKeepAliveIdle cint
  by unfold_locales (auto simp: GetTCPKeepAliveIdle_def SetTCPKeepAliveIdle_def setInt_laws)

interpretation opt_TCPKeepAliveCount: socket_option GetTCPKeepAliveCount SetTCPKeepAliveCount cint
  by unfold_locales (auto simp: GetTCPKeepAliveCount_def SetTCPKeepAliveCount_def setInt_laws)

interpretation opt_TCPKeepAliveInterval: socket_option GetTCPKeepAliveInterval SetTCPKeepAliveInterval cint
  by unfold_locales (auto simp: GetTCPKeepAliveInterval_def SetTCPKeepAliveInterval_def setInt_laws)

interpretation opt_RecvTimeout: socket_option GetRecvTimeout SetRecvTimeout "\<lambda>d. toDuration (cint (fromDuration d millisecond)) millisecond"
  by unfold_locales (auto simp: GetRecvTimeout_def SetRecvTimeout_def setInt_laws kept_duration)

interpretation opt_SendTimeout: socket_option GetSendTimeout SetSendTimeout "\<lambda>d. toDuration (cint (fromDuration d millisecond)) millisecond"
  by unfold_locales (auto simp: GetSendTimeout_def SetSendTimeout_def setInt_laws kept_duration)

interpretation opt_Linger: socket_option GetLinger SetLinger "\<lambda>d. toDuration (cint (fromDuration d millisecond)) millisecond"
  by unfold_locales (auto simp: GetLinger_def SetLinger_def setInt_laws kept_duration)

interpretation opt_RecoveryIVL: socket_option GetRecoveryIVL SetRecoveryIVL "\<lambda>d. toDuration (cint (fromDuration d millisecond)) millisecond"
  by unfold_locales (auto simp: GetRecoveryIVL_def SetRecoveryIVL_def setInt_laws kept_duration)

interpretation opt_ReconnectIVL: socket_option GetReconnectIVL SetReconnectIVL "\<lambda>d. toDuration (cint (fromDuration d millisecond)) millisecond"
  by unfold_locales (auto simp: GetReconnectIVL_def SetReconnectIVL_def setInt_laws kept_duration)

interpretation opt_ReconnectIVLMax: socket_option GetReconnectIVLMax SetReconnectIVLMax "\<lambda>d. toDuration (cint (fromDuration d millisecond)) millisecond"
  by unfold_locales (auto simp: GetReconnectIVLMax_def SetReconnectIVLMax_def setInt_laws kept_duration)

interpretation opt_SendHWM: socket_option GetSendHWM SetSendHWM "\<lambda>h. word_of_int (cint (sint h))"
  by unfold_locales (auto simp: GetSendHWM_def SetSendHWM_def setInt_laws sint_word_of_cint)

interpretation opt_RecvHWM: socket_option GetRecvHWM SetRecvHWM "\<lambda>h. word_of_int (cint (sint h))"
  by unfold_locales (auto simp: GetRecvHWM_def SetRecvHWM_def setInt_laws sint_word_of_cint)

interpretation opt_Affinity: socket_option GetAffinity SetAffinity "\<lambda>a. a"
  by unfold_locales (auto simp: GetAffinity_def SetAffinity_def getInt64_def setInt64_def split: if_splits)

interpretation opt_MaxMsgSize: socket_option GetMaxMsgSize SetMaxMsgSize "\<lambda>a. a"
  by unfold_locales (auto simp: GetMaxMsgSize_def SetMaxMsgSize_def getInt64_def setInt64_def split: if_splits)

interpretation opt_IPv4Only: socket_option GetIPv4Only SetIPv4Only "\<lambda>b. b"
  by unfold_locales (auto simp: GetIPv4Only_def SetIPv4Only_def setBool_def cint_id dest: setInt_laws)

interpretation opt_DelayAttachOnConnect: socket_option GetDelayAttachOnConnect SetDelayAttachOnConnect "\<lambda>b. b"
  by unfold_locales (auto simp: GetDelayAttachOnConnect_def SetDelayAttachOnConnect_def setBool_def cint_id dest: setInt_laws)

interpretation opt_Identity: socket_option GetIdentity SetIdentitiy "\<lambda>b. b"
  by unfold_locales (auto simp: GetIdentity_def SetIdentitiy_def getBinary_def setBinary_def split: if_splits)

section \<open>Limits that are lost\<close>

text \<open>
  The limit of messages is read back if it is less than \<open>2\<^sup>3\<^sup>1\<close> (or stands for a negative number the
  library keeps); a multiple of \<open>2\<^sup>3\<^sup>2\<close> is kept as zero, which means no limit.
\<close>

theorem hwm_kept:
  assumes "SetSendHWM hwm s = Some t"
  shows "GetSendHWM t = Some hwm \<longleftrightarrow> - (2 ^ 31) \<le> sint hwm \<and> sint hwm < 2 ^ 31"
proof -
  have "GetSendHWM t = Some (word_of_int (cint (sint hwm)))" using assms by (rule opt_SendHWM.get_set)
  then have "GetSendHWM t = Some hwm \<longleftrightarrow> sint (word_of_int (cint (sint hwm)) :: 64 word) = sint hwm"
    by (metis option.inject signed_word_eqI)
  then show ?thesis using cint_range [of "sint hwm"] cint_id [of "sint hwm"] by (auto simp: sint_word_of_cint)
qed

lemma hwm_none: "SetSendHWM (2 ^ 32) s = Some t \<Longrightarrow> GetSendHWM t = Some 0"
  using opt_SendHWM.get_set [of "2 ^ 32" s t] by (simp add: cint_def)

section \<open>One context\<close>

lemma default_contexts_some: "default_contexts ms (Some c) = replicate (length ms) (Returned c)"
  by (induction ms) (simp_all add: DefaultContext_def)

text \<open>All calls that return give one context, which the first of them made; the calls before it panic.\<close>

theorem default_context_shared:
  "\<exists>n c. default_contexts ms None = replicate n Panic @ replicate (length ms - n) (Returned c) \<and> n \<le> length ms \<and>
     (n < length ms \<longrightarrow> ms ! n = Inr c)"
proof (induction ms)
  case (Cons m ms)
  then obtain n c where IH: "default_contexts ms None = replicate n Panic @ replicate (length ms - n) (Returned c)" "n \<le> length ms"
      "n < length ms \<longrightarrow> ms ! n = Inr c" by blast
  show ?case
  proof (cases m)
    case (Inl e)
    with IH show ?thesis by (intro exI [of _ "Suc n"] exI [of _ c]) (simp add: DefaultContext_def NewContextThreads_def)
  next
    case (Inr d)
    then show ?thesis by (intro exI [of _ 0] exI [of _ d]) (simp add: DefaultContext_def NewContextThreads_def default_contexts_some)
  qed
qed simp

lemma Context_Close_interrupted: "Context_Close (replicate n (Some EINTR) @ r # rs) =
    (case r of None \<Rightarrow> Returned () | Some e \<Rightarrow> if e = EINTR then Context_Close rs else Panic)"
  by (induction n) (auto split: option.split)

end
