(* ===== verification/Spec2Isabelle.thy ===== *)
theory Spec2Isabelle
  imports StatseMain NetscalerMain Service Plugin Shutdown Channels ZmqOptions
begin

text \<open>
  OpenTSP is a pipeline for time series. Plugins and the programs themselves produce data
  points; \<^verbatim>\<open>tsp-forwarder\<close> (on each host) and \<^verbatim>\<open>tsp-poller\<close> run the plugins, filter
  and rewrite the points and relay them; \<^verbatim>\<open>tsp-aggregator\<close> receives them from many hosts and
  relays them on; \<^verbatim>\<open>tsp-controller\<close> serves configuration to all of them;
  \<^verbatim>\<open>collect-statse\<close> turns events of applications into statistics, and
  \<^verbatim>\<open>collect-netscaler\<close> polls load balancers. This development models these programs as Isabelle
  functions and step relations over the state the Go code keeps, and proves what makes them
  correct. Paths below are relative to the root of the sources.

  \<^bold>\<open>Conventions.\<close> Bytes and strings are lists of 8-bit characters. An \<^verbatim>\<open>int64\<close> is an
  integer with its wrap-around written out (\<^const>\<open>wrap64\<close>), other fixed-width values are words,
  a float is its bit pattern. A call that may return an error has a sum type (\<^const>\<open>Inl\<close> the
  error), a call that may panic an option or a flag, so every early return and every panic of the
  code is a value of the model. What the code takes from outside is a parameter: the Unicode
  tables and the conversion of floats (\<^typ>\<open>golib\<close>), regular expressions (\<^typ>\<open>regexlib\<close>),
  the clock, the network, random numbers, the order in which Go visits a map. Goroutines that
  share state are step relations, one step per critical section or channel operation.

  \<^bold>\<open>The data point and the wire format\<close> (\<^verbatim>\<open>internal/tsdb\<close>).
  \<^item> \<^verbatim>\<open>Prelude\<close>: Go's slices, integers, errors and times; the locale \<^verbatim>\<open>stepping\<close> of the
    invariants of a step relation, and \<^verbatim>\<open>ending\<close> for relations whose runs come to an end.
  \<^item> \<^verbatim>\<open>Text\<close>, \<^verbatim>\<open>Numbers\<close>, \<^verbatim>\<open>Point\<close>, \<^verbatim>\<open>Codec\<close>: validation and cleaning of text
    (\<^verbatim>\<open>validText\<close>, \<^verbatim>\<open>Clean\<close>), printing and parsing of numbers, the struct
    \<^verbatim>\<open>Point\<close> with its setters and its tags, the encoder and \<^verbatim>\<open>unmarshalText\<close>. Shown: what
    is encoded is decoded to the same point; whatever is decoded is well-formed; \<^verbatim>\<open>Tag\<close> and
    \<^verbatim>\<open>SetTags\<close> on the byte slice refine lookup and update of an association list.
  \<^item> \<^verbatim>\<open>Decoder\<close>, \<^verbatim>\<open>Repeat\<close>: the stream decoder with its order check and the repeat
    tester of the client. Shown: a stream is read back; accepted points of a series are in
    order; dropping repeats loses no change of a value and keeps a heartbeat; both tables share
    the cleanup contract (locale \<^verbatim>\<open>series_cleanup\<close>).
  \<^item> \<^verbatim>\<open>Client\<close>, \<^verbatim>\<open>Relay\<close>: the client with its pool of connections, acknowledgements and
    redialing (\<^verbatim>\<open>client.go\<close>, \<^verbatim>\<open>client_conn.go\<close>), and \<^verbatim>\<open>internal/relay\<close>. Shown: the
    connections of a pool are those wanted, the queue is bounded, and every queued point is
    sent, acknowledged or reported as dropped, with the exceptions stated.
  \<^item> \<^verbatim>\<open>Rules\<close>: \<^verbatim>\<open>internal/tsdb/filter\<close>, for points and for events (locales
    \<^verbatim>\<open>filterable\<close> and \<^verbatim>\<open>tagged\<close>). Shown: filtering does not panic and keeps points
    well-formed. \<^verbatim>\<open>Ticker\<close>: aligned ticks and joined channels.
  \<^item> \<^verbatim>\<open>Series\<close>, \<^verbatim>\<open>Expvar\<close>: series written as text, and the export of a program's own
    variables (\<^verbatim>\<open>internal/tsdb/tsdbutil\<close>, \<^verbatim>\<open>internal/stats\<close>). Shown: the export is exact
    for plain names, and panics on a relay whose name is no tag value.

  \<^bold>\<open>The pipeline programs.\<close>
  \<^item> \<^verbatim>\<open>Programs\<close>, \<^verbatim>\<open>Load\<close>: validation of configuration (\<^verbatim>\<open>internal/validate\<close>, the
    \<^verbatim>\<open>config.go\<close> of the programs) and loading it from a file and the control server
    (\<^verbatim>\<open>internal/config/load.go\<close>). Shown: a validated configuration starts the program, and
    the server sets exactly the fields with the tag \<^verbatim>\<open>dynamic\<close>.
  \<^item> \<^verbatim>\<open>Collect\<close>, \<^verbatim>\<open>Plugin\<close>, \<^verbatim>\<open>Shutdown\<close>: the directory of plugins and the pool of their
    processes (\<^verbatim>\<open>internal/config/directory.go\<close>, \<^verbatim>\<open>internal/collect\<close>), the goroutines that
    read, drain and kill one process, and the way the pool is stopped before a restart. Shown: the
    pool follows the directory, and an entry never has two processes; the goroutines of a plugin
    deliver what a sequential reader would, come to their end, and report the end of the process
    once; a pool that is stopped while the directory rests comes to its end in a fixed number of
    steps, and an event of the directory at the wrong time blocks it for ever.
  \<^item> \<^verbatim>\<open>Server\<close>: \<^verbatim>\<open>cmd/tsp-aggregator/server.go\<close>. Shown: what a client of this
    repository sends is received, and a connection always comes to its end.
  \<^item> \<^verbatim>\<open>Mains\<close>: \<^verbatim>\<open>main\<close> of \<^verbatim>\<open>tsp-forwarder\<close>, \<^verbatim>\<open>tsp-poller\<close> and \<^verbatim>\<open>tsp-aggregator\<close>, the
    composition of all the above as a step relation. Shown: in every run, what the aggregator at the
    other end of a connection enqueues is a part of the filtered and joined input in its order, and
    nothing is missing as long as nothing was dropped.

  \<^bold>\<open>The controller.\<close>
  \<^item> \<^verbatim>\<open>Controller\<close>, \<^verbatim>\<open>Modules\<close>, \<^verbatim>\<open>StatseControl\<close>: \<^verbatim>\<open>cmd/tsp-controller\<close>: the
    tree of groups, clusters and hosts, the network, and the views of \<^verbatim>\<open>tsp-forwarder\<close>,
    \<^verbatim>\<open>collect-jmx\<close> and \<^verbatim>\<open>collect-statse\<close> (locale \<^verbatim>\<open>host_update\<close>). Shown: what is
    served is accepted by the program it is served to, and cluster members agree on one
    aggregator.
  \<^item> \<^verbatim>\<open>Http\<close>, \<^verbatim>\<open>Service\<close>: the requests of the programs and the handlers that answer them, and
    the start of the controller, with URLs and request lines as text. Shown: a request is routed to
    its handler and answered with the view of its host, if the host name has no character with a
    meaning in a URL, \<^verbatim>\<open>Next\<close> returns with a new payload only, no handler panics.

  \<^bold>\<open>The collectors.\<close>
  \<^item> \<^verbatim>\<open>Statse\<close>, \<^verbatim>\<open>Aggregate\<close>, \<^verbatim>\<open>Transport\<close>, \<^verbatim>\<open>StatseMain\<close>: \<^verbatim>\<open>cmd/collect-statse\<close>: the
    two protocols, the forwarder, the store and the snapshot (locale \<^verbatim>\<open>tally\<close>), the connection
    between forwarders and the aggregator, and the program as a whole. Shown: what is
    written from a connection is what was sent on it, field by field, among any number of clients;
    counters count what arrives, snapshots report and sum both counters, percentiles are what they are
    named after, buffers are bounded.
  \<^item> \<^verbatim>\<open>Zmq\<close>, \<^verbatim>\<open>ZmqOptions\<close>, \<^verbatim>\<open>Channels\<close>: the ZeroMQ binding that events are received through
    (\<^verbatim>\<open>internal/github.com/vaughan0/go-zmq\<close>): messages of parts, polling, the socket
    options (locale \<^verbatim>\<open>socket_option\<close>), pairs of sockets, and the two goroutines of
    \<^verbatim>\<open>Channels\<close> with the listener that reads from them. Shown: messages pass whole and in order, no
    panic is reached and no error report waits; also that the listener falls silent after an error of
    the socket.
  \<^item> \<^verbatim>\<open>Json\<close>, \<^verbatim>\<open>NitroTypes\<close>, \<^verbatim>\<open>NitroClient\<close>, \<^verbatim>\<open>Netscaler\<close>, \<^verbatim>\<open>Vservers\<close>,
    \<^verbatim>\<open>Bindings\<close>, \<^verbatim>\<open>NetscalerMain\<close>: \<^verbatim>\<open>contrib/collect-netscaler\<close>: a model of
    \<^verbatim>\<open>encoding/json\<close> on described types, the response types, the client and its session cookie,
    the collectors, the poller of bindings, and the program with its requests. Shown: which gauges
    are sent, that totals are sums, which servers are active, how many requests a call makes, that
    the poller does not block and that the login carries the credentials; also that the shared
    cookie can crash the program and that devices with an IPv6 address are lost.
  \<^item> \<^verbatim>\<open>Pipeline\<close> and this theory: the output of \<^verbatim>\<open>collect-statse\<close> arrives unchanged in the
    plugin pool of the forwarder.

  \<^bold>\<open>Loops.\<close> Recursion follows the code's loops and terminates by a measure on the remaining
  input; there is no fuel. Loops that wait for the network or a timer are one function per turn
  or a step relation, and what holds of every run is proved by induction over the steps. The one
  bounded retry, of a call of the NITRO API, runs \<^const>\<open>maxTrips\<close> times as in the code.

  \<^bold>\<open>Hypotheses.\<close> Theorems that depend on a library say so: the text of a float can be read
  back (\<^const>\<open>val_encodable\<close>), a regular expression matches as documented, a loader sets one field
  at a time. Each has a witness with a concrete instance.

  \<^bold>\<open>Not modelled.\<close> Sockets and TLS, and the parsers of XML and JSON text, whose results are
  parameters; log files, profiling and re-execution (\<^verbatim>\<open>internal/logfile\<close>, \<^verbatim>\<open>pprof\<close>,
  \<^verbatim>\<open>restart\<close>, \<^verbatim>\<open>version\<close>), which are calls of the operating system; the C library
  behind the ZeroMQ binding, and its devices; \<^verbatim>\<open>String\<close> methods and debug output. Of
  \<^verbatim>\<open>encoding/gob\<close> only which fields are sent is modelled, not their bytes. Pools that only save allocations (\<^verbatim>\<open>getPoint\<close>, scratch
  buffers) appear as an arbitrary recycled value where their content could matter.
\<close>

section \<open>From collect-statse to the plugin pool\<close>

lemma joined_set: "joined_run as bs cs \<Longrightarrow> mset cs = mset as + mset bs"
  by (induction rule: joined_run.induct) simp_all

text \<open>
  C18: The scheduler of collect-statse, that sends the points of a snapshot, and the export of its
  own variables share the goroutine that writes to standard output. Whatever their interleaving,
  they never block each other for good; and once they have nothing left to send, the plugin pool of
  the forwarder, with a new decoder, reads exactly the points of both from this output, each as it is
  and in an order that keeps the order of each of the two: if no two points are of the same series,
  the lines are not too long, and the text of the float values can be read back.
\<close>

theorem statse_collected:
  assumes "snapshot A L pooled visit t (r, m) = Some (r', m', ps)" "0 \<le> t" "in64 t"
    "\<forall>p \<in> set ps. val_encodable L (Value p) \<and> length (append_point L [] p) \<le> maxLineLength"
    "\<forall>p \<in> set ss. encodable L p" "distinct (map (appendSeries []) (ps @ ss))" "length ps + length ss \<le> 100000"
    and "(output_step L)\<^sup>*\<^sup>* (new_output ps ss) s"
  shows "(\<exists>s'. (output_step L)\<^sup>*\<^sup>* s s' \<and> output_final s') \<and>
    (output_final s \<and> length envs = length ps + length ss \<longrightarrow>
      (\<exists>cs qs d. joined_run ps ss cs \<and> list_all2 same_point qs cs \<and>
         process_decode L (map (\<lambda>(now, pooled). Ready now pooled) envs) (NewDecoder (sp_stdout s)) = (qs, Waiting, d)))"
proof (intro conjI impI)
  show "\<exists>s'. (output_step L)\<^sup>*\<^sup>* s s' \<and> output_final s'" using output_goes_on [OF assms(8)] .
  assume a: "output_final s \<and> length envs = length ps + length ss"
  then obtain cs where cs: "joined_run ps ss cs" "sp_stdout s = encode_all L cs" using output_written [OF assms(8)] by blast
  note m = joined_set [OF cs(1)]
  have len: "length cs = length ps + length ss" using arg_cong [OF m, of size] by simp
  have set: "set cs = set ps \<union> set ss" using arg_cong [OF m, of set_mset] by simp
  have "\<forall>p \<in> set cs. encodable L p"
    using snapshot_stamped [OF assms(1)] assms(2-5) stamped_encodable set by blast
  moreover have "mset (map (appendSeries []) cs) = mset (map (appendSeries []) (ps @ ss))" using m by simp
  then have "distinct (map (appendSeries []) cs)" using assms(6) mset_eq_imp_distinct_iff by blast
  ultimately have "\<exists>qs d. process_decode L (map (\<lambda>(now, pooled). Ready now pooled) envs) (NewDecoder (sp_stdout s)) = (qs, Waiting, d) \<and> list_all2 same_point qs cs"
    using a len assms(7) cs(2) by (intro process_decode_fresh) (simp_all add: NewDecoder_def decoderMaxSeries_def)
  with cs(1) show "\<exists>cs qs d. joined_run ps ss cs \<and> list_all2 same_point qs cs \<and> process_decode L (map (\<lambda>(now, pooled). Ready now pooled) envs) (NewDecoder (sp_stdout s)) = (qs, Waiting, d)"
    by blast
qed

text \<open>A store with one entry that has no statistics, and the points of its snapshot.\<close>

definition one_entry :: store where
  "one_entry = [(\<lparr>sk_Metric = ''m'', sk_Tags = [], sk_Host = ''a''\<rparr>, newEntry)]"

definition no_arith :: f32_arith where
  "no_arith = \<lparr>f32_add = \<lambda>a b. a, f32_div = \<lambda>a b. a, f32_of_nat = of_nat\<rparr>"

lemma emitf_example:
  assumes "plain m" "plain h" "plain b" "length m + length h + length b \<le> 100"
  shows "\<exists>p. emitf latin1_lib newPoint 5000000000 (GUint64 0) (m @ '' error='' @ b @ ''  host='' @ h) = Some [p] \<and>
    pt_metric p = m \<and> pt_tags p = '' error='' @ b @ '' host='' @ h \<and> Value p = VInt 0 \<and>
    length (append_point latin1_lib [] p) \<le> maxLineLength"
proof -
  have w: "plain ''error''" "(5000000000 :: int) \<noteq> zeroTime"
    by (simp_all add: plain_def text_byte_def Let_def ord_def zeroTime_def)
  have s: "stat_name m [(''error'', b)] @ '' '' @ tag_words [] @ '' host='' @ h = m @ '' error='' @ b @ ''  host='' @ h"
    by (simp add: stat_name_def tag_words_def)
  obtain p where p: "emitf latin1_lib newPoint 5000000000 (GUint64 0) (m @ '' error='' @ b @ ''  host='' @ h) = Some [p]"
      "pt_metric p = m" "pt_tags p = render [(''error'', b), (''host'', h)]" "Value p = VInt 0"
      "pt_time p = UnixNano (Truncate 5000000000 maxTimePrecision)"
    using emitf_plain [of m h "[(''error'', b)]" "[]" 5000000000 latin1_lib "GUint64 0" "VInt 0" newPoint] assms(1-3) w
    unfolding s by (auto simp: in64_iff)
  have t: "pt_time p = 5000000000"
    using p(5) Truncate_second [of 5000000000] by (simp add: maxTimePrecision_def UnixNano_def in64_iff)
  have v: "\<not> pt_isFloat p" "pt_valueInt p = 0" using p(4) by (auto simp: Value_def split: if_splits)
  have "length (append_point latin1_lib [] p) \<le> maxLineLength"
    using assms(4) p(2,3) v t dec_length [of 5 1] dec_length [of 0 1]
    by (simp add: append_point_eq append_value_def tag_text_def tdiv_nonneg appendInt_nonneg maxLineLength_def)
  with p show ?thesis by (simp add: tag_text_def)
qed

lemma one_entry_snapshot:
  "\<exists>r m ps. snapshot no_arith latin1_lib newPoint (\<lambda>xs. xs) 5000000000 (\<lambda>n. n, one_entry) = Some (r, m, ps) \<and>
     map (appendSeries []) ps =
       [''m.byhost.count error=false host=a'', ''m.byhost.count error=true host=a'',
        ''m.count error=false host=NA'', ''m.count error=true host=NA''] \<and>
     (\<forall>p \<in> set ps. Value p = VInt 0 \<and> length (append_point latin1_lib [] p) \<le> maxLineLength)"
proof -
  let ?emit = "\<lambda>m b h. emitf latin1_lib newPoint 5000000000 (GUint64 0) (m @ '' error='' @ b @ ''  host='' @ h)"
  have ex: "\<exists>p. ?emit m b h = Some [p] \<and> appendSeries [] p = m @ '' error='' @ b @ '' host='' @ h \<and> Value p = VInt 0 \<and>
      length (append_point latin1_lib [] p) \<le> maxLineLength"
    if "m \<in> {''m.byhost.count'', ''m.count''}" "b \<in> {''false'', ''true''}" "h \<in> {''a'', ''NA''}" for m b h
    using emitf_example [of m h b] that by (auto simp: plain_def text_byte_def Let_def ord_def appendSeries_def)
  obtain p1 p2 p3 p4 where p:
      "?emit ''m.byhost.count'' ''false'' ''a'' = Some [p1]" "?emit ''m.byhost.count'' ''true'' ''a'' = Some [p2]"
      "?emit ''m.count'' ''false'' ''NA'' = Some [p3]" "?emit ''m.count'' ''true'' ''NA'' = Some [p4]"
      "map (appendSeries []) [p1, p2, p3, p4] =
         [''m.byhost.count error=false host=a'', ''m.byhost.count error=true host=a'',
          ''m.count error=false host=NA'', ''m.count error=true host=NA'']"
      "\<forall>p \<in> set [p1, p2, p3, p4]. Value p = VInt 0 \<and> length (append_point latin1_lib [] p) \<le> maxLineLength"
    using ex [of "''m.byhost.count''" "''false''" "''a''"] ex [of "''m.byhost.count''" "''true''" "''a''"]
      ex [of "''m.count''" "''false''" "''NA''"] ex [of "''m.count''" "''true''" "''NA''"] by auto
  have c: "fold merge_cluster one_entry (\<lambda>n. n, []) = (\<lambda>n. n, [(\<lparr>sk_Metric = ''m'', sk_Tags = [], sk_Host = []\<rparr>, newEntry)])"
    by (simp add: one_entry_def merge_cluster_def merge_host_def host_values_def lookup_entry_def newEntry_def elems_def stat_keys_def)
  have k: "calc no_arith newEntry = [(''count error=false'', GUint64 0), (''count error=true'', GUint64 0)]"
    by (simp add: calc_def newEntry_def calc_values_def stat_keys_def)
  have "emit_entries no_arith latin1_lib newPoint 5000000000 host_series one_entry = Some [p1, p2]"
    using p(1,2) by (simp add: one_entry_def k host_series_def)
  moreover have "emit_entries no_arith latin1_lib newPoint 5000000000 cluster_series
      [(\<lparr>sk_Metric = ''m'', sk_Tags = [], sk_Host = []\<rparr>, newEntry)] = Some [p3, p4]"
    using p(3,4) by (simp add: k cluster_series_def)
  ultimately have "snapshot no_arith latin1_lib newPoint (\<lambda>xs. xs) 5000000000 (\<lambda>n. n, one_entry) =
      Some (\<lambda>n. n, map (\<lambda>(k, e). (k, reset_host e)) one_entry, [p1, p2, p3, p4])"
    by (simp add: snapshot_def c)
  with p(5,6) show ?thesis by (intro exI conjI)
qed

theorem statse_collected_witness:
  "\<exists>r m ps s cs qs d. snapshot no_arith latin1_lib newPoint (\<lambda>xs. xs) 5000000000 (\<lambda>n. n, one_entry) = Some (r, m, ps) \<and>
     length ps = 4 \<and> (output_step latin1_lib)\<^sup>*\<^sup>* (new_output ps []) s \<and> output_final s \<and> joined_run ps [] cs \<and>
     list_all2 same_point qs cs \<and> process_decode latin1_lib (replicate 4 (Ready 0 newPoint)) (NewDecoder (sp_stdout s)) = (qs, Waiting, d)"
proof -
  obtain r m ps where s: "snapshot no_arith latin1_lib newPoint (\<lambda>xs. xs) 5000000000 (\<lambda>n. n, one_entry) = Some (r, m, ps)"
      "map (appendSeries []) ps =
         [''m.byhost.count error=false host=a'', ''m.byhost.count error=true host=a'',
          ''m.count error=false host=NA'', ''m.count error=true host=NA'']"
      "\<forall>p \<in> set ps. Value p = VInt 0 \<and> length (append_point latin1_lib [] p) \<le> maxLineLength"
    using one_entry_snapshot by (elim exE conjE)
  have l: "length ps = 4" using arg_cong [OF s(2), of length] by simp
  have e: "map (\<lambda>(now, pooled). Ready now pooled) (replicate 4 (0, newPoint)) = replicate 4 (Ready 0 newPoint)" by simp
  have pre: "(0 :: int) \<le> 5000000000" "in64 5000000000"
      "\<forall>p \<in> set ps. val_encodable latin1_lib (Value p) \<and> length (append_point latin1_lib [] p) \<le> maxLineLength"
      "\<forall>p \<in> set []. encodable latin1_lib p" "distinct (map (appendSeries []) (ps @ []))" "length ps + length ([] :: point list) \<le> 100000"
    using s l by (simp_all add: in64_iff minInt64_def)
  note ok = statse_collected [OF s(1) pre]
  obtain s' where s': "(output_step latin1_lib)\<^sup>*\<^sup>* (new_output ps []) s'" "output_final s'"
    using ok [OF rtranclp.rtrancl_refl, of "[]"] by blast
  then obtain cs qs d where "joined_run ps [] cs" "list_all2 same_point qs cs"
      "process_decode latin1_lib (replicate 4 (Ready 0 newPoint)) (NewDecoder (sp_stdout s')) = (qs, Waiting, d)"
    using ok [OF s'(1), of "replicate 4 (0, newPoint)"] l unfolding e by auto
  with s(1) l s' show ?thesis by blast
qed

end
